(* ===== verification/Prelude.thy ===== *)
theory Prelude
  imports Complex_Main "HOL-Library.Word" "HOL-Library.Monad_Syntax"
begin

text \<open>
  Shared vocabulary of the development: the machine integers of the Rust code, its saturating,
  checked and clamping arithmetic, and the facts that carry a statement about words over to
  natural numbers.

  The binary is built with the release profile, where \<open>+\<close>, \<open>-\<close> and \<open>*\<close> on unsigned integers
  wrap; that is the arithmetic of \<open>'a word\<close>. Division by zero, an index out of range and
  \<open>clamp\<close> with crossed bounds panic in every profile; a function that can reach one of them
  returns an option, with \<open>None\<close> for the panic. \<open>usize\<close> is 64 bits wide and is used for lengths
  and offsets of buffers; it is modelled as \<open>nat\<close>, with the width written out where the code
  checks it.
\<close>

section \<open>Machine integers\<close>

type_synonym byte = "8 word"
type_synonym u8 = "8 word"
type_synonym u16 = "16 word"
type_synonym u32 = "32 word"
type_synonym u64 = "64 word"
type_synonym u128 = "128 word"
type_synonym bytes = "byte list"

text \<open>A public key or a hash is 32 raw bytes; \<open>wf_key\<close> is the length the type \<open>[u8; 32]\<close> fixes.\<close>

type_synonym pubkey = "byte list"

definition wf_key :: "pubkey \<Rightarrow> bool" where
  "wf_key k \<longleftrightarrow> length k = 32"

definition zero_key :: pubkey where
  "zero_key = replicate 32 0"

named_theorems widths \<comment> \<open>how the casts and the arithmetic read as natural numbers\<close>

definition as_u128 :: "u64 \<Rightarrow> u128" where
  "as_u128 a = ucast a"

definition as_u64 :: "u128 \<Rightarrow> u64" where
  "as_u64 a = ucast a"

definition sat_add :: "'a::len word \<Rightarrow> 'a word \<Rightarrow> 'a word" where
  "sat_add a b = (if a + b < a then - 1 else a + b)"

definition sat_sub :: "'a::len word \<Rightarrow> 'a word \<Rightarrow> 'a word" where
  "sat_sub a b = (if a < b then 0 else a - b)"

definition checked_sub :: "'a::len word \<Rightarrow> 'a word \<Rightarrow> 'a word option" where
  "checked_sub a b = (if a < b then None else Some (a - b))"

text \<open>\<open>checked_add\<close> on \<open>usize\<close>.\<close>

definition checked_add_usize :: "nat \<Rightarrow> nat \<Rightarrow> nat option" where
  "checked_add_usize a b = (if a + b < 2 ^ 64 then Some (a + b) else None)"

text \<open>Division and remainder panic on a zero divisor, \<open>Ord::clamp\<close> on crossed bounds.\<close>

definition checked_div :: "'a::len word \<Rightarrow> 'a word \<Rightarrow> 'a word option" where
  "checked_div a b = (if b = 0 then None else Some (a div b))"

definition clamp_word :: "'a::len word \<Rightarrow> 'a word \<Rightarrow> 'a word \<Rightarrow> 'a word option" where
  "clamp_word x lo hi =
     (if lo \<le> hi then Some (if x < lo then lo else if hi < x then hi else x) else None)"

subsection \<open>Reading words as natural numbers\<close>

lemma unat_lt_length: "unat (a :: 'a::len word) < 2 ^ LENGTH('a)"
  by (rule unsigned_less)

lemma unat_u64_less [simp]: "unat (a :: u64) < 18446744073709551616"
  using unat_lt_length [of a] by simp

lemma unat_u128_less [simp]: "unat (a :: u128) < 340282366920938463463374607431768211456"
  using unat_lt_length [of a] by simp

lemma unat_as_u128 [widths, simp]: "unat (as_u128 a) = unat a"
  by (simp add: as_u128_def unsigned_ucast_eq take_bit_nat_eq_self_iff order.strict_trans [OF unat_u64_less])

lemma unat_as_u64 [widths]: "unat (as_u64 a) = unat a mod 18446744073709551616"
  by (simp add: as_u64_def unsigned_ucast_eq take_bit_eq_mod)

lemma unat_as_u64_small: "unat a < 18446744073709551616 \<Longrightarrow> unat (as_u64 a) = unat a"
  by (simp add: unat_as_u64)

lemma as_u64_le: "unat (as_u64 a) \<le> unat a"
  by (simp add: unat_as_u64)

lemma unat_u128_mult [widths]:
  "unat (as_u128 a * as_u128 b) = unat a * unat b"
proof -
  have "unat a * unat b < 2 ^ 64 * 2 ^ 64"
    using unat_lt_length [of a] unat_lt_length [of b] by (intro mult_strict_mono) auto
  then show ?thesis
    by (simp add: unat_word_ariths)
qed

lemma unat_u128_add [widths]:
  "unat (as_u128 a + as_u128 b) = unat a + unat b"
proof -
  have "unat a + unat b < 2 ^ 64 + 2 ^ 64"
    using unat_lt_length [of a] unat_lt_length [of b] by (intro add_strict_mono) auto
  then show ?thesis
    by (simp add: unat_word_ariths)
qed

lemma unat_sat_add: "unat (sat_add a b) = min (unat a + unat b) (2 ^ LENGTH('a) - 1)"
  for a b :: "'a::len word"
proof (cases "unat a + unat b < 2 ^ LENGTH('a)")
  case True
  then have eq: "unat (a + b) = unat a + unat b"
    by (simp add: unat_word_ariths)
  then have "\<not> a + b < a"
    by (simp add: word_less_nat_alt)
  with True eq show ?thesis
    by (simp add: sat_add_def)
next
  case False
  have lt: "unat a + unat b < 2 ^ LENGTH('a) + 2 ^ LENGTH('a)"
    using unat_lt_length [of a] unat_lt_length [of b] by (intro add_strict_mono) auto
  have "unat (a + b) = unat a + unat b - 2 ^ LENGTH('a)"
    using False lt by (simp add: unat_word_ariths mod_if)
  also have "\<dots> < unat a"
    using False unat_lt_length [of b] by linarith
  finally have "a + b < a"
    by (simp add: word_less_nat_alt)
  with False show ?thesis
    by (simp add: sat_add_def unsigned_minus_1_eq_mask mask_eq_exp_minus_1)
qed

lemma unat_sat_sub [widths]: "unat (sat_sub a b) = unat a - unat b"
  for a b :: "'a::len word"
  by (auto simp: sat_sub_def word_less_nat_alt unat_sub_if' not_less)

lemma sat_add_ge: "a \<le> sat_add a b"
  by (simp add: word_le_nat_alt unat_sat_add) (metis One_nat_def Suc_pred leD not_less_eq_eq
      unat_lt_length zero_less_numeral zero_less_power)

lemma sat_sub_le: "sat_sub a b \<le> a"
  by (simp add: word_le_nat_alt unat_sat_sub)

lemma checked_div_Some_iff [simp]:
  "checked_div a b = Some c \<longleftrightarrow> b \<noteq> 0 \<and> c = a div b"
  by (auto simp: checked_div_def)

lemma clamp_word_bounds:
  "clamp_word x lo hi = Some y \<Longrightarrow> lo \<le> y \<and> y \<le> hi"
  by (auto simp: clamp_word_def not_less split: if_splits)

lemma clamp_word_None_iff [simp]: "clamp_word x lo hi = None \<longleftrightarrow> hi < lo"
  by (auto simp: clamp_word_def)

lemma clamp_word_mono:
  "x \<le> y \<Longrightarrow> clamp_word x lo hi = Some a \<Longrightarrow> clamp_word y lo hi = Some b \<Longrightarrow> a \<le> b"
  by (auto simp: clamp_word_def not_less split: if_splits)

lemma unat_max: "unat (max a b) = max (unat a) (unat b)"
  for a b :: "'a::len word"
  by (simp add: max_def word_le_nat_alt)

lemma unat_min: "unat (min a b) = min (unat a) (unat b)"
  for a b :: "'a::len word"
  by (simp add: min_def word_le_nat_alt)

declare unat_max [widths] unat_min [widths] unat_div [widths]

section \<open>Floating point\<close>

text \<open>
  The few \<open>f64\<close> values the code compares: a finite value is the rational it denotes, next to the
  infinities and NaN, with the IEEE comparisons (every comparison with NaN is false).
\<close>

datatype f64 = NaN | NegInf | PosInf | Fin rat

fun f64_less :: "f64 \<Rightarrow> f64 \<Rightarrow> bool" where
  "f64_less NaN _ = False"
| "f64_less _ NaN = False"
| "f64_less _ NegInf = False"
| "f64_less NegInf _ = True"
| "f64_less PosInf _ = False"
| "f64_less (Fin _) PosInf = True"
| "f64_less (Fin a) (Fin b) = (a < b)"

fun f64_ge :: "f64 \<Rightarrow> f64 \<Rightarrow> bool" where
  "f64_ge NaN _ = False"
| "f64_ge _ NaN = False"
| "f64_ge a b = (\<not> f64_less a b)"

section \<open>Options\<close>

lemma bind_Some_iff [simp]:
  "Option.bind x f = Some y \<longleftrightarrow> (\<exists>a. x = Some a \<and> f a = Some y)"
  by (cases x) auto

lemma bind_None_iff: "Option.bind x f = None \<longleftrightarrow> x = None \<or> (\<exists>a. x = Some a \<and> f a = None)"
  by (cases x) auto

end
