(* ===== verification/Bytes.thy ===== *)
theory Bytes
  imports Prelude
begin

text \<open>
  Byte buffers as the Rust code uses them: checked indexing and slicing (\<open>get\<close>), little-endian
  integers (\<open>from_le_bytes\<close>, \<open>to_le_bytes\<close>), in-place patching (\<open>copy_from_slice\<close>) and substring
  search (\<open>windows\<close>). The last section states the interface of a forward-only reader over a buffer
  as two locales, which the parsers of the development interpret.
\<close>

unbundle bit_operations_syntax

section \<open>Indexing and slicing\<close>

text \<open>\<open>xs.get(i)\<close>\<close>

definition get_at :: "'a list \<Rightarrow> nat \<Rightarrow> 'a option" where
  "get_at xs i = (if i < length xs then Some (xs ! i) else None)"

text \<open>The bytes \<open>xs[a..b]\<close> of a range known to be in bounds.\<close>

definition slice :: "'a list \<Rightarrow> nat \<Rightarrow> nat \<Rightarrow> 'a list" where
  "slice xs a b = take (b - a) (drop a xs)"

text \<open>\<open>xs.get(a..b)\<close>\<close>

definition get_range :: "'a list \<Rightarrow> nat \<Rightarrow> nat \<Rightarrow> 'a list option" where
  "get_range xs a b = (if a \<le> b \<and> b \<le> length xs then Some (slice xs a b) else None)"

text \<open>
  \<open>xs[p..p + ys.len()].copy_from_slice(ys)\<close>; the range index panics when it leaves the buffer.
\<close>

definition patch_at :: "'a list \<Rightarrow> nat \<Rightarrow> 'a list \<Rightarrow> 'a list option" where
  "patch_at xs p ys =
     (if p + length ys \<le> length xs then Some (take p xs @ ys @ drop (p + length ys) xs) else None)"

lemma get_at_Some_iff [simp]: "get_at xs i = Some x \<longleftrightarrow> i < length xs \<and> x = xs ! i"
  by (auto simp: get_at_def)

lemma get_at_None_iff [simp]: "get_at xs i = None \<longleftrightarrow> length xs \<le> i"
  by (auto simp: get_at_def)

lemma get_range_Some_iff [simp]:
  "get_range xs a b = Some ys \<longleftrightarrow> a \<le> b \<and> b \<le> length xs \<and> ys = slice xs a b"
  by (auto simp: get_range_def)

lemma get_range_None_iff [simp]: "get_range xs a b = None \<longleftrightarrow> b < a \<or> length xs < b"
  by (auto simp: get_range_def)

lemma length_slice [simp]: "b \<le> length xs \<Longrightarrow> length (slice xs a b) = b - a"
  by (simp add: slice_def)

lemma nth_slice [simp]: "i < b - a \<Longrightarrow> b \<le> length xs \<Longrightarrow> slice xs a b ! i = xs ! (a + i)"
  by (simp add: slice_def)

lemma slice_same [simp]: "slice xs a a = []"
  by (simp add: slice_def)

lemma slice_full [simp]: "slice xs 0 (length xs) = xs"
  by (simp add: slice_def)

lemma slice_append:
  "a \<le> b \<Longrightarrow> b \<le> c \<Longrightarrow> slice xs a c = slice xs a b @ slice xs b c"
proof -
  assume "a \<le> b" "b \<le> c"
  then have "c - a = (b - a) + (c - b)" and "drop (b - a) (drop a xs) = drop b xs"
    by simp_all
  then show ?thesis
    by (simp only: slice_def take_add)
qed

lemma slice_split:
  "slice xs a c = slice xs a b @ slice xs b c" if "a \<le> b \<and> b \<le> c"
  using that slice_append by blast

lemma slice_Suc: "a < length xs \<Longrightarrow> slice xs a (Suc a) = [xs ! a]"
  by (simp add: slice_def take_Suc_conv_app_nth drop_eq_Nil hd_drop_conv_nth take_Suc)

lemma slice_mid [simp]: "slice (pre @ w @ suf) (length pre) (length pre + length w) = w"
  by (simp add: slice_def)

lemma slice_app_left: "b \<le> length xs \<Longrightarrow> slice (xs @ ys) a b = slice xs a b"
  by (cases "a \<le> length xs") (simp_all add: slice_def)

lemma split_at_slice:
  "p \<le> q \<Longrightarrow> q \<le> length xs \<Longrightarrow> xs = take p xs @ slice xs p q @ drop q xs"
  by (simp add: slice_def) (metis append_take_drop_id drop_drop le_add_diff_inverse2)

lemma get_range_mid:
  "a = length pre \<Longrightarrow> b = length pre + length w \<Longrightarrow> get_range (pre @ w @ suf) a b = Some w"
  by simp

subsection \<open>Patching\<close>

lemma patch_at_Some_iff:
  "patch_at xs p ys = Some zs \<longleftrightarrow>
     p + length ys \<le> length xs \<and> zs = take p xs @ ys @ drop (p + length ys) xs"
  by (auto simp: patch_at_def)

lemma patch_at_length: "patch_at xs p ys = Some zs \<Longrightarrow> length zs = length xs"
  by (auto simp: patch_at_Some_iff)

lemma patch_at_slice: "patch_at xs p ys = Some zs \<Longrightarrow> slice zs p (p + length ys) = ys"
  by (auto simp: patch_at_Some_iff slice_def)

lemma patch_at_frame:
  assumes "patch_at xs p ys = Some zs" and "b \<le> p \<or> p + length ys \<le> a" and "b \<le> length xs"
  shows "slice zs a b = slice xs a b"
proof (intro nth_equalityI)
  have len: "length zs = length xs"
    using assms(1) by (rule patch_at_length)
  then show "length (slice zs a b) = length (slice xs a b)"
    using assms(3) by simp
  fix i assume "i < length (slice zs a b)"
  then have i: "i < b - a"
    using assms(3) len by simp
  have zs: "zs = take p xs @ ys @ drop (p + length ys) xs" and le: "p + length ys \<le> length xs"
    using assms(1) by (auto simp: patch_at_Some_iff)
  have "zs ! (a + i) = xs ! (a + i)"
    using assms(2)
  proof
    assume "b \<le> p" with i have "a + i < p"
      by simp
    with le show ?thesis
      unfolding zs by (simp add: nth_append)
  next
    assume "p + length ys \<le> a"
    with i have "\<not> a + i < p" "\<not> a + i - p < length ys" "a + i < length xs"
      using assms(3) by auto
    with le show ?thesis
      unfolding zs by (simp add: nth_append)
  qed
  with i assms(3) len show "slice zs a b ! i = slice xs a b ! i"
    by simp
qed

section \<open>Little-endian integers\<close>

fun le_nat :: "bytes \<Rightarrow> nat" where
  "le_nat [] = 0"
| "le_nat (b # bs) = unat b + 256 * le_nat bs"

definition byte_of :: "nat \<Rightarrow> byte" where
  "byte_of n = of_nat n"

primrec nat_le :: "nat \<Rightarrow> nat \<Rightarrow> bytes" where
  "nat_le 0 n = []"
| "nat_le (Suc k) n = byte_of (n mod 256) # nat_le k (n div 256)"

definition u64_from_le :: "bytes \<Rightarrow> u64" where
  "u64_from_le bs = of_nat (le_nat bs)"

definition u64_to_le :: "u64 \<Rightarrow> bytes" where
  "u64_to_le w = nat_le 8 (unat w)"

definition u32_from_le :: "bytes \<Rightarrow> u32" where
  "u32_from_le bs = of_nat (le_nat bs)"

lemma unat_byte_less [simp]: "unat (b :: byte) < 256"
  using unat_lt_length [of b] by simp

lemma unat_byte_of [simp]: "n < 256 \<Longrightarrow> unat (byte_of n) = n"
  by (simp add: byte_of_def unat_of_nat)

lemma byte_of_unat [simp]: "byte_of (unat b) = b"
  by (simp add: byte_of_def)

lemma length_nat_le [simp]: "length (nat_le k n) = k"
  by (induction k arbitrary: n) simp_all

lemma le_nat_less: "le_nat bs < 256 ^ length bs"
proof (induction bs)
  case (Cons b bs)
  then have "256 * (le_nat bs + 1) \<le> 256 * 256 ^ length bs"
    by (intro mult_le_mono2) simp
  then show ?case
    using unat_byte_less [of b] by (simp del: unat_byte_less)
qed simp

lemma le_nat_nat_le: "n < 256 ^ k \<Longrightarrow> le_nat (nat_le k n) = n"
  by (induction k arbitrary: n) (simp_all add: less_mult_imp_div_less mult.commute)

lemma nat_le_le_nat: "nat_le (length bs) (le_nat bs) = bs"
  by (induction bs) (simp_all add: div_mult_self3)

lemma u64_le_round_trip [simp]: "u64_from_le (u64_to_le w) = w"
proof -
  have "unat w < 256 ^ 8"
    using unat_u64_less [of w] by simp
  then show ?thesis
    by (simp add: u64_from_le_def u64_to_le_def le_nat_nat_le)
qed

lemma length_u64_to_le [simp]: "length (u64_to_le w) = 8"
  by (simp add: u64_to_le_def)

lemma unat_u64_from_le: "length bs = 8 \<Longrightarrow> unat (u64_from_le bs) = le_nat bs"
  using le_nat_less [of bs] by (simp add: u64_from_le_def unat_of_nat)

lemma unat_u32_from_le: "length bs = 4 \<Longrightarrow> unat (u32_from_le bs) = le_nat bs"
  using le_nat_less [of bs] by (simp add: u32_from_le_def unat_of_nat)

lemma u64_to_from_le: "length bs = 8 \<Longrightarrow> u64_to_le (u64_from_le bs) = bs"
  using nat_le_le_nat [of bs] by (simp add: u64_to_le_def unat_u64_from_le)

lemma u64_to_le_inject [simp]: "u64_to_le v = u64_to_le w \<longleftrightarrow> v = w"
  by (metis u64_le_round_trip)

section \<open>Substring search\<close>

text \<open>\<open>xs.windows(pat.len()).any(|w| w == pat)\<close> for a non-empty pattern.\<close>

definition contains_window :: "'a list \<Rightarrow> 'a list \<Rightarrow> bool" where
  "contains_window xs pat \<longleftrightarrow>
     (\<exists>i \<in> set [0 ..< Suc (length xs) - length pat]. slice xs i (i + length pat) = pat)"

lemma contains_window_iff:
  assumes "pat \<noteq> []"
  shows "contains_window xs pat \<longleftrightarrow> (\<exists>pre suf. xs = pre @ pat @ suf)"
proof
  assume "contains_window xs pat"
  then obtain i where "i + length pat \<le> length xs" "slice xs i (i + length pat) = pat"
    using assms by (force simp: contains_window_def)
  then show "\<exists>pre suf. xs = pre @ pat @ suf"
    using split_at_slice [of i "i + length pat" xs] by auto
next
  assume "\<exists>pre suf. xs = pre @ pat @ suf"
  then obtain pre suf where "xs = pre @ pat @ suf" by blast
  then have "length pre < Suc (length xs) - length pat"
    and "slice xs (length pre) (length pre + length pat) = pat"
    by simp_all
  then show "contains_window xs pat"
    unfolding contains_window_def by (intro bexI [of _ "length pre"]) auto
qed

section \<open>Forward readers\<close>

text \<open>
  A parser here is a cursor moving forward over a buffer. A slice never exceeds \<open>isize::MAX\<close>
  bytes, which is what keeps offset arithmetic from overflowing.
\<close>

definition fits :: "'a list \<Rightarrow> bool" where
  "fits buf \<longleftrightarrow> length buf < 2 ^ 63"

text \<open>\<open>at_pos buf p w\<close>: the word \<open>w\<close> lies at offset \<open>p\<close> of the buffer.\<close>

definition at_pos :: "'a list \<Rightarrow> nat \<Rightarrow> 'a list \<Rightarrow> bool" where
  "at_pos buf p w \<longleftrightarrow> p + length w \<le> length buf \<and> slice buf p (p + length w) = w"

lemma at_pos_Nil [simp]: "at_pos buf p [] \<longleftrightarrow> p \<le> length buf"
  by (simp add: at_pos_def)

lemma at_pos_append [simp]:
  "at_pos buf p (u @ v) \<longleftrightarrow> at_pos buf p u \<and> at_pos buf (p + length u) v"
proof (cases "p + length u + length v \<le> length buf")
  case True
  then have "slice buf p (p + length u + length v)
      = slice buf p (p + length u) @ slice buf (p + length u) (p + length u + length v)"
    by (intro slice_append) auto
  with True show ?thesis
    by (auto simp: at_pos_def add.assoc)
qed (auto simp: at_pos_def)

lemma at_pos_Cons:
  "at_pos buf p (x # v) \<longleftrightarrow> p < length buf \<and> buf ! p = x \<and> at_pos buf (Suc p) v"
proof -
  have "at_pos buf p [x] \<longleftrightarrow> p < length buf \<and> buf ! p = x"
    by (auto simp: at_pos_def slice_Suc)
  then show ?thesis
    using at_pos_append [of buf p "[x]" v] by simp
qed

lemma at_pos_slice: "at_pos buf p w \<Longrightarrow> slice buf p (p + length w) = w"
  and at_pos_bound: "at_pos buf p w \<Longrightarrow> p + length w \<le> length buf"
  by (simp_all add: at_pos_def)

lemma at_pos_of_slice: "p \<le> q \<Longrightarrow> q \<le> length buf \<Longrightarrow> at_pos buf p (slice buf p q)"
  by (simp add: at_pos_def)

lemma at_pos_mid: "at_pos (pre @ w @ suf) (length pre) w"
  by (simp add: at_pos_def)

lemma at_pos_take: "at_pos buf p w \<Longrightarrow> p + length w \<le> q \<Longrightarrow> at_pos (take q buf @ rest) p w"
proof -
  assume w: "at_pos buf p w" and q: "p + length w \<le> q"
  then have "slice (take q buf @ rest) p (p + length w) = slice (take q buf) p (p + length w)"
    by (intro slice_app_left) (simp add: at_pos_def)
  also have "\<dots> = w"
    using w q by (simp add: at_pos_def slice_def drop_take min_absorb1)
  finally show ?thesis
    using w q by (simp add: at_pos_def trans_le_add1)
qed

lemma at_pos_same_length:
  "at_pos buf p v \<Longrightarrow> at_pos buf p w \<Longrightarrow> length v = length w \<Longrightarrow> v = w"
  by (metis at_pos_slice)

text \<open>
  \<open>recogniser\<close>: a step accepts exactly the words of a language that start at the cursor, and
  leaves the cursor just past the word.
\<close>

locale recogniser =
  fixes step :: "bytes \<Rightarrow> nat \<Rightarrow> nat option"
    and lang :: "bytes \<Rightarrow> bool"
  assumes sound: "step buf p = Some q \<Longrightarrow> \<exists>w. lang w \<and> at_pos buf p w \<and> q = p + length w"
    and complete: "lang w \<Longrightarrow> at_pos buf p w \<Longrightarrow> fits buf \<Longrightarrow> step buf p = Some (p + length w)"
begin

lemma advances: "step buf p = Some q \<Longrightarrow> p \<le> q"
  and in_bounds: "step buf p = Some q \<Longrightarrow> q \<le> length buf"
  and accepted: "step buf p = Some q \<Longrightarrow> lang (slice buf p q)"
  using sound by (fastforce simp: at_pos_def)+

lemma accepts_iff:
  "fits buf \<Longrightarrow> step buf p = Some q \<longleftrightarrow> (\<exists>w. lang w \<and> at_pos buf p w \<and> q = p + length w)"
  using sound complete by blast

text \<open>What a step reads is what lies between the cursors: the bytes behind it do not matter.\<close>

lemma ignores_rest:
  assumes "step buf p = Some q" and "fits (take q buf @ rest)"
  shows "step (take q buf @ rest) p = Some q"
  using sound [OF assms(1)] complete [OF _ at_pos_take assms(2)] by fastforce

lemma stable_under_append:
  assumes "step buf p = Some q" and "fits (buf @ more)"
  shows "step (buf @ more) p = Some q"
  using ignores_rest [OF assms(1), of "drop q buf @ more"] assms(2)
  by (simp add: append_take_drop_id flip: append_assoc)

end

text \<open>Running a step a given number of times, the shape of every \<open>for _ in 0..n\<close> of the walker.\<close>

fun walk_times :: "nat \<Rightarrow> (bytes \<Rightarrow> nat \<Rightarrow> nat option) \<Rightarrow> bytes \<Rightarrow> nat \<Rightarrow> nat option" where
  "walk_times 0 step buf p = Some p"
| "walk_times (Suc n) step buf p = do { q \<leftarrow> step buf p; walk_times n step buf q }"

context recogniser
begin

lemma walk_times_sound:
  "walk_times n step buf p = Some q \<Longrightarrow> p \<le> length buf \<Longrightarrow>
     \<exists>ws. length ws = n \<and> (\<forall>w \<in> set ws. lang w) \<and> at_pos buf p (concat ws)
       \<and> q = p + length (concat ws)"
proof (induction n arbitrary: p)
  case (Suc n)
  then obtain r where r: "step buf p = Some r" and rest: "walk_times n step buf r = Some q"
    by auto
  from sound [OF r] obtain w where w: "lang w" "at_pos buf p w" "r = p + length w"
    by blast
  from Suc.IH [OF rest in_bounds [OF r]] obtain ws where
    "length ws = n" "\<forall>w \<in> set ws. lang w" "at_pos buf r (concat ws)" "q = r + length (concat ws)"
    by blast
  with w show ?case
    by (intro exI [of _ "w # ws"]) simp
qed simp

lemma walk_times_complete:
  "\<forall>w \<in> set ws. lang w \<Longrightarrow> at_pos buf p (concat ws) \<Longrightarrow> fits buf \<Longrightarrow>
     walk_times (length ws) step buf p = Some (p + length (concat ws))"
proof (induction ws arbitrary: p)
  case (Cons w ws)
  then show ?case
    using complete [of w buf p] by (simp add: add.assoc)
qed simp

end

text \<open>\<open>reader\<close>: a recogniser that also returns the value the accepted word encodes.\<close>

locale reader =
  fixes rd :: "bytes \<Rightarrow> nat \<Rightarrow> ('v \<times> nat) option"
    and enc :: "'v \<Rightarrow> bytes"
  assumes rd_sound: "rd buf p = Some (v, q) \<Longrightarrow> at_pos buf p (enc v) \<and> q = p + length (enc v)"
    and rd_complete: "at_pos buf p (enc v) \<Longrightarrow> fits buf \<Longrightarrow> rd buf p = Some (v, p + length (enc v))"
begin

lemma prefix_free: "at_pos buf p (enc v) \<Longrightarrow> at_pos buf p (enc v') \<Longrightarrow> fits buf \<Longrightarrow> v = v'"
  using rd_complete [of buf p v] rd_complete [of buf p v'] by simp

lemma rd_in_bounds: "rd buf p = Some (v, q) \<Longrightarrow> p \<le> q \<and> q \<le> length buf"
  using rd_sound [of buf p v q] by (auto dest: at_pos_bound)

end

sublocale reader \<subseteq> rec: recogniser "\<lambda>buf p. map_option snd (rd buf p)" "\<lambda>w. \<exists>v. w = enc v"
  by unfold_locales (auto dest: rd_sound simp: rd_complete)

section \<open>Patching several fields\<close>

text \<open>A field is an offset and the bytes at it; two fields are apart when their ranges do not meet.\<close>

definition apart :: "nat \<times> bytes \<Rightarrow> nat \<times> bytes \<Rightarrow> bool" where
  "apart = (\<lambda>(p, u) (q, v). p + length u \<le> q \<or> q + length v \<le> p)"

fun patch_all :: "bytes \<Rightarrow> (nat \<times> bytes) list \<Rightarrow> bytes option" where
  "patch_all tx [] = Some tx"
| "patch_all tx ((p, u) # fs) = do { tx \<leftarrow> patch_at tx p u; patch_all tx fs }"

lemma patch_at_defined: "p + length u \<le> length tx \<Longrightarrow> \<exists>tx'. patch_at tx p u = Some tx'"
  by (simp add: patch_at_def)

lemma patch_at_at_pos: "patch_at tx p u = Some tx' \<Longrightarrow> at_pos tx' p u"
  using patch_at_slice [of tx p u tx'] patch_at_length [of tx p u tx']
  by (auto simp: at_pos_def patch_at_Some_iff)

lemma patch_at_keeps:
  assumes "patch_at tx p u = Some tx'" "apart (p, u) (q, v)" "at_pos tx q v"
  shows "at_pos tx' q v"
proof -
  have "q + length v \<le> length tx"
    using assms(3) by (rule at_pos_bound)
  then have "slice tx' q (q + length v) = slice tx q (q + length v)"
    using assms(2) by (intro patch_at_frame [OF assms(1)]) (auto simp: apart_def)
  with assms(3) show ?thesis
    using patch_at_length [OF assms(1)] by (simp add: at_pos_def)
qed

lemma patch_all_keeps:
  "patch_all tx fs = Some tx' \<Longrightarrow> \<forall>f \<in> set fs. apart f (q, v) \<Longrightarrow> at_pos tx q v \<Longrightarrow> at_pos tx' q v"
  by (induction tx fs rule: patch_all.induct) (auto dest: patch_at_keeps)

lemma patch_all_length: "patch_all tx fs = Some tx' \<Longrightarrow> length tx' = length tx"
  by (induction tx fs rule: patch_all.induct) (auto dest: patch_at_length)

lemma patch_all_reads_back:
  assumes "\<forall>(p, u) \<in> set fs. p + length u \<le> length tx" "sorted_wrt apart fs"
  shows "\<exists>tx'. patch_all tx fs = Some tx' \<and> length tx' = length tx \<and> (\<forall>(p, u) \<in> set fs. at_pos tx' p u)"
  using assms
proof (induction tx fs rule: patch_all.induct)
  case (2 tx p u fs)
  then obtain tx1 where tx1: "patch_at tx p u = Some tx1"
    using patch_at_defined [of p u tx] by auto
  then have len: "length tx1 = length tx"
    by (rule patch_at_length)
  with 2 tx1 obtain tx' where tx': "patch_all tx1 fs = Some tx'" "\<forall>(p, u) \<in> set fs. at_pos tx' p u"
    by auto
  have "at_pos tx' p u"
  proof (rule patch_all_keeps [OF tx'(1)])
    show "\<forall>f \<in> set fs. apart f (p, u)"
      using "2.prems"(2) by (auto simp: apart_def)
    show "at_pos tx1 p u"
      using tx1 by (rule patch_at_at_pos)
  qed
  with tx1 tx' len patch_all_length [OF tx'(1)] show ?case
    by auto
qed simp

text \<open>Words over disjoint byte sets cannot overlap.\<close>

lemma disjoint_bytes_apart:
  assumes "at_pos m p u" "at_pos m q v" "set u \<inter> set v = {}" "u \<noteq> []" "v \<noteq> []"
  shows "apart (p, u) (q, v)"
proof (rule ccontr)
  assume "\<not> apart (p, u) (q, v)"
  then have k: "p < q + length v" "q < p + length u"
    by (auto simp: apart_def)
  define i where "i = max p q"
  have i: "p \<le> i" "q \<le> i" "i < p + length u" "i < q + length v"
    using k assms(4,5) by (auto simp: i_def max_def)
  have "u ! (i - p) = m ! i"
    using assms(1) i nth_slice [of "i - p" "p + length u" p m] by (auto simp: at_pos_def)
  moreover have "v ! (i - q) = m ! i"
    using assms(2) i nth_slice [of "i - q" "q + length v" q m] by (auto simp: at_pos_def)
  moreover have "u ! (i - p) \<in> set u" "v ! (i - q) \<in> set v"
    using i by simp_all
  ultimately show False
    using assms(3) by auto
qed

end
