(* ===== verification/Curve.thy ===== *)
theory Curve
  imports Prelude
begin

text \<open>
  The bonding-curve arithmetic of \<open>sniper/src/pumpfun.rs\<close> (\<open>CurveParams\<close>, \<open>BuyPlan\<close>, the two
  buy planners) and \<open>sell_proceeds\<close> of \<open>sniper/src/position.rs\<close>, on 64- and 128-bit words as in
  the source.

  The locale \<open>bonding_curve\<close> is what the planners rely on from a price function; it is
  interpreted on \<open>initial_buy_price\<close>. A second group of lemmas reads the word arithmetic as exact
  arithmetic on natural numbers, with no wrap-around.
\<close>

section \<open>Model\<close>

record CurveParams =
  initial_virtual_sol_reserves :: u64
  initial_virtual_token_reserves :: u64
  initial_real_token_reserves :: u64
  fee_basis_points :: u64
  creator_fee_basis_points :: u64

record BuyPlan =
  bp_amount :: u64
  bp_max_sol_cost :: u64
  bp_budget_lamports :: u64
  bp_expected_tokens :: u64
  bp_prior_flow_lamports :: u64

definition total_fee_bps :: "CurveParams \<Rightarrow> u64" where
  "total_fee_bps c = fee_basis_points c + creator_fee_basis_points c"

text \<open>The divisor is \<open>virtual_sol + sol_in\<close> with \<open>sol_in\<close> positive, so the division is defined.\<close>

definition initial_buy_price :: "CurveParams \<Rightarrow> u64 \<Rightarrow> u64" where
  "initial_buy_price c sol_in =
     (if sol_in = 0 then 0
      else let n = as_u128 (initial_virtual_sol_reserves c)
                     * as_u128 (initial_virtual_token_reserves c);
               i = as_u128 (initial_virtual_sol_reserves c) + as_u128 sol_in;
               r = n div i + 1;
               s = sat_sub (as_u128 (initial_virtual_token_reserves c)) r
           in as_u64 (min s (as_u128 (initial_real_token_reserves c))))"

definition tokens_behind_dev_buy :: "CurveParams \<Rightarrow> u64 \<Rightarrow> u64 \<Rightarrow> u64" where
  "tokens_behind_dev_buy c dev_sol our_sol =
     (let before = initial_buy_price c dev_sol;
          after = initial_buy_price c (sat_add dev_sol our_sol)
      in sat_sub after before)"

text \<open>
  Both planners back the fee out of the budget first. \<open>10_000 + total_fee_bps()\<close> is computed on
  \<open>u64\<close>, so the division panics only where that sum wraps to zero.
\<close>

definition plan_buy :: "CurveParams \<Rightarrow> u64 \<Rightarrow> u64 \<Rightarrow> u64 \<Rightarrow> u64 \<Rightarrow> BuyPlan option" where
  "plan_buy c dev_buy_lamports budget_lamports haircut_bps slippage_bps = do {
     q \<leftarrow> checked_div (as_u128 budget_lamports * 10000) (as_u128 (10000 + total_fee_bps c));
     let curve_sol = as_u64 q;
     let tokens = tokens_behind_dev_buy c dev_buy_lamports curve_sol;
     let amount = as_u64 (as_u128 tokens * as_u128 (10000 - min haircut_bps 10000) div 10000);
     let max_sol_cost = as_u64 (as_u128 budget_lamports * as_u128 (10000 + slippage_bps) div 10000);
     Some \<lparr>bp_amount = amount, bp_max_sol_cost = max_sol_cost,
       bp_budget_lamports = budget_lamports, bp_expected_tokens = amount,
       bp_prior_flow_lamports = dev_buy_lamports\<rparr>
   }"

definition plan_exact_sol_in :: "CurveParams \<Rightarrow> u64 \<Rightarrow> u64 \<Rightarrow> u64 \<Rightarrow> BuyPlan option" where
  "plan_exact_sol_in c prior_flow_lamports budget_lamports slippage_bps = do {
     q \<leftarrow> checked_div (as_u128 budget_lamports * 10000) (as_u128 (10000 + total_fee_bps c));
     let curve_sol = as_u64 q;
     let expected = tokens_behind_dev_buy c prior_flow_lamports curve_sol;
     let min_tokens = as_u64 (as_u128 expected * as_u128 (10000 - min slippage_bps 10000) div 10000);
     Some \<lparr>bp_amount = budget_lamports, bp_max_sol_cost = min_tokens,
       bp_budget_lamports = budget_lamports, bp_expected_tokens = expected,
       bp_prior_flow_lamports = prior_flow_lamports\<rparr>
   }"

definition sell_proceeds :: "CurveParams \<Rightarrow> u64 \<Rightarrow> u64 \<Rightarrow> u64 \<Rightarrow> u64" where
  "sell_proceeds curve virtual_sol virtual_token amount =
     (if amount = 0 \<or> virtual_token = 0 \<or> virtual_sol = 0 then 0
      else let k = as_u128 virtual_sol * as_u128 virtual_token;
               new_token = as_u128 virtual_token + as_u128 amount;
               new_sol = k div new_token;
               gross = sat_sub (as_u128 virtual_sol) new_sol;
               fee = gross * as_u128 (total_fee_bps curve) div 10000
           in as_u64 (sat_sub gross fee))"

section \<open>What the planners rely on\<close>

locale bonding_curve =
  fixes price :: "u64 \<Rightarrow> u64" and stock :: u64
  assumes price_zero: "price 0 = 0"
    and price_mono: "x \<le> y \<Longrightarrow> price x \<le> price y"
    and price_stock: "price x \<le> stock"
begin

definition behind :: "u64 \<Rightarrow> u64 \<Rightarrow> u64" where
  "behind ahead sol = sat_sub (price (sat_add ahead sol)) (price ahead)"

lemma unat_behind: "unat (behind ahead sol) = unat (price (sat_add ahead sol)) - unat (price ahead)"
  by (simp add: behind_def unat_sat_sub)

lemma behind_exact: "unat (price ahead) + unat (behind ahead sol) = unat (price (sat_add ahead sol))"
  using price_mono [OF sat_add_ge [of ahead sol]] by (simp add: unat_behind word_le_nat_alt)

lemma behind_nothing_ahead: "behind 0 sol = price sol"
  by (simp add: behind_def sat_add_def sat_sub_def price_zero)

lemma behind_stock: "unat (price ahead) + unat (behind ahead sol) \<le> unat stock"
  using price_stock by (simp add: behind_exact word_le_nat_alt)

lemma sat_add_mono: "b \<le> c \<Longrightarrow> sat_add a b \<le> sat_add a (c :: u64)"
  by (simp add: word_le_nat_alt unat_sat_add min_def)

lemma behind_mono: "s \<le> t \<Longrightarrow> behind ahead s \<le> behind ahead t"
  using price_mono [OF sat_add_mono [of s t ahead]] by (simp add: word_le_nat_alt unat_behind diff_le_mono)

end

section \<open>Exact readings of the word arithmetic\<close>

definition nat_price :: "CurveParams \<Rightarrow> nat \<Rightarrow> nat" where
  "nat_price c x =
     (let vs = unat (initial_virtual_sol_reserves c); vt = unat (initial_virtual_token_reserves c)
      in if x = 0 then 0
         else min (vt - (vs * vt div (vs + x) + 1)) (unat (initial_real_token_reserves c)))"

lemma unat_u128_Suc: "unat a < 2 ^ 128 - 1 \<Longrightarrow> unat (a + 1 :: u128) = unat a + 1"
  by (simp add: unat_word_ariths)

lemma unat_initial_buy_price: "unat (initial_buy_price c x) = nat_price c (unat x)"
proof (cases "x = 0")
  case False
  define vs vt rt where "vs = initial_virtual_sol_reserves c"
    and "vt = initial_virtual_token_reserves c" and "rt = initial_real_token_reserves c"
  define d where "d = as_u128 vs * as_u128 vt div (as_u128 vs + as_u128 x)"
  have d: "unat d = unat vs * unat vt div (unat vs + unat x)"
    by (simp add: d_def unat_div unat_u128_mult unat_u128_add)
  have "unat vs * unat vt div (unat vs + unat x) \<le> unat vt"
  proof -
    have "unat vs * unat vt \<le> (unat vs + unat x) * unat vt"
      by simp
    then have "unat vs * unat vt div (unat vs + unat x) \<le> (unat vs + unat x) * unat vt div (unat vs + unat x)"
      by (rule div_le_mono)
    then show ?thesis
      by (simp split: if_splits)
  qed
  then have "unat d < 2 ^ 128 - 1"
    using unat_u64_less [of vt] by (simp add: d del: unat_u64_less)
  then have s: "unat (sat_sub (as_u128 vt) (d + 1)) = unat vt - (unat d + 1)"
    by (simp add: unat_sat_sub unat_u128_Suc)
  have "unat (as_u64 (min (sat_sub (as_u128 vt) (d + 1)) (as_u128 rt)))
      = min (unat vt - (unat d + 1)) (unat rt)"
    by (subst unat_as_u64_small) (simp_all add: unat_min s min_less_iff_disj)
  with False show ?thesis
    by (simp add: initial_buy_price_def nat_price_def Let_def unat_eq_zero d_def [symmetric] d
        vs_def [symmetric] vt_def [symmetric] rt_def [symmetric])
qed (simp add: initial_buy_price_def nat_price_def)

lemma nat_price_mono: "x \<le> y \<Longrightarrow> nat_price c x \<le> nat_price c y"
proof (cases "x = 0")
  case False
  assume "x \<le> y"
  define vs vt where "vs = unat (initial_virtual_sol_reserves c)"
    and "vt = unat (initial_virtual_token_reserves c)"
  have "vs * vt div (vs + y) \<le> vs * vt div (vs + x)"
    using \<open>x \<le> y\<close> False by (intro div_le_mono2) simp_all
  with \<open>x \<le> y\<close> False show ?thesis
    by (auto simp: nat_price_def Let_def vs_def [symmetric] vt_def [symmetric])
qed (simp add: nat_price_def)

lemma nat_price_le_stock: "nat_price c x \<le> unat (initial_real_token_reserves c)"
  by (simp add: nat_price_def Let_def)

interpretation curve: bonding_curve "initial_buy_price c" "initial_real_token_reserves c" for c
  by unfold_locales
    (simp_all add: initial_buy_price_def [of c 0] word_le_nat_alt unat_initial_buy_price
      nat_price_mono nat_price_le_stock)

lemma tokens_behind_is_behind [simp]: "curve.behind c ahead sol = tokens_behind_dev_buy c ahead sol"
  by (simp add: curve.behind_def tokens_behind_dev_buy_def)

lemmas tokens_behind_laws =
  curve.behind_exact [unfolded tokens_behind_is_behind]
  curve.behind_stock [unfolded tokens_behind_is_behind]
  curve.behind_mono [unfolded tokens_behind_is_behind]
  curve.behind_nothing_ahead [unfolded tokens_behind_is_behind]

section \<open>The planners on natural numbers\<close>

text \<open>Fee rates that make sense: together at most 100 percent.\<close>

definition fees_ok :: "CurveParams \<Rightarrow> bool" where
  "fees_ok c \<longleftrightarrow> unat (fee_basis_points c) + unat (creator_fee_basis_points c) \<le> 10000"

lemma unat_total_fee_bps:
  "fees_ok c \<Longrightarrow> unat (total_fee_bps c) = unat (fee_basis_points c) + unat (creator_fee_basis_points c)"
  by (simp add: fees_ok_def total_fee_bps_def unat_word_ariths)

lemma unat_fee_divisor: "fees_ok c \<Longrightarrow> unat (10000 + total_fee_bps c) = 10000 + unat (total_fee_bps c)"
  using unat_total_fee_bps [of c] by (simp add: fees_ok_def unat_word_ariths)

lemma unat_scale: "unat (as_u128 a * 10000) = unat a * 10000"
  using unat_u128_mult [of a 10000] by (simp add: as_u128_def)

lemma unat_bps_share:
  "unat b \<le> 10000 \<Longrightarrow> unat (as_u64 (as_u128 a * as_u128 b div 10000)) = unat a * unat b div 10000"
proof -
  assume b: "unat b \<le> 10000"
  have "unat a * unat b div 10000 \<le> unat a * 10000 div 10000"
    using b by (intro div_le_mono mult_le_mono2)
  then have "unat a * unat b div 10000 < 18446744073709551616"
    using unat_u64_less [of a] by (simp del: unat_u64_less)
  then show ?thesis
    by (simp add: unat_as_u64 unat_div unat_u128_mult)
qed

lemma unat_rest_bps: "unat (10000 - min x 10000 :: u64) = 10000 - unat x"
  by (simp add: unat_sub_if' unat_min word_le_nat_alt)

text \<open>The lamports that reach the curve once the fee is backed out of a budget.\<close>

definition curve_sol :: "CurveParams \<Rightarrow> u64 \<Rightarrow> u64" where
  "curve_sol c budget = as_u64 (as_u128 budget * 10000 div as_u128 (10000 + total_fee_bps c))"

lemma unat_curve_sol:
  assumes "fees_ok c"
  shows "unat (curve_sol c budget) = unat budget * 10000 div (10000 + unat (total_fee_bps c))"
proof -
  have "unat budget * 10000 div (10000 + unat (total_fee_bps c)) \<le> unat budget * 10000 div 10000"
    by (intro div_le_mono2) simp_all
  then have "unat budget * 10000 div (10000 + unat (total_fee_bps c)) < 18446744073709551616"
    using unat_u64_less [of budget] by (simp del: unat_u64_less)
  then show ?thesis
    using assms by (simp add: curve_sol_def unat_as_u64 unat_div unat_scale unat_fee_divisor)
qed

lemma fee_divisor_nonzero: "fees_ok c \<Longrightarrow> as_u128 (10000 + total_fee_bps c) \<noteq> 0"
  by (metis add_is_0 unat_as_u128 unat_fee_divisor unsigned_0 zero_neq_numeral)

lemma plan_buy_eq:
  assumes "fees_ok c"
  shows "plan_buy c dev budget h s =
    (let amount = as_u64 (as_u128 (tokens_behind_dev_buy c dev (curve_sol c budget))
                    * as_u128 (10000 - min h 10000) div 10000)
     in Some \<lparr>bp_amount = amount,
          bp_max_sol_cost = as_u64 (as_u128 budget * as_u128 (10000 + s) div 10000),
          bp_budget_lamports = budget, bp_expected_tokens = amount, bp_prior_flow_lamports = dev\<rparr>)"
  using fee_divisor_nonzero [OF assms]
  by (simp add: plan_buy_def checked_div_def curve_sol_def Let_def)

lemma plan_exact_sol_in_eq:
  assumes "fees_ok c"
  shows "plan_exact_sol_in c prior budget s =
    (let expected = tokens_behind_dev_buy c prior (curve_sol c budget)
     in Some \<lparr>bp_amount = budget,
          bp_max_sol_cost = as_u64 (as_u128 expected * as_u128 (10000 - min s 10000) div 10000),
          bp_budget_lamports = budget, bp_expected_tokens = expected,
          bp_prior_flow_lamports = prior\<rparr>)"
  using fee_divisor_nonzero [OF assms]
  by (simp add: plan_exact_sol_in_def checked_div_def curve_sol_def Let_def)

lemma curve_sol_with_fee:
  "fees_ok c \<Longrightarrow> unat (curve_sol c budget) * (10000 + unat (total_fee_bps c)) \<le> 10000 * unat budget"
  by (simp add: unat_curve_sol mult.commute [of _ 10000] div_times_less_eq_dividend)

section \<open>Sales on natural numbers\<close>

definition nat_gross :: "nat \<Rightarrow> nat \<Rightarrow> nat \<Rightarrow> nat" where
  "nat_gross vs vt a = vs - vs * vt div (vt + a)"

lemma unat_sell_proceeds:
  "unat (sell_proceeds c vs vt a) =
     (if a = 0 \<or> vt = 0 \<or> vs = 0 then 0
      else let g = nat_gross (unat vs) (unat vt) (unat a) in g - g * unat (total_fee_bps c) div 10000)"
proof (cases "a = 0 \<or> vt = 0 \<or> vs = 0")
  case False
  define g where "g = sat_sub (as_u128 vs) (as_u128 vs * as_u128 vt div (as_u128 vt + as_u128 a))"
  have g: "unat g = nat_gross (unat vs) (unat vt) (unat a)"
    by (simp add: g_def nat_gross_def unat_sat_sub unat_div unat_u128_mult unat_u128_add)
  have small: "unat g < 18446744073709551616"
    using unat_u64_less [of vs] by (simp add: g nat_gross_def less_imp_diff_less del: unat_u64_less)
  have "unat g * unat (total_fee_bps c) < 2 ^ 64 * 2 ^ 64"
    using small unat_u64_less [of "total_fee_bps c"] by (intro mult_strict_mono) auto
  then have "unat (g * as_u128 (total_fee_bps c)) = unat g * unat (total_fee_bps c)"
    by (simp add: unat_word_ariths)
  then have "unat (as_u64 (sat_sub g (g * as_u128 (total_fee_bps c) div 10000)))
      = unat g - unat g * unat (total_fee_bps c) div 10000"
    using small by (subst unat_as_u64_small) (simp_all add: unat_sat_sub unat_div less_imp_diff_less)
  with False show ?thesis
    by (simp add: sell_proceeds_def Let_def g_def [symmetric] g)
qed (auto simp: sell_proceeds_def)

lemma sell_proceeds_le_gross:
  "unat (sell_proceeds c vs vt a) \<le> nat_gross (unat vs) (unat vt) (unat a)"
  by (simp add: unat_sell_proceeds Let_def)

lemma nat_price_product:
  "unat (initial_virtual_sol_reserves c) * unat (initial_virtual_token_reserves c)
     \<le> (unat (initial_virtual_sol_reserves c) + x)
        * (unat (initial_virtual_token_reserves c) - nat_price c x)"
proof (cases "x = 0")
  case False
  define vs vt where "vs = unat (initial_virtual_sol_reserves c)"
    and "vt = unat (initial_virtual_token_reserves c)"
  let ?r = "vs * vt div (vs + x) + 1"
  have "vs * vt \<le> (vs + x) * ?r"
  proof -
    have "vs * vt = (vs + x) * (vs * vt div (vs + x)) + vs * vt mod (vs + x)"
      by (rule mult_div_mod_eq [symmetric])
    also have "\<dots> \<le> (vs + x) * (vs * vt div (vs + x)) + (vs + x)"
      using False by (intro add_left_mono mod_le_divisor) simp
    finally show ?thesis
      by (simp add: distrib_left)
  qed
  moreover have "min vt ?r \<le> vt - nat_price c x"
    using False by (auto simp: nat_price_def Let_def vs_def vt_def)
  moreover have "vs * vt \<le> (vs + x) * vt"
    by simp
  ultimately have "vs * vt \<le> (vs + x) * (vt - nat_price c x)"
    by (metis (no_types, lifting) min_def mult_le_mono2 order.trans)
  then show ?thesis
    by (simp add: vs_def vt_def)
qed (simp add: nat_price_def)

section \<open>Properties\<close>

text \<open>Mainnet parameters, used as the concrete instance below.\<close>

definition mainnet_curve :: CurveParams where
  "mainnet_curve = \<lparr>initial_virtual_sol_reserves = 30000000000,
     initial_virtual_token_reserves = 1073000000000000,
     initial_real_token_reserves = 793100000000000,
     fee_basis_points = 95, creator_fee_basis_points = 30\<rparr>"

lemma mainnet_fees_ok: "fees_ok mainnet_curve"
  by (simp add: fees_ok_def mainnet_curve_def)

text \<open>
  The price of a buy keeps the constant product of the curve: whatever is paid in, the tokens
  handed out never exceed what the invariant \<open>virtual_sol * virtual_token\<close> allows, never exceed
  the real reserves, and grow with the amount paid. This holds for every parameter set and every
  amount: the 128-bit arithmetic never wraps.
\<close>

theorem initial_buy_price_keeps_product:
  "unat (initial_virtual_sol_reserves c) * unat (initial_virtual_token_reserves c)
     \<le> (unat (initial_virtual_sol_reserves c) + unat x)
        * (unat (initial_virtual_token_reserves c) - unat (initial_buy_price c x))
   \<and> initial_buy_price c x \<le> initial_real_token_reserves c
   \<and> initial_buy_price c x \<le> initial_buy_price c (max x y)"
  using nat_price_product [of c "unat x"] curve.price_stock [of c x] curve.price_mono [of x "max x y" c]
  by (simp add: unat_initial_buy_price)

text \<open>
  C20: The plan of an exact-token \<open>buy\<close> is affordable when the fees of the curve are at most 100%
  (\<open>fees_ok\<close>): there is an amount of curve volume whose price including fees fits the budget, and which
  on top of the buys ahead pays for at least the tokens the plan asks for. If moreover the budget
  raised by the slippage fits 64 bits before the division, the cap is exactly the budget plus the
  slippage, never below the budget; beyond that the cast \<open>as u64\<close> of the cap may truncate.
\<close>

theorem plan_buy_affordable:
  assumes "fees_ok c" and "plan_buy c dev budget haircut slippage = Some p"
  shows "(\<exists>sol. unat sol * (10000 + unat (total_fee_bps c)) \<le> 10000 * unat budget
           \<and> unat (initial_buy_price c dev) + unat (bp_amount p)
               \<le> unat (initial_buy_price c (sat_add dev sol)))
       \<and> (unat budget * (10000 + unat slippage) < 2 ^ 64
          \<longrightarrow> unat (bp_max_sol_cost p) = unat budget * (10000 + unat slippage) div 10000
            \<and> budget \<le> bp_max_sol_cost p)"
proof (intro conjI impI exI [of _ "curve_sol c budget"])
  show "unat (curve_sol c budget) * (10000 + unat (total_fee_bps c)) \<le> 10000 * unat budget"
    using assms(1) by (rule curve_sol_with_fee)
  have "unat (bp_amount p)
      = unat (tokens_behind_dev_buy c dev (curve_sol c budget)) * (10000 - unat haircut) div 10000"
    using assms(2) by (auto simp: plan_buy_eq [OF assms(1)] Let_def unat_bps_share unat_rest_bps)
  also have "\<dots> \<le> unat (tokens_behind_dev_buy c dev (curve_sol c budget)) * 10000 div 10000"
    by (intro div_le_mono mult_le_mono2) simp
  finally show "unat (initial_buy_price c dev) + unat (bp_amount p)
      \<le> unat (initial_buy_price c (sat_add dev (curve_sol c budget)))"
    using tokens_behind_laws(1) [of c dev "curve_sol c budget"] by simp
next
  assume fits: "unat budget * (10000 + unat slippage) < 2 ^ 64"
  show cap: "unat (bp_max_sol_cost p) = unat budget * (10000 + unat slippage) div 10000"
  proof (cases "budget = 0")
    case False
    then have "10000 + unat slippage \<le> unat budget * (10000 + unat slippage)"
      by (simp add: unat_gt_0 Suc_leI)
    then have "10000 + unat slippage < 2 ^ 64"
      using fits by (rule le_less_trans)
    then have "unat (10000 + slippage) = 10000 + unat slippage"
      by (simp add: unat_word_ariths)
    with assms(2) fits show ?thesis
      by (auto simp: plan_buy_eq [OF assms(1)] Let_def unat_as_u64 unat_div unat_u128_mult
          less_mult_imp_div_less)
  qed (use assms(2) in \<open>auto simp: plan_buy_eq [OF assms(1)] Let_def as_u128_def as_u64_def\<close>)
  show "budget \<le> bp_max_sol_cost p"
    by (simp add: word_le_nat_alt cap add_mult_distrib2)
qed

theorem plan_buy_affordable_witness:
  "\<exists>p. plan_buy mainnet_curve 2000000000 1500000000 100 500 = Some p \<and> unat (bp_max_sol_cost p) = 1575000000
     \<and> (\<exists>sol. unat sol * 10125 \<le> 10000 * unat (1500000000 :: u64)
        \<and> unat (initial_buy_price mainnet_curve 2000000000) + 40000000000000
            \<le> unat (initial_buy_price mainnet_curve (sat_add 2000000000 sol)))"
proof -
  have "\<exists>p. plan_buy mainnet_curve 2000000000 1500000000 100 500 = Some p \<and> 40000000000000 \<le> bp_amount p"
    by (simp add: plan_buy_def mainnet_curve_def total_fee_bps_def tokens_behind_dev_buy_def
        initial_buy_price_def checked_div_def as_u128_def as_u64_def sat_add_def sat_sub_def Let_def)
  then obtain p where p: "plan_buy mainnet_curve 2000000000 1500000000 100 500 = Some p"
    "40000000000000 \<le> unat (bp_amount p)"
    by (auto simp: word_le_nat_alt)
  have "unat (total_fee_bps mainnet_curve) = 125"
    by (simp add: total_fee_bps_def mainnet_curve_def)
  with plan_buy_affordable [OF mainnet_fees_ok p(1)] p show ?thesis
    by (fastforce intro!: exI [of _ p])
qed

text \<open>
  The plan of a \<open>buy_exact_sol_in\<close> spends exactly the budget, and its floor is the expected
  fill less the tolerated slippage, rounded down: never above the expected fill, less than one
  token below the exact share, and zero once everything is tolerated. The expected fill is what
  the curve gives for the budget net of fees on top of the flow ahead.
\<close>

theorem plan_exact_sol_in_floor:
  assumes "fees_ok c" and "plan_exact_sol_in c prior budget slippage = Some p"
  shows "bp_amount p = budget \<and> bp_budget_lamports p = budget
    \<and> unat (initial_buy_price c prior) + unat (bp_expected_tokens p)
        = unat (initial_buy_price c (sat_add prior (curve_sol c budget)))
    \<and> bp_max_sol_cost p \<le> bp_expected_tokens p
    \<and> 10000 * unat (bp_max_sol_cost p) \<le> unat (bp_expected_tokens p) * (10000 - unat slippage)
    \<and> unat (bp_expected_tokens p) * (10000 - unat slippage) < 10000 * (unat (bp_max_sol_cost p) + 1)"
proof -
  define e where "e = tokens_behind_dev_buy c prior (curve_sol c budget)"
  have p: "bp_amount p = budget" "bp_budget_lamports p = budget" "bp_expected_tokens p = e"
    and f: "unat (bp_max_sol_cost p) = unat e * (10000 - unat slippage) div 10000"
    using assms(2) by (auto simp: plan_exact_sol_in_eq [OF assms(1)] Let_def e_def unat_bps_share
        unat_rest_bps)
  have "unat e * (10000 - unat slippage) div 10000 \<le> unat e * 10000 div 10000"
    by (intro div_le_mono mult_le_mono2) simp
  with p f show ?thesis
    using tokens_behind_laws(1) [of c prior "curve_sol c budget"]
    by (auto simp: word_le_nat_alt e_def dividend_less_div_times mult.commute [of 10000]
        div_times_less_eq_dividend)
qed

theorem plan_exact_sol_in_floor_witness:
  "\<exists>p. plan_exact_sol_in mainnet_curve 2000000000 1500000000 640 = Some p \<and> bp_amount p = 1500000000
     \<and> 0 < bp_max_sol_cost p \<and> bp_max_sol_cost p \<le> bp_expected_tokens p"
proof -
  obtain p where p: "plan_exact_sol_in mainnet_curve 2000000000 1500000000 640 = Some p"
    by (simp add: plan_exact_sol_in_eq [OF mainnet_fees_ok] Let_def)
  moreover have "0 < bp_max_sol_cost p"
    using p by (auto simp: plan_exact_sol_in_def mainnet_curve_def total_fee_bps_def tokens_behind_dev_buy_def
        initial_buy_price_def checked_div_def as_u128_def as_u64_def sat_add_def sat_sub_def Let_def)
  ultimately show ?thesis
    using plan_exact_sol_in_floor [OF mainnet_fees_ok p] by auto
qed

text \<open>
  C37: A round trip never profits: selling the tokens a buy of \<open>x\<close> lamports receives on a fresh
  curve straight back, at the reserves that buy leaves behind, returns at most \<open>x\<close>, whatever the
  fees. The valuation the position tracker uses can therefore show a gain only when somebody else
  moved the curve.
\<close>

theorem buy_then_sell_no_profit:
  assumes "unat (initial_virtual_sol_reserves c) + unat x < 2 ^ 64"
  shows "sell_proceeds fees (initial_virtual_sol_reserves c + x)
      (initial_virtual_token_reserves c - initial_buy_price c x) (initial_buy_price c x) \<le> x"
proof -
  define vs vt t where "vs = initial_virtual_sol_reserves c"
    and "vt = initial_virtual_token_reserves c" and "t = initial_buy_price c x"
  have t: "unat t \<le> unat vt"
    by (simp add: t_def vt_def unat_initial_buy_price nat_price_def Let_def min.coboundedI1)
  have sol: "unat (vs + x) = unat vs + unat x"
    using assms by (simp add: vs_def unat_word_ariths)
  have tok: "unat (vt - t) = unat vt - unat t"
    using t by (simp add: unat_sub_if')
  have prod: "unat vs * unat vt \<le> (unat vs + unat x) * (unat vt - unat t)"
    using nat_price_product [of c "unat x"] by (simp add: vs_def vt_def t_def unat_initial_buy_price)
  show ?thesis
  proof (cases "unat vt = 0")
    case True
    then show ?thesis
      using t by (simp add: sell_proceeds_def vt_def [symmetric] t_def [symmetric] unat_eq_zero)
  next
    case False
    have "unat vs \<le> (unat vs + unat x) * (unat vt - unat t) div unat vt"
      using prod False by (simp add: less_eq_div_iff_mult_less_eq)
    then have "nat_gross (unat (vs + x)) (unat (vt - t)) (unat t) \<le> unat x"
      using t by (simp add: nat_gross_def sol tok)
    with sell_proceeds_le_gross [of fees "vs + x" "vt - t" t] show ?thesis
      by (simp add: word_le_nat_alt vs_def vt_def t_def)
  qed
qed

theorem buy_then_sell_no_profit_witness:
  "sell_proceeds mainnet_curve (30000000000 + 1000000000)
     (1073000000000000 - initial_buy_price mainnet_curve 1000000000)
     (initial_buy_price mainnet_curve 1000000000) \<le> 1000000000"
  using buy_then_sell_no_profit [of mainnet_curve 1000000000 mainnet_curve]
  by (simp add: mainnet_curve_def)

end
