(* ===== verification/Pumpfun.thy ===== *)
theory Pumpfun
  imports Bytes Curve
begin

text \<open>
  \<open>sniper/src/pumpfun.rs\<close>: recognising a launch (\<open>parse_create\<close>) and a confirming buy
  (\<open>parse_buy\<close>) in a decoded transaction, and the address derivations. The borsh layout of the
  create arguments is the abstract side; the byte walkers are shown to read it back.

  Of the SDK's transaction types only the fields the parsers touch are kept. The program ids are
  the 32 bytes their base58 constants denote. \<open>Pubkey::find_program_address\<close> belongs to the SDK
  and is the parameter \<open>find_pda\<close> of the derivations.
\<close>

section \<open>Constants\<close>

definition ascii :: "string \<Rightarrow> bytes" where
  "ascii s = map of_char s"

definition PUMP_PROGRAM :: pubkey where
  "PUMP_PROGRAM =
     [1, 86, 224, 246, 147, 102, 90, 207, 68, 219, 21, 104, 191, 23, 91, 170, 81, 137, 203, 151,
      245, 210, 255, 59, 101, 93, 43, 182, 253, 109, 24, 176]"

definition TOKEN_PROGRAM :: pubkey where
  "TOKEN_PROGRAM =
     [6, 221, 246, 225, 215, 101, 161, 147, 217, 203, 225, 70, 206, 235, 121, 172, 28, 180, 133,
      237, 95, 91, 55, 145, 58, 140, 245, 133, 126, 255, 0, 169]"

definition TOKEN_2022_PROGRAM :: pubkey where
  "TOKEN_2022_PROGRAM =
     [6, 221, 246, 225, 238, 117, 143, 222, 24, 66, 93, 188, 228, 108, 205, 218, 182, 26, 252,
      77, 131, 185, 13, 39, 254, 189, 249, 40, 216, 161, 139, 252]"

definition ASSOCIATED_TOKEN_PROGRAM :: pubkey where
  "ASSOCIATED_TOKEN_PROGRAM =
     [140, 151, 37, 143, 78, 36, 137, 241, 187, 61, 16, 41, 20, 142, 13, 131, 11, 90, 19, 153,
      218, 255, 16, 132, 4, 142, 123, 216, 219, 233, 248, 89]"

definition DISC_CREATE :: bytes where "DISC_CREATE = [24, 30, 200, 40, 5, 28, 7, 119]"

definition DISC_CREATE_V2 :: bytes where "DISC_CREATE_V2 = [214, 144, 76, 236, 95, 139, 49, 180]"

definition DISC_BUY :: bytes where "DISC_BUY = [102, 6, 61, 18, 1, 218, 235, 234]"

definition DISC_BUY_V2 :: bytes where "DISC_BUY_V2 = [184, 23, 238, 97, 103, 197, 211, 61]"

definition DISC_BUY_EXACT_SOL_IN :: bytes where
  "DISC_BUY_EXACT_SOL_IN = [56, 252, 116, 8, 158, 223, 205, 95]"

lemmas discs = DISC_CREATE_def DISC_CREATE_V2_def DISC_BUY_def DISC_BUY_V2_def DISC_BUY_EXACT_SOL_IN_def

definition SEED_BONDING_CURVE :: bytes where "SEED_BONDING_CURVE = ascii ''bonding-curve''"

definition SEED_BONDING_CURVE_V2 :: bytes where "SEED_BONDING_CURVE_V2 = ascii ''bonding-curve-v2''"

definition SEED_CREATOR_VAULT :: bytes where "SEED_CREATOR_VAULT = ascii ''creator-vault''"

definition SEED_USER_VOLUME_ACCUMULATOR :: bytes where
  "SEED_USER_VOLUME_ACCUMULATOR = ascii ''user_volume_accumulator''"

section \<open>Transactions\<close>

record CompiledInstruction =
  program_id_index :: u8
  accounts :: bytes
  data :: bytes

datatype VersionedMessage =
    Legacy (message_keys: "pubkey list") (message_instructions: "CompiledInstruction list")
  | V0 (message_keys: "pubkey list") (message_instructions: "CompiledInstruction list")

record VersionedTransaction =
  signatures :: "bytes list"
  message :: VersionedMessage

record PumpCreateInfo =
  pci_mint :: pubkey
  pci_bonding_curve :: pubkey
  pci_associated_bonding_curve :: pubkey
  pci_creator :: pubkey
  pci_user :: pubkey
  pci_token_program :: pubkey
  pci_dev_buy_lamports :: u64
  pci_is_v2 :: bool
  pci_is_mayhem :: bool
  pci_is_cashback :: bool
  pci_is_botlauncher :: bool

record PumpBuyInfo =
  pbi_mint :: pubkey
  pbi_buyer :: pubkey
  pbi_sol_lamports :: u64
  pbi_token_amount :: u64
  pbi_exact_sol :: bool
  pbi_sig8 :: bytes

definition disc :: "bytes \<Rightarrow> bytes option" where
  "disc d = get_range d 0 8"

definition key_at :: "pubkey list \<Rightarrow> CompiledInstruction \<Rightarrow> nat \<Rightarrow> pubkey option" where
  "key_at keys ix pos = do { i \<leftarrow> get_at (accounts ix) pos; get_at keys (unat i) }"

definition is_pump :: "pubkey list \<Rightarrow> CompiledInstruction \<Rightarrow> bool" where
  "is_pump keys ix \<longleftrightarrow> get_at keys (unat (program_id_index ix)) = Some PUMP_PROGRAM"

section \<open>Create arguments\<close>

text \<open>One step of the loop over length-prefixed strings: read the length, jump behind the string.\<close>

definition string_end :: "bytes \<Rightarrow> nat \<Rightarrow> nat option" where
  "string_end d off = do {
     b \<leftarrow> get_range d off (off + 4);
     checked_add_usize off (4 + unat (u32_from_le b))
   }"

definition creator_after_strings :: "bytes \<Rightarrow> pubkey option" where
  "creator_after_strings d = do {
     off \<leftarrow> walk_times 3 string_end d 8;
     get_range d off (off + 32)
   }"

definition BOTLAUNCHER_HOSTS :: "bytes list" where
  "BOTLAUNCHER_HOSTS = map ascii [''uxento'', ''j7tracker'', ''rapidlaunch'', ''vortex'', ''bloom'']"

definition uri_is_botlauncher :: "bytes \<Rightarrow> bool" where
  "uri_is_botlauncher d =
     (case walk_times 2 string_end d 8 of
        None \<Rightarrow> False
      | Some off \<Rightarrow>
          (case get_range d off (off + 4) of
             None \<Rightarrow> False
           | Some b \<Rightarrow>
               (case get_range d (off + 4) (off + 4 + unat (u32_from_le b)) of
                  None \<Rightarrow> False
                | Some uri \<Rightarrow> (\<exists>h \<in> set BOTLAUNCHER_HOSTS. contains_window uri h))))"

definition flag_tail :: "bytes \<Rightarrow> bytes option" where
  "flag_tail d = do {
     off \<leftarrow> walk_times 3 string_end d 8;
     Some (drop (min (length d) (off + 32)) d)
   }"

definition mayhem_flag :: "bytes \<Rightarrow> bool" where
  "mayhem_flag d = (case flag_tail d of None \<Rightarrow> False | Some t \<Rightarrow> t \<noteq> [] \<and> t ! 0 = 1)"

definition cashback_flag :: "bytes \<Rightarrow> bool" where
  "cashback_flag d = (case flag_tail d of None \<Rightarrow> False | Some t \<Rightarrow> length t \<ge> 2 \<and> t ! 1 = 1)"

section \<open>Reading a create\<close>

definition unwrap_or :: "'a option \<Rightarrow> 'a \<Rightarrow> 'a" where
  "unwrap_or x d = (case x of None \<Rightarrow> d | Some y \<Rightarrow> y)"

definition read_create_v2 :: "pubkey list \<Rightarrow> CompiledInstruction \<Rightarrow> PumpCreateInfo option" where
  "read_create_v2 keys ix = do {
     mint \<leftarrow> key_at keys ix 0;
     curve \<leftarrow> key_at keys ix 2;
     assoc \<leftarrow> key_at keys ix 3;
     creator \<leftarrow> creator_after_strings (data ix);
     user \<leftarrow> key_at keys ix 5;
     Some \<lparr>pci_mint = mint, pci_bonding_curve = curve, pci_associated_bonding_curve = assoc,
       pci_creator = creator, pci_user = user,
       pci_token_program = unwrap_or (key_at keys ix 7) TOKEN_2022_PROGRAM,
       pci_dev_buy_lamports = 0, pci_is_v2 = True, pci_is_mayhem = mayhem_flag (data ix),
       pci_is_cashback = cashback_flag (data ix),
       pci_is_botlauncher = uri_is_botlauncher (data ix)\<rparr>
   }"

definition read_create :: "pubkey list \<Rightarrow> CompiledInstruction \<Rightarrow> PumpCreateInfo option" where
  "read_create keys ix = do {
     mint \<leftarrow> key_at keys ix 0;
     curve \<leftarrow> key_at keys ix 2;
     assoc \<leftarrow> key_at keys ix 3;
     creator \<leftarrow> creator_after_strings (data ix);
     user \<leftarrow> key_at keys ix 7;
     Some \<lparr>pci_mint = mint, pci_bonding_curve = curve, pci_associated_bonding_curve = assoc,
       pci_creator = creator, pci_user = user,
       pci_token_program = unwrap_or (key_at keys ix 9) TOKEN_PROGRAM,
       pci_dev_buy_lamports = 0, pci_is_v2 = False, pci_is_mayhem = False,
       pci_is_cashback = False, pci_is_botlauncher = uri_is_botlauncher (data ix)\<rparr>
   }"

text \<open>
  The loop of \<open>parse_create\<close> over the instructions, with the local variables \<open>info\<close> and
  \<open>dev_buy_lamports\<close>. The last component is the static counter \<open>UNRESOLVED_CREATES\<close>.
\<close>

fun create_loop :: "pubkey list \<Rightarrow> CompiledInstruction list \<Rightarrow> PumpCreateInfo option \<Rightarrow> u64 \<Rightarrow> u64 \<Rightarrow>
    PumpCreateInfo option \<times> u64" where
  "create_loop keys [] info dev unresolved =
     (map_option (\<lambda>i. i\<lparr>pci_dev_buy_lamports := dev\<rparr>) info, unresolved)"
| "create_loop keys (ix # ixs) info dev unresolved =
     (if \<not> is_pump keys ix then create_loop keys ixs info dev unresolved
      else case disc (data ix) of
        None \<Rightarrow> create_loop keys ixs info dev unresolved
      | Some d \<Rightarrow>
          if d = DISC_CREATE_V2 then
            (case read_create_v2 keys ix of
               Some i \<Rightarrow> create_loop keys ixs (Some i) dev unresolved
             | None \<Rightarrow> (None, unresolved + 1))
          else if d = DISC_CREATE then
            (case read_create keys ix of
               Some i \<Rightarrow> create_loop keys ixs (Some i) dev unresolved
             | None \<Rightarrow> (None, unresolved + 1))
          else if d = DISC_BUY \<or> d = DISC_BUY_V2 then
            (case get_range (data ix) 16 24 of
               Some b \<Rightarrow> create_loop keys ixs info (u64_from_le b) unresolved
             | None \<Rightarrow> create_loop keys ixs info dev unresolved)
          else if d = DISC_BUY_EXACT_SOL_IN then
            (case get_range (data ix) 8 16 of
               Some b \<Rightarrow> create_loop keys ixs info (u64_from_le b) unresolved
             | None \<Rightarrow> create_loop keys ixs info dev unresolved)
          else create_loop keys ixs info dev unresolved)"

definition parse_create :: "VersionedTransaction \<Rightarrow> u64 \<Rightarrow> PumpCreateInfo option \<times> u64" where
  "parse_create tx unresolved =
     create_loop (message_keys (message tx)) (message_instructions (message tx)) None 0 unresolved"

section \<open>Reading a buy\<close>

definition has_create :: "pubkey list \<Rightarrow> CompiledInstruction list \<Rightarrow> bool" where
  "has_create keys ixs \<longleftrightarrow>
     (\<exists>ix \<in> set ixs. is_pump keys ix
        \<and> (disc (data ix) = Some DISC_CREATE \<or> disc (data ix) = Some DISC_CREATE_V2))"

definition arg_u64 :: "CompiledInstruction \<Rightarrow> nat \<Rightarrow> nat \<Rightarrow> u64 option" where
  "arg_u64 ix a b = map_option u64_from_le (get_range (data ix) a b)"

fun buy_loop :: "pubkey list \<Rightarrow> bytes list \<Rightarrow> CompiledInstruction list \<Rightarrow> PumpBuyInfo option" where
  "buy_loop keys sigs [] = None"
| "buy_loop keys sigs (ix # ixs) =
     (if \<not> is_pump keys ix then buy_loop keys sigs ixs
      else case disc (data ix) of
        None \<Rightarrow> buy_loop keys sigs ixs
      | Some d \<Rightarrow>
          if d \<noteq> DISC_BUY \<and> d \<noteq> DISC_BUY_V2 \<and> d \<noteq> DISC_BUY_EXACT_SOL_IN then buy_loop keys sigs ixs
          else do {
            (sol, token_amount, exact_sol) \<leftarrow>
              (if d = DISC_BUY_EXACT_SOL_IN
               then do { s \<leftarrow> arg_u64 ix 8 16; t \<leftarrow> arg_u64 ix 16 24; Some (s, t, True) }
               else do { s \<leftarrow> arg_u64 ix 16 24; t \<leftarrow> arg_u64 ix 8 16; Some (s, t, False) });
            mint \<leftarrow> key_at keys ix 2;
            buyer \<leftarrow> get_at keys 0;
            let sig8 = (case sigs of [] \<Rightarrow> replicate 8 0 | s # _ \<Rightarrow> take 8 s);
            Some \<lparr>pbi_mint = mint, pbi_buyer = buyer, pbi_sol_lamports = sol,
              pbi_token_amount = token_amount, pbi_exact_sol = exact_sol, pbi_sig8 = sig8\<rparr>
          })"

definition parse_buy :: "VersionedTransaction \<Rightarrow> PumpBuyInfo option" where
  "parse_buy tx =
     (let keys = message_keys (message tx); ixs = message_instructions (message tx)
      in if has_create keys ixs then None else buy_loop keys (signatures tx) ixs)"

section \<open>Address derivation\<close>

type_synonym find_pda = "bytes list \<Rightarrow> pubkey \<Rightarrow> pubkey"

definition creator_vault :: "find_pda \<Rightarrow> pubkey \<Rightarrow> pubkey" where
  "creator_vault find_pda creator = find_pda [SEED_CREATOR_VAULT, creator] PUMP_PROGRAM"

definition bonding_curve_v2 :: "find_pda \<Rightarrow> pubkey \<Rightarrow> pubkey" where
  "bonding_curve_v2 find_pda mint = find_pda [SEED_BONDING_CURVE_V2, mint] PUMP_PROGRAM"

definition bonding_curve_address :: "find_pda \<Rightarrow> pubkey \<Rightarrow> pubkey" where
  "bonding_curve_address find_pda mint = find_pda [SEED_BONDING_CURVE, mint] PUMP_PROGRAM"

definition user_volume_accumulator :: "find_pda \<Rightarrow> pubkey \<Rightarrow> pubkey" where
  "user_volume_accumulator find_pda user = find_pda [SEED_USER_VOLUME_ACCUMULATOR, user] PUMP_PROGRAM"

definition associated_token_address :: "find_pda \<Rightarrow> pubkey \<Rightarrow> pubkey \<Rightarrow> pubkey \<Rightarrow> pubkey" where
  "associated_token_address find_pda owner token_program mint =
     find_pda [owner, token_program, mint] ASSOCIATED_TOKEN_PROGRAM"

section \<open>The borsh layout of the create arguments\<close>

definition borsh_string :: "bytes \<Rightarrow> bytes" where
  "borsh_string s = nat_le 4 (length s) @ s"

definition create_args :: "bytes \<Rightarrow> bytes \<Rightarrow> bytes \<Rightarrow> bytes \<Rightarrow> pubkey \<Rightarrow> bytes \<Rightarrow> bytes" where
  "create_args d8 name symbol uri creator flags =
     d8 @ borsh_string name @ borsh_string symbol @ borsh_string uri @ creator @ flags"

definition wf_args :: "bytes \<Rightarrow> bytes \<Rightarrow> bytes \<Rightarrow> bytes \<Rightarrow> pubkey \<Rightarrow> bytes \<Rightarrow> bool" where
  "wf_args d8 name symbol uri creator flags \<longleftrightarrow>
     length d8 = 8 \<and> length name < 2 ^ 32 \<and> length symbol < 2 ^ 32 \<and> length uri < 2 ^ 32
     \<and> wf_key creator \<and> fits (create_args d8 name symbol uri creator flags)"

lemma u32_from_le_nat_le: "n < 2 ^ 32 \<Longrightarrow> unat (u32_from_le (nat_le 4 n)) = n"
  by (simp add: unat_u32_from_le le_nat_nat_le)

lemma at_pos_prefix_slice:
  "at_pos d off (nat_le 4 n) \<Longrightarrow> get_range d off (off + 4) = Some (nat_le 4 n)"
  by (simp add: at_pos_def)

lemma string_end_at:
  assumes "at_pos d off (borsh_string s)" "length s < 2 ^ 32" "fits d"
  shows "string_end d off = Some (off + length (borsh_string s))"
proof -
  have "get_range d off (off + 4) = Some (nat_le 4 (length s))"
    using assms(1) by (intro at_pos_prefix_slice) (simp add: borsh_string_def)
  moreover have "off + (4 + length s) \<le> length d"
    using assms(1) by (auto simp: borsh_string_def dest: at_pos_bound)
  ultimately show ?thesis
    using assms(2,3)
    by (simp add: string_end_def borsh_string_def u32_from_le_nat_le checked_add_usize_def fits_def
        del: get_range_Some_iff)
qed

lemma create_args_layout:
  assumes "wf_args d8 name symbol uri creator flags"
  defines "d \<equiv> create_args d8 name symbol uri creator flags"
  defines "u \<equiv> 16 + length name + length symbol"
  shows "walk_times 2 string_end d 8 = Some u"
    and "walk_times 3 string_end d 8 = Some (u + 4 + length uri)"
    and "at_pos d u (borsh_string uri)"
    and "at_pos d (u + 4 + length uri) creator"
    and "length d = u + 4 + length uri + 32 + length flags"
    and "drop (u + 4 + length uri + 32) d = flags"
proof -
  have f: "fits d" and l8: "length d8 = 8" and lc: "length creator = 32"
    and ln: "length name < 2 ^ 32" "length symbol < 2 ^ 32" "length uri < 2 ^ 32"
    using assms(1) by (auto simp: wf_args_def d_def wf_key_def)
  have "at_pos d 0 d"
    by (simp add: at_pos_def)
  then have a: "at_pos d 8 (borsh_string name)" "at_pos d (12 + length name) (borsh_string symbol)"
    "at_pos d u (borsh_string uri)" "at_pos d (u + 4 + length uri) creator"
    using l8 by (simp_all add: d_def create_args_def borsh_string_def u_def ac_simps)
  show "walk_times 2 string_end d 8 = Some u"
    using string_end_at [OF a(1) ln(1) f] string_end_at [OF a(2) ln(2) f]
    by (simp add: numeral_2_eq_2 borsh_string_def u_def)
  show "walk_times 3 string_end d 8 = Some (u + 4 + length uri)"
    using string_end_at [OF a(1) ln(1) f] string_end_at [OF a(2) ln(2) f] string_end_at [OF a(3) ln(3) f]
    by (simp add: numeral_3_eq_3 borsh_string_def u_def add.assoc)
  show "at_pos d u (borsh_string uri)" "at_pos d (u + 4 + length uri) creator"
    by (fact a)+
  show "length d = u + 4 + length uri + 32 + length flags"
    using l8 lc by (simp add: d_def create_args_def borsh_string_def u_def)
  show "drop (u + 4 + length uri + 32) d = flags"
    using l8 lc by (simp add: d_def create_args_def borsh_string_def u_def)
qed

lemma hosts_nonempty: "h \<in> set BOTLAUNCHER_HOSTS \<Longrightarrow> h \<noteq> []"
  by (auto simp: BOTLAUNCHER_HOSTS_def ascii_def)

lemma create_args_read:
  assumes "wf_args d8 name symbol uri creator flags"
  defines "d \<equiv> create_args d8 name symbol uri creator flags"
  shows "creator_after_strings d = Some creator"
    and "flag_tail d = Some flags"
    and "uri_is_botlauncher d \<longleftrightarrow> (\<exists>h \<in> set BOTLAUNCHER_HOSTS. \<exists>pre suf. uri = pre @ h @ suf)"
proof -
  note lay = create_args_layout [OF assms(1), folded d_def]
  let ?u = "16 + length name + length symbol"
  have lc: "length creator = 32" and lu: "length uri < 2 ^ 32"
    using assms(1) by (auto simp: wf_args_def wf_key_def)
  show "creator_after_strings d = Some creator"
    using lay(2,4) lc by (auto simp: creator_after_strings_def at_pos_def)
  show "flag_tail d = Some flags"
    using lay(2,5,6) by (auto simp: flag_tail_def min_def)
  have "get_range d ?u (?u + 4) = Some (nat_le 4 (length uri))"
    using lay(3) by (intro at_pos_prefix_slice) (simp add: borsh_string_def)
  moreover have "get_range d (?u + 4) (?u + 4 + length uri) = Some uri"
  proof -
    have "at_pos d (?u + 4) uri"
      using lay(3) by (simp add: borsh_string_def add.commute)
    then show ?thesis
      by (simp add: at_pos_def)
  qed
  ultimately show "uri_is_botlauncher d \<longleftrightarrow> (\<exists>h \<in> set BOTLAUNCHER_HOSTS. \<exists>pre suf. uri = pre @ h @ suf)"
    using lay(1) lu hosts_nonempty
    by (auto simp: uri_is_botlauncher_def u32_from_le_nat_le contains_window_iff simp del: get_range_Some_iff)
qed

section \<open>The parsers against their specification\<close>

definition is_create :: "pubkey list \<Rightarrow> CompiledInstruction \<Rightarrow> bool" where
  "is_create keys ix \<longleftrightarrow> is_pump keys ix
     \<and> (disc (data ix) = Some DISC_CREATE \<or> disc (data ix) = Some DISC_CREATE_V2)"

definition read_any :: "pubkey list \<Rightarrow> CompiledInstruction \<Rightarrow> PumpCreateInfo option" where
  "read_any keys ix =
     (if disc (data ix) = Some DISC_CREATE_V2 then read_create_v2 keys ix else read_create keys ix)"

definition is_buy_disc :: "bytes option \<Rightarrow> bool" where
  "is_buy_disc d \<longleftrightarrow> d = Some DISC_BUY \<or> d = Some DISC_BUY_V2 \<or> d = Some DISC_BUY_EXACT_SOL_IN"

text \<open>The lamports a buy instruction carries, if it is one and long enough.\<close>

definition buy_sol :: "pubkey list \<Rightarrow> CompiledInstruction \<Rightarrow> u64 option" where
  "buy_sol keys ix =
     (if is_pump keys ix \<and> is_buy_disc (disc (data ix))
      then if disc (data ix) = Some DISC_BUY_EXACT_SOL_IN then arg_u64 ix 8 16 else arg_u64 ix 16 24
      else None)"

lemma discs_distinct [simp]:
  "DISC_CREATE \<noteq> DISC_CREATE_V2" "DISC_CREATE_V2 \<noteq> DISC_CREATE"
  "DISC_BUY \<noteq> DISC_CREATE" "DISC_BUY \<noteq> DISC_CREATE_V2"
  "DISC_BUY_V2 \<noteq> DISC_CREATE" "DISC_BUY_V2 \<noteq> DISC_CREATE_V2"
  "DISC_BUY_EXACT_SOL_IN \<noteq> DISC_CREATE" "DISC_BUY_EXACT_SOL_IN \<noteq> DISC_CREATE_V2"
  "DISC_BUY_EXACT_SOL_IN \<noteq> DISC_BUY" "DISC_BUY_EXACT_SOL_IN \<noteq> DISC_BUY_V2"
  "DISC_BUY \<noteq> DISC_BUY_EXACT_SOL_IN" "DISC_BUY_V2 \<noteq> DISC_BUY_EXACT_SOL_IN"
  by (simp_all add: discs)

lemma create_loop_step:
  "create_loop keys (ix # ixs) info dev n =
     (if is_create keys ix then
        (case read_any keys ix of None \<Rightarrow> (None, n + 1) | Some i \<Rightarrow> create_loop keys ixs (Some i) dev n)
      else case buy_sol keys ix of
        None \<Rightarrow> create_loop keys ixs info dev n
      | Some s \<Rightarrow> create_loop keys ixs info s n)"
  by (auto simp: is_create_def read_any_def buy_sol_def is_buy_disc_def arg_u64_def
      split: option.splits)

lemma create_loop_eq:
  "create_loop keys ixs info dev n =
     (let cs = filter (is_create keys) ixs in
      if \<exists>ix \<in> set cs. read_any keys ix = None then (None, n + 1)
      else (map_option (\<lambda>i. i\<lparr>pci_dev_buy_lamports := last (dev # List.map_filter (buy_sol keys) ixs)\<rparr>)
              (if cs = [] then info else read_any keys (last cs)), n))"
proof (induction ixs arbitrary: info dev)
  case (Cons ix ixs)
  have b: "is_create keys ix \<Longrightarrow> buy_sol keys ix = None"
    by (auto simp: is_create_def buy_sol_def is_buy_disc_def)
  show ?case
    unfolding create_loop_step
    by (cases "is_create keys ix"; cases "read_any keys ix"; cases "buy_sol keys ix")
      (auto simp: Cons.IH map_filter_simps Let_def b)
qed (simp add: map_filter_simps)

lemma has_create_iff: "has_create keys ixs \<longleftrightarrow> filter (is_create keys) ixs \<noteq> []"
  by (auto simp: has_create_def is_create_def filter_empty_conv)

lemma key_at_wf: "\<forall>k \<in> set keys. wf_key k \<Longrightarrow> key_at keys ix pos = Some k \<Longrightarrow> wf_key k"
  by (auto simp: key_at_def)

lemma creator_wf: "creator_after_strings d = Some k \<Longrightarrow> wf_key k"
  by (auto simp: creator_after_strings_def wf_key_def)

lemma programs_wf [simp]: "wf_key PUMP_PROGRAM" "wf_key TOKEN_PROGRAM" "wf_key TOKEN_2022_PROGRAM"
  by (simp_all add: wf_key_def PUMP_PROGRAM_def TOKEN_PROGRAM_def TOKEN_2022_PROGRAM_def)

definition wf_create :: "PumpCreateInfo \<Rightarrow> bool" where
  "wf_create i \<longleftrightarrow> wf_key (pci_mint i) \<and> wf_key (pci_bonding_curve i)
     \<and> wf_key (pci_associated_bonding_curve i) \<and> wf_key (pci_creator i) \<and> wf_key (pci_user i)
     \<and> wf_key (pci_token_program i)"

lemma unwrap_key_wf:
  "\<forall>k \<in> set keys. wf_key k \<Longrightarrow> wf_key p \<Longrightarrow> wf_key (unwrap_or (key_at keys ix pos) p)"
  by (auto simp: unwrap_or_def dest: key_at_wf split: option.splits)

lemma read_any_wf:
  "\<forall>k \<in> set keys. wf_key k \<Longrightarrow> read_any keys ix = Some i \<Longrightarrow> wf_create i"
  by (auto simp: read_any_def read_create_v2_def read_create_def wf_create_def unwrap_key_wf
      dest: key_at_wf creator_wf split: if_splits)


lemma buy_loop_first:
  assumes "buy_loop keys sigs ixs = Some b"
  shows "\<exists>pre ix post. ixs = pre @ ix # post
     \<and> (\<forall>i \<in> set pre. \<not> (is_pump keys i \<and> is_buy_disc (disc (data i))))
     \<and> is_pump keys ix \<and> is_buy_disc (disc (data ix))
     \<and> key_at keys ix 2 = Some (pbi_mint b) \<and> get_at keys 0 = Some (pbi_buyer b)
     \<and> buy_sol keys ix = Some (pbi_sol_lamports b)
     \<and> (pbi_exact_sol b \<longleftrightarrow> disc (data ix) = Some DISC_BUY_EXACT_SOL_IN)
     \<and> pbi_token_amount b
         = u64_from_le (if pbi_exact_sol b then slice (data ix) 16 24 else slice (data ix) 8 16)
     \<and> pbi_sig8 b = (case sigs of [] \<Rightarrow> replicate 8 0 | s # _ \<Rightarrow> take 8 s)"
  using assms
proof (induction ixs)
  case (Cons ix ixs)
  show ?case
  proof (cases "is_pump keys ix \<and> is_buy_disc (disc (data ix))")
    case True
    with Cons.prems show ?thesis
      by (intro exI [of _ "[]"] exI [of _ ix] exI [of _ ixs])
        (auto simp: is_buy_disc_def buy_sol_def arg_u64_def Let_def simp del: get_at_Some_iff)
  next
    case False
    with Cons.prems have "buy_loop keys sigs ixs = Some b"
      by (auto simp: is_buy_disc_def split: if_splits option.splits)
    from Cons.IH [OF this] obtain pre ix' post where split: "ixs = pre @ ix' # post"
      and rest: "\<forall>i \<in> set pre. \<not> (is_pump keys i \<and> is_buy_disc (disc (data i)))"
        "is_pump keys ix' \<and> is_buy_disc (disc (data ix'))
     \<and> key_at keys ix' 2 = Some (pbi_mint b) \<and> get_at keys 0 = Some (pbi_buyer b)
     \<and> buy_sol keys ix' = Some (pbi_sol_lamports b)
     \<and> (pbi_exact_sol b \<longleftrightarrow> disc (data ix') = Some DISC_BUY_EXACT_SOL_IN)
     \<and> pbi_token_amount b
         = u64_from_le (if pbi_exact_sol b then slice (data ix') 16 24 else slice (data ix') 8 16)
     \<and> pbi_sig8 b = (case sigs of [] \<Rightarrow> replicate 8 0 | s # _ \<Rightarrow> take 8 s)"
      by blast
    have "ix # ixs = (ix # pre) @ ix' # post" "\<forall>i \<in> set (ix # pre). \<not> (is_pump keys i \<and> is_buy_disc (disc (data i)))"
      using split rest(1) False by auto
    with rest(2) show ?thesis by blast
  qed
qed simp

lemma parse_create_detects:
  assumes "has_create (message_keys (message tx)) (message_instructions (message tx))"
  shows "parse_create tx n \<noteq> (None, n)"
proof -
  let ?cs = "filter (is_create (message_keys (message tx))) (message_instructions (message tx))"
  have "?cs \<noteq> []"
    using assms by (simp add: has_create_iff)
  then have "last ?cs \<in> set ?cs"
    by (rule last_in_set)
  then show ?thesis
    using \<open>?cs \<noteq> []\<close> by (auto simp: parse_create_def create_loop_eq Let_def split: if_splits)
qed

section \<open>Properties\<close>

text \<open>
  C22: The create arguments are read back from their borsh layout for every name, symbol, uri,
  creator and every tail of flag bytes: the creator does not depend on how many flag bytes
  follow, the two flags are the first and second of them when present, and the launcher test is
  whether the uri contains one of the known hosts.
\<close>

theorem create_args_round_trip:
  assumes "wf_args d8 name symbol uri creator flags"
  shows "creator_after_strings (create_args d8 name symbol uri creator flags) = Some creator
    \<and> (mayhem_flag (create_args d8 name symbol uri creator flags) \<longleftrightarrow> (\<exists>r. flags = 1 # r))
    \<and> (cashback_flag (create_args d8 name symbol uri creator flags) \<longleftrightarrow> (\<exists>m r. flags = m # 1 # r))
    \<and> (uri_is_botlauncher (create_args d8 name symbol uri creator flags)
         \<longleftrightarrow> (\<exists>h \<in> set BOTLAUNCHER_HOSTS. \<exists>pre suf. uri = pre @ h @ suf))"
proof (intro conjI)
  note read = create_args_read [OF assms]
  show "mayhem_flag (create_args d8 name symbol uri creator flags) \<longleftrightarrow> (\<exists>r. flags = 1 # r)"
    unfolding mayhem_flag_def read(2) by (cases flags) auto
  show "cashback_flag (create_args d8 name symbol uri creator flags) \<longleftrightarrow> (\<exists>m r. flags = m # 1 # r)"
    unfolding cashback_flag_def read(2) by (cases flags rule: remdups_adj.cases) auto
qed (rule create_args_read [OF assms])+

theorem create_args_round_trip_witness:
  "cashback_flag (create_args DISC_CREATE_V2 (ascii ''Coin'') (ascii ''C'') (ascii ''https://uxento.io/x'')
      (replicate 32 7) [0, 1])
   \<and> creator_after_strings (create_args DISC_CREATE_V2 (ascii ''Coin'') (ascii ''C'')
       (ascii ''https://uxento.io/x'') (replicate 32 7) [0, 1]) = Some (replicate 32 7)"
proof -
  have "wf_args DISC_CREATE_V2 (ascii ''Coin'') (ascii ''C'') (ascii ''https://uxento.io/x'')
      (replicate 32 7) [0, 1]"
    by (simp add: wf_args_def wf_key_def fits_def create_args_def borsh_string_def DISC_CREATE_V2_def ascii_def)
  from create_args_round_trip [OF this] show ?thesis
    by blast
qed

text \<open>
  \<open>parse_create\<close> accounts for every create: a transaction with a pump.fun create either yields
  the launch and leaves the counter of unresolved creates alone, or yields nothing and counts one;
  a transaction without one yields nothing and counts nothing. The launch is the last create of
  the transaction, with the lamports of its last dev buy (zero when there is none).
\<close>

theorem parse_create_accounts:
  "parse_create tx n =
    (let keys = message_keys (message tx); ixs = message_instructions (message tx);
         cs = filter (is_create keys) ixs
     in if cs = [] then (None, n)
        else if \<exists>ix \<in> set cs. read_any keys ix = None then (None, n + 1)
        else (map_option
               (\<lambda>i. i\<lparr>pci_dev_buy_lamports := last (0 # List.map_filter (buy_sol keys) ixs)\<rparr>)
               (read_any keys (last cs)), n))"
  by (auto simp: parse_create_def create_loop_eq Let_def filter_empty_conv)

text \<open>
  A transaction is never both a launch and a confirming buy: whenever \<open>parse_create\<close> finds a
  launch or counts an unresolved one, \<open>parse_buy\<close> returns nothing. Every address of a launch is
  32 bytes long when the static keys are.
\<close>

theorem create_excludes_buy:
  assumes "parse_create tx n \<noteq> (None, n)"
  shows "parse_buy tx = None
    \<and> (\<forall>i. fst (parse_create tx n) = Some i \<and> (\<forall>k \<in> set (message_keys (message tx)). wf_key k)
          \<longrightarrow> wf_create i)"
proof -
  let ?keys = "message_keys (message tx)" and ?ixs = "message_instructions (message tx)"
  have c: "filter (is_create ?keys) ?ixs \<noteq> []"
    using assms by (auto simp: parse_create_def create_loop_eq Let_def filter_empty_conv split: if_splits)
  then have "parse_buy tx = None"
    by (simp add: parse_buy_def has_create_iff Let_def)
  moreover have "wf_create i" if res: "fst (parse_create tx n) = Some i" and wf: "\<forall>k \<in> set ?keys. wf_key k" for i
  proof -
    obtain ix i0 d where "read_any ?keys ix = Some i0" "i = i0\<lparr>pci_dev_buy_lamports := d\<rparr>"
      using res c by (auto simp: parse_create_def create_loop_eq Let_def split: if_splits)
    with read_any_wf [OF wf] show ?thesis
      by (auto simp: wf_create_def)
  qed
  ultimately show ?thesis
    by blast
qed

definition sample_create_ix :: CompiledInstruction where
  "sample_create_ix = \<lparr>program_id_index = 1, accounts = [0, 0, 0, 0, 0, 0, 0, 0],
     data = create_args DISC_CREATE_V2 (ascii ''Coin'') (ascii ''C'') (ascii ''https://uxento.io/x'')
       (replicate 32 7) [0, 1]\<rparr>"

definition sample_buy_ix :: CompiledInstruction where
  "sample_buy_ix = \<lparr>program_id_index = 1, accounts = [0, 0, 1],
     data = DISC_BUY @ u64_to_le 5000 @ u64_to_le 2000000000\<rparr>"

definition sample_keys :: "pubkey list" where
  "sample_keys = [replicate 32 3, PUMP_PROGRAM]"

lemma sample_discs:
  "disc (data sample_create_ix) = Some DISC_CREATE_V2" "disc (data sample_buy_ix) = Some DISC_BUY"
  "is_pump sample_keys sample_buy_ix" "is_pump sample_keys sample_create_ix"
  by (simp_all add: disc_def sample_create_ix_def sample_buy_ix_def create_args_def slice_def
      DISC_CREATE_V2_def DISC_BUY_def is_pump_def sample_keys_def)

lemma sample_buy:
  "parse_buy \<lparr>signatures = [], message = V0 sample_keys [sample_buy_ix]\<rparr> =
     Some \<lparr>pbi_mint = PUMP_PROGRAM, pbi_buyer = replicate 32 3, pbi_sol_lamports = 2000000000,
       pbi_token_amount = 5000, pbi_exact_sol = False, pbi_sig8 = replicate 8 0\<rparr>"
proof -
  have "length (data sample_buy_ix) = 24" "slice (data sample_buy_ix) 16 24 = u64_to_le 2000000000"
    "slice (data sample_buy_ix) 8 16 = u64_to_le 5000"
    by (simp_all add: sample_buy_ix_def slice_def DISC_BUY_def)
  then have "arg_u64 sample_buy_ix 16 24 = Some 2000000000" "arg_u64 sample_buy_ix 8 16 = Some 5000"
    by (simp_all add: arg_u64_def get_range_def)
  then show ?thesis
    by (simp add: parse_buy_def has_create_def sample_discs key_at_def sample_keys_def [symmetric])
      (simp add: sample_buy_ix_def sample_keys_def get_at_def)
qed

theorem create_excludes_buy_witness:
  "parse_buy \<lparr>signatures = [], message = V0 sample_keys [sample_create_ix, sample_buy_ix]\<rparr> = None"
proof -
  let ?tx = "\<lparr>signatures = [], message = V0 sample_keys [sample_create_ix, sample_buy_ix]\<rparr>"
  have "is_create sample_keys sample_create_ix"
    by (simp add: is_create_def sample_discs)
  then have "parse_create ?tx 0 \<noteq> (None, 0)"
    by (intro parse_create_detects) (simp add: has_create_iff)
  from create_excludes_buy [OF this] show ?thesis
    by blast
qed

text \<open>
  \<open>parse_buy\<close> returns the first pump.fun buy of the transaction and nothing else: no earlier
  instruction is one, the mint is its third account, the buyer is the fee payer, the lamports are
  the cap of a classic buy or the exact amount of a \<open>buy_exact_sol_in\<close>, and the deduplication key
  is the head of the first signature.
\<close>

theorem parse_buy_first:
  assumes "parse_buy tx = Some b"
  defines "keys \<equiv> message_keys (message tx)"
  shows "\<exists>pre ix post. message_instructions (message tx) = pre @ ix # post
     \<and> (\<forall>i \<in> set pre. \<not> (is_pump keys i \<and> is_buy_disc (disc (data i))))
     \<and> is_pump keys ix \<and> is_buy_disc (disc (data ix))
     \<and> key_at keys ix 2 = Some (pbi_mint b) \<and> get_at keys 0 = Some (pbi_buyer b)
     \<and> buy_sol keys ix = Some (pbi_sol_lamports b)
     \<and> (pbi_exact_sol b \<longleftrightarrow> disc (data ix) = Some DISC_BUY_EXACT_SOL_IN)
     \<and> pbi_token_amount b
         = u64_from_le (if pbi_exact_sol b then slice (data ix) 16 24 else slice (data ix) 8 16)
     \<and> pbi_sig8 b = (case signatures tx of [] \<Rightarrow> replicate 8 0 | s # _ \<Rightarrow> take 8 s)"
  using assms by (intro buy_loop_first) (auto simp: parse_buy_def Let_def split: if_splits)


theorem parse_buy_first_witness:
  "\<exists>pre ix post. [sample_buy_ix] = pre @ ix # post \<and> buy_sol sample_keys ix = Some 2000000000"
  using parse_buy_first [OF sample_buy] by auto


end
