(* ===== verification/Wire.thy ===== *)
theory Wire
  imports Bytes
begin

text \<open>
  \<open>sniper/src/wire.rs\<close>: walking a serialized \<open>Vec<Entry>\<close> without deserializing it. The operations
  are the cursor primitives, the transaction walker \<open>transaction_end\<close> and \<open>transactions_at\<close>,
  which decodes only the transactions whose byte span holds one of the given offsets.

  The abstract side is the wire format itself: \<open>wire_tx\<close> with its serialization \<open>enc_tx\<close>, and the
  serialization \<open>enc_payload\<close> of a whole segment. The walker is shown to accept exactly that
  format. \<open>bincode::deserialize\<close> is not part of the repository and is the parameter \<open>deserialize\<close>.
\<close>

unbundle bit_operations_syntax

section \<open>Cursor primitives\<close>

text \<open>A \<open>&mut usize\<close> cursor is passed in and returned; every caller propagates a \<open>None\<close>.\<close>

definition u16_try_from :: "u32 \<Rightarrow> u16 option" where
  "u16_try_from v = (if v \<le> 0xFFFF then Some (ucast v) else None)"

fun compact_over :: "nat list \<Rightarrow> bytes \<Rightarrow> nat \<Rightarrow> u32 \<Rightarrow> (u16 \<times> nat) option" where
  "compact_over [] buf pos value = None"
| "compact_over (i # is) buf pos value = do {
     byte \<leftarrow> get_at buf pos;
     let pos = pos + 1;
     let value = value OR push_bit (i * 7) (ucast (byte AND 0x7f));
     if byte AND 0x80 = 0 then
       (if i > 0 \<and> byte = 0 then None else map_option (\<lambda>v. (v, pos)) (u16_try_from value))
     else compact_over is buf pos value
   }"

definition read_compact_u16 :: "bytes \<Rightarrow> nat \<Rightarrow> (u16 \<times> nat) option" where
  "read_compact_u16 buf pos = compact_over [0 ..< 3] buf pos 0"

definition read_u64 :: "bytes \<Rightarrow> nat \<Rightarrow> (u64 \<times> nat) option" where
  "read_u64 buf pos = do {
     b \<leftarrow> get_range buf pos (pos + 8);
     Some (u64_from_le b, pos + 8)
   }"

definition skip_bytes :: "bytes \<Rightarrow> nat \<Rightarrow> nat \<Rightarrow> nat option" where
  "skip_bytes buf pos n = do {
     next \<leftarrow> checked_add_usize pos n;
     if next > length buf then None else Some next
   }"

section \<open>The transaction walker\<close>

text \<open>Bodies of the two counted loops of \<open>transaction_end\<close>.\<close>

definition instruction_end :: "bytes \<Rightarrow> nat \<Rightarrow> nat option" where
  "instruction_end buf p = do {
     p \<leftarrow> skip_bytes buf p 1;
     (accounts, p) \<leftarrow> read_compact_u16 buf p;
     p \<leftarrow> skip_bytes buf p (unat accounts);
     (data, p) \<leftarrow> read_compact_u16 buf p;
     skip_bytes buf p (unat data)
   }"

definition lookup_end :: "bytes \<Rightarrow> nat \<Rightarrow> nat option" where
  "lookup_end buf p = do {
     p \<leftarrow> skip_bytes buf p 32;
     (writable, p) \<leftarrow> read_compact_u16 buf p;
     p \<leftarrow> skip_bytes buf p (unat writable);
     (readonly, p) \<leftarrow> read_compact_u16 buf p;
     skip_bytes buf p (unat readonly)
   }"

definition transaction_end :: "bytes \<Rightarrow> nat \<Rightarrow> nat option" where
  "transaction_end buf start = do {
     (signatures, p) \<leftarrow> read_compact_u16 buf start;
     p \<leftarrow> skip_bytes buf p (unat signatures * 64);
     first \<leftarrow> get_at buf p;
     let versioned = (first AND 0x80 \<noteq> 0);
     p \<leftarrow> (if versioned then (if first AND 0x7f \<noteq> 0 then None else Some (p + 1)) else Some p);
     p \<leftarrow> skip_bytes buf p 3;
     (keys, p) \<leftarrow> read_compact_u16 buf p;
     p \<leftarrow> skip_bytes buf p (unat keys * 32);
     p \<leftarrow> skip_bytes buf p 32;
     (instructions, p) \<leftarrow> read_compact_u16 buf p;
     p \<leftarrow> walk_times (unat instructions) instruction_end buf p;
     if versioned then do {
       (lookups, p) \<leftarrow> read_compact_u16 buf p;
       walk_times (unat lookups) lookup_end buf p
     } else Some p
   }"

section \<open>Selective decoding\<close>

text \<open>
  The two nested loops of \<open>transactions_at\<close>. The inner one can return from the function
  (\<open>Inl found\<close>) or fall through to the next entry (\<open>Inr (p, found)\<close>).
\<close>

fun tx_loop :: "(bytes \<Rightarrow> 'tx option) \<Rightarrow> bytes \<Rightarrow> nat list \<Rightarrow> nat \<Rightarrow> nat \<Rightarrow> nat \<Rightarrow> 'tx list \<Rightarrow>
    ('tx list + nat \<times> 'tx list) option" where
  "tx_loop deserialize payload hits last_hit 0 p found = Some (Inr (p, found))"
| "tx_loop deserialize payload hits last_hit (Suc n) p found = do {
     let start = p;
     end' \<leftarrow> transaction_end payload start;
     found \<leftarrow> (if (\<exists>h \<in> set hits. h \<ge> start \<and> h < end') then do {
         b \<leftarrow> get_range payload start end';
         tx \<leftarrow> deserialize b;
         Some (found @ [tx])
       } else Some found);
     let p = end';
     if p > last_hit then Some (Inl found)
     else tx_loop deserialize payload hits last_hit n p found
   }"

fun entry_loop :: "(bytes \<Rightarrow> 'tx option) \<Rightarrow> bytes \<Rightarrow> nat list \<Rightarrow> nat \<Rightarrow> nat \<Rightarrow> nat \<Rightarrow> 'tx list \<Rightarrow>
    'tx list option" where
  "entry_loop deserialize payload hits last_hit 0 p found = Some found"
| "entry_loop deserialize payload hits last_hit (Suc n) p found =
     (if p > last_hit then Some found
      else do {
        (num_hashes, p) \<leftarrow> read_u64 payload p;
        p \<leftarrow> skip_bytes payload p 32;
        (transactions, p) \<leftarrow> read_u64 payload p;
        r \<leftarrow> tx_loop deserialize payload hits last_hit (unat transactions) p found;
        (case r of
           Inl found \<Rightarrow> Some found
         | Inr (p, found) \<Rightarrow> entry_loop deserialize payload hits last_hit n p found)
      })"

definition transactions_at ::
  "(bytes \<Rightarrow> 'tx option) \<Rightarrow> bytes \<Rightarrow> nat list \<Rightarrow> 'tx list option" where
  "transactions_at deserialize payload hits =
     (if hits = [] then None
      else do {
        let last_hit = last hits;
        (entries, p) \<leftarrow> read_u64 payload 0;
        entry_loop deserialize payload hits last_hit (unat entries) p []
      })"

section \<open>The wire format\<close>

text \<open>Solana's \<open>short_vec\<close> length prefix in its canonical form.\<close>

definition enc_compact :: "u16 \<Rightarrow> bytes" where
  "enc_compact v = (let n = unat v in
     if n < 128 then [byte_of n]
     else if n < 16384 then [byte_of (n mod 128 + 128), byte_of (n div 128)]
     else [byte_of (n mod 128 + 128), byte_of (n div 128 mod 128 + 128), byte_of (n div 16384)])"

definition enc_short :: "bytes \<Rightarrow> bytes" where
  "enc_short xs = enc_compact (of_nat (length xs)) @ xs"

definition enc_vec :: "bytes list \<Rightarrow> bytes" where
  "enc_vec xs = enc_compact (of_nat (length xs)) @ concat xs"

definition short_len :: "'a list \<Rightarrow> bool" where
  "short_len xs \<longleftrightarrow> length xs < 65536"

text \<open>A compiled instruction and an address table lookup, as byte strings.\<close>

record wire_ix =
  wi_program :: byte
  wi_accounts :: bytes
  wi_data :: bytes

record wire_lookup =
  wl_table :: bytes
  wl_writable :: bytes
  wl_readonly :: bytes

datatype wire_version = Legacy_Wire | V0_Wire "wire_lookup list"

record wire_tx =
  wt_signatures :: "bytes list"
  wt_header :: bytes
  wt_keys :: "bytes list"
  wt_blockhash :: bytes
  wt_instructions :: "wire_ix list"
  wt_version :: wire_version

definition enc_ix :: "wire_ix \<Rightarrow> bytes" where
  "enc_ix i = wi_program i # enc_short (wi_accounts i) @ enc_short (wi_data i)"

definition wf_ix :: "wire_ix \<Rightarrow> bool" where
  "wf_ix i \<longleftrightarrow> short_len (wi_accounts i) \<and> short_len (wi_data i)"

definition enc_lookup :: "wire_lookup \<Rightarrow> bytes" where
  "enc_lookup l = wl_table l @ enc_short (wl_writable l) @ enc_short (wl_readonly l)"

definition wf_lookup :: "wire_lookup \<Rightarrow> bool" where
  "wf_lookup l \<longleftrightarrow> length (wl_table l) = 32 \<and> short_len (wl_writable l) \<and> short_len (wl_readonly l)"

fun enc_prefix :: "wire_version \<Rightarrow> bytes" where
  "enc_prefix Legacy_Wire = []"
| "enc_prefix (V0_Wire ls) = [0x80]"

fun enc_lookups :: "wire_version \<Rightarrow> bytes" where
  "enc_lookups Legacy_Wire = []"
| "enc_lookups (V0_Wire ls) = enc_vec (map enc_lookup ls)"

definition enc_tx :: "wire_tx \<Rightarrow> bytes" where
  "enc_tx t = enc_vec (wt_signatures t) @ enc_prefix (wt_version t) @ wt_header t
     @ enc_vec (wt_keys t) @ wt_blockhash t @ enc_vec (map enc_ix (wt_instructions t))
     @ enc_lookups (wt_version t)"

fun wf_version :: "bytes \<Rightarrow> wire_version \<Rightarrow> bool" where
  "wf_version header Legacy_Wire \<longleftrightarrow> hd header < 0x80"
| "wf_version header (V0_Wire ls) \<longleftrightarrow> short_len ls \<and> (\<forall>l \<in> set ls. wf_lookup l)"

definition wf_tx :: "wire_tx \<Rightarrow> bool" where
  "wf_tx t \<longleftrightarrow>
     short_len (wt_signatures t) \<and> (\<forall>s \<in> set (wt_signatures t). length s = 64) \<and>
     length (wt_header t) = 3 \<and>
     short_len (wt_keys t) \<and> (\<forall>k \<in> set (wt_keys t). length k = 32) \<and>
     length (wt_blockhash t) = 32 \<and>
     short_len (wt_instructions t) \<and> (\<forall>i \<in> set (wt_instructions t). wf_ix i) \<and>
     wf_version (wt_header t) (wt_version t)"

record wire_entry =
  we_num_hashes :: u64
  we_hash :: bytes
  we_txs :: "bytes list"

definition enc_entry :: "wire_entry \<Rightarrow> bytes" where
  "enc_entry e = u64_to_le (we_num_hashes e) @ we_hash e
     @ u64_to_le (of_nat (length (we_txs e))) @ concat (we_txs e)"

definition enc_payload :: "wire_entry list \<Rightarrow> bytes" where
  "enc_payload es = u64_to_le (of_nat (length es)) @ concat (map enc_entry es)"

section \<open>The compact length prefix\<close>

lemma or_push_bit: "a < 2 ^ n \<Longrightarrow> a OR push_bit n b = a + 2 ^ n * b" for a b :: nat
proof -
  assume a: "a < 2 ^ n"
  have "a + push_bit n b = a OR push_bit n b"
  proof (rule disjunctive_add)
    fix k
    have "\<not> bit a k" if "n \<le> k"
    proof -
      have "a < 2 ^ k" using a that by (meson less_le_trans one_le_numeral power_increasing)
      then show ?thesis by (simp add: bit_iff_odd)
    qed
    then show "\<not> bit a k \<or> \<not> bit (push_bit n b) k"
      by (auto simp: bit_push_bit_iff)
  qed
  then show ?thesis by (simp add: push_bit_eq_mult ac_simps)
qed

lemma unat_low7: "unat (b AND 0x7f) = unat b mod 128" for b :: byte
proof -
  have "b AND 0x7f = take_bit 7 b" by (simp add: take_bit_eq_mask mask_eq_exp_minus_1)
  then show ?thesis by (simp add: take_bit_eq_mod unat_mod)
qed

lemma high_bit_clear_iff: "b AND 0x80 = 0 \<longleftrightarrow> unat b < 128" for b :: byte
proof -
  have "b AND 0x80 = 0 \<longleftrightarrow> \<not> bit b 7"
    using and_exp_eq_0_iff_not_bit [of b 7] by simp
  moreover have "bit b 7 \<longleftrightarrow> bit (unat b) 7"
    by (simp add: bit_unsigned_iff)
  moreover have "bit (unat b) 7 \<longleftrightarrow> 128 \<le> unat b"
  proof -
    have "unat b div 128 < 2" using unat_byte_less [of b] by (simp del: unat_byte_less add: less_mult_imp_div_less)
    then show ?thesis by (auto simp: bit_iff_odd odd_iff_mod_2_eq_one mod_less div_greater_zero_iff less_2_cases_iff)
  qed
  ultimately show ?thesis by auto
qed

lemma unat_or_push_bit_u32:
  assumes "unat v < 2 ^ n" "n + 7 \<le> 32" "unat x < 128"
  shows "unat (v OR push_bit n (ucast (x :: byte)) :: u32) = unat v + 2 ^ n * unat x"
proof -
  have "unat x * 2 ^ n < 2 ^ 7 * 2 ^ n" using assms(3) by simp
  also have "\<dots> \<le> 2 ^ 32" using power_increasing [of "n + 7" 32 "2::nat"] assms(2) by (simp only: power_add mult.commute)
  finally have "unat x * 2 ^ n < 2 ^ 32" .
  moreover have "unat (push_bit n (ucast x :: u32)) = take_bit 32 (push_bit n (take_bit 32 (unat x)))"
    by (simp only: unsigned_push_bit_eq unsigned_ucast_eq) simp
  moreover have "take_bit 32 (unat x) = unat x"
    using assms(3) by (simp add: take_bit_nat_eq_self_iff)
  ultimately have "unat (push_bit n (ucast x :: u32)) = push_bit n (unat x)"
    by (simp add: push_bit_eq_mult take_bit_nat_eq_self)
  then show ?thesis using assms(1) by (simp add: unsigned_or_eq or_push_bit)
qed

lemma u16_try_from_Some_iff: "u16_try_from v = Some w \<longleftrightarrow> unat v = unat w"
proof -
  have "v \<le> 0xFFFF \<longleftrightarrow> unat v < 65536" by (simp add: word_le_nat_alt) linarith
  moreover have "unat (ucast v :: u16) = unat v mod 65536" by (simp add: unsigned_ucast_eq take_bit_eq_mod)
  moreover have "unat w < 65536" using unat_lt_length [of w] by simp
  ultimately show ?thesis
    by (auto simp: u16_try_from_def) (metis mod_less unsigned_word_eqI word_unat_eq_iff)+
qed

lemma range3: "[0 ..< 3] = [0, 1, 2 :: nat]"
  by (simp add: upt_rec)

lemma read_compact_u16_cases:
  "read_compact_u16 buf p = Some (v, q) \<longleftrightarrow>
     (p < length buf \<and> unat (buf ! p) < 128 \<and> unat v = unat (buf ! p) \<and> q = p + 1)
   \<or> (p + 1 < length buf \<and> 128 \<le> unat (buf ! p) \<and> unat (buf ! (p + 1)) < 128
      \<and> unat (buf ! (p + 1)) \<noteq> 0
      \<and> unat v = unat (buf ! p) mod 128 + 128 * unat (buf ! (p + 1)) \<and> q = p + 2)
   \<or> (p + 2 < length buf \<and> 128 \<le> unat (buf ! p) \<and> 128 \<le> unat (buf ! (p + 1))
      \<and> unat (buf ! (p + 2)) < 128 \<and> unat (buf ! (p + 2)) \<noteq> 0
      \<and> unat v = unat (buf ! p) mod 128 + 128 * (unat (buf ! (p + 1)) mod 128)
                 + 16384 * unat (buf ! (p + 2)) \<and> q = p + 3)"
proof -
  define a where "a = buf ! p"
  define b where "b = buf ! (p + 1)"
  define c where "c = buf ! (p + 2)"
  define v0 :: u32 where "v0 = 0 OR push_bit 0 (ucast (a AND 0x7f))"
  define v1 :: u32 where "v1 = v0 OR push_bit 7 (ucast (b AND 0x7f))"
  define v2 :: u32 where "v2 = v1 OR push_bit 14 (ucast (c AND 0x7f))"
  have v0: "unat v0 = unat a mod 128"
    using unat_or_push_bit_u32 [of 0 0 "a AND 0x7f"] by (simp add: v0_def unat_low7)
  then have v1: "unat v1 = unat a mod 128 + 128 * (unat b mod 128)"
    using unat_or_push_bit_u32 [of v0 7 "b AND 0x7f"] by (simp add: v1_def unat_low7)
  have "unat a mod 128 + 128 * (unat b mod 128) < 16384"
    using mod_less_divisor [of 128 "unat a"] mod_less_divisor [of 128 "unat b"] by linarith
  with v1 have v2: "unat v2 = unat a mod 128 + 128 * (unat b mod 128) + 16384 * (unat c mod 128)"
    using unat_or_push_bit_u32 [of v1 14 "c AND 0x7f"] by (simp add: v2_def unat_low7)
  have z: "x = 0 \<longleftrightarrow> unat x = 0" for x :: byte
    by (simp add: unat_eq_zero)
  have "read_compact_u16 buf p = (do {
      _ \<leftarrow> get_at buf p;
      if unat a < 128 then map_option (\<lambda>v. (v, p + 1)) (u16_try_from v0) else do {
      _ \<leftarrow> get_at buf (p + 1);
      if unat b < 128 then if b = 0 then None else map_option (\<lambda>v. (v, p + 2)) (u16_try_from v1) else do {
      _ \<leftarrow> get_at buf (p + 2);
      if unat c < 128 then if c = 0 then None else map_option (\<lambda>v. (v, p + 3)) (u16_try_from v2) else None}}})"
    unfolding read_compact_u16_def range3 compact_over.simps high_bit_clear_iff
    by (auto simp: v0_def v1_def v2_def a_def b_def c_def get_at_def Let_def high_bit_clear_iff numeral_3_eq_3)
  then show ?thesis
    unfolding a_def [symmetric] b_def [symmetric] c_def [symmetric] z
    by (auto simp: u16_try_from_Some_iff v0 v1 v2 bind_None_iff split: if_splits)
qed

lemma unat_u16_less [simp]: "unat (v :: u16) < 65536"
  using unat_lt_length [of v] by simp

lemma enc_compact_length: "length (enc_compact v) \<le> 3"
  by (simp add: enc_compact_def Let_def)

lemma digits128:
  fixes x y z :: nat
  assumes "n = x + 128 * y + 16384 * z" "x < 128" "y < 128"
  shows "n mod 128 = x" "n div 128 mod 128 = y" "n div 16384 = z"
proof -
  have n: "n = x + 128 * (y + 128 * z)" using assms(1) by simp
  then have d: "n div 128 = y + 128 * z" using assms(2) by simp
  show "n mod 128 = x" using n assms(2) by (simp only: mod_mult_self2 mod_less)
  show "n div 128 mod 128 = y" using d assms(3) by simp
  have "n div 16384 = n div 128 div 128" by (simp add: div_mult2_eq [symmetric])
  then show "n div 16384 = z" using d assms(3) by simp
qed

lemma read_compact_u16_sound:
  assumes "read_compact_u16 buf p = Some (v, q)"
  shows "p \<le> q \<and> q \<le> length buf \<and> slice buf p q = enc_compact v"
proof -
  have s2: "slice buf p (p + 2) = [buf ! p, buf ! (p + 1)]" if "p + 1 < length buf"
    using that slice_split [of p "p + 1" "p + 2" buf] by (simp add: slice_Suc)
  have s3: "slice buf p (p + 3) = [buf ! p, buf ! (p + 1), buf ! (p + 2)]" if "p + 2 < length buf"
    using that slice_split [of p "p + 2" "p + 3" buf] s2 by (simp add: slice_Suc numeral_3_eq_3)
  have m: "unat x mod 128 + 128 = unat x" if "128 \<le> unat x" for x :: byte
  proof -
    have "unat x - 128 < 128" using that unat_byte_less [of x] by linarith
    with that show ?thesis by (simp add: le_mod_geq)
  qed
  consider "p < length buf" "unat (buf ! p) < 128" "unat v = unat (buf ! p)" "q = p + 1"
    | "p + 1 < length buf" "128 \<le> unat (buf ! p)" "unat (buf ! (p + 1)) < 128"
      "unat (buf ! (p + 1)) \<noteq> 0"
      "unat v = unat (buf ! p) mod 128 + 128 * unat (buf ! (p + 1))" "q = p + 2"
    | "p + 2 < length buf" "128 \<le> unat (buf ! p)" "128 \<le> unat (buf ! (p + 1))"
      "unat (buf ! (p + 2)) < 128" "unat (buf ! (p + 2)) \<noteq> 0"
      "unat v = unat (buf ! p) mod 128 + 128 * (unat (buf ! (p + 1)) mod 128)
                 + 16384 * unat (buf ! (p + 2))" "q = p + 3"
    using assms unfolding read_compact_u16_cases by blast
  then show ?thesis
  proof cases
    case 1
    then show ?thesis by (simp add: slice_Suc enc_compact_def)
  next
    case 2
    define a b where "a = buf ! p" and "b = buf ! (p + 1)"
    note 2 = 2 [folded a_def b_def]
    have "\<not> unat v < 128" "unat v < 16384" "unat v mod 128 = unat a mod 128" "unat v div 128 = unat b"
      using 2 mod_less_divisor [of 128 "unat a"] by auto
    moreover have "slice buf p q = [a, b]"
      using 2 s2 by (simp only: a_def b_def)
    ultimately show ?thesis using 2 by (simp add: enc_compact_def m)
  next
    case 3
    define a b c where "a = buf ! p" and "b = buf ! (p + 1)" and "c = buf ! (p + 2)"
    note 3 = 3 [folded a_def b_def c_def]
    have "\<not> unat v < 128" "\<not> unat v < 16384"
      using 3 by auto
    moreover have "unat v mod 128 = unat a mod 128"
      "unat v div 128 mod 128 = unat b mod 128" "unat v div 16384 = unat c"
      by (rule digits128 [OF 3(6)], simp, simp)+
    moreover have "slice buf p q = [a, b, c]"
      using 3 s3 by (simp only: a_def b_def c_def)
    ultimately show ?thesis using 3 by (simp add: enc_compact_def m)
  qed
qed

lemma read_compact_u16_complete:
  assumes "at_pos buf p (enc_compact v)"
  shows "read_compact_u16 buf p = Some (v, p + length (enc_compact v))"
proof -
  have d: "unat v div 16384 < 128" "unat v mod 128 < 128" "unat v div 128 mod 128 < 128"
    using unat_u16_less [of v] by (simp_all add: less_mult_imp_div_less del: unat_u16_less)
  have e: "n mod 128 + 128 * (n div 128 mod 128) + 16384 * (n div 16384) = n" for n :: nat
    using mod_mult2_eq [of n 128 128] mod_mult_div_eq [of n 16384] by simp
  show ?thesis
    unfolding read_compact_u16_cases using assms d e [of "unat v"]
    by (auto simp: enc_compact_def Let_def at_pos_Cons numeral_2_eq_2 numeral_3_eq_3 split: if_splits)
qed

lemma read_compact_u16_at:
  "read_compact_u16 buf p = Some (v, q) \<Longrightarrow> at_pos buf p (enc_compact v) \<and> q = p + length (enc_compact v)"
  using read_compact_u16_sound [of buf p v q] at_pos_of_slice [of p q buf]
  by (metis le_add_diff_inverse length_slice)

interpretation compact: reader read_compact_u16 enc_compact
  by unfold_locales (simp_all add: read_compact_u16_at read_compact_u16_complete)

interpretation le_u64: reader read_u64 u64_to_le
  by unfold_locales (auto simp: read_u64_def u64_to_from_le at_pos_def)

lemma skip_bytes_Some_iff:
  "fits buf \<Longrightarrow> skip_bytes buf p n = Some q \<longleftrightarrow> p + n \<le> length buf \<and> q = p + n"
  by (auto simp: skip_bytes_def checked_add_usize_def fits_def)

lemma skip_bytes_SomeD: "skip_bytes buf p n = Some q \<Longrightarrow> p + n \<le> length buf \<and> q = p + n"
  by (auto simp: skip_bytes_def checked_add_usize_def split: if_splits)

section \<open>Recognising the parts of a transaction\<close>

lemma unat_of_nat_short [simp]: "short_len xs \<Longrightarrow> unat (of_nat (length xs) :: u16) = length xs"
  by (simp add: short_len_def unat_of_nat)

lemma chunks:
  "length w = n * k \<Longrightarrow> \<exists>ws. length ws = n \<and> (\<forall>x \<in> set ws. length x = k) \<and> concat ws = w"
proof (induction n arbitrary: w)
  case (Suc n)
  then obtain ws where "length ws = n" "\<forall>x \<in> set ws. length x = k" "concat ws = drop k w"
    using Suc.IH [of "drop k w"] by force
  with Suc.prems show ?case
    by (intro exI [of _ "take k w # ws"]) simp
qed simp

lemma length_concat_const: "\<forall>x \<in> set ws. length x = k \<Longrightarrow> length (concat ws) = length ws * k"
  by (induction ws) auto

lemma skip_at: "skip_bytes buf p n = Some q \<Longrightarrow> \<exists>w. length w = n \<and> at_pos buf p w \<and> q = p + n"
  using at_pos_of_slice [of p "p + n" buf] skip_bytes_SomeD [of buf p n q]
  by (intro exI [of _ "slice buf p (p + n)"]) simp

lemma skip_over: "at_pos buf p w \<Longrightarrow> fits buf \<Longrightarrow> length w = n \<Longrightarrow> skip_bytes buf p n = Some (p + n)"
  by (simp add: skip_bytes_Some_iff at_pos_def)

text \<open>A length prefix followed by that many bytes, and by that many items of \<open>k\<close> bytes.\<close>

lemma short_sound:
  assumes "read_compact_u16 buf p = Some (n, r)" "skip_bytes buf r (unat n) = Some q"
  shows "\<exists>xs. short_len xs \<and> at_pos buf p (enc_short xs) \<and> q = p + length (enc_short xs)"
proof -
  from assms(2) obtain w where "length w = unat n" "at_pos buf r w" "q = r + unat n"
    using skip_at by blast
  then show ?thesis
    using compact.rd_sound [OF assms(1)]
    by (intro exI [of _ w]) (simp add: enc_short_def short_len_def)
qed

lemma vec_sound:
  assumes "read_compact_u16 buf p = Some (n, r)" "skip_bytes buf r (unat n * k) = Some q"
  shows "\<exists>xs. short_len xs \<and> (\<forall>x \<in> set xs. length x = k) \<and> at_pos buf p (enc_vec xs)
    \<and> q = p + length (enc_vec xs)"
proof -
  from assms(2) obtain w where w: "length w = unat n * k" "at_pos buf r w" "q = r + unat n * k"
    using skip_at by blast
  then obtain ws where "length ws = unat n" "\<forall>x \<in> set ws. length x = k" "concat ws = w"
    using chunks by metis
  with w show ?thesis
    using compact.rd_sound [OF assms(1)]
    by (intro exI [of _ ws]) (auto simp: enc_vec_def short_len_def)
qed

lemma short_complete:
  assumes "at_pos buf p (enc_short xs)" "short_len xs" "fits buf"
  obtains r where "read_compact_u16 buf p = Some (of_nat (length xs), r)"
    and "skip_bytes buf r (length xs) = Some (p + length (enc_short xs))"
proof
  let ?c = "enc_compact (of_nat (length xs))"
  show "read_compact_u16 buf p = Some (of_nat (length xs), p + length ?c)"
    using assms by (simp add: enc_short_def compact.rd_complete)
  show "skip_bytes buf (p + length ?c) (length xs) = Some (p + length (enc_short xs))"
    using assms by (auto simp: enc_short_def skip_bytes_Some_iff dest: at_pos_bound)
qed

lemma vec_complete:
  assumes "at_pos buf p (enc_vec xs)" "short_len xs" "\<forall>x \<in> set xs. length x = k" "fits buf"
  obtains r where "read_compact_u16 buf p = Some (of_nat (length xs), r)"
    and "skip_bytes buf r (length xs * k) = Some (p + length (enc_vec xs))"
proof
  let ?c = "enc_compact (of_nat (length xs))"
  show "read_compact_u16 buf p = Some (of_nat (length xs), p + length ?c)"
    using assms by (simp add: enc_vec_def compact.rd_complete)
  show "skip_bytes buf (p + length ?c) (length xs * k) = Some (p + length (enc_vec xs))"
    using assms length_concat_const [of xs k]
    by (auto simp: enc_vec_def skip_bytes_Some_iff dest: at_pos_bound)
qed

lemma instruction_end_sound:
  assumes "instruction_end buf p = Some q"
  shows "\<exists>w. (\<exists>i. wf_ix i \<and> w = enc_ix i) \<and> at_pos buf p w \<and> q = p + length w"
proof -
  from assms obtain n r m s t u where
    1: "skip_bytes buf p 1 = Some u" and
    2: "read_compact_u16 buf u = Some (n, r)" "skip_bytes buf r (unat n) = Some s" and
    3: "read_compact_u16 buf s = Some (m, t)" "skip_bytes buf t (unat m) = Some q"
    by (auto simp: instruction_end_def)
  obtain xs ys where "short_len xs" "at_pos buf u (enc_short xs)" "s = u + length (enc_short xs)"
    "short_len ys" "at_pos buf s (enc_short ys)" "q = s + length (enc_short ys)"
    using short_sound [OF 2] short_sound [OF 3] by blast
  moreover have "p < length buf" "u = p + 1"
    using skip_bytes_SomeD [OF 1] by simp_all
  ultimately show ?thesis
    by (intro exI [of _ "enc_ix \<lparr>wi_program = buf ! p, wi_accounts = xs, wi_data = ys\<rparr>"])
      (auto simp: wf_ix_def enc_ix_def at_pos_Cons intro!: exI [of _ "\<lparr>wi_program = buf ! p, wi_accounts = xs, wi_data = ys\<rparr>"])
qed

lemma instruction_end_complete:
  assumes "wf_ix i" "at_pos buf p (enc_ix i)" "fits buf"
  shows "instruction_end buf p = Some (p + length (enc_ix i))"
proof -
  let ?s = "Suc p + length (enc_short (wi_accounts i))"
  have a: "p < length buf" "at_pos buf (Suc p) (enc_short (wi_accounts i))"
    "at_pos buf ?s (enc_short (wi_data i))"
    using assms(2) by (simp_all add: enc_ix_def at_pos_Cons)
  moreover have "short_len (wi_accounts i)" "short_len (wi_data i)"
    using assms(1) by (simp_all add: wf_ix_def)
  ultimately obtain r t where
    "read_compact_u16 buf (Suc p) = Some (of_nat (length (wi_accounts i)), r)"
    "skip_bytes buf r (length (wi_accounts i)) = Some ?s"
    "read_compact_u16 buf ?s = Some (of_nat (length (wi_data i)), t)"
    "skip_bytes buf t (length (wi_data i)) = Some (?s + length (enc_short (wi_data i)))"
    using short_complete assms(3) by metis
  with a assms show ?thesis
    by (simp add: instruction_end_def skip_bytes_Some_iff wf_ix_def enc_ix_def)
qed

interpretation instruction: recogniser instruction_end "\<lambda>w. \<exists>i. wf_ix i \<and> w = enc_ix i"
  by unfold_locales (auto dest: instruction_end_sound simp: instruction_end_complete)

lemma lookup_end_sound:
  assumes "lookup_end buf p = Some q"
  shows "\<exists>w. (\<exists>l. wf_lookup l \<and> w = enc_lookup l) \<and> at_pos buf p w \<and> q = p + length w"
proof -
  from assms obtain n r m s t u where
    1: "skip_bytes buf p 32 = Some u" and
    2: "read_compact_u16 buf u = Some (n, r)" "skip_bytes buf r (unat n) = Some s" and
    3: "read_compact_u16 buf s = Some (m, t)" "skip_bytes buf t (unat m) = Some q"
    by (auto simp: lookup_end_def)
  obtain k xs ys where "length k = 32" "at_pos buf p k" "u = p + 32"
    "short_len xs" "at_pos buf u (enc_short xs)" "s = u + length (enc_short xs)"
    "short_len ys" "at_pos buf s (enc_short ys)" "q = s + length (enc_short ys)"
    using skip_at [OF 1] short_sound [OF 2] short_sound [OF 3] by blast
  then show ?thesis
    by (intro exI [of _ "enc_lookup \<lparr>wl_table = k, wl_writable = xs, wl_readonly = ys\<rparr>"])
      (auto simp: wf_lookup_def enc_lookup_def
        intro!: exI [of _ "\<lparr>wl_table = k, wl_writable = xs, wl_readonly = ys\<rparr>"])
qed

lemma lookup_end_complete:
  assumes "wf_lookup l" "at_pos buf p (enc_lookup l)" "fits buf"
  shows "lookup_end buf p = Some (p + length (enc_lookup l))"
proof -
  let ?s = "p + 32 + length (enc_short (wl_writable l))"
  have k: "length (wl_table l) = 32" and ne: "short_len (wl_writable l)" "short_len (wl_readonly l)"
    using assms(1) by (simp_all add: wf_lookup_def)
  then have a: "at_pos buf p (wl_table l)" "at_pos buf (p + 32) (enc_short (wl_writable l))"
    "at_pos buf ?s (enc_short (wl_readonly l))"
    using assms(2) by (simp_all add: enc_lookup_def)
  with ne obtain r t where
    "read_compact_u16 buf (p + 32) = Some (of_nat (length (wl_writable l)), r)"
    "skip_bytes buf r (length (wl_writable l)) = Some ?s"
    "read_compact_u16 buf ?s = Some (of_nat (length (wl_readonly l)), t)"
    "skip_bytes buf t (length (wl_readonly l)) = Some (?s + length (enc_short (wl_readonly l)))"
    using short_complete assms(3) by metis
  with a assms k ne show ?thesis
    by (simp add: lookup_end_def skip_over [OF a(1)] enc_lookup_def)
qed

interpretation lookup: recogniser lookup_end "\<lambda>w. \<exists>l. wf_lookup l \<and> w = enc_lookup l"
  by unfold_locales (auto dest: lookup_end_sound simp: lookup_end_complete)

section \<open>The walker accepts exactly the wire format\<close>

lemma low7_zero_iff: "b AND 0x7f = 0 \<longleftrightarrow> unat b mod 128 = 0" for b :: byte
  using unat_low7 [of b] by (metis unat_eq_zero unsigned_0)

lemma version_byte: "b AND 0x80 \<noteq> 0 \<Longrightarrow> b AND 0x7f = 0 \<Longrightarrow> b = 0x80" for b :: byte
proof -
  assume "b AND 0x80 \<noteq> 0" "b AND 0x7f = 0"
  then have "128 \<le> unat b" "unat b mod 128 = 0"
    by (simp_all add: high_bit_clear_iff low7_zero_iff not_less)
  then have "unat b = 128"
    using unat_byte_less [of b] by presburger
  then show ?thesis
    by (simp add: word_unat_eq_iff)
qed

lemma legacy_byte: "b < 0x80 \<longleftrightarrow> b AND 0x80 = 0" for b :: byte
  by (simp add: high_bit_clear_iff word_less_nat_alt)

text \<open>A counted vector of recognised items.\<close>

context recogniser
begin

lemma counted_sound:
  assumes "read_compact_u16 buf p = Some (n, r)" "walk_times (unat n) step buf r = Some q"
  shows "\<exists>ws. short_len ws \<and> (\<forall>w \<in> set ws. lang w) \<and> at_pos buf p (enc_vec ws)
    \<and> q = p + length (enc_vec ws)"
proof -
  have r: "at_pos buf p (enc_compact n)" "r = p + length (enc_compact n)"
    using compact.rd_sound [OF assms(1)] by auto
  then obtain ws where "length ws = unat n" "\<forall>w \<in> set ws. lang w" "at_pos buf r (concat ws)"
    "q = r + length (concat ws)"
    using walk_times_sound [OF assms(2)] at_pos_bound by metis
  with r show ?thesis
    by (intro exI [of _ ws]) (auto simp: enc_vec_def short_len_def)
qed

lemma counted_complete:
  assumes "at_pos buf p (enc_vec ws)" "short_len ws" "\<forall>w \<in> set ws. lang w" "fits buf"
  obtains r where "read_compact_u16 buf p = Some (of_nat (length ws), r)"
    and "walk_times (length ws) step buf r = Some (p + length (enc_vec ws))"
proof
  let ?c = "enc_compact (of_nat (length ws))"
  show "read_compact_u16 buf p = Some (of_nat (length ws), p + length ?c)"
    using assms by (simp add: enc_vec_def compact.rd_complete)
  show "walk_times (length ws) step buf (p + length ?c) = Some (p + length (enc_vec ws))"
    using assms walk_times_complete [of ws buf "p + length ?c"] by (simp add: enc_vec_def)
qed

end

lemma list_of_encodings: "\<forall>w \<in> set ws. \<exists>x. P x \<and> w = f x \<Longrightarrow> \<exists>xs. ws = map f xs \<and> (\<forall>x \<in> set xs. P x)"
proof (induction ws)
  case (Cons w ws)
  then obtain x xs where "P x" "w = f x" "ws = map f xs" "\<forall>x \<in> set xs. P x" by auto
  then show ?case by (intro exI [of _ "x # xs"]) simp
qed simp

text \<open>
  \<open>transaction_end\<close> reads a common part, from the header to the instructions, between the
  optional version byte and the lookups.
\<close>

definition body_end :: "bytes \<Rightarrow> nat \<Rightarrow> nat option" where
  "body_end buf p = do {
     p \<leftarrow> skip_bytes buf p 3;
     (keys, p) \<leftarrow> read_compact_u16 buf p;
     p \<leftarrow> skip_bytes buf p (unat keys * 32);
     p \<leftarrow> skip_bytes buf p 32;
     (instructions, p) \<leftarrow> read_compact_u16 buf p;
     walk_times (unat instructions) instruction_end buf p
   }"

definition enc_body :: "wire_tx \<Rightarrow> bytes" where
  "enc_body t = wt_header t @ enc_vec (wt_keys t) @ wt_blockhash t
     @ enc_vec (map enc_ix (wt_instructions t))"

definition wf_body :: "wire_tx \<Rightarrow> bool" where
  "wf_body t \<longleftrightarrow> length (wt_header t) = 3 \<and>
     short_len (wt_keys t) \<and> (\<forall>k \<in> set (wt_keys t). length k = 32) \<and>
     length (wt_blockhash t) = 32 \<and>
     short_len (wt_instructions t) \<and> (\<forall>i \<in> set (wt_instructions t). wf_ix i)"

lemma body_end_sound:
  assumes "body_end buf p = Some q"
  shows "\<exists>t. wf_body t \<and> at_pos buf p (enc_body t) \<and> q = p + length (enc_body t)"
proof -
  from assms obtain p1 n p2 p3 p4 m p5 where
    1: "skip_bytes buf p 3 = Some p1" and
    2: "read_compact_u16 buf p1 = Some (n, p2)" "skip_bytes buf p2 (unat n * 32) = Some p3" and
    3: "skip_bytes buf p3 32 = Some p4" and
    4: "read_compact_u16 buf p4 = Some (m, p5)" "walk_times (unat m) instruction_end buf p5 = Some q"
    by (auto simp: body_end_def)
  obtain h ks b ws where
    "length h = 3" "at_pos buf p h" "p1 = p + 3"
    "short_len ks" "\<forall>k \<in> set ks. length k = 32" "at_pos buf p1 (enc_vec ks)" "p3 = p1 + length (enc_vec ks)"
    "length b = 32" "at_pos buf p3 b" "p4 = p3 + 32"
    and ws: "short_len ws" "\<forall>w \<in> set ws. \<exists>i. wf_ix i \<and> w = enc_ix i"
    "at_pos buf p4 (enc_vec ws)" "q = p4 + length (enc_vec ws)"
    using skip_at [OF 1] vec_sound [OF 2] skip_at [OF 3] instruction.counted_sound [OF 4] by blast
  moreover from ws(2) obtain is' where "ws = map enc_ix is'" "\<forall>i \<in> set is'. wf_ix i"
    using list_of_encodings [of ws wf_ix enc_ix] by blast
  ultimately show ?thesis
    by (intro exI [of _ "\<lparr>wt_signatures = [], wt_header = h, wt_keys = ks, wt_blockhash = b,
        wt_instructions = is', wt_version = Legacy_Wire\<rparr>"])
      (simp add: wf_body_def enc_body_def short_len_def)
qed

lemma body_end_complete:
  assumes "wf_body t" "at_pos buf p (enc_body t)" "fits buf"
  shows "body_end buf p = Some (p + length (enc_body t))"
proof -
  let ?ks = "enc_vec (wt_keys t)" and ?is = "map enc_ix (wt_instructions t)"
  have wf: "length (wt_header t) = 3" "short_len (wt_keys t)" "\<forall>k \<in> set (wt_keys t). length k = 32"
    "length (wt_blockhash t) = 32" "short_len ?is" "\<forall>w \<in> set ?is. \<exists>i. wf_ix i \<and> w = enc_ix i"
    using assms(1) by (auto simp: wf_body_def short_len_def)
  have a: "at_pos buf p (wt_header t)" "at_pos buf (p + 3) ?ks"
    "at_pos buf (p + 3 + length ?ks) (wt_blockhash t)" "at_pos buf (p + 3 + length ?ks + 32) (enc_vec ?is)"
    using assms(2) wf by (simp_all add: enc_body_def)
  obtain r where r: "read_compact_u16 buf (p + 3) = Some (of_nat (length (wt_keys t)), r)"
    "skip_bytes buf r (length (wt_keys t) * 32) = Some (p + 3 + length ?ks)"
    using vec_complete [OF a(2) wf(2,3) assms(3)] by blast
  obtain s where s: "read_compact_u16 buf (p + 3 + length ?ks + 32) = Some (of_nat (length ?is), s)"
    "walk_times (length ?is) instruction_end buf s = Some (p + 3 + length ?ks + 32 + length (enc_vec ?is))"
    using instruction.counted_complete [OF a(4) wf(5,6) assms(3)] by blast
  have "unat (of_nat (length (wt_instructions t)) :: u16) = length (wt_instructions t)"
    using unat_of_nat_short [OF wf(5)] by simp
  with r s wf skip_over [OF a(1) assms(3) wf(1)] skip_over [OF a(3) assms(3) wf(4)] show ?thesis
    by (simp add: body_end_def enc_body_def)
qed

lemma transaction_end_via_body:
  "transaction_end buf start = do {
     (signatures, p) \<leftarrow> read_compact_u16 buf start;
     p \<leftarrow> skip_bytes buf p (unat signatures * 64);
     first \<leftarrow> get_at buf p;
     if first AND 0x80 \<noteq> 0 then
       if first AND 0x7f \<noteq> 0 then None
       else do {
         p \<leftarrow> body_end buf (p + 1);
         (lookups, p) \<leftarrow> read_compact_u16 buf p;
         walk_times (unat lookups) lookup_end buf p
       }
     else body_end buf p
   }"
  by (auto simp: transaction_end_def body_end_def Let_def split_def intro!: Option.bind_cong)

definition tx_word :: "bytes \<Rightarrow> bool" where
  "tx_word w \<longleftrightarrow> (\<exists>t. wf_tx t \<and> w = enc_tx t)"

lemma enc_tx_via_body:
  "enc_tx t = enc_vec (wt_signatures t) @ enc_prefix (wt_version t) @ enc_body t @ enc_lookups (wt_version t)"
  by (simp add: enc_tx_def enc_body_def)

lemma wf_tx_via_body:
  "wf_tx t \<longleftrightarrow> short_len (wt_signatures t) \<and> (\<forall>s \<in> set (wt_signatures t). length s = 64) \<and>
     wf_body t \<and> wf_version (wt_header t) (wt_version t)"
  by (auto simp: wf_tx_def wf_body_def)

lemma body_update [simp]:
  "enc_body (t\<lparr>wt_signatures := ss, wt_version := v\<rparr>) = enc_body t"
  "wf_body (t\<lparr>wt_signatures := ss, wt_version := v\<rparr>) = wf_body t"
  by (simp_all add: enc_body_def wf_body_def)

lemma enc_body_first: "wf_body t \<Longrightarrow> at_pos buf p (enc_body t) \<Longrightarrow> p < length buf \<and> buf ! p = hd (wt_header t)"
  by (cases "wt_header t") (auto simp: wf_body_def enc_body_def at_pos_Cons)

lemma transaction_end_sound:
  assumes "transaction_end buf p = Some q"
  shows "\<exists>w. tx_word w \<and> at_pos buf p w \<and> q = p + length w"
proof -
  from assms obtain n r s where
    1: "read_compact_u16 buf p = Some (n, r)" "skip_bytes buf r (unat n * 64) = Some s" and
    s: "s < length buf" and
    rest: "(if buf ! s AND 0x80 \<noteq> 0 then
       if buf ! s AND 0x7f \<noteq> 0 then None
       else do {
         p \<leftarrow> body_end buf (s + 1);
         (lookups, p) \<leftarrow> read_compact_u16 buf p;
         walk_times (unat lookups) lookup_end buf p
       }
     else body_end buf s) = Some q"
    by (auto simp: transaction_end_via_body)
  obtain ss where ss: "short_len ss" "\<forall>x \<in> set ss. length x = 64" "at_pos buf p (enc_vec ss)"
    "s = p + length (enc_vec ss)"
    using vec_sound [OF 1] by blast
  show ?thesis
  proof (cases "buf ! s AND 0x80 = 0")
    case True
    then obtain t where t: "wf_body t" "at_pos buf s (enc_body t)" "q = s + length (enc_body t)"
      using rest body_end_sound [of buf s q] by auto
    let ?t = "t\<lparr>wt_signatures := ss, wt_version := Legacy_Wire\<rparr>"
    have "wf_tx ?t"
      using True enc_body_first [OF t(1,2)] ss t by (simp add: wf_tx_via_body legacy_byte)
    with ss t show ?thesis
      by (intro exI [of _ "enc_tx ?t"]) (auto simp: tx_word_def enc_tx_via_body)
  next
    case False
    then obtain u m v where u: "body_end buf (s + 1) = Some u" and
      2: "read_compact_u16 buf u = Some (m, v)" "walk_times (unat m) lookup_end buf v = Some q" and
      low: "buf ! s AND 0x7f = 0"
      using rest by (auto split: if_splits)
    obtain t where t: "wf_body t" "at_pos buf (s + 1) (enc_body t)" "u = s + 1 + length (enc_body t)"
      using body_end_sound [OF u] by blast
    obtain ws where ws: "short_len ws" "\<forall>w \<in> set ws. \<exists>l. wf_lookup l \<and> w = enc_lookup l"
      "at_pos buf u (enc_vec ws)" "q = u + length (enc_vec ws)"
      using lookup.counted_sound [OF 2] by blast
    then obtain ls where ls: "ws = map enc_lookup ls" "\<forall>l \<in> set ls. wf_lookup l"
      using list_of_encodings [of ws wf_lookup enc_lookup] by blast
    let ?t = "t\<lparr>wt_signatures := ss, wt_version := V0_Wire ls\<rparr>"
    have "wf_tx ?t"
      using ss t ws ls by (simp add: wf_tx_via_body short_len_def)
    with ss t ws ls s version_byte [OF False low] show ?thesis
      by (intro exI [of _ "enc_tx ?t"]) (auto simp: tx_word_def enc_tx_via_body at_pos_Cons)
  qed
qed

lemma transaction_end_complete:
  assumes "wf_tx t" "at_pos buf p (enc_tx t)" "fits buf"
  shows "transaction_end buf p = Some (p + length (enc_tx t))"
proof -
  let ?ss = "enc_vec (wt_signatures t)" and ?b = "enc_body t"
  have wf: "short_len (wt_signatures t)" "\<forall>s \<in> set (wt_signatures t). length s = 64" "wf_body t"
    "wf_version (wt_header t) (wt_version t)"
    using assms(1) by (simp_all add: wf_tx_via_body)
  have a: "at_pos buf p ?ss" "at_pos buf (p + length ?ss) (enc_prefix (wt_version t) @ ?b @ enc_lookups (wt_version t))"
    using assms(2) by (simp_all add: enc_tx_via_body add.assoc)
  obtain r where r: "read_compact_u16 buf p = Some (of_nat (length (wt_signatures t)), r)"
    "skip_bytes buf r (length (wt_signatures t) * 64) = Some (p + length ?ss)"
    using vec_complete [OF a(1) wf(1,2) assms(3)] by blast
  show ?thesis
  proof (cases "wt_version t")
    case Legacy_Wire
    with a have b: "at_pos buf (p + length ?ss) ?b"
      by simp
    then have "p + length ?ss < length buf" "buf ! (p + length ?ss) AND 0x80 = 0"
      using enc_body_first [OF wf(3) b] wf(4) Legacy_Wire by (simp_all add: legacy_byte)
    with r wf(1) body_end_complete [OF wf(3) b assms(3)] Legacy_Wire show ?thesis
      by (simp add: transaction_end_via_body enc_tx_via_body get_at_def)
  next
    case (V0_Wire ls)
    let ?l = "p + length ?ss + 1 + length ?b"
    have b: "p + length ?ss < length buf" "buf ! (p + length ?ss) = 0x80" "at_pos buf (p + length ?ss + 1) ?b"
      "at_pos buf ?l (enc_vec (map enc_lookup ls))"
      using a(2) V0_Wire by (simp_all add: at_pos_Cons)
    have ls: "short_len (map enc_lookup ls)" "\<forall>w \<in> set (map enc_lookup ls). \<exists>l. wf_lookup l \<and> w = enc_lookup l"
      using wf(4) V0_Wire by (auto simp: short_len_def)
    obtain s where s: "read_compact_u16 buf ?l = Some (of_nat (length (map enc_lookup ls)), s)"
      "walk_times (length (map enc_lookup ls)) lookup_end buf s = Some (?l + length (enc_vec (map enc_lookup ls)))"
      using lookup.counted_complete [OF b(4) ls assms(3)] by blast
    have "unat (of_nat (length ls) :: u16) = length ls"
      using unat_of_nat_short [OF ls(1)] by simp
    with r s b wf(1) body_end_complete [OF wf(3) b(3) assms(3)] V0_Wire show ?thesis
      by (simp add: transaction_end_via_body enc_tx_via_body get_at_def)
  qed
qed

interpretation transaction: recogniser transaction_end tx_word
  by unfold_locales (erule transaction_end_sound, auto simp: tx_word_def transaction_end_complete)

lemma transaction_end_progress: "transaction_end buf p = Some q \<Longrightarrow> p < q"
proof -
  assume "transaction_end buf p = Some q"
  then obtain t where "wf_tx t" "q = p + length (enc_tx t)"
    using transaction_end_sound [unfolded tx_word_def] by blast
  then show ?thesis by (simp add: enc_tx_via_body enc_body_def wf_tx_via_body wf_body_def)
qed


section \<open>Selective decoding against a full decode\<close>

text \<open>The transactions of a segment with the offset each starts at.\<close>

fun spans :: "nat \<Rightarrow> bytes list \<Rightarrow> (nat \<times> bytes) list" where
  "spans p [] = []"
| "spans p (w # ws) = (p, w) # spans (p + length w) ws"

fun payload_spans :: "nat \<Rightarrow> wire_entry list \<Rightarrow> (nat \<times> bytes) list" where
  "payload_spans p [] = []"
| "payload_spans p (e # es) = spans (p + 48) (we_txs e) @ payload_spans (p + length (enc_entry e)) es"

definition hit_in :: "nat list \<Rightarrow> nat \<times> bytes \<Rightarrow> bool" where
  "hit_in hits = (\<lambda>(p, w). \<exists>h \<in> set hits. p \<le> h \<and> h < p + length w)"

definition wf_entry :: "wire_entry \<Rightarrow> bool" where
  "wf_entry e \<longleftrightarrow> length (we_hash e) = 32 \<and> length (we_txs e) < 2 ^ 64 \<and> (\<forall>w \<in> set (we_txs e). tx_word w)"

text \<open>Reference: decode everything that is hit, in order; one failure fails the whole call.\<close>

definition decode_hits :: "(bytes \<Rightarrow> 'tx option) \<Rightarrow> nat list \<Rightarrow> (nat \<times> bytes) list \<Rightarrow> 'tx list option" where
  "decode_hits deserialize hits ss = those (map (deserialize \<circ> snd) (filter (hit_in hits) ss))"

lemma those_append: "those (xs @ ys) = do { a \<leftarrow> those xs; b \<leftarrow> those ys; Some (a @ b) }"
  by (induction xs) (auto split: option.splits bind_splits simp: map_option_case)

lemma decode_hits_append:
  "decode_hits d hits (xs @ ys) = do { a \<leftarrow> decode_hits d hits xs; b \<leftarrow> decode_hits d hits ys; Some (a @ b) }"
  by (simp add: decode_hits_def those_append)

lemma decode_hits_Nil [simp]: "decode_hits d hits [] = Some []"
  by (simp add: decode_hits_def)

lemma decode_hits_Cons:
  "decode_hits d hits ((p, w) # ss) =
     (if hit_in hits (p, w) then do { x \<leftarrow> d w; xs \<leftarrow> decode_hits d hits ss; Some (x # xs) }
      else decode_hits d hits ss)"
  by (auto simp: decode_hits_def map_option_case split: option.splits bind_splits)

lemma spans_start: "s \<in> set (spans p ws) \<Longrightarrow> p \<le> fst s"
  by (induction ws arbitrary: p) force+

lemma payload_spans_start: "s \<in> set (payload_spans p es) \<Longrightarrow> p \<le> fst s"
  by (induction es arbitrary: p) (force dest: spans_start)+

lemma decode_hits_beyond:
  assumes "\<forall>h \<in> set hits. h \<le> L" "\<forall>s \<in> set ss. L < fst s"
  shows "decode_hits d hits ss = Some []"
proof -
  have "filter (hit_in hits) ss = []"
    using assms by (fastforce simp: filter_empty_conv hit_in_def)
  then show ?thesis by (simp add: decode_hits_def)
qed

lemma tx_loop_eq:
  assumes "\<forall>w \<in> set ws. tx_word w" "at_pos payload p (concat ws)" "fits payload" "\<forall>h \<in> set hits. h \<le> L"
  shows "tx_loop d payload hits L (length ws) p found = do {
      ys \<leftarrow> decode_hits d hits (spans p ws);
      Some (if ws \<noteq> [] \<and> L < p + length (concat ws) then Inl (found @ ys)
            else Inr (p + length (concat ws), found @ ys))
    }"
  using assms(1,2)
proof (induction ws arbitrary: p found)
  case (Cons w ws)
  let ?e = "p + length w"
  have w: "at_pos payload p w" and ws: "at_pos payload ?e (concat ws)"
    using Cons.prems(2) by simp_all
  have e: "transaction_end payload p = Some ?e"
    using transaction.complete [OF _ w assms(3)] Cons.prems(1) by simp
  have "get_range payload p ?e = Some w"
    using w by (auto simp: at_pos_def)
  then have step: "tx_loop d payload hits L (length (w # ws)) p found = do {
      found \<leftarrow> (if hit_in hits (p, w) then do { x \<leftarrow> d w; Some (found @ [x]) } else Some found);
      if ?e > L then Some (Inl found) else tx_loop d payload hits L (length ws) ?e found
    }"
    using e by (auto simp add: hit_in_def simp del: get_range_Some_iff)
  show ?case
  proof (cases "?e > L")
    case True
    then have "decode_hits d hits (spans ?e ws) = Some []"
      using assms(4) by (intro decode_hits_beyond [of hits L]) (auto dest: spans_start)
    with True show ?thesis
      unfolding step by (simp add: decode_hits_Cons split: bind_splits)
  next
    case False
    then show ?thesis
      unfolding step using Cons.IH [OF _ ws] Cons.prems(1)
      by (auto simp: decode_hits_Cons add.assoc split: bind_splits)
  qed
qed simp

lemma entry_loop_eq:
  assumes "\<forall>e \<in> set es. wf_entry e" "at_pos payload p (concat (map enc_entry es))" "fits payload"
    "\<forall>h \<in> set hits. h \<le> L"
  shows "entry_loop d payload hits L (length es) p found =
    do { ys \<leftarrow> decode_hits d hits (payload_spans p es); Some (found @ ys) }"
  using assms(1,2)
proof (induction es arbitrary: p found)
  case (Cons e es)
  let ?n = "of_nat (length (we_txs e)) :: u64" and ?q = "p + length (enc_entry e)"
  have wf: "length (we_hash e) = 32" "unat ?n = length (we_txs e)" "\<forall>w \<in> set (we_txs e). tx_word w"
    using Cons.prems(1) by (simp_all add: wf_entry_def unat_of_nat)
  have a: "at_pos payload p (u64_to_le (we_num_hashes e))" "at_pos payload (p + 8) (we_hash e)"
    "at_pos payload (p + 40) (u64_to_le ?n)" "at_pos payload (p + 48) (concat (we_txs e))"
    and es: "at_pos payload ?q (concat (map enc_entry es))"
  proof -
    have "at_pos payload p (enc_entry e)" "at_pos payload ?q (concat (map enc_entry es))"
      using Cons.prems(2) by simp_all
    moreover have "40 + p = p + 40" "48 + p = p + 48"
      by simp_all
    ultimately show "at_pos payload p (u64_to_le (we_num_hashes e))" "at_pos payload (p + 8) (we_hash e)"
      "at_pos payload (p + 40) (u64_to_le ?n)" "at_pos payload (p + 48) (concat (we_txs e))"
      "at_pos payload ?q (concat (map enc_entry es))"
      using wf(1) by (simp_all add: enc_entry_def)
  qed
  have q: "?q = p + 48 + length (concat (we_txs e))"
    using wf(1) by (simp add: enc_entry_def)
  have rd: "read_u64 payload p = Some (we_num_hashes e, p + 8)" "skip_bytes payload (p + 8) 32 = Some (p + 40)"
    "read_u64 payload (p + 40) = Some (?n, p + 48)"
    using le_u64.rd_complete [OF a(1) assms(3)] le_u64.rd_complete [OF a(3) assms(3)]
      skip_over [OF a(2) assms(3) wf(1)] by simp_all
  show ?case
  proof (cases "p > L")
    case True
    then have "decode_hits d hits (payload_spans p (e # es)) = Some []"
      using assms(4) by (intro decode_hits_beyond [of hits L]) (auto dest: payload_spans_start simp del: payload_spans.simps)
    with True show ?thesis by simp
  next
    case False
    have beyond: "decode_hits d hits (payload_spans ?q es) = Some []" if "L < ?q"
      using that assms(4) by (intro decode_hits_beyond [of hits L]) (auto dest: payload_spans_start)
    from False show ?thesis
      using Cons.IH [OF _ es] Cons.prems(1) beyond
      by (auto simp: rd wf(2) tx_loop_eq [OF wf(3) a(4) assms(3,4)] decode_hits_append simp flip: q split: bind_splits)
  qed
qed simp


lemma read_u64_append: "read_u64 buf p = Some r \<Longrightarrow> read_u64 (buf @ tail) p = Some r"
  by (cases r) (auto simp: read_u64_def slice_app_left)

lemma skip_bytes_append: "skip_bytes buf p n = Some q \<Longrightarrow> skip_bytes (buf @ tail) p n = Some q"
  by (simp add: skip_bytes_def checked_add_usize_def split: if_splits)

lemma get_range_append: "get_range xs a b = Some ys \<Longrightarrow> get_range (xs @ tail) a b = Some ys"
  by (auto simp: slice_app_left)

lemma tx_loop_append:
  "tx_loop d buf hits L n p found = Some r \<Longrightarrow> fits (buf @ tail) \<Longrightarrow>
     tx_loop d (buf @ tail) hits L n p found = Some r"
proof (induction n arbitrary: p found)
  case (Suc n)
  from Suc.prems(1) obtain e found' where e: "transaction_end buf p = Some e" and
    f: "(if (\<exists>h \<in> set hits. h \<ge> p \<and> h < e) then do {
         b \<leftarrow> get_range buf p e;
         tx \<leftarrow> d b;
         Some (found @ [tx])
       } else Some found) = Some found'" and
    r: "(if e > L then Some (Inl found') else tx_loop d buf hits L n e found') = Some r"
    by (auto simp: Let_def)
  have "transaction_end (buf @ tail) p = Some e"
    using transaction.stable_under_append [OF e Suc.prems(2)] .
  moreover have "(if (\<exists>h \<in> set hits. h \<ge> p \<and> h < e) then do {
         b \<leftarrow> get_range (buf @ tail) p e;
         tx \<leftarrow> d b;
         Some (found @ [tx])
       } else Some found) = Some found'"
    using f by (auto simp: slice_app_left split: if_splits)
  moreover have "(if e > L then Some (Inl found') else tx_loop d (buf @ tail) hits L n e found') = Some r"
    using r Suc.IH [OF _ Suc.prems(2)] by (simp split: if_splits)
  ultimately show ?case
    by (simp del: bind_Some_iff)
qed simp

lemma entry_loop_append:
  "entry_loop d buf hits L n p found = Some r \<Longrightarrow> fits (buf @ tail) \<Longrightarrow>
     entry_loop d (buf @ tail) hits L n p found = Some r"
proof (induction n arbitrary: p found)
  case (Suc n)
  show ?case
  proof (cases "p > L")
    case False
    with Suc.prems(1) obtain h p1 p2 t p3 u where
      "read_u64 buf p = Some (h, p1)" "skip_bytes buf p1 32 = Some p2" "read_u64 buf p2 = Some (t, p3)"
      and u: "tx_loop d buf hits L (unat t) p3 found = Some u"
      and r: "(case u of Inl found \<Rightarrow> Some found
         | Inr (p, found) \<Rightarrow> entry_loop d buf hits L n p found) = Some r"
      by auto
    then have rd: "read_u64 (buf @ tail) p = Some (h, p1)" "skip_bytes (buf @ tail) p1 32 = Some p2"
      "read_u64 (buf @ tail) p2 = Some (t, p3)"
      by (simp_all add: read_u64_append skip_bytes_append)
    show ?thesis
      using False r Suc.IH [OF _ Suc.prems(2)] tx_loop_append [OF u Suc.prems(2)]
      by (auto simp: rd split: sum.splits)
  qed (use Suc.prems in simp)
qed simp

lemma transactions_at_decodes:
  assumes "\<forall>e \<in> set es. wf_entry e" "length es < 2 ^ 64" "fits (enc_payload es)"
    and "hits \<noteq> []" "\<forall>h \<in> set hits. h \<le> last hits"
  shows "transactions_at deserialize (enc_payload es) hits
    = decode_hits deserialize hits (payload_spans 8 es)"
proof -
  let ?n = "of_nat (length es) :: u64"
  have a: "at_pos (enc_payload es) 0 (u64_to_le ?n)"
    "at_pos (enc_payload es) 8 (concat (map enc_entry es))"
    using at_pos_mid [of "[]" "u64_to_le ?n" "concat (map enc_entry es)"]
      at_pos_mid [of "u64_to_le ?n" "concat (map enc_entry es)" "[]"]
    by (simp_all add: enc_payload_def)
  have "read_u64 (enc_payload es) 0 = Some (?n, 8)" "unat ?n = length es"
    using le_u64.rd_complete [OF a(1) assms(3)] assms(2) by (simp_all add: unat_of_nat)
  then show ?thesis
    using assms(4) entry_loop_eq [OF assms(1) a(2) assms(3,5), of deserialize "[]"]
    by (simp add: transactions_at_def)
qed

subsection \<open>A concrete segment\<close>

definition sample_tx :: wire_tx where
  "sample_tx = \<lparr>wt_signatures = [replicate 64 7], wt_header = [1, 0, 1],
     wt_keys = [replicate 32 1, replicate 32 3], wt_blockhash = replicate 32 2,
     wt_instructions = [\<lparr>wi_program = 1, wi_accounts = [0, 1], wi_data = [24, 30, 200, 40]\<rparr>],
     wt_version = V0_Wire [\<lparr>wl_table = replicate 32 5, wl_writable = [4], wl_readonly = []\<rparr>]\<rparr>"

definition sample_entry :: wire_entry where
  "sample_entry = \<lparr>we_num_hashes = 12, we_hash = replicate 32 9, we_txs = [enc_tx sample_tx, enc_tx sample_tx]\<rparr>"

lemma wf_sample_tx: "wf_tx sample_tx"
  by (simp add: sample_tx_def wf_tx_def wf_ix_def wf_lookup_def short_len_def)

lemma length_sample_tx: "length (enc_tx sample_tx) = 212"
  by (simp add: sample_tx_def enc_tx_def enc_vec_def enc_ix_def enc_lookup_def enc_short_def enc_compact_def)

lemma wf_sample_entry: "wf_entry sample_entry"
  using wf_sample_tx by (auto simp: sample_entry_def wf_entry_def tx_word_def)

lemma length_sample_payload: "length (enc_payload [sample_entry]) = 480"
  by (simp add: enc_payload_def enc_entry_def sample_entry_def length_sample_tx)

lemma fits_sample: "fits (enc_payload [sample_entry])"
  using length_sample_payload by (simp add: fits_def)

section \<open>Properties\<close>

text \<open>
  C9: \<open>transaction_end\<close> accepts exactly the serialized transactions: it returns \<open>q\<close> for a start
  \<open>p\<close> if and only if the bytes from \<open>p\<close> up to \<open>q\<close> are the encoding of a well-formed legacy or v0
  transaction. So the walker neither guesses a boundary nor misses one.
\<close>

theorem transaction_end_exact:
  "fits buf \<Longrightarrow>
     transaction_end buf p = Some q \<longleftrightarrow>
       (\<exists>t. wf_tx t \<and> at_pos buf p (enc_tx t) \<and> q = p + length (enc_tx t))"
  using transaction.accepts_iff [of buf p q] by (auto simp: tx_word_def)

theorem transaction_end_exact_witness:
  "transaction_end ([9] @ enc_tx sample_tx @ [1, 2]) 1 = Some 213"
proof -
  have "fits ([9] @ enc_tx sample_tx @ [1, 2])"
    by (simp add: fits_def length_sample_tx)
  from transaction_end_exact [OF this, of 1 213] show ?thesis
    using wf_sample_tx at_pos_mid [of "[9]" "enc_tx sample_tx" "[1, 2]"] length_sample_tx by auto
qed

text \<open>
  C11: On a serialized segment \<open>transactions_at\<close> returns what a decode of the whole segment would
  give for the transactions whose byte span contains a hit, in order, although it stops walking
  after the last hit. It fails exactly when one of those transactions does not deserialize. The
  hits need not be sorted, only the last must be the largest.
\<close>

theorem transactions_at_reference:
  assumes "\<forall>e \<in> set es. wf_entry e" "length es < 2 ^ 64" "fits (enc_payload es)"
    and "hits \<noteq> []" "\<forall>h \<in> set hits. h \<le> last hits"
  shows "transactions_at deserialize (enc_payload es) hits
    = decode_hits deserialize hits (payload_spans 8 es)"
  using assms by (rule transactions_at_decodes)

theorem transactions_at_reference_witness:
  "transactions_at (\<lambda>b. Some (length b, hd b)) (enc_payload [sample_entry]) [100, 300]
     = Some [(212, 1), (212, 1)]
   \<and> transactions_at (\<lambda>b. Some (length b, hd b)) (enc_payload [sample_entry]) [300] = Some [(212, 1)]"
proof -
  have "hd (enc_tx sample_tx) = 1"
    by (simp add: sample_tx_def enc_tx_def enc_vec_def enc_compact_def byte_of_def)
  then show ?thesis
    using wf_sample_entry fits_sample
    by (simp add: transactions_at_reference decode_hits_def hit_in_def sample_entry_def length_sample_tx)
qed

text \<open>
  A selective decode of a segment that is still arriving is final: the bytes that follow
  later do not change the transactions it returned.
\<close>

theorem transactions_at_stable:
  assumes "transactions_at deserialize payload hits = Some txs" "fits (payload @ tail)"
  shows "transactions_at deserialize (payload @ tail) hits = Some txs"
proof -
  from assms(1) obtain n p where "hits \<noteq> []" "read_u64 payload 0 = Some (n, p)"
    "entry_loop deserialize payload hits (last hits) (unat n) p [] = Some txs"
    by (auto simp: transactions_at_def Let_def split: if_splits)
  then show ?thesis
    using read_u64_append [of payload 0 "(n, p)" tail] entry_loop_append [OF _ assms(2)]
    by (simp add: transactions_at_def)
qed

theorem transactions_at_stable_witness:
  "transactions_at (\<lambda>b. Some (length b)) (enc_payload [sample_entry] @ [1, 2, 3]) [100] = Some [212]"
proof (rule transactions_at_stable)
  show "fits (enc_payload [sample_entry] @ [1, 2, 3])"
    using length_sample_payload by (simp add: fits_def)
  show "transactions_at (\<lambda>b. Some (length b)) (enc_payload [sample_entry]) [100] = Some [212]"
    using wf_sample_entry fits_sample
    by (simp add: transactions_at_decodes decode_hits_def hit_in_def sample_entry_def length_sample_tx)
qed

end
