(* ===== verification/Shreds.thy ===== *)
theory Shreds
  imports Pumpfun Wire "HOL-Library.Product_Lexorder"
begin

text \<open>
  The per-slot shred state of \<open>proxy/src/deshred.rs\<close>: the status vectors of a slot, the pool that
  recycles them, the search for the bounds of a segment, the insertion of a shred, and the set of
  shreds of an FEC set.

  The types of a shred come from the ledger library. They are modelled by the fields the code
  reads: the common header, the two flags of a data shred, the two counts of a code shred and the
  payload; what else a header holds is kept as bytes, because equality compares it. Every function
  of that library, and of the search and serialization libraries, is a field of \<open>ledger\<close>. The four
  vectors of a tracker have the same length, so an index checked against one is in range for all;
  an index that is not checked is read with \<open>get_at\<close>, and \<open>None\<close> is the panic.
\<close>

section \<open>Shreds\<close>

datatype ShredVariant = MerkleCode (mc_proof_size: u8) (mc_chained: bool) (mc_resigned: bool) | OtherVariant u8

record ShredCommonHeader =
  ch_variant :: ShredVariant
  ch_slot :: u64
  ch_index :: u32
  ch_fec_set_index :: u32
  ch_rest :: bytes

record DataShredHeader =
  dh_data_complete :: bool
  dh_last_in_slot :: bool
  dh_rest :: bytes

record CodingShredHeader =
  cs_num_data_shreds :: u16
  cs_num_coding_shreds :: u16
  cs_position :: u16

datatype Shred =
    ShredCode (common_header: ShredCommonHeader) (coding_header: CodingShredHeader) (shred_payload: bytes)
  | ShredData (common_header: ShredCommonHeader) (data_header: DataShredHeader) (shred_payload: bytes)

abbreviation shred_slot :: "Shred \<Rightarrow> u64" where "shred_slot s \<equiv> ch_slot (common_header s)"
abbreviation shred_index :: "Shred \<Rightarrow> u32" where "shred_index s \<equiv> ch_index (common_header s)"
abbreviation fec_set_index :: "Shred \<Rightarrow> u32" where "fec_set_index s \<equiv> ch_fec_set_index (common_header s)"

definition is_data :: "Shred \<Rightarrow> bool" where
  "is_data s = (case s of ShredData _ _ _ \<Rightarrow> True | ShredCode _ _ _ \<Rightarrow> False)"

record Entry =
  en_num_hashes :: u64
  en_hash :: bytes
  en_transactions :: "VersionedTransaction list"

record ledger =
  get_slot :: "bytes \<Rightarrow> u64 option"
  get_index :: "bytes \<Rightarrow> u32 option"
  is_data_packet :: "bytes \<Rightarrow> bool"
  parse_shred :: "bytes \<Rightarrow> Shred option"
  recover_shreds :: "Shred list \<Rightarrow> Shred option list option"
  deshred_data :: "bytes list \<Rightarrow> bytes option"
  shred_data :: "bytes \<Rightarrow> bytes option"
  decode_entries :: "bytes \<Rightarrow> Entry list option"
  decode_tx :: "bytes \<Rightarrow> VersionedTransaction option"
  find_iter :: "bytes \<Rightarrow> bytes \<Rightarrow> nat list"
  iter_set :: "Shred list \<Rightarrow> Shred list"
  code_payload_size :: nat
  proof_entry_size :: nat
  signature_size :: nat

section \<open>The tracker of a slot\<close>

definition MAX_DATA_SHREDS_PER_SLOT :: nat where "MAX_DATA_SHREDS_PER_SLOT = 32768"

datatype ShredStatus = Unknown | NotDataComplete | DataComplete

record ShredsStateTracker =
  data_status :: "ShredStatus list"
  data_shreds :: "Shred option list"
  already_recovered_fec_sets :: "bool list"
  already_deshredded :: "bool list"
  high_water :: nat

definition tracker_default :: ShredsStateTracker where
  "tracker_default =
     \<lparr>data_status = replicate MAX_DATA_SHREDS_PER_SLOT Unknown,
      data_shreds = replicate MAX_DATA_SHREDS_PER_SLOT None,
      already_recovered_fec_sets = replicate MAX_DATA_SHREDS_PER_SLOT False,
      already_deshredded = replicate MAX_DATA_SHREDS_PER_SLOT False,
      high_water = 0\<rparr>"

definition touch :: "nat \<Rightarrow> ShredsStateTracker \<Rightarrow> ShredsStateTracker" where
  "touch index t = (if index > high_water t then t\<lparr>high_water := index\<rparr> else t)"

text \<open>\<open>v[..n].fill(x)\<close> for \<open>n\<close> up to the length of the vector.\<close>

definition fill_prefix :: "nat \<Rightarrow> 'a \<Rightarrow> 'a list \<Rightarrow> 'a list" where
  "fill_prefix n x v = replicate n x @ drop n v"

definition tracker_reset :: "ShredsStateTracker \<Rightarrow> ShredsStateTracker" where
  "tracker_reset t =
     (let n = min (high_water t + 1) (length (data_status t))
      in \<lparr>data_status = fill_prefix n Unknown (data_status t),
          data_shreds = fill_prefix n None (data_shreds t),
          already_recovered_fec_sets = fill_prefix n False (already_recovered_fec_sets t),
          already_deshredded = fill_prefix n False (already_deshredded t),
          high_water = 0\<rparr>)"

section \<open>The pool\<close>

type_synonym TrackerPool = "ShredsStateTracker list"

definition MAX_POOLED_TRACKERS :: nat where "MAX_POOLED_TRACKERS = 8"

text \<open>The end of the vector is the head of the list: \<open>pop\<close> and \<open>push\<close>.\<close>

fun pool_take :: "TrackerPool \<Rightarrow> ShredsStateTracker \<times> TrackerPool" where
  "pool_take [] = (tracker_default, [])"
| "pool_take (t # free) = (t, free)"

definition pool_give :: "ShredsStateTracker \<Rightarrow> TrackerPool \<Rightarrow> TrackerPool" where
  "pool_give t free = (if length free < MAX_POOLED_TRACKERS then tracker_reset t # free else free)"

section \<open>Peeking at a packet\<close>

definition FEC_SET_INDEX_OFFSET :: nat where "FEC_SET_INDEX_OFFSET = 64 + 1 + 8 + 4 + 2"

definition peek_fec_set_index :: "bytes \<Rightarrow> u32 option" where
  "peek_fec_set_index shred =
     map_option u32_from_le (get_range shred FEC_SET_INDEX_OFFSET (FEC_SET_INDEX_OFFSET + 4))"

section \<open>The bounds of a segment\<close>

text \<open>The search to the right, from \<open>end\<close> to the first shred that completes a segment.\<close>

function right_bound :: "ShredsStateTracker \<Rightarrow> nat \<Rightarrow> nat option" where
  "right_bound t end' =
     (if end' < length (data_status t) then
        (if already_deshredded t ! end' then None
         else case data_status t ! end' of
             Unknown \<Rightarrow> None
           | DataComplete \<Rightarrow> Some end'
           | NotDataComplete \<Rightarrow> right_bound t (end' + 1))
      else None)"
  by pat_completeness auto
termination
  by (relation "measure (\<lambda>(t, end'). length (data_status t) - end')") auto

declare right_bound.simps [simp del]

text \<open>The search to the left: the start, and whether it is a guess.\<close>

fun left_bound :: "ShredsStateTracker \<Rightarrow> nat \<Rightarrow> nat \<Rightarrow> (nat \<times> bool) option" where
  "left_bound t start next =
     (case data_status t ! next of
        NotDataComplete \<Rightarrow>
          if already_deshredded t ! next then None
          else if next = 0 then Some (0, False)
          else left_bound t next (next - 1)
      | DataComplete \<Rightarrow> Some (start, False)
      | Unknown \<Rightarrow> Some (start, True))"

declare left_bound.simps [simp del]

definition get_indexes :: "ShredsStateTracker \<Rightarrow> nat \<Rightarrow> (nat \<times> nat \<times> bool) option" where
  "get_indexes t index =
     (if index \<ge> length (data_status t) then None
      else do {
        end' \<leftarrow> right_bound t index;
        if end' = 0 then Some (0, 0, False)
        else if index = 0 then Some (0, end', False)
        else do {
          (start, unknown_start) \<leftarrow> left_bound t index (index - 1);
          Some (start, end', unknown_start)
        }
      })"

text \<open>The left bound the early detection uses; it never guesses.\<close>

fun start_loop :: "ShredsStateTracker \<Rightarrow> nat \<Rightarrow> nat option" where
  "start_loop t 0 = Some 0"
| "start_loop t (Suc n) =
     (case data_status t ! n of
        DataComplete \<Rightarrow> Some (Suc n)
      | NotDataComplete \<Rightarrow> if already_deshredded t ! n then Some (Suc n) else start_loop t n
      | Unknown \<Rightarrow> None)"

definition segment_start :: "ShredsStateTracker \<Rightarrow> nat \<Rightarrow> u32 option" where
  "segment_start t index =
     (if index \<ge> length (data_status t) \<or> already_deshredded t ! index then None
      else map_option of_nat (start_loop t index))"

section \<open>Inserting a shred\<close>

definition update_state_tracker :: "Shred \<Rightarrow> ShredsStateTracker \<Rightarrow> (nat option \<times> ShredsStateTracker) option" where
  "update_state_tracker shred t = do {
     let index = unat (shred_index shred);
     recovered \<leftarrow> get_at (already_recovered_fec_sets t) (unat (fec_set_index shred));
     if recovered then Some (None, t)
     else case shred of
         ShredCode _ _ _ \<Rightarrow> Some (Some index, t)
       | ShredData _ d _ \<Rightarrow> do {
           held \<leftarrow> get_at (data_shreds t) index;
           status \<leftarrow> get_at (data_status t) index;
           if held \<noteq> None \<or> status \<noteq> Unknown then Some (None, t)
           else Some (Some index, touch index
             (t\<lparr>data_shreds := (data_shreds t)[index := Some shred],
                data_status := (data_status t)[index :=
                  (if dh_data_complete d \<or> dh_last_in_slot d then DataComplete else NotDataComplete)]\<rparr>))
         }
   }"

section \<open>The shreds of an FEC set\<close>

text \<open>
  The hash set is the list of its elements; \<open>insert\<close> compares with the custom equality, and
  \<open>iter_set\<close> is the order in which the set is walked. A parsed code shred has a payload of the
  fixed size, so the compared prefix is in range.
\<close>

definition comparable_eq :: "'a ledger_scheme \<Rightarrow> Shred \<Rightarrow> Shred \<Rightarrow> bool" where
  "comparable_eq L a b =
     (case a of
        ShredCode c1 h1 p1 \<Rightarrow>
          (case b of
             ShredCode c2 h2 p2 \<Rightarrow>
               (case ch_variant c1 of
                  MerkleCode proof_size _ resigned \<Rightarrow>
                    (let comparison_len = code_payload_size L -
                       (unat proof_size * proof_entry_size L + (if resigned then signature_size L else 0))
                     in h1 = h2 \<and> c1 = c2 \<and> take comparison_len p1 = take comparison_len p2)
                | OtherVariant _ \<Rightarrow> False)
           | ShredData _ _ _ \<Rightarrow> False)
      | ShredData c1 h1 p1 \<Rightarrow>
          (case b of
             ShredCode _ _ _ \<Rightarrow> False
           | ShredData c2 h2 p2 \<Rightarrow>
               (case (shred_data L p1, shred_data L p2) of
                  (Some d1, Some d2) \<Rightarrow> h1 = h2 \<and> c1 = c2 \<and> d1 = d2
                | _ \<Rightarrow> False)))"

definition set_insert :: "'a ledger_scheme \<Rightarrow> Shred \<Rightarrow> Shred list \<Rightarrow> Shred list" where
  "set_insert L s shreds = (if \<exists>x \<in> set shreds. comparable_eq L x s then shreds else shreds @ [s])"

record shred_info =
  num_expected_data_shreds :: u16
  num_expected_coding_shreds :: u16
  num_data_shreds :: u16
  num_coding_shreds :: u16

definition count_shred :: "Shred \<Rightarrow> shred_info \<Rightarrow> shred_info" where
  "count_shred s i =
     (case s of
        ShredCode _ h _ \<Rightarrow>
          i\<lparr>num_coding_shreds := num_coding_shreds i + 1,
            num_expected_data_shreds := cs_num_data_shreds h,
            num_expected_coding_shreds := cs_num_coding_shreds h\<rparr>
      | ShredData _ h _ \<Rightarrow>
          (let i = i\<lparr>num_data_shreds := num_data_shreds i + 1\<rparr>
           in if num_expected_data_shreds i = 0 \<and> (dh_data_complete h \<or> dh_last_in_slot h)
              then i\<lparr>num_expected_data_shreds := ucast (shred_index s - fec_set_index s) + 1\<rparr> else i))"

definition get_data_shred_info :: "'a ledger_scheme \<Rightarrow> Shred list \<Rightarrow> shred_info" where
  "get_data_shred_info L shreds =
     fold count_shred (iter_set L shreds)
       \<lparr>num_expected_data_shreds = 0, num_expected_coding_shreds = 0, num_data_shreds = 0, num_coding_shreds = 0\<rparr>"


section \<open>Well-formed trackers\<close>

text \<open>
  All vectors have the full width; a shred is held exactly where the status is known, under its own
  index, with a status that tells whether it completes a segment; and nothing beyond the high-water
  mark has been written.
\<close>

definition lengths_ok :: "ShredsStateTracker \<Rightarrow> bool" where
  "lengths_ok t \<longleftrightarrow> length (data_status t) = MAX_DATA_SHREDS_PER_SLOT \<and> length (data_shreds t) = MAX_DATA_SHREDS_PER_SLOT
     \<and> length (already_recovered_fec_sets t) = MAX_DATA_SHREDS_PER_SLOT \<and> length (already_deshredded t) = MAX_DATA_SHREDS_PER_SLOT"

definition status_of :: "Shred option \<Rightarrow> ShredStatus" where
  "status_of held = (case held of
     Some (ShredData _ d _) \<Rightarrow> if dh_data_complete d \<or> dh_last_in_slot d then DataComplete else NotDataComplete
   | _ \<Rightarrow> Unknown)"

definition held_ok :: "nat \<Rightarrow> Shred option \<Rightarrow> bool" where
  "held_ok i held \<longleftrightarrow> (\<forall>s. held = Some s \<longrightarrow>
     is_data s \<and> unat (shred_index s) = i \<and> unat (fec_set_index s) < MAX_DATA_SHREDS_PER_SLOT)"

definition cell_clean :: "ShredsStateTracker \<Rightarrow> nat \<Rightarrow> bool" where
  "cell_clean t i \<longleftrightarrow> data_shreds t ! i = None \<and> \<not> already_recovered_fec_sets t ! i \<and> \<not> already_deshredded t ! i"

definition wf_tracker :: "ShredsStateTracker \<Rightarrow> bool" where
  "wf_tracker t \<longleftrightarrow> lengths_ok t \<and> high_water t < MAX_DATA_SHREDS_PER_SLOT
     \<and> (\<forall>i < MAX_DATA_SHREDS_PER_SLOT. data_status t ! i = status_of (data_shreds t ! i) \<and> held_ok i (data_shreds t ! i))
     \<and> (\<forall>i < MAX_DATA_SHREDS_PER_SLOT. high_water t < i \<longrightarrow> cell_clean t i)"

lemma MAX_pos [simp]: "0 < MAX_DATA_SHREDS_PER_SLOT"
  by (simp add: MAX_DATA_SHREDS_PER_SLOT_def)

lemma wf_trackerD:
  assumes "wf_tracker t"
  shows "length (data_status t) = MAX_DATA_SHREDS_PER_SLOT" "length (data_shreds t) = MAX_DATA_SHREDS_PER_SLOT"
    "length (already_recovered_fec_sets t) = MAX_DATA_SHREDS_PER_SLOT" "length (already_deshredded t) = MAX_DATA_SHREDS_PER_SLOT"
    "high_water t < MAX_DATA_SHREDS_PER_SLOT"
  using assms by (simp_all add: wf_tracker_def lengths_ok_def)

lemma wf_tracker_status: "wf_tracker t \<Longrightarrow> i < MAX_DATA_SHREDS_PER_SLOT \<Longrightarrow> data_status t ! i = status_of (data_shreds t ! i)"
  and wf_tracker_held: "wf_tracker t \<Longrightarrow> i < MAX_DATA_SHREDS_PER_SLOT \<Longrightarrow> held_ok i (data_shreds t ! i)"
  and wf_tracker_clean: "wf_tracker t \<Longrightarrow> i < MAX_DATA_SHREDS_PER_SLOT \<Longrightarrow> high_water t < i \<Longrightarrow> cell_clean t i"
  by (simp_all add: wf_tracker_def)

lemma status_of_None [simp]: "status_of None = Unknown"
  by (simp add: status_of_def)

lemma status_of_Unknown: "held_ok i held \<Longrightarrow> status_of held = Unknown \<longleftrightarrow> held = None"
  by (auto simp: status_of_def held_ok_def is_data_def split: option.splits Shred.splits)

lemma wf_default: "wf_tracker tracker_default"
  by (simp add: wf_tracker_def lengths_ok_def tracker_default_def status_of_def held_ok_def cell_clean_def)

text \<open>Recycling a tracker gives the tracker a new slot would have been given.\<close>

lemma replicate_prefix_eq:
  assumes "length v = N" "n \<le> N" "\<And>i. n \<le> i \<Longrightarrow> i < N \<Longrightarrow> v ! i = x"
  shows "fill_prefix n x v = replicate N x"
  using assms by (intro nth_equalityI) (auto simp: fill_prefix_def nth_append)

lemma tracker_reset_default:
  assumes "wf_tracker t"
  shows "tracker_reset t = tracker_default"
proof -
  note l = wf_trackerD [OF assms]
  let ?n = "min (high_water t + 1) MAX_DATA_SHREDS_PER_SLOT"
  have c: "cell_clean t i" "data_status t ! i = Unknown" if "?n \<le> i" "i < MAX_DATA_SHREDS_PER_SLOT" for i
    using that wf_tracker_clean [OF assms, of i] wf_tracker_status [OF assms, of i] by (auto simp: cell_clean_def)
  show ?thesis
    unfolding tracker_reset_def tracker_default_def Let_def l(1)
    using l c by (simp add: replicate_prefix_eq cell_clean_def)
qed

section \<open>Insertion\<close>

lemma touch_simps [simp]:
  "data_status (touch i t) = data_status t" "data_shreds (touch i t) = data_shreds t"
  "already_recovered_fec_sets (touch i t) = already_recovered_fec_sets t" "already_deshredded (touch i t) = already_deshredded t"
  "high_water (touch i t) = max i (high_water t)"
  by (simp_all add: touch_def)

text \<open>What the parser of the library promises: both indices are below the width of a slot.\<close>

definition shred_ok :: "Shred \<Rightarrow> bool" where
  "shred_ok s \<longleftrightarrow> unat (shred_index s) < MAX_DATA_SHREDS_PER_SLOT \<and> unat (fec_set_index s) < MAX_DATA_SHREDS_PER_SLOT"

definition insert_shred :: "Shred \<Rightarrow> ShredsStateTracker \<Rightarrow> ShredsStateTracker" where
  "insert_shred s t =
     (if is_data s then touch (unat (shred_index s))
       (t\<lparr>data_shreds := (data_shreds t)[unat (shred_index s) := Some s],
          data_status := (data_status t)[unat (shred_index s) := status_of (Some s)]\<rparr>) else t)"

definition insertable :: "Shred \<Rightarrow> ShredsStateTracker \<Rightarrow> bool" where
  "insertable s t \<longleftrightarrow> \<not> already_recovered_fec_sets t ! unat (fec_set_index s)
     \<and> (is_data s \<longrightarrow> data_shreds t ! unat (shred_index s) = None)"

lemma update_state_tracker_eq:
  assumes "wf_tracker t" "shred_ok s"
  shows "update_state_tracker s t =
    Some (if insertable s t then (Some (unat (shred_index s)), insert_shred s t) else (None, t))"
proof -
  note l = wf_trackerD [OF assms(1)]
  let ?i = "unat (shred_index s)" and ?f = "unat (fec_set_index s)"
  have i: "?i < MAX_DATA_SHREDS_PER_SLOT" "?f < MAX_DATA_SHREDS_PER_SLOT"
    using assms(2) by (simp_all add: shred_ok_def)
  then have g: "get_at (already_recovered_fec_sets t) ?f = Some (already_recovered_fec_sets t ! ?f)"
    "get_at (data_shreds t) ?i = Some (data_shreds t ! ?i)" "get_at (data_status t) ?i = Some (data_status t ! ?i)"
    using l by (simp_all add: get_at_def)
  show ?thesis
  proof (cases s)
    case (ShredCode c h p)
    with g show ?thesis
      by (simp add: update_state_tracker_def Let_def insertable_def insert_shred_def is_data_def del: get_at_Some_iff bind_Some_iff)
  next
    case d: (ShredData c h p)
    show ?thesis
    proof (cases "data_shreds t ! ?i")
      case None
      then show ?thesis
        using d g wf_tracker_status [OF assms(1) i(1)]
        by (simp add: update_state_tracker_def Let_def insertable_def insert_shred_def is_data_def status_of_def
            del: get_at_Some_iff bind_Some_iff)
    next
      case (Some y)
      then show ?thesis
        using d g by (simp add: update_state_tracker_def Let_def insertable_def insert_shred_def is_data_def
            del: get_at_Some_iff bind_Some_iff)
    qed
  qed
qed

lemma wf_insert_shred:
  assumes "wf_tracker t" "shred_ok s"
  shows "wf_tracker (insert_shred s t)"
proof (cases "is_data s")
  case True
  let ?i = "unat (shred_index s)"
  have i: "?i < MAX_DATA_SHREDS_PER_SLOT" "unat (fec_set_index s) < MAX_DATA_SHREDS_PER_SLOT"
    using assms(2) by (simp_all add: shred_ok_def)
  let ?t = "insert_shred s t"
  note l = wf_trackerD [OF assms(1)]
  have t: "data_shreds ?t = (data_shreds t)[?i := Some s]" "data_status ?t = (data_status t)[?i := status_of (Some s)]"
    "already_recovered_fec_sets ?t = already_recovered_fec_sets t" "already_deshredded ?t = already_deshredded t"
    "high_water ?t = max ?i (high_water t)"
    using True by (simp_all add: insert_shred_def)
  have "data_status ?t ! j = status_of (data_shreds ?t ! j) \<and> held_ok j (data_shreds ?t ! j)"
    if "j < MAX_DATA_SHREDS_PER_SLOT" for j
    using wf_tracker_status [OF assms(1) that] wf_tracker_held [OF assms(1) that] i True that l
    by (cases "j = ?i") (simp_all add: t held_ok_def)
  moreover have "cell_clean ?t j" if "j < MAX_DATA_SHREDS_PER_SLOT" "high_water ?t < j" for j
    using wf_tracker_clean [OF assms(1) that(1)] that by (simp add: t cell_clean_def)
  ultimately show ?thesis
    using l i by (simp add: wf_tracker_def lengths_ok_def t)
qed (simp add: insert_shred_def assms)

lemma update_keeps_wf:
  assumes "update_state_tracker s t = Some (r, t')" "wf_tracker t" "shred_ok s"
  shows "wf_tracker t'"
  using assms update_state_tracker_eq [OF assms(2,3)] wf_insert_shred [OF assms(2,3)] by (auto split: if_splits)

section \<open>The bounds of a segment\<close>

text \<open>
  \<open>is_segment t i s e u\<close>: the shreds from \<open>s\<close> to \<open>e\<close> are all held and none was handed over; \<open>e\<close> is
  the first that completes a segment at or after \<open>i\<close>, the others complete none; before \<open>s\<close> lies the
  start of the slot or the end of another segment, or, when the start is a guess, a gap.
\<close>

definition is_segment :: "ShredsStateTracker \<Rightarrow> nat \<Rightarrow> nat \<Rightarrow> nat \<Rightarrow> bool \<Rightarrow> bool" where
  "is_segment t i s e u \<longleftrightarrow>
     s \<le> i \<and> i \<le> e \<and> e < length (data_status t) \<and> data_status t ! e = DataComplete
     \<and> (\<forall>j \<in> {s..<e}. data_status t ! j = NotDataComplete) \<and> (\<forall>j \<in> {s..e}. \<not> already_deshredded t ! j)
     \<and> (if u then 0 < s \<and> data_status t ! (s - 1) = Unknown else s = 0 \<or> data_status t ! (s - 1) = DataComplete)"

lemma right_bound_iff:
  "right_bound t i = Some e \<longleftrightarrow>
     i \<le> e \<and> e < length (data_status t) \<and> data_status t ! e = DataComplete
     \<and> (\<forall>j \<in> {i..<e}. data_status t ! j = NotDataComplete) \<and> (\<forall>j \<in> {i..e}. \<not> already_deshredded t ! j)"
proof (induction t i rule: right_bound.induct)
  case (1 t i)
  have split1: "{i..<e} = insert i {Suc i..<e}" if "i < e" for e :: nat
    using that by auto
  have split2: "{i..e} = insert i {Suc i..e}" if "i \<le> e" for e :: nat
    using that by auto
  show ?case
  proof (cases "i < length (data_status t) \<and> \<not> already_deshredded t ! i \<and> data_status t ! i = NotDataComplete")
    case True
    then have "right_bound t i = right_bound t (Suc i)"
      by (subst right_bound.simps) simp
    moreover have "data_status t ! e = DataComplete \<Longrightarrow> i \<le> e \<longleftrightarrow> Suc i \<le> e"
      using True by (auto simp: le_less)
    ultimately show ?thesis
      using 1 True by (auto simp: split1 split2 Suc_le_eq)
  next
    case False
    then show ?thesis
      by (subst right_bound.simps) (force split: ShredStatus.splits simp: le_less)
  qed
qed

lemma left_bound_iff:
  "left_bound t (Suc n) n = Some (s, u) \<longleftrightarrow>
     s \<le> Suc n \<and> (\<forall>j \<in> {s..n}. data_status t ! j = NotDataComplete \<and> \<not> already_deshredded t ! j)
     \<and> (if u then 0 < s \<and> data_status t ! (s - 1) = Unknown else s = 0 \<or> data_status t ! (s - 1) = DataComplete)"
proof (induction n)
  case 0
  then show ?case
    by (subst left_bound.simps) (auto split: ShredStatus.splits simp: le_Suc_eq)
next
  case (Suc n)
  have "{s..Suc n} = insert (Suc n) {s..n}" if "s \<le> Suc n"
    using that by auto
  then show ?case
    using Suc by (subst left_bound.simps) (auto split: ShredStatus.splits simp: le_Suc_eq)
qed

lemma get_indexes_segment: "get_indexes t i = Some (s, e, u) \<longleftrightarrow> is_segment t i s e u"
proof (cases i)
  case 0
  have "get_indexes t 0 = map_option (\<lambda>e. (0, e, False)) (right_bound t 0)"
    by (auto simp: get_indexes_def right_bound.simps [of t 0] split: bind_splits)
  then have "get_indexes t 0 = Some (s, e, u) \<longleftrightarrow> s = 0 \<and> \<not> u \<and> right_bound t 0 = Some e"
    by auto
  then show ?thesis
    using 0 by (cases "s = 0"; cases u) (simp_all add: is_segment_def right_bound_iff)
next
  case (Suc n)
  have parts: "{s..<e} = {s..n} \<union> {i..<e}" "{s..e} = {s..n} \<union> {i..e}" if "s \<le> i" "i \<le> e"
    using that Suc by auto
  have "get_indexes t i = Some (s, e, u) \<longleftrightarrow>
      right_bound t i = Some e \<and> left_bound t (Suc n) n = Some (s, u)"
  proof -
    have "right_bound t i = Some e' \<Longrightarrow> i < length (data_status t) \<and> e' \<noteq> 0" for e'
      using Suc by (auto simp: right_bound_iff)
    then show ?thesis
      using Suc by (cases "right_bound t i"; cases "left_bound t i n") (auto simp: get_indexes_def not_less)
  qed
  also have "\<dots> \<longleftrightarrow> is_segment t i s e u"
  proof (cases "s \<le> i \<and> i \<le> e")
    case True
    then show ?thesis
      using Suc by (simp add: is_segment_def right_bound_iff left_bound_iff parts ball_Un ball_conj_distrib) blast
  next
    case False
    then show ?thesis
      using Suc by (simp add: is_segment_def right_bound_iff left_bound_iff) blast
  qed
  finally show ?thesis .
qed

lemma start_loop_iff:
  "start_loop t n = Some s \<longleftrightarrow>
     s \<le> n \<and> (\<forall>j \<in> {s..<n}. data_status t ! j = NotDataComplete \<and> \<not> already_deshredded t ! j)
     \<and> (s = 0 \<or> data_status t ! (s - 1) = DataComplete \<or> data_status t ! (s - 1) = NotDataComplete \<and> already_deshredded t ! (s - 1))"
proof (induction n)
  case (Suc n)
  have "{s..<Suc n} = insert n {s..<n}" if "s \<le> n"
    using that by auto
  then show ?case
    using Suc by (auto split: ShredStatus.splits simp: le_Suc_eq)
qed auto

end
