(* ===== verification/Early.thy ===== *)
theory Early
  imports Shreds
begin

text \<open>
  The discriminator scan and the early detection of \<open>proxy/src/deshred.rs\<close>: the offsets of the
  create (and, in confirm mode, buy) discriminators in a payload, the creates among the
  transactions they lie in, and the segments that are searched while they are still arriving.

  The flag of confirm mode is an argument. The counter of unresolved creates is a static of the
  sniper crate that \<open>parse_create\<close> bumps; it is threaded through.
\<close>

section \<open>The scan for discriminators\<close>

definition DISC_LEN :: nat where "DISC_LEN = 8"

definition create_offsets_into :: "'a ledger_scheme \<Rightarrow> bool \<Rightarrow> bytes \<Rightarrow> nat \<Rightarrow> nat list \<Rightarrow> nat list" where
  "create_offsets_into L confirm sl base hits =
     (let scan = (\<lambda>d. map (\<lambda>off. off + base) (find_iter L sl d));
          hits = hits @ scan DISC_CREATE_V2;
          hits = hits @ scan DISC_CREATE;
          hits = (if confirm
                  then hits @ scan DISC_BUY @ scan DISC_BUY_V2 @ scan DISC_BUY_EXACT_SOL_IN
                  else hits)
      in sort hits)"

definition create_offsets :: "'a ledger_scheme \<Rightarrow> bool \<Rightarrow> bytes \<Rightarrow> nat list" where
  "create_offsets L confirm payload = create_offsets_into L confirm payload 0 []"

definition may_contain_pump_create :: "'a ledger_scheme \<Rightarrow> bytes \<Rightarrow> bool" where
  "may_contain_pump_create L payload \<longleftrightarrow>
     find_iter L payload DISC_CREATE_V2 \<noteq> [] \<or> find_iter L payload DISC_CREATE \<noteq> []"

fun keep_creates :: "bool \<Rightarrow> VersionedTransaction list \<Rightarrow> u64 \<Rightarrow> VersionedTransaction list \<times> u64" where
  "keep_creates confirm [] unresolved = ([], unresolved)"
| "keep_creates confirm (tx # txs) unresolved =
     (let (created, unresolved) = parse_create tx unresolved;
          (kept, unresolved) = keep_creates confirm txs unresolved
      in (if created \<noteq> None \<or> confirm \<and> parse_buy tx \<noteq> None then tx # kept else kept, unresolved))"

definition creates_in_payload ::
  "'a ledger_scheme \<Rightarrow> bool \<Rightarrow> bytes \<Rightarrow> nat list \<Rightarrow> u64 \<Rightarrow> VersionedTransaction list option \<times> u64" where
  "creates_in_payload L confirm payload hits unresolved =
     (if hits = [] then (Some [], unresolved)
      else case transactions_at (decode_tx L) payload hits of
          None \<Rightarrow> (None, unresolved)
        | Some candidates \<Rightarrow>
            (let (kept, unresolved) = keep_creates confirm candidates unresolved in (Some kept, unresolved)))"

section \<open>Segments that are still arriving\<close>

record EarlySegment =
  es_next :: u32
  es_buf :: bytes
  es_scanned :: nat
  es_hits :: "nat list"
  es_complete :: bool

definition EarlySegment_new :: "u32 \<Rightarrow> EarlySegment" where
  "EarlySegment_new start = \<lparr>es_next = start, es_buf = [], es_scanned = 0, es_hits = [], es_complete = False\<rparr>"

text \<open>The field \<open>hits\<close> of the code is scratch space, emptied before each use.\<close>

record EarlyDetect =
  segments :: "u64 \<times> u32 \<rightharpoonup> EarlySegment"
  arrived :: "(u64 \<times> u32) list"

definition EarlyDetect_default :: EarlyDetect where
  "EarlyDetect_default = \<lparr>segments = Map.empty, arrived = []\<rparr>"

definition note_arrival :: "u64 \<Rightarrow> u32 \<Rightarrow> EarlyDetect \<Rightarrow> EarlyDetect" where
  "note_arrival slot index early = early\<lparr>arrived := arrived early @ [(slot, index)]\<rparr>"

text \<open>
  The loop that appends the contiguous shreds that have turned up, with whether the segment ends
  there. Every round moves \<open>next\<close> by one, so as many rounds as there are shreds left up to the
  width of the slot are enough; \<open>grow_enough\<close> proves it.
\<close>

fun grow_loop :: "'a ledger_scheme \<Rightarrow> ShredsStateTracker \<Rightarrow> nat \<Rightarrow> EarlySegment \<Rightarrow> EarlySegment \<times> bool" where
  "grow_loop L t 0 seg = (seg, False)"
| "grow_loop L t (Suc n) seg =
     (let i = unat (es_next seg) in
      if \<not> i < length (data_status t) then (seg, False)
      else if already_deshredded t ! i then (seg, True)
      else case data_shreds t ! i of
          None \<Rightarrow> (seg, False)
        | Some shred \<Rightarrow>
            (case shred_data L (shred_payload shred) of
               None \<Rightarrow> (seg, False)
             | Some d \<Rightarrow>
                 (let seg = seg\<lparr>es_buf := es_buf seg @ d, es_next := es_next seg + 1\<rparr>
                  in if data_status t ! i = DataComplete then (seg, True) else grow_loop L t n seg)))"

definition grow :: "'a ledger_scheme \<Rightarrow> ShredsStateTracker \<Rightarrow> EarlySegment \<Rightarrow> EarlySegment \<times> bool" where
  "grow L t seg = grow_loop L t (length (data_status t) - unat (es_next seg)) seg"

text \<open>Searching what has been appended; returns the creates found and the counter.\<close>

definition scan_segment ::
  "'a ledger_scheme \<Rightarrow> bool \<Rightarrow> EarlySegment \<Rightarrow> u64 \<Rightarrow> EarlySegment \<times> VersionedTransaction list \<times> u64" where
  "scan_segment L confirm seg unresolved =
     (if length (es_buf seg) > es_scanned seg then
        (let from = es_scanned seg - (DISC_LEN - 1);
             new = create_offsets_into L confirm (drop from (es_buf seg)) from [];
             seg = seg\<lparr>es_scanned := length (es_buf seg)\<rparr>;
             seg = (if new \<noteq> [] then seg\<lparr>es_hits := remdups_adj (sort (es_hits seg @ new))\<rparr> else seg)
         in if es_hits seg \<noteq> [] then
              (case creates_in_payload L confirm (es_buf seg) (es_hits seg) unresolved of
                 (Some txs, unresolved) \<Rightarrow> (seg, txs, unresolved)
               | (None, unresolved) \<Rightarrow> (seg, [], unresolved))
            else (seg, [], unresolved))
      else (seg, [], unresolved))"

type_synonym deshredded = "(u64 \<times> Entry list \<times> bytes) list"

definition create_entry :: "VersionedTransaction list \<Rightarrow> Entry" where
  "create_entry txs = \<lparr>en_num_hashes = 0, en_hash = replicate 32 0, en_transactions = txs\<rparr>"

record early_run =
  er_segments :: "u64 \<times> u32 \<rightharpoonup> EarlySegment"
  er_entries :: deshredded
  er_unresolved :: u64
  er_found :: nat

definition detect_one ::
  "'a ledger_scheme \<Rightarrow> bool \<Rightarrow> (u64 \<rightharpoonup> ShredsStateTracker) \<Rightarrow> u64 \<times> u32 \<Rightarrow> early_run \<Rightarrow> early_run" where
  "detect_one L confirm trackers arrival r =
     (let (slot, shred_index) = arrival in
      case trackers slot of
        None \<Rightarrow> r
      | Some t \<Rightarrow>
          (case segment_start t (unat shred_index) of
             None \<Rightarrow> r
           | Some start \<Rightarrow>
               (let seg = (case er_segments r (slot, start) of Some seg \<Rightarrow> seg | None \<Rightarrow> EarlySegment_new start) in
                if es_complete seg then r\<lparr>er_segments := (er_segments r)((slot, start) \<mapsto> seg)\<rparr>
                else
                  (let (seg, ends_here) = grow L t seg;
                       (seg, txs, unresolved) = scan_segment L confirm seg (er_unresolved r);
                       seg = (if ends_here then seg\<lparr>es_complete := True, es_buf := [], es_hits := []\<rparr> else seg)
                   in \<lparr>er_segments = (er_segments r)((slot, start) \<mapsto> seg),
                       er_entries = (if txs \<noteq> [] then er_entries r @ [(slot, [create_entry txs], [])] else er_entries r),
                       er_unresolved = unresolved,
                       er_found = er_found r + length txs\<rparr>))))"

definition detect_in_partial_segments ::
  "'a ledger_scheme \<Rightarrow> bool \<Rightarrow> (u64 \<rightharpoonup> ShredsStateTracker) \<Rightarrow> EarlyDetect \<Rightarrow> deshredded \<Rightarrow> u64
     \<Rightarrow> nat \<times> EarlyDetect \<times> deshredded \<times> u64" where
  "detect_in_partial_segments L confirm trackers early entries unresolved =
     (let r = fold (detect_one L confirm trackers) (remdups_adj (sort (arrived early)))
            \<lparr>er_segments = segments early, er_entries = entries, er_unresolved = unresolved, er_found = 0\<rparr>
      in (er_found r, early\<lparr>segments := er_segments r, arrived := []\<rparr>, er_entries r, er_unresolved r))"

section \<open>What the scan finds\<close>

text \<open>
  The documented behaviour of the substring search: the leftmost match, and then the leftmost one
  behind it, never overlapping.
\<close>

function matches_from :: "nat \<Rightarrow> bytes \<Rightarrow> bytes \<Rightarrow> nat list" where
  "matches_from p hay needle =
     (if length hay < p + length needle then []
      else if at_pos hay p needle then p # matches_from (p + max 1 (length needle)) hay needle
      else matches_from (Suc p) hay needle)"
  by pat_completeness auto
termination
  by (relation "measure (\<lambda>(p, hay, needle). Suc (length hay) - p)") auto

declare matches_from.simps [simp del]

definition find_iter_ok :: "'a ledger_scheme \<Rightarrow> bool" where
  "find_iter_ok L \<longleftrightarrow> (\<forall>hay needle. needle \<noteq> [] \<longrightarrow> find_iter L hay needle = matches_from 0 hay needle)"

text \<open>A word whose first byte does not come again cannot overlap itself, so every match is found.\<close>

definition stand_alone :: "bytes \<Rightarrow> bool" where
  "stand_alone w \<longleftrightarrow> w \<noteq> [] \<and> hd w \<notin> set (tl w)"

lemma at_pos_nth: "at_pos buf p w \<Longrightarrow> k < length w \<Longrightarrow> buf ! (p + k) = w ! k"
proof -
  assume a: "at_pos buf p w" "k < length w"
  then have "w ! k = slice buf p (p + length w) ! k"
    by (simp add: at_pos_slice)
  with a show ?thesis
    using at_pos_bound [OF a(1)] by simp
qed

lemma stand_alone_apart:
  assumes "stand_alone w" "at_pos buf p w" "at_pos buf q w" "p < q"
  shows "p + length w \<le> q"
proof (rule ccontr)
  assume "\<not> p + length w \<le> q"
  then obtain k where k: "q = p + Suc k" "Suc k < length w"
    using assms(4) by (metis add.commute add_Suc_right less_imp_Suc_add nat_add_left_cancel_less not_le)
  have "hd w = buf ! q"
    using at_pos_nth [OF assms(3), of 0] assms(1) by (simp add: stand_alone_def hd_conv_nth)
  also have "\<dots> = tl w ! k"
    using at_pos_nth [OF assms(2), of "Suc k"] k by (simp add: nth_tl)
  also have "\<dots> \<in> set (tl w)"
    using k by (intro nth_mem) simp
  finally show False
    using assms(1) by (simp add: stand_alone_def)
qed

lemma matches_from_set:
  assumes "stand_alone needle"
  shows "set (matches_from p hay needle) = {q. p \<le> q \<and> at_pos hay q needle}"
  using assms
proof (induction p hay needle rule: matches_from.induct)
  case (1 p hay needle)
  note assms = 1(3)
  show ?case
  proof (cases "length hay < p + length needle")
    case True
    then show ?thesis
      by (subst matches_from.simps) (auto dest: at_pos_bound)
  next
    case fits: False
    show ?thesis
    proof (cases "at_pos hay p needle")
      case True
      have "needle \<noteq> []"
        using 1 assms by (auto simp: stand_alone_def)
      with 1(1) fits True have "set (matches_from p hay needle)
          = insert p {q. p + length needle \<le> q \<and> at_pos hay q needle}"
        using assms by (subst matches_from.simps) (simp add: max_def Suc_le_eq)
      also have "\<dots> = {q. p \<le> q \<and> at_pos hay q needle}"
        using True stand_alone_apart [OF assms True] by (auto simp: le_less)
      finally show ?thesis .
    next
      case False
      with 1(2) fits assms have "set (matches_from p hay needle) = {q. Suc p \<le> q \<and> at_pos hay q needle}"
        by (subst matches_from.simps) simp
      also have "\<dots> = {q. p \<le> q \<and> at_pos hay q needle}"
        using False by (auto simp: Suc_le_eq le_less)
      finally show ?thesis .
    qed
  qed
qed

lemma matches_from_sorted:
  "needle \<noteq> [] \<Longrightarrow> sorted (matches_from p hay needle) \<and> distinct (matches_from p hay needle)
     \<and> (\<forall>q \<in> set (matches_from p hay needle). p \<le> q)"
proof (induction p hay needle rule: matches_from.induct)
  case (1 p hay needle)
  show ?case
  proof (cases "length hay < p + length needle")
    case True
    then show ?thesis
      by (simp add: matches_from.simps [of p])
  next
    case False
    with 1 show ?thesis
      by (cases "at_pos hay p needle") (fastforce simp: matches_from.simps [of p] max_def Suc_le_eq)+
  qed
qed

definition discriminators :: "bool \<Rightarrow> bytes list" where
  "discriminators confirm =
     [DISC_CREATE_V2, DISC_CREATE] @ (if confirm then [DISC_BUY, DISC_BUY_V2, DISC_BUY_EXACT_SOL_IN] else [])"

lemma discriminators_ok:
  "d \<in> set (discriminators confirm) \<Longrightarrow> stand_alone d \<and> length d = DISC_LEN"
  by (auto simp: discriminators_def stand_alone_def DISC_LEN_def DISC_CREATE_def DISC_CREATE_V2_def DISC_BUY_def
      DISC_BUY_V2_def DISC_BUY_EXACT_SOL_IN_def split: if_splits)

lemma discriminators_distinct: "distinct (discriminators confirm)"
  by (simp add: discriminators_def DISC_CREATE_def DISC_CREATE_V2_def DISC_BUY_def
      DISC_BUY_V2_def DISC_BUY_EXACT_SOL_IN_def)

text \<open>Where a discriminator lies in a buffer.\<close>

definition disc_at :: "bool \<Rightarrow> bytes \<Rightarrow> nat \<Rightarrow> bool" where
  "disc_at confirm buf p \<longleftrightarrow> (\<exists>d \<in> set (discriminators confirm). at_pos buf p d)"

lemma create_offsets_into_eq:
  "create_offsets_into L confirm sl base hits =
     sort (hits @ concat (map (\<lambda>d. map (\<lambda>off. off + base) (find_iter L sl d)) (discriminators confirm)))"
  by (simp add: create_offsets_into_def discriminators_def Let_def)

lemma find_iter_set:
  assumes "find_iter_ok L" "stand_alone d"
  shows "set (find_iter L sl d) = {p. at_pos sl p d}"
  using assms matches_from_set [OF assms(2), of 0 sl] by (simp add: find_iter_ok_def stand_alone_def)

lemma create_offsets_into_set:
  assumes "find_iter_ok L"
  shows "set (create_offsets_into L confirm sl base []) = {p + base |p. disc_at confirm sl p}"
  using find_iter_set [OF assms] discriminators_ok
  by (fastforce simp: create_offsets_into_eq disc_at_def)

lemma create_offsets_distinct:
  assumes "find_iter_ok L"
  shows "distinct (create_offsets L confirm buf)"
proof -
  have "distinct (concat (map (\<lambda>d. find_iter L buf d) ds))"
    if "set ds \<subseteq> set (discriminators confirm)" "distinct ds" for ds
    using that
  proof (induction ds)
    case (Cons d ds)
    have d: "stand_alone d" "length d = DISC_LEN"
      using Cons.prems discriminators_ok by auto
    then have "distinct (find_iter L buf d)"
      using assms matches_from_sorted [of d 0 buf] by (simp add: find_iter_ok_def stand_alone_def)
    moreover have "set (find_iter L buf d) \<inter> set (find_iter L buf e) = {}" if "e \<in> set ds" for e
    proof -
      have e: "stand_alone e" "length e = DISC_LEN" "e \<noteq> d"
        using Cons.prems that discriminators_ok by auto
      have False if "at_pos buf p d" "at_pos buf p e" for p
        using at_pos_same_length [OF that] d(2) e(2,3) by simp
      then show ?thesis
        using find_iter_set [OF assms d(1)] find_iter_set [OF assms e(1)] by blast
    qed
    ultimately show ?case
      using Cons by auto
  qed simp
  from this [OF subset_refl discriminators_distinct] show ?thesis
    by (simp add: create_offsets_def create_offsets_into_eq)
qed

lemma create_offsets_set: "find_iter_ok L \<Longrightarrow> set (create_offsets L confirm buf) = {p. disc_at confirm buf p}"
  using create_offsets_into_set [of L confirm buf 0] by (simp add: create_offsets_def)

lemma create_offsets_sorted: "sorted (create_offsets L confirm buf)"
  by (simp add: create_offsets_def create_offsets_into_eq)

text \<open>
  The incremental search equals the one-shot search: looking at the new bytes and seven bytes
  before them adds exactly the discriminators that were not complete before.
\<close>

lemma at_pos_drop: "from \<le> length buf \<Longrightarrow> at_pos (drop from buf) p w \<longleftrightarrow> at_pos buf (p + from) w"
  by (auto simp: at_pos_def slice_def drop_take ac_simps)

lemma disc_at_split:
  assumes "scanned \<le> length buf"
  defines "from \<equiv> scanned - (DISC_LEN - 1)"
  shows "{p. disc_at confirm buf p}
    = {p. disc_at confirm (take scanned buf) p} \<union> {p + from |p. disc_at confirm (drop from buf) p}"
proof -
  have tk: "at_pos (take scanned buf) p w \<longleftrightarrow> at_pos buf p w \<and> p + length w \<le> scanned" for p w
    using assms(1) by (auto simp: at_pos_def slice_def drop_take min_absorb1)
  have le: "from \<le> length buf"
    using assms(1) by (simp add: from_def)
  show ?thesis
  proof (intro equalityI subsetI)
    fix p
    assume "p \<in> {p. disc_at confirm buf p}"
    then obtain d where d: "d \<in> set (discriminators confirm)" "at_pos buf p d"
      by (auto simp: disc_at_def)
    show "p \<in> {p. disc_at confirm (take scanned buf) p} \<union> {p + from |p. disc_at confirm (drop from buf) p}"
    proof (cases "p + DISC_LEN \<le> scanned")
      case True
      then show ?thesis
        using d discriminators_ok [OF d(1)] by (auto simp: disc_at_def tk)
    next
      case False
      then have "from \<le> p"
        by (simp add: from_def DISC_LEN_def)
      then show ?thesis
        using d by (auto simp: disc_at_def at_pos_drop [OF le] intro!: exI [of _ "p - from"])
    qed
  qed (auto simp: disc_at_def tk at_pos_drop [OF le])
qed

definition scanned_ok :: "'a ledger_scheme \<Rightarrow> bool \<Rightarrow> EarlySegment \<Rightarrow> bool" where
  "scanned_ok L confirm seg \<longleftrightarrow>
     es_scanned seg \<le> length (es_buf seg) \<and> es_hits seg = create_offsets L confirm (take (es_scanned seg) (es_buf seg))"

lemma distinct_remdups_adj_sorted: "sorted (xs :: 'a::linorder list) \<Longrightarrow> distinct (remdups_adj xs)"
proof (induction xs rule: remdups_adj.induct)
  case (3 x y xs)
  then have "x \<notin> set (remdups_adj (y # xs))" if "x \<noteq> y"
    using that by (auto simp: order_antisym)
  with 3 show ?case
    by auto
qed simp_all

lemma sorted_distinct_eq:
  "sorted xs \<Longrightarrow> distinct xs \<Longrightarrow> sorted ys \<Longrightarrow> distinct ys \<Longrightarrow> set xs = set ys \<Longrightarrow> xs = (ys :: nat list)"
  by (rule sorted_distinct_set_unique)

lemma scan_segment_hits:
  assumes "find_iter_ok L" "scanned_ok L confirm seg"
  shows "scanned_ok L confirm (fst (scan_segment L confirm seg u))"
    and "es_scanned (fst (scan_segment L confirm seg u)) = length (es_buf seg)"
    and "es_hits (fst (scan_segment L confirm seg u)) = create_offsets L confirm (es_buf seg)"
    and "es_buf (fst (scan_segment L confirm seg u)) = es_buf seg"
    and "es_next (fst (scan_segment L confirm seg u)) = es_next seg"
    and "es_complete (fst (scan_segment L confirm seg u)) = es_complete seg"
proof -
  let ?r = "fst (scan_segment L confirm seg u)"
  let ?from = "es_scanned seg - (DISC_LEN - 1)"
  let ?new = "create_offsets_into L confirm (drop ?from (es_buf seg)) ?from []"
  have s: "es_scanned seg \<le> length (es_buf seg)"
    and h: "es_hits seg = create_offsets L confirm (take (es_scanned seg) (es_buf seg))"
    using assms(2) by (simp_all add: scanned_ok_def)
  show keep: "es_buf ?r = es_buf seg" "es_next ?r = es_next seg" "es_complete ?r = es_complete seg"
    by (auto simp: scan_segment_def Let_def split: option.splits prod.splits if_splits)
  have sets: "set (create_offsets L confirm (es_buf seg)) = set (es_hits seg) \<union> set ?new"
    using disc_at_split [OF s, of confirm] assms(1) by (simp add: create_offsets_set create_offsets_into_set h)
  show hits: "es_hits ?r = create_offsets L confirm (es_buf seg)" and scanned: "es_scanned ?r = length (es_buf seg)"
  proof -
    have "es_hits ?r = (if es_scanned seg < length (es_buf seg) \<and> ?new \<noteq> [] then remdups_adj (sort (es_hits seg @ ?new)) else es_hits seg)"
      by (auto simp: scan_segment_def Let_def split: option.splits prod.splits)
    moreover have "remdups_adj (sort (es_hits seg @ ?new)) = create_offsets L confirm (es_buf seg)"
      using sets create_offsets_distinct [OF assms(1)] create_offsets_sorted
      by (intro sorted_distinct_eq) (auto simp: distinct_remdups_adj_sorted sorted_remdups_adj)
    moreover have "es_hits seg = create_offsets L confirm (es_buf seg)" if "?new = []"
      using sets that create_offsets_distinct [OF assms(1)] create_offsets_sorted
      by (intro sorted_distinct_eq) (auto simp: h)
    moreover have "es_hits seg = create_offsets L confirm (es_buf seg)" if "\<not> es_scanned seg < length (es_buf seg)"
      using that s h by simp
    ultimately show "es_hits ?r = create_offsets L confirm (es_buf seg)"
      by auto
    show "es_scanned ?r = length (es_buf seg)"
      using s by (auto simp: scan_segment_def Let_def split: option.splits prod.splits if_splits)
  qed
  show "scanned_ok L confirm ?r"
    by (simp add: scanned_ok_def keep hits scanned)
qed

section \<open>Growing a segment\<close>

definition data_at :: "'a ledger_scheme \<Rightarrow> ShredsStateTracker \<Rightarrow> nat \<Rightarrow> bytes option" where
  "data_at L t i = Option.bind (data_shreds t ! i) (\<lambda>s. shred_data L (shred_payload s))"

definition data_range :: "'a ledger_scheme \<Rightarrow> ShredsStateTracker \<Rightarrow> nat \<Rightarrow> nat \<Rightarrow> bytes" where
  "data_range L t a b = concat (map (\<lambda>i. the (data_at L t i)) [a..<b])"

lemma data_range_same [simp]: "data_range L t a a = []"
  by (simp add: data_range_def)

lemma data_range_append: "a \<le> b \<Longrightarrow> b \<le> c \<Longrightarrow> data_range L t a b @ data_range L t b c = data_range L t a c"
  using upt_add_eq_append [of a b "c - b"] by (simp add: data_range_def flip: concat_append map_append)

lemma data_range_Suc: "a \<le> b \<Longrightarrow> data_range L t a (Suc b) = data_range L t a b @ the (data_at L t b)"
  by (simp add: data_range_def)

lemma unat_Suc_index: "unat (w :: u32) < MAX_DATA_SHREDS_PER_SLOT \<Longrightarrow> unat (w + 1) = Suc (unat w)"
  using unat_add_lem [of w 1] by (simp add: MAX_DATA_SHREDS_PER_SLOT_def)

text \<open>The fuel of the loop is enough: more rounds change nothing.\<close>

lemma grow_enough:
  assumes "length (data_status t) = MAX_DATA_SHREDS_PER_SLOT"
  shows "grow_loop L t (length (data_status t) - unat (es_next seg) + k) seg = grow L t seg"
proof -
  have "grow_loop L t (n + k) seg = grow_loop L t n seg" if "n = length (data_status t) - unat (es_next seg)" for n seg
    using that
  proof (induction n arbitrary: seg)
    case 0
    then show ?case
      by (cases k) simp_all
  next
    case (Suc n)
    then have i: "unat (es_next seg) < MAX_DATA_SHREDS_PER_SLOT"
      using assms by simp
    have "n = length (data_status t) - unat (es_next seg + 1)"
      using Suc.prems unat_Suc_index [OF i] assms by simp
    then have "grow_loop L t (n + k) (seg\<lparr>es_buf := b, es_next := es_next seg + 1\<rparr>)
        = grow_loop L t n (seg\<lparr>es_buf := b, es_next := es_next seg + 1\<rparr>)" for b
      by (intro Suc.IH) simp
    then show ?case
      by (simp add: Let_def split: option.split)
  qed
  then show ?thesis
    by (simp add: grow_def)
qed

lemma grow_unfold:
  assumes "length (data_status t) = MAX_DATA_SHREDS_PER_SLOT"
  shows "grow L t seg =
    (let i = unat (es_next seg) in
      if \<not> i < MAX_DATA_SHREDS_PER_SLOT then (seg, False)
      else if already_deshredded t ! i then (seg, True)
      else case data_shreds t ! i of
          None \<Rightarrow> (seg, False)
        | Some shred \<Rightarrow>
            (case shred_data L (shred_payload shred) of
               None \<Rightarrow> (seg, False)
             | Some d \<Rightarrow>
                 (let seg = seg\<lparr>es_buf := es_buf seg @ d, es_next := es_next seg + 1\<rparr>
                  in if data_status t ! i = DataComplete then (seg, True) else grow L t seg)))"
proof (cases "unat (es_next seg) < MAX_DATA_SHREDS_PER_SLOT")
  case i: True
  then obtain n where n: "length (data_status t) - unat (es_next seg) = Suc n"
    using assms by (metis Suc_diff_Suc)
  then have "MAX_DATA_SHREDS_PER_SLOT - Suc (unat (es_next seg)) = n"
    using assms by simp
  then have "grow_loop L t n (seg\<lparr>es_buf := b, es_next := es_next seg + 1\<rparr>)
      = grow L t (seg\<lparr>es_buf := b, es_next := es_next seg + 1\<rparr>)" for b
    using assms unat_Suc_index [OF i] by (simp add: grow_def)
  then show ?thesis
    using i n assms unfolding grow_def [of L t seg] by (simp add: Let_def cong: if_cong option.case_cong)
qed (use assms in \<open>simp add: grow_def\<close>)

lemma grow_loop_frame:
  "grow_loop L t n seg = (seg', e) \<Longrightarrow>
     es_scanned seg' = es_scanned seg \<and> es_hits seg' = es_hits seg \<and> es_complete seg' = es_complete seg"
  by (induction n arbitrary: seg) (auto simp: Let_def split: if_splits option.splits)

lemma grow_loop_range:
  assumes "grow_loop L t n seg = (seg', e)" "length (data_status t) = MAX_DATA_SHREDS_PER_SLOT"
    "unat (es_next seg) \<le> MAX_DATA_SHREDS_PER_SLOT"
  shows "unat (es_next seg) \<le> unat (es_next seg') \<and> unat (es_next seg') \<le> MAX_DATA_SHREDS_PER_SLOT
    \<and> (\<forall>i \<in> {unat (es_next seg)..<unat (es_next seg')}. data_at L t i \<noteq> None)
    \<and> es_buf seg' = es_buf seg @ data_range L t (unat (es_next seg)) (unat (es_next seg'))"
  using assms(1,3)
proof (induction n arbitrary: seg)
  case (Suc n)
  let ?i = "unat (es_next seg)"
  show ?case
  proof (cases "?i < MAX_DATA_SHREDS_PER_SLOT \<and> \<not> already_deshredded t ! ?i \<and> data_at L t ?i \<noteq> None")
    case True
    then obtain shred d where d: "data_shreds t ! ?i = Some shred" "shred_data L (shred_payload shred) = Some d"
      by (auto simp: data_at_def)
    let ?seg = "seg\<lparr>es_buf := es_buf seg @ d, es_next := es_next seg + 1\<rparr>"
    have n: "unat (es_next ?seg) = Suc ?i"
      using True unat_Suc_index by simp
    have one: "data_range L t ?i (Suc ?i) = d" "data_at L t ?i = Some d"
      using d by (simp_all add: data_range_def data_at_def)
    have step: "grow_loop L t (Suc n) seg
        = (if data_status t ! ?i = DataComplete then (?seg, True) else grow_loop L t n ?seg)"
      using True d assms(2) by (simp add: Let_def)
    show ?thesis
    proof (cases "data_status t ! ?i = DataComplete")
      case True
      then show ?thesis
        using Suc.prems(1) step n one True \<open>_ \<and> _ \<and> _\<close> by (auto simp: less_Suc_eq_le)
    next
      case False
      then have "grow_loop L t n ?seg = (seg', e)"
        using Suc.prems(1) step by simp
      from Suc.IH [OF this] have IH: "Suc ?i \<le> unat (es_next seg') \<and> unat (es_next seg') \<le> MAX_DATA_SHREDS_PER_SLOT
          \<and> (\<forall>i \<in> {Suc ?i..<unat (es_next seg')}. data_at L t i \<noteq> None)
          \<and> es_buf seg' = es_buf ?seg @ data_range L t (Suc ?i) (unat (es_next seg'))"
        using n \<open>_ \<and> _ \<and> _\<close> by simp
      moreover have "data_range L t ?i (unat (es_next seg')) = d @ data_range L t (Suc ?i) (unat (es_next seg'))"
        using IH one data_range_append [of ?i "Suc ?i" "unat (es_next seg')" L t] by simp
      moreover have "{?i..<unat (es_next seg')} = insert ?i {Suc ?i..<unat (es_next seg')}"
        using IH by auto
      ultimately show ?thesis
        using one by simp
    qed
  next
    case False
    then have "seg' = seg"
      using Suc.prems(1) assms(2) by (auto simp: data_at_def Let_def split: if_splits option.splits)
    then show ?thesis
      using Suc.prems(2) by simp
  qed
qed simp

text \<open>
  What is true of a segment between batches: its buffer is the data of the shreds from its start up
  to the next one expected, and its hits are all discriminators of that buffer. A completed
  segment has been emptied.
\<close>

definition seg_ok :: "'a ledger_scheme \<Rightarrow> bool \<Rightarrow> ShredsStateTracker \<Rightarrow> nat \<Rightarrow> EarlySegment \<Rightarrow> bool" where
  "seg_ok L confirm t a seg \<longleftrightarrow> es_complete seg \<or>
     (a \<le> unat (es_next seg) \<and> unat (es_next seg) \<le> MAX_DATA_SHREDS_PER_SLOT
      \<and> (\<forall>i \<in> {a..<unat (es_next seg)}. data_at L t i \<noteq> None)
      \<and> es_buf seg = data_range L t a (unat (es_next seg))
      \<and> (find_iter_ok L \<longrightarrow> es_scanned seg = length (es_buf seg) \<and> es_hits seg = create_offsets L confirm (es_buf seg)))"

lemma create_offsets_Nil: "find_iter_ok L \<Longrightarrow> create_offsets L confirm [] = []"
proof -
  assume L: "find_iter_ok L"
  have "\<not> at_pos [] p d" if "d \<in> set (discriminators confirm)" for p d
    using discriminators_ok [OF that] by (auto simp: at_pos_def DISC_LEN_def)
  then have "set (create_offsets L confirm []) = {}"
    using L by (simp add: create_offsets_set disc_at_def)
  then show ?thesis
    by simp
qed

lemma seg_ok_new: "unat start \<le> MAX_DATA_SHREDS_PER_SLOT \<Longrightarrow> seg_ok L confirm t (unat start) (EarlySegment_new start)"
  by (simp add: seg_ok_def EarlySegment_new_def create_offsets_Nil)

lemma scan_segment_frame:
  "es_buf (fst (scan_segment L confirm seg u)) = es_buf seg" "es_next (fst (scan_segment L confirm seg u)) = es_next seg"
  "es_complete (fst (scan_segment L confirm seg u)) = es_complete seg"
  by (simp_all add: scan_segment_def Let_def split: option.split prod.split)

lemma seg_ok_step:
  assumes "wf_tracker t" "seg_ok L confirm t a seg" "\<not> es_complete seg" "grow L t seg = (seg1, ends)"
  shows "seg_ok L confirm t a (fst (scan_segment L confirm seg1 u))"
proof -
  note l = wf_trackerD [OF assms(1)]
  have s: "a \<le> unat (es_next seg)" "unat (es_next seg) \<le> MAX_DATA_SHREDS_PER_SLOT"
    "\<forall>i \<in> {a..<unat (es_next seg)}. data_at L t i \<noteq> None" "es_buf seg = data_range L t a (unat (es_next seg))"
    "find_iter_ok L \<Longrightarrow> es_scanned seg = length (es_buf seg) \<and> es_hits seg = create_offsets L confirm (es_buf seg)"
    using assms(2,3) by (simp_all add: seg_ok_def)
  have g: "unat (es_next seg) \<le> unat (es_next seg1)" "unat (es_next seg1) \<le> MAX_DATA_SHREDS_PER_SLOT"
    "\<forall>i \<in> {unat (es_next seg)..<unat (es_next seg1)}. data_at L t i \<noteq> None"
    "es_buf seg1 = es_buf seg @ data_range L t (unat (es_next seg)) (unat (es_next seg1))"
    and f: "es_scanned seg1 = es_scanned seg" "es_hits seg1 = es_hits seg" "es_complete seg1 = es_complete seg"
    using grow_loop_range [OF assms(4) [unfolded grow_def] l(1) s(2)] grow_loop_frame [OF assms(4) [unfolded grow_def]] by auto
  let ?r = "fst (scan_segment L confirm seg1 u)"
  have "\<forall>i \<in> {a..<unat (es_next seg1)}. data_at L t i \<noteq> None"
  proof
    fix i
    assume "i \<in> {a..<unat (es_next seg1)}"
    then show "data_at L t i \<noteq> None"
      using s(3) g(3) by (cases "i < unat (es_next seg)") simp_all
  qed
  moreover have "es_buf seg1 = data_range L t a (unat (es_next seg1))"
    using s(1,4) g(1,4) data_range_append by simp
  moreover have "es_scanned ?r = length (es_buf ?r) \<and> es_hits ?r = create_offsets L confirm (es_buf ?r)"
    if "find_iter_ok L"
  proof -
    have "scanned_ok L confirm seg1"
      using s(5) [OF that] g(4) f by (simp add: scanned_ok_def)
    then show ?thesis
      using scan_segment_hits [OF that, of confirm seg1 u] by simp
  qed
  ultimately show ?thesis
    using s(1) g(1,2) unfolding seg_ok_def by (simp add: scan_segment_frame)
qed

lemma segment_start_bound:
  "segment_start t i = Some start \<Longrightarrow> length (data_status t) = MAX_DATA_SHREDS_PER_SLOT \<Longrightarrow> unat start < MAX_DATA_SHREDS_PER_SLOT"
  by (auto simp: segment_start_def start_loop_iff unat_of_nat MAX_DATA_SHREDS_PER_SLOT_def split: if_splits)

text \<open>All segments, against the trackers of their slots.\<close>

definition segs_ok :: "'a ledger_scheme \<Rightarrow> bool \<Rightarrow> (u64 \<rightharpoonup> ShredsStateTracker) \<Rightarrow> (u64 \<times> u32 \<rightharpoonup> EarlySegment) \<Rightarrow> bool" where
  "segs_ok L confirm trackers segs \<longleftrightarrow>
     (\<forall>slot start seg. segs (slot, start) = Some seg \<longrightarrow>
        (\<exists>t. trackers slot = Some t \<and> seg_ok L confirm t (unat start) seg))"

lemma detect_one_ok:
  assumes "\<forall>slot t. trackers slot = Some t \<longrightarrow> wf_tracker t" "segs_ok L confirm trackers (er_segments r)"
  shows "segs_ok L confirm trackers (er_segments (detect_one L confirm trackers k r))"
proof -
  obtain slot i where k: "k = (slot, i)" by (cases k)
  show ?thesis
  proof (cases "trackers slot")
    case (Some t)
    then have wf: "wf_tracker t"
      using assms(1) by blast
    show ?thesis
    proof (cases "segment_start t (unat i)")
      case None
      then show ?thesis
        using assms(2) Some by (simp add: detect_one_def k)
    next
      case start: (Some start)
      let ?seg = "case er_segments r (slot, start) of Some seg \<Rightarrow> seg | None \<Rightarrow> EarlySegment_new start"
      have seg: "seg_ok L confirm t (unat start) ?seg"
      proof (cases "er_segments r (slot, start)")
        case None
        then show ?thesis
          using segment_start_bound [OF start wf_trackerD(1) [OF wf]] by (simp add: seg_ok_new)
      next
        case (Some seg)
        then show ?thesis
          using assms(2) \<open>trackers slot = Some t\<close> by (fastforce simp: segs_ok_def)
      qed
      obtain seg1 ends where g: "grow L t ?seg = (seg1, ends)" by (cases "grow L t ?seg")
      obtain seg2 txs u where sc: "scan_segment L confirm seg1 (er_unresolved r) = (seg2, txs, u)"
        by (cases "scan_segment L confirm seg1 (er_unresolved r)")
      have "seg_ok L confirm t (unat start) seg2" if "\<not> es_complete ?seg"
        using seg_ok_step [OF wf seg that g, of "er_unresolved r"] sc by simp
      then have "seg_ok L confirm t (unat start) (if es_complete ?seg then ?seg
          else if ends then seg2\<lparr>es_complete := True, es_buf := [], es_hits := []\<rparr> else seg2)"
        using seg by (simp add: seg_ok_def)
      moreover have "er_segments (detect_one L confirm trackers k r) = (er_segments r)((slot, start) \<mapsto>
          (if es_complete ?seg then ?seg else if ends then seg2\<lparr>es_complete := True, es_buf := [], es_hits := []\<rparr> else seg2))"
        using Some start g sc by (simp add: detect_one_def k Let_def)
      ultimately obtain new where "seg_ok L confirm t (unat start) new"
        "er_segments (detect_one L confirm trackers k r) = (er_segments r)((slot, start) \<mapsto> new)"
        by blast
      then show ?thesis
        using assms(2) Some by (simp add: segs_ok_def)
    qed
  qed (use assms in \<open>simp add: detect_one_def k\<close>)
qed

lemma detect_fold_ok:
  assumes "\<forall>slot t. trackers slot = Some t \<longrightarrow> wf_tracker t"
  shows "segs_ok L confirm trackers (er_segments r) \<Longrightarrow>
    segs_ok L confirm trackers (er_segments (fold (detect_one L confirm trackers) ks r))"
  by (induction ks arbitrary: r) (simp_all add: detect_one_ok [OF assms])

end
