(* ===== verification/Deshred.thy ===== *)
theory Deshred
  imports Early "HOL-Library.AList"
begin

text \<open>
  \<open>reconstruct_shreds\<close> of \<open>proxy/src/deshred.rs\<close>: a batch of packets is ingested, creates are
  searched in the segments that are still arriving, FEC sets are recovered, whole segments are
  decoded and handed over, and stale slots are evicted.

  The state is what the thread of the proxy keeps between batches. Hash maps are association
  lists with distinct keys. The field \<open>ds_published\<close> is a history of the segments handed over whole, and
  \<open>ds_report\<close> is what the last eviction sent to the metrics service; the code keeps neither.
\<close>

section \<open>Counters\<close>

type_synonym IpAddr = bytes

record ShredMetrics =
  sm_received :: u64
  sm_success_forward :: u64
  sm_fail_forward :: u64
  sm_duplicate :: u64
  sm_packets_received :: "IpAddr \<rightharpoonup> u64 \<times> u64"
  sm_enabled_grpc_service :: bool
  sm_recovered_count :: u64
  sm_entry_count :: u64
  sm_txn_count :: u64
  sm_unknown_start_position_count :: u64
  sm_fec_recovery_error_count :: u64
  sm_bincode_deserialize_error_count :: u64
  sm_unknown_start_position_error_count :: u64
  sm_pump_creates_seen :: u64
  sm_pump_creates_emitted :: u64
  sm_snipes_fired :: u64
  sm_deserialize_skipped_count :: u64
  sm_early_creates_count :: u64
  sm_agg_received_cumulative :: u64
  sm_agg_success_forward_cumulative :: u64
  sm_agg_fail_forward_cumulative :: u64
  sm_duplicate_cumulative :: u64

definition ShredMetrics_new :: "bool \<Rightarrow> ShredMetrics" where
  "ShredMetrics_new enabled_grpc_service =
     \<lparr>sm_received = 0, sm_success_forward = 0, sm_fail_forward = 0, sm_duplicate = 0,
      sm_packets_received = Map.empty, sm_enabled_grpc_service = enabled_grpc_service,
      sm_recovered_count = 0, sm_entry_count = 0, sm_txn_count = 0, sm_unknown_start_position_count = 0,
      sm_fec_recovery_error_count = 0, sm_bincode_deserialize_error_count = 0,
      sm_unknown_start_position_error_count = 0, sm_pump_creates_seen = 0, sm_pump_creates_emitted = 0,
      sm_snipes_fired = 0, sm_deserialize_skipped_count = 0, sm_early_creates_count = 0,
      sm_agg_received_cumulative = 0, sm_agg_success_forward_cumulative = 0,
      sm_agg_fail_forward_cumulative = 0, sm_duplicate_cumulative = 0\<rparr>"

section \<open>The state\<close>

type_synonym fec_sets = "(u32 \<times> Shred list) list"
type_synonym slot_state = "fec_sets \<times> ShredsStateTracker"

record deshred_state =
  ds_all_shreds :: "(u64 \<times> slot_state) list"
  ds_iterate :: "(u64 \<times> u32) list"
  ds_entries :: deshredded
  ds_highest_slot :: u64
  ds_pool :: TrackerPool
  ds_early :: EarlyDetect
  ds_metrics :: ShredMetrics
  ds_unresolved :: u64
  ds_published :: "(u64 \<times> nat \<times> nat) list"
  ds_report :: "(u64 \<times> (u32 \<times> u16 \<times> nat) list) list"

definition deshred_init :: deshred_state where
  "deshred_init =
     \<lparr>ds_all_shreds = [], ds_iterate = [], ds_entries = [], ds_highest_slot = 0, ds_pool = [],
      ds_early = EarlyDetect_default, ds_metrics = ShredMetrics_new False, ds_unresolved = 0,
      ds_published = [], ds_report = []\<rparr>"

text \<open>Parameters of a run: the libraries, confirm mode, and whether only launches matter.\<close>

record run_env = ledger +
  env_confirm :: bool
  env_pump_only :: bool
  max_processing_age :: nat
  shred_type_byte :: "bool \<Rightarrow> u8"

fun fold_opt :: "('a \<Rightarrow> 's \<Rightarrow> 's option) \<Rightarrow> 'a list \<Rightarrow> 's \<Rightarrow> 's option" where
  "fold_opt f [] s = Some s"
| "fold_opt f (x # xs) s = do { s \<leftarrow> f x s; fold_opt f xs s }"

definition set_at :: "'a list \<Rightarrow> nat \<Rightarrow> 'a \<Rightarrow> 'a list option" where
  "set_at xs i v = (if i < length xs then Some (xs[i := v]) else None)"

definition SLOT_LOOKBACK :: u64 where "SLOT_LOOKBACK = 50"

definition too_old :: "u64 \<Rightarrow> deshred_state \<Rightarrow> bool" where
  "too_old slot s \<longleftrightarrow> sat_sub (ds_highest_slot s) SLOT_LOOKBACK > slot"

text \<open>\<open>entry(slot).or_insert_with(...)\<close>, and writing the entry back.\<close>

definition slot_entry :: "u64 \<Rightarrow> deshred_state \<Rightarrow> slot_state \<times> deshred_state" where
  "slot_entry slot s =
     (case map_of (ds_all_shreds s) slot of
        Some e \<Rightarrow> (e, s)
      | None \<Rightarrow>
          (let (t, pool) = pool_take (ds_pool s)
           in (([], t), s\<lparr>ds_all_shreds := AList.update slot ([], t) (ds_all_shreds s), ds_pool := pool\<rparr>)))"

definition set_slot :: "u64 \<Rightarrow> slot_state \<Rightarrow> deshred_state \<Rightarrow> deshred_state" where
  "set_slot slot e s = s\<lparr>ds_all_shreds := AList.update slot e (ds_all_shreds s)\<rparr>"

section \<open>Ingesting a packet\<close>

text \<open>What is dropped off the wire bytes, before the shred is parsed.\<close>

definition known_packet :: "run_env \<Rightarrow> bytes \<Rightarrow> deshred_state \<Rightarrow> bool" where
  "known_packet L packet s =
     (case (get_slot L packet, get_index L packet, peek_fec_set_index packet) of
        (Some slot, Some index, Some fec) \<Rightarrow>
          too_old slot s \<or>
          (let index = unat index; fec = unat fec
           in index < MAX_DATA_SHREDS_PER_SLOT \<and> fec < MAX_DATA_SHREDS_PER_SLOT \<and>
              (case map_of (ds_all_shreds s) slot of
                 None \<Rightarrow> False
               | Some (_, t) \<Rightarrow>
                   already_recovered_fec_sets t ! fec \<or> already_deshredded t ! index
                   \<or> data_shreds t ! index \<noteq> None \<and> is_data_packet L packet))
      | _ \<Rightarrow> False)"

definition ingest_shred :: "run_env \<Rightarrow> Shred \<Rightarrow> deshred_state \<Rightarrow> deshred_state option" where
  "ingest_shred L shred s =
     (let slot = shred_slot shred; index = unat (shred_index shred); fec = fec_set_index shred in
      if too_old slot s then Some s
      else do {
        let ((fecs, t), s) = slot_entry slot s;
        recovered \<leftarrow> get_at (already_recovered_fec_sets t) (unat fec);
        handed_over \<leftarrow> (if recovered then Some True else get_at (already_deshredded t) index);
        if recovered \<or> handed_over then Some s
        else do {
          (inserted, t) \<leftarrow> update_state_tracker shred t;
          case inserted of
            None \<Rightarrow> Some (set_slot slot (fecs, t) s)
          | Some _ \<Rightarrow>
              (let held = (case map_of fecs fec of None \<Rightarrow> [] | Some h \<Rightarrow> h);
                   fecs = AList.update fec (set_insert L shred held) fecs;
                   s = set_slot slot (fecs, t) s;
                   s = (if env_pump_only L \<and> is_data shred
                        then s\<lparr>ds_early := note_arrival slot (shred_index shred) (ds_early s)\<rparr> else s)
               in Some (s\<lparr>ds_iterate := ds_iterate s @ [(slot, fec)],
                          ds_highest_slot := max (ds_highest_slot s) slot\<rparr>))
        }
      })"

definition ingest :: "run_env \<Rightarrow> bytes \<Rightarrow> deshred_state \<Rightarrow> deshred_state option" where
  "ingest L packet s =
     (if known_packet L packet s then Some s
      else case parse_shred L packet of
          Some shred \<Rightarrow> ingest_shred L shred s
        | None \<Rightarrow> Some s)"

section \<open>Early detection\<close>

definition detect_pass :: "run_env \<Rightarrow> deshred_state \<Rightarrow> deshred_state" where
  "detect_pass L s =
     (if env_pump_only L then
        (let (found, early, entries, unresolved) =
               detect_in_partial_segments L (env_confirm L) (map_option snd \<circ> map_of (ds_all_shreds s))
                 (ds_early s) (ds_entries s) (ds_unresolved s);
             s = s\<lparr>ds_early := early, ds_entries := entries, ds_unresolved := unresolved\<rparr>
         in if found > 0
            then s\<lparr>ds_metrics := (ds_metrics s)
                   \<lparr>sm_early_creates_count := sm_early_creates_count (ds_metrics s) + of_nat found,
                    sm_txn_count := sm_txn_count (ds_metrics s) + of_nat found\<rparr>\<rparr>
            else s)
      else s)"

section \<open>Recovering an FEC set\<close>

text \<open>One recovered shred: the tracker, the arrivals, and the two counts.\<close>

definition recover_shred ::
  "run_env \<Rightarrow> u64 \<Rightarrow> Shred option \<Rightarrow> ShredsStateTracker \<times> EarlyDetect \<times> nat \<Rightarrow> (ShredsStateTracker \<times> EarlyDetect \<times> nat) option" where
  "recover_shred L slot recovered acc =
     (let (t, early, count) = acc in
      case recovered of
        None \<Rightarrow> Some acc
      | Some shred \<Rightarrow> do {
          (inserted, t) \<leftarrow> update_state_tracker shred t;
          case inserted of
            None \<Rightarrow> Some (t, early, count)
          | Some _ \<Rightarrow>
              Some (t, (if env_pump_only L \<and> is_data shred then note_arrival slot (shred_index shred) early else early), count + 1)
        })"

definition recover_key :: "run_env \<Rightarrow> Shred \<Rightarrow> u8 \<times> u32" where
  "recover_key L s = (255 - shred_type_byte L (is_data s), shred_index s)"

definition recover_fec_set :: "run_env \<Rightarrow> u64 \<times> u32 \<Rightarrow> deshred_state \<times> nat \<Rightarrow> (deshred_state \<times> nat) option" where
  "recover_fec_set L key acc =
     (let (slot, fec) = key;
          (s, total) = acc;
          ((fecs, t), s) = slot_entry slot s;
          shreds = (case map_of fecs fec of None \<Rightarrow> [] | Some h \<Rightarrow> h);
          fecs = AList.update fec shreds fecs;
          s = set_slot slot (fecs, t) s;
          info = get_data_shred_info L shreds
      in if num_expected_data_shreds info = 0 \<or> length shreds < unat (num_expected_data_shreds info)
            \<or> num_data_shreds info = num_expected_data_shreds info
         then Some (s, total)
         else case recover_shreds L (sort_key (recover_key L) (iter_set L shreds)) of
             None \<Rightarrow> Some (s, total)
           | Some recovered \<Rightarrow> do {
               (t, early, count) \<leftarrow> fold_opt (recover_shred L slot) recovered (t, ds_early s, 0);
               let s = s\<lparr>ds_early := early\<rparr>;
               if count > 0 then do {
                 flags \<leftarrow> set_at (already_recovered_fec_sets t) (unat fec) True;
                 let t = touch (unat fec) (t\<lparr>already_recovered_fec_sets := flags\<rparr>);
                 Some (set_slot slot (AList.update fec [] fecs, t) s, total + count)
               }
               else Some (set_slot slot (fecs, t) s, total + count)
             })"

section \<open>Handing over a segment\<close>

text \<open>Marking the shreds of a segment; a hole in the segment is skipped.\<close>

definition mark_shred :: "Shred option \<Rightarrow> ShredsStateTracker \<Rightarrow> ShredsStateTracker option" where
  "mark_shred held t =
     (case held of
        None \<Rightarrow> Some t
      | Some shred \<Rightarrow> do {
          recovered \<leftarrow> set_at (already_recovered_fec_sets t) (unat (fec_set_index shred)) True;
          handed \<leftarrow> set_at (already_deshredded t) (unat (shred_index shred)) True;
          let high = unat (max (fec_set_index shred) (shred_index shred));
          Some (touch high (t\<lparr>already_recovered_fec_sets := recovered, already_deshredded := handed\<rparr>))
        })"

definition publish ::
  "u64 \<Rightarrow> nat \<Rightarrow> nat \<Rightarrow> Entry list \<Rightarrow> bytes \<Rightarrow> deshred_state \<Rightarrow> deshred_state option" where
  "publish slot start end' entries payload s = do {
     let ((fecs, t), s) = slot_entry slot s;
     let s = s\<lparr>ds_entries := ds_entries s @ [(slot, entries, payload)],
               ds_published := ds_published s @ [(slot, start, end')]\<rparr>;
     t \<leftarrow> fold_opt mark_shred (slice (data_shreds t) start (Suc end')) t;
     Some (set_slot slot (fecs, t) s)
   }"

definition bump_metrics :: "(ShredMetrics \<Rightarrow> ShredMetrics) \<Rightarrow> deshred_state \<Rightarrow> deshred_state" where
  "bump_metrics f s = s\<lparr>ds_metrics := f (ds_metrics s)\<rparr>"

definition count_unknown_start :: "bool \<Rightarrow> ShredMetrics \<Rightarrow> ShredMetrics" where
  "count_unknown_start unknown_start m =
     (if unknown_start then m\<lparr>sm_unknown_start_position_count := sm_unknown_start_position_count m + 1\<rparr> else m)"

definition count_unknown_error :: "bool \<Rightarrow> ShredMetrics \<Rightarrow> ShredMetrics" where
  "count_unknown_error unknown_start m =
     (if unknown_start then m\<lparr>sm_unknown_start_position_error_count := sm_unknown_start_position_error_count m + 1\<rparr> else m)"

text \<open>The ordinary decode of a whole segment.\<close>

definition decode_segment :: "run_env \<Rightarrow> u64 \<Rightarrow> nat \<Rightarrow> nat \<Rightarrow> bool \<Rightarrow> bytes \<Rightarrow> deshred_state \<Rightarrow> deshred_state option" where
  "decode_segment L slot start end' unknown_start payload s =
     (case decode_entries L payload of
        None \<Rightarrow>
          Some (bump_metrics (\<lambda>m. count_unknown_error unknown_start
            (m\<lparr>sm_bincode_deserialize_error_count := sm_bincode_deserialize_error_count m + 1\<rparr>)) s)
      | Some entries \<Rightarrow>
          publish slot start end' entries payload
            (bump_metrics (\<lambda>m. m\<lparr>sm_entry_count := sm_entry_count m + of_nat (length entries),
                         sm_txn_count := sm_txn_count m + of_nat (sum_list (map (length \<circ> en_transactions) entries))\<rparr>) s))"

definition hand_over :: "run_env \<Rightarrow> u64 \<Rightarrow> nat \<Rightarrow> nat \<Rightarrow> bool \<Rightarrow> bytes \<Rightarrow> deshred_state \<Rightarrow> deshred_state option" where
  "hand_over L slot start end' unknown_start payload s =
     (let hits = (if env_pump_only L then create_offsets L (env_confirm L) payload else []) in
      if env_pump_only L \<and> \<not> unknown_start \<and> hits = [] then
        publish slot start end' [] payload
          (bump_metrics (\<lambda>m. m\<lparr>sm_deserialize_skipped_count := sm_deserialize_skipped_count m + 1\<rparr>) s)
      else if env_pump_only L then
        (case creates_in_payload L (env_confirm L) payload hits (ds_unresolved s) of
           (Some txs, unresolved) \<Rightarrow>
             (let s = s\<lparr>ds_unresolved := unresolved\<rparr>;
                  s = (if txs = [] then s
                       else bump_metrics (\<lambda>m. m\<lparr>sm_txn_count := sm_txn_count m + of_nat (length txs)\<rparr>) s)
              in publish slot start end' (if txs = [] then [] else [create_entry txs]) payload s)
         | (None, unresolved) \<Rightarrow>
             decode_segment L slot start end' unknown_start payload (s\<lparr>ds_unresolved := unresolved\<rparr>))
      else decode_segment L slot start end' unknown_start payload s)"

definition deshred_fec_set :: "run_env \<Rightarrow> u64 \<times> u32 \<Rightarrow> deshred_state \<Rightarrow> deshred_state option" where
  "deshred_fec_set L key s =
     (let (slot, fec) = key;
          ((_, t), s) = slot_entry slot s
      in case get_indexes t (unat fec) of
          None \<Rightarrow> Some s
        | Some (start, end', unknown_start) \<Rightarrow> do {
            let s = bump_metrics (count_unknown_start unknown_start) s;
            shreds \<leftarrow> those (slice (data_shreds t) start (Suc end'));
            case deshred_data L (map shred_payload shreds) of
              None \<Rightarrow>
                Some (bump_metrics (\<lambda>m. count_unknown_error unknown_start
                  (m\<lparr>sm_fec_recovery_error_count := sm_fec_recovery_error_count m + 1\<rparr>)) s)
            | Some payload \<Rightarrow> hand_over L slot start end' unknown_start payload s
          })"

section \<open>Evicting stale slots\<close>

definition missed_fec_sets :: "run_env \<Rightarrow> slot_state \<Rightarrow> (u32 \<times> u16 \<times> nat) list option" where
  "missed_fec_sets L e =
     (let (fecs, t) = e in
      fold_opt (\<lambda>(fec, shreds) acc. do {
        recovered \<leftarrow> get_at (already_recovered_fec_sets t) (unat fec);
        Some (if recovered then acc
              else acc @ [(fec, num_expected_data_shreds (get_data_shred_info L shreds), length shreds)])
      }) fecs [])"

definition evict_slot :: "run_env \<Rightarrow> u64 \<Rightarrow> deshred_state \<Rightarrow> deshred_state option" where
  "evict_slot L slot s =
     (case map_of (ds_all_shreds s) slot of
        None \<Rightarrow> Some s
      | Some e \<Rightarrow> do {
          missed \<leftarrow> missed_fec_sets L e;
          Some (s\<lparr>ds_all_shreds := AList.delete slot (ds_all_shreds s),
                  ds_pool := pool_give (snd e) (ds_pool s),
                  ds_report := (if missed = [] then ds_report s else ds_report s @ [(slot, sort missed)])\<rparr>)
        })"

definition evict :: "run_env \<Rightarrow> deshred_state \<Rightarrow> deshred_state option" where
  "evict L s =
     (if length (ds_all_shreds s) > max_processing_age L then do {
        let threshold = sat_sub (ds_highest_slot s) SLOT_LOOKBACK;
        s \<leftarrow> fold_opt (evict_slot L) (filter (\<lambda>slot. slot < threshold) (map fst (ds_all_shreds s))) (s\<lparr>ds_report := []\<rparr>);
        let early = ds_early s;
        Some (s\<lparr>ds_early := early\<lparr>segments := (\<lambda>k. if fst k \<ge> threshold then segments early k else None)\<rparr>,
                ds_report := sort_key fst (ds_report s)\<rparr>)
      }
      else Some s)"

text \<open>What \<open>debug_remaining_shreds\<close> prints: the FEC sets of all slots that are not recovered.\<close>

definition debug_remaining_shreds :: "run_env \<Rightarrow> deshred_state \<Rightarrow> (u64 \<times> (u32 \<times> u16 \<times> nat) list) list option" where
  "debug_remaining_shreds L s = do {
     report \<leftarrow> fold_opt (\<lambda>(slot, e) acc. do {
       missed \<leftarrow> missed_fec_sets L e;
       Some (if missed = [] then acc else acc @ [(slot, sort missed)])
     }) (ds_all_shreds s) [];
     Some (sort_key fst report)
   }"

section \<open>A batch\<close>

definition reconstruct_shreds :: "run_env \<Rightarrow> bytes list \<Rightarrow> deshred_state \<Rightarrow> (nat \<times> deshred_state) option" where
  "reconstruct_shreds L packets s = do {
     let s = s\<lparr>ds_entries := [], ds_iterate := []\<rparr>;
     s \<leftarrow> fold_opt (ingest L) packets s;
     let s = s\<lparr>ds_iterate := remdups_adj (sort (ds_iterate s))\<rparr>;
     let s = detect_pass L s;
     (s, total) \<leftarrow> fold_opt (recover_fec_set L) (ds_iterate s) (s, 0);
     let s = detect_pass L s;
     s \<leftarrow> fold_opt (deshred_fec_set L) (ds_iterate s) s;
     s \<leftarrow> evict L s;
     let s = (if total > 0 then bump_metrics (\<lambda>m. m\<lparr>sm_recovered_count := sm_recovered_count m + of_nat total\<rparr>) s else s);
     Some (total, s)
   }"

end
