(* ===== verification/Reconstruct.thy ===== *)
theory Reconstruct
  imports Deshred
begin

text \<open>
  The invariant of the reconstruction of \<open>proxy/src/deshred.rs\<close> and its preservation by every step
  of a batch: trackers are well formed, keys of the maps are distinct, pooled trackers are clean, the
  segments handed over are disjoint and their shreds marked, evicted slots are too old to come back,
  and the segments that are still arriving hold what their shreds hold.
\<close>

section \<open>Invariant of the state\<close>

definition trackers :: "deshred_state \<Rightarrow> u64 \<rightharpoonup> ShredsStateTracker" where
  "trackers s = map_option snd \<circ> map_of (ds_all_shreds s)"

text \<open>A tracker only gains: shreds that are held stay, flags that are set stay.\<close>

definition tracker_le :: "ShredsStateTracker \<Rightarrow> ShredsStateTracker \<Rightarrow> bool" where
  "tracker_le t t' \<longleftrightarrow> (\<forall>i < MAX_DATA_SHREDS_PER_SLOT.
     (data_shreds t ! i \<noteq> None \<longrightarrow> data_shreds t' ! i = data_shreds t ! i)
     \<and> (already_recovered_fec_sets t ! i \<longrightarrow> already_recovered_fec_sets t' ! i)
     \<and> (already_deshredded t ! i \<longrightarrow> already_deshredded t' ! i))"

text \<open>A segment that was handed over: its shreds are held and marked, and so are their FEC sets.\<close>

definition range_done :: "ShredsStateTracker \<Rightarrow> nat \<Rightarrow> nat \<Rightarrow> bool" where
  "range_done t a b \<longleftrightarrow> a \<le> b \<and> b < MAX_DATA_SHREDS_PER_SLOT \<and> (\<forall>j \<in> {a..b}. already_deshredded t ! j
     \<and> (\<exists>x. data_shreds t ! j = Some x \<and> already_recovered_fec_sets t ! unat (fec_set_index x)))"

definition fecs_ok :: "fec_sets \<Rightarrow> bool" where
  "fecs_ok fecs \<longleftrightarrow> distinct (map fst fecs) \<and> (\<forall>f \<in> fst ` set fecs. unat f < MAX_DATA_SHREDS_PER_SLOT)"

definition disjoint_ranges :: "u64 \<times> nat \<times> nat \<Rightarrow> u64 \<times> nat \<times> nat \<Rightarrow> bool" where
  "disjoint_ranges r1 r2 = (case (r1, r2) of ((s1, a1, b1), (s2, a2, b2)) \<Rightarrow> s1 = s2 \<longrightarrow> b1 < a2 \<or> b2 < a1)"

definition ds_ok :: "run_env \<Rightarrow> deshred_state \<Rightarrow> bool" where
  "ds_ok L s \<longleftrightarrow> distinct (map fst (ds_all_shreds s))
     \<and> (\<forall>slot fecs t. map_of (ds_all_shreds s) slot = Some (fecs, t) \<longrightarrow> wf_tracker t \<and> fecs_ok fecs)
     \<and> set (ds_pool s) \<subseteq> {tracker_default} \<and> length (ds_pool s) \<le> MAX_POOLED_TRACKERS
     \<and> (\<forall>slot a b. (slot, a, b) \<in> set (ds_published s) \<longrightarrow>
          (case trackers s slot of Some t \<Rightarrow> range_done t a b | None \<Rightarrow> too_old slot s))
     \<and> sorted_wrt disjoint_ranges (ds_published s)
     \<and> segs_ok L (env_confirm L) (trackers s) (segments (ds_early s))"

definition slots_below :: "deshred_state \<Rightarrow> bool" where
  "slots_below s \<longleftrightarrow> (\<forall>slot. trackers s slot \<noteq> None \<longrightarrow> slot \<le> ds_highest_slot s)"

definition keys_ok :: "(u64 \<times> u32) list \<Rightarrow> deshred_state \<Rightarrow> bool" where
  "keys_ok ks s \<longleftrightarrow> (\<forall>slot fec. (slot, fec) \<in> set ks \<longrightarrow> trackers s slot \<noteq> None \<and> unat fec < MAX_DATA_SHREDS_PER_SLOT)"

text \<open>What the shred libraries promise: parsed and recovered shreds have indices within a slot.\<close>

definition library_ok :: "run_env \<Rightarrow> bool" where
  "library_ok L \<longleftrightarrow> (\<forall>p x. parse_shred L p = Some x \<longrightarrow> shred_ok x)
     \<and> (\<forall>xs r x. recover_shreds L xs = Some r \<longrightarrow> Some x \<in> set r \<longrightarrow> shred_ok x)"

lemma trackers_simps [simp]:
  "trackers (s\<lparr>ds_entries := x1\<rparr>) = trackers s" "trackers (s\<lparr>ds_iterate := x2\<rparr>) = trackers s"
  "trackers (s\<lparr>ds_highest_slot := x3\<rparr>) = trackers s" "trackers (s\<lparr>ds_pool := x4\<rparr>) = trackers s"
  "trackers (s\<lparr>ds_early := x5\<rparr>) = trackers s" "trackers (s\<lparr>ds_metrics := x6\<rparr>) = trackers s"
  "trackers (s\<lparr>ds_unresolved := x7\<rparr>) = trackers s" "trackers (s\<lparr>ds_published := x8\<rparr>) = trackers s"
  "trackers (s\<lparr>ds_report := x9\<rparr>) = trackers s"
  by (simp_all add: trackers_def)

lemma ds_ok_simps [simp]:
  "ds_ok L (s\<lparr>ds_entries := x1\<rparr>) = ds_ok L s" "ds_ok L (s\<lparr>ds_iterate := x2\<rparr>) = ds_ok L s"
  "ds_ok L (s\<lparr>ds_metrics := x3\<rparr>) = ds_ok L s" "ds_ok L (s\<lparr>ds_unresolved := x4\<rparr>) = ds_ok L s"
  "ds_ok L (s\<lparr>ds_report := x5\<rparr>) = ds_ok L s" "ds_ok L (bump_metrics f s) = ds_ok L s"
  by (simp_all add: ds_ok_def too_old_def bump_metrics_def split: option.split)

lemma trackers_bump [simp]: "trackers (bump_metrics f s) = trackers s"
  by (simp add: bump_metrics_def)

lemma slots_below_simps [simp]:
  "slots_below (s\<lparr>ds_entries := x1\<rparr>) = slots_below s" "slots_below (s\<lparr>ds_iterate := x2\<rparr>) = slots_below s"
  "slots_below (s\<lparr>ds_metrics := x3\<rparr>) = slots_below s" "slots_below (s\<lparr>ds_unresolved := x4\<rparr>) = slots_below s"
  "slots_below (s\<lparr>ds_early := x5\<rparr>) = slots_below s" "slots_below (s\<lparr>ds_published := x6\<rparr>) = slots_below s"
  "slots_below (s\<lparr>ds_report := x8\<rparr>) = slots_below s" "slots_below (bump_metrics f s) = slots_below s"
  by (simp_all add: slots_below_def bump_metrics_def)

lemma keys_ok_trackers: "keys_ok ks s \<Longrightarrow> dom (trackers s) \<subseteq> dom (trackers s') \<Longrightarrow> keys_ok ks s'"
  by (fastforce simp: keys_ok_def)

lemma ds_ok_tracker: "ds_ok L s \<Longrightarrow> trackers s slot = Some t \<Longrightarrow> wf_tracker t"
  by (auto simp: ds_ok_def trackers_def)

lemma ds_ok_slot: "ds_ok L s \<Longrightarrow> map_of (ds_all_shreds s) slot = Some (fecs, t) \<Longrightarrow> wf_tracker t \<and> fecs_ok fecs"
  by (simp add: ds_ok_def)

lemma ds_ok_init: "ds_ok L deshred_init"
  by (simp add: ds_ok_def deshred_init_def trackers_def EarlyDetect_default_def segs_ok_def)

lemma tracker_le_refl [simp]: "tracker_le t t"
  by (simp add: tracker_le_def)

lemma tracker_le_trans: "tracker_le t u \<Longrightarrow> tracker_le u v \<Longrightarrow> tracker_le t v"
  unfolding tracker_le_def by metis

lemma too_old_mono: "too_old slot s \<Longrightarrow> ds_highest_slot s \<le> ds_highest_slot s' \<Longrightarrow> too_old slot s'"
  by (auto simp: too_old_def word_less_nat_alt word_le_nat_alt unat_sat_sub)

section \<open>Changing one tracker\<close>

lemma data_at_mono: "tracker_le t t' \<Longrightarrow> i < MAX_DATA_SHREDS_PER_SLOT \<Longrightarrow> data_at L t i \<noteq> None \<Longrightarrow> data_at L t' i = data_at L t i"
  by (auto simp: tracker_le_def data_at_def)

lemma seg_ok_mono:
  assumes "seg_ok L confirm t a seg" "tracker_le t t'"
  shows "seg_ok L confirm t' a seg"
proof (cases "es_complete seg")
  case False
  let ?n = "unat (es_next seg)"
  have same: "data_at L t' i = data_at L t i" if "i \<in> {a..<?n}" for i
    using data_at_mono [OF assms(2), of i L] assms(1) False that by (auto simp: seg_ok_def)
  then have "data_range L t' a ?n = data_range L t a ?n"
    unfolding data_range_def by (intro arg_cong [of _ _ concat] map_cong) auto
  then show ?thesis
    using assms(1) False same by (simp add: seg_ok_def)
qed (simp add: seg_ok_def)

lemma range_done_mono:
  assumes "range_done t a b" "tracker_le t t'" "wf_tracker t"
  shows "range_done t' a b"
proof -
  have "already_deshredded t' ! j \<and> (\<exists>x. data_shreds t' ! j = Some x \<and> already_recovered_fec_sets t' ! unat (fec_set_index x))"
    if "j \<in> {a..b}" for j
  proof -
    have j: "j < MAX_DATA_SHREDS_PER_SLOT"
      using assms(1) that by (auto simp: range_done_def)
    have "\<forall>j \<in> {a..b}. already_deshredded t ! j
        \<and> (\<exists>x. data_shreds t ! j = Some x \<and> already_recovered_fec_sets t ! unat (fec_set_index x))"
      using assms(1) unfolding range_done_def by (elim conjE)
    from bspec [OF this that] obtain x where
      x: "already_deshredded t ! j" "data_shreds t ! j = Some x" "already_recovered_fec_sets t ! unat (fec_set_index x)"
      by blast
    have "unat (fec_set_index x) < MAX_DATA_SHREDS_PER_SLOT"
      using wf_tracker_held [OF assms(3) j] x(2) by (simp add: held_ok_def)
    then show ?thesis
      using assms(2) j x by (simp add: tracker_le_def)
  qed
  then show ?thesis
    using assms(1) by (simp add: range_done_def)
qed

lemma trackers_set_slot [simp]: "trackers (set_slot slot (fecs, t) s) = (trackers s)(slot \<mapsto> t)"
  by (auto simp: trackers_def set_slot_def update_conv' fun_eq_iff)

lemma set_slot_simps [simp]:
  "ds_iterate (set_slot slot e s) = ds_iterate s" "ds_highest_slot (set_slot slot e s) = ds_highest_slot s"
  "ds_pool (set_slot slot e s) = ds_pool s" "ds_early (set_slot slot e s) = ds_early s"
  "ds_published (set_slot slot e s) = ds_published s" "ds_entries (set_slot slot e s) = ds_entries s"
  "map_of (ds_all_shreds (set_slot slot e s)) = (map_of (ds_all_shreds s))(slot \<mapsto> e)"
  by (simp_all add: set_slot_def update_conv')

lemma slots_below_set_slot:
  "slots_below s \<Longrightarrow> trackers s slot \<noteq> None \<Longrightarrow> slots_below (set_slot slot (fecs, t) s)"
  by (simp add: slots_below_def)

lemma set_slot_ok:
  assumes "ds_ok L s" "trackers s slot = Some t0" "wf_tracker t" "fecs_ok fecs" "tracker_le t0 t"
  shows "ds_ok L (set_slot slot (fecs, t) s)"
proof -
  have t0: "wf_tracker t0"
    using assms(1,2) by (rule ds_ok_tracker)
  have d: "distinct (map fst (ds_all_shreds (set_slot slot (fecs, t) s)))"
    using assms(1) by (simp add: ds_ok_def set_slot_def distinct_update)
  have segs: "segs_ok L (env_confirm L) ((trackers s)(slot \<mapsto> t)) (segments (ds_early s))"
    using assms(1,2) seg_ok_mono [OF _ assms(5)] unfolding ds_ok_def segs_ok_def
    by (metis fun_upd_apply option.inject)
  have pub: "\<forall>sl a b. (sl, a, b) \<in> set (ds_published s) \<longrightarrow>
      (case ((trackers s)(slot \<mapsto> t)) sl of Some t \<Rightarrow> range_done t a b | None \<Rightarrow> too_old sl (set_slot slot (fecs, t) s))"
  proof (intro allI impI)
    fix sl a b
    assume "(sl, a, b) \<in> set (ds_published s)"
    then have "case trackers s sl of Some t \<Rightarrow> range_done t a b | None \<Rightarrow> too_old sl s"
      using assms(1) by (simp add: ds_ok_def)
    moreover have "too_old sl (set_slot slot (fecs, t) s) = too_old sl s"
      by (simp add: too_old_def)
    ultimately show "case ((trackers s)(slot \<mapsto> t)) sl of Some t \<Rightarrow> range_done t a b | None \<Rightarrow> too_old sl (set_slot slot (fecs, t) s)"
      using range_done_mono [OF _ assms(5) t0, of a b] assms(2) by (cases "sl = slot") (simp_all split: option.splits)
  qed
  have wf: "\<forall>sl f t'. map_of (ds_all_shreds (set_slot slot (fecs, t) s)) sl = Some (f, t') \<longrightarrow> wf_tracker t' \<and> fecs_ok f"
    using assms(1,3,4) by (simp add: ds_ok_def)
  show ?thesis
    unfolding ds_ok_def using d segs pub wf assms(1) by (simp add: ds_ok_def)
qed

section \<open>Entering a slot\<close>

lemma slot_entry_old:
  "map_of (ds_all_shreds s) slot = Some e \<Longrightarrow> slot_entry slot s = (e, s)"
  by (simp add: slot_entry_def)

lemma slot_entry_known:
  assumes "ds_ok L s" "trackers s slot = Some t"
  shows "\<exists>fecs. slot_entry slot s = ((fecs, t), s) \<and> map_of (ds_all_shreds s) slot = Some (fecs, t) \<and> fecs_ok fecs"
  using assms by (auto simp: trackers_def slot_entry_def ds_ok_def)

lemma pool_take_default: "set pool \<subseteq> {tracker_default} \<Longrightarrow> fst (pool_take pool) = tracker_default"
  by (cases pool) auto

lemma pool_take_pool: "set (snd (pool_take pool)) \<subseteq> set pool" "length (snd (pool_take pool)) \<le> length pool"
  by (cases pool; auto)+

lemma slot_entry_new:
  assumes "ds_ok L s" "trackers s slot = None" "\<not> too_old slot s"
  obtains s1 where "slot_entry slot s = (([], tracker_default), s1)" "ds_ok L s1"
    "trackers s1 = (trackers s)(slot \<mapsto> tracker_default)" "ds_highest_slot s1 = ds_highest_slot s"
    "ds_iterate s1 = ds_iterate s" "map_of (ds_all_shreds s1) slot = Some ([], tracker_default)"
proof -
  have new: "map_of (ds_all_shreds s) slot = None"
    using assms(2) by (simp add: trackers_def)
  obtain t pool where p: "pool_take (ds_pool s) = (t, pool)" by (cases "pool_take (ds_pool s)")
  have pool: "set (ds_pool s) \<subseteq> {tracker_default}" "length (ds_pool s) \<le> MAX_POOLED_TRACKERS"
    using assms(1) by (simp_all add: ds_ok_def)
  then have t: "t = tracker_default" "set pool \<subseteq> {tracker_default}" "length pool \<le> MAX_POOLED_TRACKERS"
    using pool_take_default [OF pool(1)] pool_take_pool [of "ds_pool s"] p by auto
  let ?s1 = "s\<lparr>ds_all_shreds := AList.update slot ([], tracker_default) (ds_all_shreds s), ds_pool := pool\<rparr>"
  have tr: "trackers (s\<lparr>ds_all_shreds := AList.update slot ([], tracker_default) (ds_all_shreds s)\<rparr>)
      = (trackers s)(slot \<mapsto> tracker_default)"
    by (auto simp: trackers_def update_conv' fun_eq_iff)
  have segs: "segs_ok L (env_confirm L) (trackers ?s1) (segments (ds_early ?s1))"
    using assms(1,2) unfolding tr trackers_simps ds_ok_def segs_ok_def by (simp, metis option.distinct(1))
  have pub: "\<forall>sl a b. (sl, a, b) \<in> set (ds_published ?s1) \<longrightarrow>
      (case trackers ?s1 sl of Some t \<Rightarrow> range_done t a b | None \<Rightarrow> too_old sl ?s1)"
  proof (intro allI impI)
    fix sl a b
    assume "(sl, a, b) \<in> set (ds_published ?s1)"
    then have "case trackers s sl of Some t \<Rightarrow> range_done t a b | None \<Rightarrow> too_old sl s"
      using assms(1) by (simp add: ds_ok_def)
    moreover have "too_old sl ?s1 = too_old sl s"
      by (simp add: too_old_def)
    ultimately show "case trackers ?s1 sl of Some t \<Rightarrow> range_done t a b | None \<Rightarrow> too_old sl ?s1"
      using assms(2,3) by (cases "sl = slot") (simp_all only: tr trackers_simps fun_upd_apply option.case if_True if_False simp_thms)
  qed
  have keys: "distinct (map fst (ds_all_shreds ?s1))"
    using assms(1) by (simp add: ds_ok_def distinct_update)
  have wf: "\<forall>sl f t'. map_of (ds_all_shreds ?s1) sl = Some (f, t') \<longrightarrow> wf_tracker t' \<and> fecs_ok f"
    using assms(1) wf_default by (simp add: ds_ok_def update_conv' fecs_ok_def)
  have "ds_ok L ?s1"
    unfolding ds_ok_def using segs pub keys wf t(2,3) assms(1) by (simp add: ds_ok_def)
  moreover have "slot_entry slot s = (([], tracker_default), ?s1)"
    using new p t(1) by (simp add: slot_entry_def)
  ultimately show ?thesis
    using that [of ?s1] tr by (simp add: update_conv')
qed

section \<open>Ingestion\<close>

lemma fecs_ok_update: "fecs_ok fecs \<Longrightarrow> unat f < MAX_DATA_SHREDS_PER_SLOT \<Longrightarrow> fecs_ok (AList.update f x fecs)"
  by (auto simp: fecs_ok_def distinct_update dom_update)

lemma insert_shred_le:
  assumes "wf_tracker t" "shred_ok x" "insertable x t"
  shows "tracker_le t (insert_shred x t)"
  using assms wf_trackerD(2) [OF assms(1)]
  by (auto simp: tracker_le_def insert_shred_def insertable_def nth_list_update shred_ok_def)

lemma highest_ok:
  assumes "ds_ok L s" "ds_highest_slot s \<le> h"
  shows "ds_ok L (s\<lparr>ds_highest_slot := h\<rparr>)"
proof -
  have "too_old slot (s\<lparr>ds_highest_slot := h\<rparr>)" if "too_old slot s" for slot
    using too_old_mono [OF that] assms(2) by simp
  then have "case trackers s slot of Some t \<Rightarrow> range_done t a b | None \<Rightarrow> too_old slot (s\<lparr>ds_highest_slot := h\<rparr>)"
    if "(slot, a, b) \<in> set (ds_published s)" for slot a b
    using assms(1) that by (fastforce simp: ds_ok_def split: option.splits)
  then show ?thesis
    using assms(1) by (simp add: ds_ok_def)
qed

lemma note_arrival_segments [simp]: "segments (note_arrival slot i early) = segments early"
  by (simp add: note_arrival_def)

lemma early_ok [simp]:
  "segments early = segments (ds_early s) \<Longrightarrow> ds_ok L (s\<lparr>ds_early := early\<rparr>) = ds_ok L s"
  by (simp add: ds_ok_def too_old_def split: option.split)

definition ingested_ok :: "run_env \<Rightarrow> deshred_state \<Rightarrow> bool" where
  "ingested_ok L s \<longleftrightarrow> ds_ok L s \<and> slots_below s \<and> keys_ok (ds_iterate s) s"

text \<open>A shred of a slot that is being tracked: dropped without a trace, or inserted.\<close>

definition accepted :: "run_env \<Rightarrow> Shred \<Rightarrow> fec_sets \<Rightarrow> ShredsStateTracker \<Rightarrow> deshred_state \<Rightarrow> deshred_state" where
  "accepted L x fecs t s =
     (let fec = fec_set_index x; slot = shred_slot x;
          held = (case map_of fecs fec of None \<Rightarrow> [] | Some h \<Rightarrow> h);
          s = set_slot slot (AList.update fec (set_insert L x held) fecs, insert_shred x t) s;
          s = (if env_pump_only L \<and> is_data x then s\<lparr>ds_early := note_arrival slot (shred_index x) (ds_early s)\<rparr> else s)
      in s\<lparr>ds_iterate := ds_iterate s @ [(slot, fec)], ds_highest_slot := max (ds_highest_slot s) slot\<rparr>)"

lemma ingest_shred_eq:
  assumes "wf_tracker t" "shred_ok x" "\<not> too_old (shred_slot x) s" "slot_entry (shred_slot x) s = ((fecs, t), s1)"
  shows "ingest_shred L x s = Some
    (if already_deshredded t ! unat (shred_index x) \<or> already_recovered_fec_sets t ! unat (fec_set_index x) then s1
     else if insertable x t then accepted L x fecs t s1 else set_slot (shred_slot x) (fecs, t) s1)"
proof -
  have "get_at (already_recovered_fec_sets t) (unat (fec_set_index x)) = Some (already_recovered_fec_sets t ! unat (fec_set_index x))"
    "get_at (already_deshredded t) (unat (shred_index x)) = Some (already_deshredded t ! unat (shred_index x))"
    using wf_trackerD [OF assms(1)] assms(2) by (simp_all add: get_at_def shred_ok_def)
  then show ?thesis
    using assms(3,4) update_state_tracker_eq [OF assms(1,2)]
    by (simp add: ingest_shred_def accepted_def Let_def del: get_at_Some_iff bind_Some_iff)
qed

lemma accepted_ok:
  assumes "ds_ok L s" "slots_below s \<or> slots_below (s\<lparr>ds_highest_slot := max (ds_highest_slot s) (shred_slot x)\<rparr>)"
    "keys_ok (ds_iterate s) s" "map_of (ds_all_shreds s) (shred_slot x) = Some (fecs, t)" "shred_ok x" "insertable x t"
  shows "ingested_ok L (accepted L x fecs t s) \<and> ds_highest_slot s \<le> ds_highest_slot (accepted L x fecs t s)"
proof -
  have t: "wf_tracker t" "fecs_ok fecs" "trackers s (shred_slot x) = Some t"
    using ds_ok_slot [OF assms(1,4)] assms(4) by (simp_all add: trackers_def)
  let ?fec = "fec_set_index x" and ?slot = "shred_slot x"
  have f: "unat ?fec < MAX_DATA_SHREDS_PER_SLOT"
    using assms(5) by (simp add: shred_ok_def)
  let ?s = "set_slot ?slot (AList.update ?fec (set_insert L x (case map_of fecs ?fec of None \<Rightarrow> [] | Some h \<Rightarrow> h)) fecs, insert_shred x t) s"
  have "ds_ok L ?s"
    using set_slot_ok [OF assms(1) t(3) wf_insert_shred [OF t(1) assms(5)] fecs_ok_update [OF t(2) f] insert_shred_le [OF t(1) assms(5,6)]] .
  then have 1: "ds_ok L (accepted L x fecs t s)"
    unfolding accepted_def Let_def by (simp add: highest_ok)
  have "trackers (accepted L x fecs t s) = (trackers s)(?slot \<mapsto> insert_shred x t)"
    "ds_highest_slot (accepted L x fecs t s) = max (ds_highest_slot s) ?slot"
    "ds_iterate (accepted L x fecs t s) = ds_iterate s @ [(?slot, ?fec)]"
    by (simp_all add: accepted_def Let_def)
  then show ?thesis
    using 1 assms(2,3) f by (auto simp: ingested_ok_def slots_below_def keys_ok_def max_def)
qed

lemma ingest_shred_ok:
  assumes "ingested_ok L s" "shred_ok x"
  shows "\<exists>s'. ingest_shred L x s = Some s' \<and> ingested_ok L s' \<and> ds_highest_slot s \<le> ds_highest_slot s'"
proof (cases "too_old (shred_slot x) s")
  case True
  then show ?thesis
    using assms(1) by (simp add: ingest_shred_def)
next
  case False
  have s: "ds_ok L s" "slots_below s" "keys_ok (ds_iterate s) s"
    using assms(1) by (simp_all add: ingested_ok_def)
  show ?thesis
  proof (cases "trackers s (shred_slot x)")
    case None
    obtain s1 where s1: "slot_entry (shred_slot x) s = (([], tracker_default), s1)" "ds_ok L s1"
      "trackers s1 = (trackers s)(shred_slot x \<mapsto> tracker_default)" "ds_highest_slot s1 = ds_highest_slot s"
      "ds_iterate s1 = ds_iterate s" "map_of (ds_all_shreds s1) (shred_slot x) = Some ([], tracker_default)"
      using slot_entry_new [OF s(1) None False] by blast
    have i: "unat (shred_index x) < MAX_DATA_SHREDS_PER_SLOT" "unat (fec_set_index x) < MAX_DATA_SHREDS_PER_SLOT"
      using assms(2) by (simp_all add: shred_ok_def)
    then have fresh: "\<not> already_deshredded tracker_default ! unat (shred_index x)"
      "\<not> already_recovered_fec_sets tracker_default ! unat (fec_set_index x)" "insertable x tracker_default"
      by (simp_all add: tracker_default_def insertable_def)
    have "slots_below (s1\<lparr>ds_highest_slot := max (ds_highest_slot s1) (shred_slot x)\<rparr>)" "keys_ok (ds_iterate s1) s1"
      using s(2,3) s1(3,4,5) by (auto simp: slots_below_def keys_ok_def max_def)
    then have "ingested_ok L (accepted L x [] tracker_default s1) \<and> ds_highest_slot s1 \<le> ds_highest_slot (accepted L x [] tracker_default s1)"
      using s1(2,6) assms(2) fresh(3) by (intro accepted_ok) auto
    then show ?thesis
      using ingest_shred_eq [OF wf_default assms(2) False s1(1), of L] fresh s1(4) by simp
  next
    case (Some t)
    obtain fecs where e: "slot_entry (shred_slot x) s = ((fecs, t), s)"
      "map_of (ds_all_shreds s) (shred_slot x) = Some (fecs, t)" "fecs_ok fecs"
      using slot_entry_known [OF s(1) Some] by blast
    have t: "wf_tracker t"
      using ds_ok_tracker [OF s(1) Some] .
    have "ds_ok L (set_slot (shred_slot x) (fecs, t) s)"
      using set_slot_ok [OF s(1) Some t e(3)] by simp
    then have "ingested_ok L (set_slot (shred_slot x) (fecs, t) s)"
      using s(2,3) Some by (auto simp: ingested_ok_def slots_below_def keys_ok_def)
    moreover have "ingested_ok L (accepted L x fecs t s) \<and> ds_highest_slot s \<le> ds_highest_slot (accepted L x fecs t s)"
      if "insertable x t"
      using accepted_ok [OF s(1) _ s(3) e(2) assms(2) that] s(2) by simp
    ultimately show ?thesis
      using ingest_shred_eq [OF t assms(2) False e(1), of L] assms(1) by simp
  qed
qed

lemma ingest_ok:
  assumes "library_ok L" "ingested_ok L s"
  shows "\<exists>s'. ingest L p s = Some s' \<and> ingested_ok L s' \<and> ds_highest_slot s \<le> ds_highest_slot s'"
  using assms ingest_shred_ok [OF assms(2)]
  by (cases "parse_shred L p") (auto simp: ingest_def library_ok_def)

lemma fold_opt_inv:
  assumes "\<And>x s. x \<in> set xs \<Longrightarrow> I s \<Longrightarrow> \<exists>s'. f x s = Some s' \<and> I s'"
  shows "I s \<Longrightarrow> \<exists>s'. fold_opt f xs s = Some s' \<and> I s'"
  using assms
proof (induction xs arbitrary: s)
  case (Cons x xs)
  then obtain s1 where "f x s = Some s1" "I s1"
    by (meson list.set_intros(1))
  then show ?case
    using Cons.IH [of s1] Cons.prems(2) by (auto simp del: bind_Some_iff)
qed simp

section \<open>Early detection and recovery\<close>

definition batch_ok :: "run_env \<Rightarrow> (u64 \<times> u32) list \<Rightarrow> deshred_state \<Rightarrow> bool" where
  "batch_ok L ks s \<longleftrightarrow> ds_ok L s \<and> slots_below s \<and> keys_ok ks s"

lemma detect_segments:
  assumes "detect_in_partial_segments L confirm tr early entries u = (found, early', entries', u')"
    "\<forall>slot t. tr slot = Some t \<longrightarrow> wf_tracker t" "segs_ok L confirm tr (segments early)"
  shows "segs_ok L confirm tr (segments early')"
  using assms(1) detect_fold_ok [OF assms(2), of L confirm
      "\<lparr>er_segments = segments early, er_entries = entries, er_unresolved = u, er_found = 0\<rparr>"] assms(3)
  by (auto simp: detect_in_partial_segments_def Let_def)

lemma detect_pass_frame:
  "ds_all_shreds (detect_pass L s) = ds_all_shreds s" "ds_highest_slot (detect_pass L s) = ds_highest_slot s"
  "ds_pool (detect_pass L s) = ds_pool s" "ds_published (detect_pass L s) = ds_published s"
  "ds_iterate (detect_pass L s) = ds_iterate s"
  by (simp_all add: detect_pass_def Let_def split: prod.split)

lemma detect_pass_ok:
  assumes "batch_ok L ks s"
  shows "batch_ok L ks (detect_pass L s)"
proof -
  have tr: "trackers (detect_pass L s) = trackers s"
    by (simp add: trackers_def detect_pass_frame)
  have old: "too_old slot (detect_pass L s) = too_old slot s" for slot
    by (simp add: too_old_def detect_pass_frame)
  have s: "ds_ok L s" "slots_below s" "keys_ok ks s"
    using assms by (simp_all add: batch_ok_def)
  have "segs_ok L (env_confirm L) (trackers s) (segments (ds_early (detect_pass L s)))"
  proof (cases "env_pump_only L")
    case True
    obtain found early entries u where d: "detect_in_partial_segments L (env_confirm L) (trackers s) (ds_early s)
        (ds_entries s) (ds_unresolved s) = (found, early, entries, u)"
      by (metis prod_cases4)
    have "segs_ok L (env_confirm L) (trackers s) (segments early)"
      using detect_segments [OF d] ds_ok_tracker [OF s(1)] s(1) by (simp add: ds_ok_def)
    moreover have "ds_early (detect_pass L s) = early"
      using True d by (simp add: detect_pass_def trackers_def Let_def)
    ultimately show ?thesis
      by simp
  next
    case False
    then show ?thesis
      using s(1) by (simp add: detect_pass_def ds_ok_def)
  qed
  then show ?thesis
    using s unfolding batch_ok_def ds_ok_def slots_below_def keys_ok_def tr old detect_pass_frame by simp
qed

lemma recover_shred_ok:
  assumes "wf_tracker t" "\<forall>x. r = Some x \<longrightarrow> shred_ok x"
  shows "\<exists>t' early' n'. recover_shred L slot r (t, early, n) = Some (t', early', n') \<and> wf_tracker t' \<and> tracker_le t t'
    \<and> segments early' = segments early"
proof (cases r)
  case (Some x)
  then have "shred_ok x"
    using assms(2) by simp
  then show ?thesis
    using update_state_tracker_eq [OF assms(1), of x] wf_insert_shred [OF assms(1), of x] insert_shred_le [OF assms(1), of x] assms(1) Some
    by (auto simp: recover_shred_def simp del: bind_Some_iff)
qed (simp add: recover_shred_def assms(1))

lemma recover_fold_ok:
  assumes "wf_tracker t" "\<forall>x. Some x \<in> set rs \<longrightarrow> shred_ok x"
  shows "\<exists>t' early' n'. fold_opt (recover_shred L slot) rs (t, early, n) = Some (t', early', n') \<and> wf_tracker t' \<and> tracker_le t t'
    \<and> segments early' = segments early"
  using assms
proof (induction rs arbitrary: t early n)
  case (Cons r rs)
  obtain t1 early1 n1 where 1: "recover_shred L slot r (t, early, n) = Some (t1, early1, n1)" "wf_tracker t1" "tracker_le t t1"
    "segments early1 = segments early"
    using recover_shred_ok [OF Cons.prems(1), of r] Cons.prems(2) by (metis list.set_intros(1))
  obtain t2 early2 n2 where 2: "fold_opt (recover_shred L slot) rs (t1, early1, n1) = Some (t2, early2, n2)" "wf_tracker t2"
    "tracker_le t1 t2" "segments early2 = segments early1"
    using Cons.IH [OF 1(2), of early1 n1] Cons.prems(2) by auto
  show ?case
    using 1 2 tracker_le_trans [OF 1(3) 2(3)] by (auto simp del: bind_Some_iff)
qed simp

lemma wf_set_recovered:
  assumes "wf_tracker t" "f < MAX_DATA_SHREDS_PER_SLOT"
  defines "t' \<equiv> touch f (t\<lparr>already_recovered_fec_sets := (already_recovered_fec_sets t)[f := True]\<rparr>)"
  shows "wf_tracker t'" "tracker_le t t'"
proof -
  note l = wf_trackerD [OF assms(1)]
  have t': "data_shreds t' = data_shreds t" "data_status t' = data_status t" "already_deshredded t' = already_deshredded t"
    "already_recovered_fec_sets t' = (already_recovered_fec_sets t)[f := True]" "high_water t' = max f (high_water t)"
    by (simp_all add: t'_def)
  have "cell_clean t' i" if "i < MAX_DATA_SHREDS_PER_SLOT" "high_water t' < i" for i
    using wf_tracker_clean [OF assms(1) that(1)] that(2) by (simp add: t' cell_clean_def)
  then show "wf_tracker t'"
    using assms(1,2) l by (simp add: wf_tracker_def lengths_ok_def t')
  show "tracker_le t t'"
    using l assms(2) by (simp add: tracker_le_def t' nth_list_update)
qed

lemma recover_fec_set_ok:
  assumes "library_ok L" "batch_ok L ks s" "(slot, fec) \<in> set ks"
  shows "\<exists>s' n'. recover_fec_set L (slot, fec) (s, n) = Some (s', n') \<and> batch_ok L ks s'"
proof -
  have s: "ds_ok L s" "slots_below s" "keys_ok ks s"
    using assms(2) by (simp_all add: batch_ok_def)
  obtain t where tr: "trackers s slot = Some t" and f: "unat fec < MAX_DATA_SHREDS_PER_SLOT"
    using s(3) assms(3) by (auto simp: keys_ok_def)
  obtain fecs where e: "slot_entry slot s = ((fecs, t), s)" "fecs_ok fecs"
    using slot_entry_known [OF s(1) tr] by blast
  have t: "wf_tracker t"
    using ds_ok_tracker [OF s(1) tr] .
  let ?shreds = "case map_of fecs fec of None \<Rightarrow> [] | Some h \<Rightarrow> h"
  let ?fecs = "AList.update fec ?shreds fecs"
  have fs: "fecs_ok (AList.update fec h fecs)" "fecs_ok (AList.update fec h ?fecs)" for h
    using e(2) f by (simp_all add: fecs_ok_update)
  let ?s = "set_slot slot (?fecs, t) s"
  have s1: "ds_ok L ?s" "trackers ?s slot = Some t"
    using set_slot_ok [OF s(1) tr t fs(1)] by simp_all
  have keep: "batch_ok L ks (set_slot slot (g, t') s2)"
    if "ds_ok L s2" "trackers s2 = trackers ?s" "ds_highest_slot s2 = ds_highest_slot s" "wf_tracker t'" "tracker_le t t'" "fecs_ok g"
    for s2 t' g
  proof -
    have "trackers s2 slot = Some t"
      using that(2) s1(2) by simp
    then have "ds_ok L (set_slot slot (g, t') s2)"
      using set_slot_ok [OF that(1) _ that(4,6,5)] by blast
    then show ?thesis
      using s(2,3) that(2,3) tr by (auto simp: batch_ok_def slots_below_def keys_ok_def)
  qed
  have quiet: "batch_ok L ks ?s"
    using keep [of ?s t ?fecs] s1 t fs(1) by (simp add: batch_ok_def slots_below_def keys_ok_def set_slot_def)
  show ?thesis
  proof (cases "recover_shreds L (sort_key (recover_key L) (iter_set L ?shreds))")
    case None
    then show ?thesis
      using quiet e(1) by (simp add: recover_fec_set_def Let_def)
  next
    case (Some rs)
    then have "\<forall>x. Some x \<in> set rs \<longrightarrow> shred_ok x"
      using assms(1) unfolding library_ok_def by blast
    from recover_fold_ok [OF t this, of L slot "ds_early ?s" 0] obtain t' early' n' where
      r: "fold_opt (recover_shred L slot) rs (t, ds_early ?s, 0) = Some (t', early', n')" "wf_tracker t'" "tracker_le t t'"
      "segments early' = segments (ds_early ?s)"
      by blast
    have s2: "ds_ok L (?s\<lparr>ds_early := early'\<rparr>)"
      using s1(1) r(4) by simp
    have "set_at (already_recovered_fec_sets t') (unat fec) True = Some ((already_recovered_fec_sets t')[unat fec := True])"
      using wf_trackerD [OF r(2)] f by (simp add: set_at_def)
    moreover note wf_set_recovered [OF r(2) f]
    moreover have "batch_ok L ks (set_slot slot (?fecs, t') (?s\<lparr>ds_early := early'\<rparr>))"
      using keep [OF s2 _ _ r(2,3) fs(1)] by simp
    moreover have "batch_ok L ks (set_slot slot (AList.update fec [] ?fecs, u) (?s\<lparr>ds_early := early'\<rparr>))"
      if "wf_tracker u" "tracker_le t' u" for u
      using keep [OF s2 _ _ that(1) tracker_le_trans [OF r(3) that(2)] fs(2)] by simp
    ultimately show ?thesis
      using quiet e(1) Some r(1) by (simp add: recover_fec_set_def Let_def del: bind_Some_iff)
  qed
qed

section \<open>Handing over\<close>

definition marked :: "ShredsStateTracker \<Rightarrow> Shred option list \<Rightarrow> ShredsStateTracker \<Rightarrow> bool" where
  "marked t hs t' \<longleftrightarrow> wf_tracker t' \<and> data_shreds t' = data_shreds t \<and> data_status t' = data_status t
     \<and> (\<forall>i < MAX_DATA_SHREDS_PER_SLOT. already_deshredded t' ! i \<longleftrightarrow>
          already_deshredded t ! i \<or> (\<exists>x. Some x \<in> set hs \<and> unat (shred_index x) = i))
     \<and> (\<forall>i < MAX_DATA_SHREDS_PER_SLOT. already_recovered_fec_sets t' ! i \<longleftrightarrow>
          already_recovered_fec_sets t ! i \<or> (\<exists>x. Some x \<in> set hs \<and> unat (fec_set_index x) = i))"

lemma mark_shred_ok:
  assumes "wf_tracker t" "\<forall>x. h = Some x \<longrightarrow> shred_ok x"
  shows "\<exists>t'. mark_shred h t = Some t' \<and> marked t [h] t'"
proof (cases h)
  case (Some x)
  note l = wf_trackerD [OF assms(1)]
  let ?f = "unat (fec_set_index x)" and ?i = "unat (shred_index x)"
  have b: "?f < MAX_DATA_SHREDS_PER_SLOT" "?i < MAX_DATA_SHREDS_PER_SLOT"
    using assms(2) Some by (simp_all add: shred_ok_def)
  let ?t = "touch (unat (max (fec_set_index x) (shred_index x)))
    (t\<lparr>already_recovered_fec_sets := (already_recovered_fec_sets t)[?f := True],
      already_deshredded := (already_deshredded t)[?i := True]\<rparr>)"
  have t': "data_shreds ?t = data_shreds t" "data_status ?t = data_status t"
    "already_recovered_fec_sets ?t = (already_recovered_fec_sets t)[?f := True]"
    "already_deshredded ?t = (already_deshredded t)[?i := True]" "high_water ?t = max (max ?f ?i) (high_water t)"
    by (simp_all add: unat_max)
  have "cell_clean ?t j" if "j < MAX_DATA_SHREDS_PER_SLOT" "high_water ?t < j" for j
    using wf_tracker_clean [OF assms(1) that(1)] that(2) unfolding t' cell_clean_def by simp
  then have "wf_tracker ?t"
    using assms(1) b l unfolding wf_tracker_def lengths_ok_def t' by simp
  then have "marked t [h] ?t"
    using Some b l unfolding marked_def t' by (auto simp: nth_list_update)
  moreover have "mark_shred h t = Some ?t"
    using Some b l by (simp add: mark_shred_def set_at_def)
  ultimately show ?thesis
    by blast
qed (simp add: mark_shred_def marked_def assms(1))

lemma mark_fold_ok:
  assumes "wf_tracker t" "\<forall>x. Some x \<in> set hs \<longrightarrow> shred_ok x"
  shows "\<exists>t'. fold_opt mark_shred hs t = Some t' \<and> marked t hs t'"
  using assms
proof (induction hs arbitrary: t)
  case (Cons h hs)
  obtain t1 where 1: "mark_shred h t = Some t1" "marked t [h] t1"
    using mark_shred_ok [OF Cons.prems(1), of h] Cons.prems(2) by auto
  then obtain t2 where 2: "fold_opt mark_shred hs t1 = Some t2" "marked t1 hs t2"
    using Cons.IH [of t1] Cons.prems(2) by (auto simp: marked_def)
  have "marked t (h # hs) t2"
    using 1(2) 2(2) unfolding marked_def by auto
  then show ?case
    using 1(1) 2(1) by (simp del: bind_Some_iff)
qed (simp add: marked_def)

lemma marked_le: "marked t hs t' \<Longrightarrow> tracker_le t t'"
  by (simp add: marked_def tracker_le_def)

lemma is_segment_held:
  assumes "wf_tracker t" "is_segment t i a b u" "j \<in> {a..b}"
  shows "\<exists>x. data_shreds t ! j = Some x \<and> unat (shred_index x) = j \<and> shred_ok x"
proof -
  have j: "j < MAX_DATA_SHREDS_PER_SLOT"
    using assms(2,3) wf_trackerD(1) [OF assms(1)] by (auto simp: is_segment_def)
  have "data_status t ! j \<noteq> Unknown"
    using assms(2,3) by (cases "j = b") (auto simp: is_segment_def)
  then obtain x where x: "data_shreds t ! j = Some x"
    using status_of_Unknown [OF wf_tracker_held [OF assms(1) j]] wf_tracker_status [OF assms(1) j] by auto
  then show ?thesis
    using wf_tracker_held [OF assms(1) j] j by (simp add: held_ok_def shred_ok_def)
qed

lemma set_slice_nth: "b < length xs \<Longrightarrow> set (slice xs a (Suc b)) = {xs ! j |j. a \<le> j \<and> j \<le> b}"
proof (intro equalityI subsetI)
  fix x
  assume b: "b < length xs" and "x \<in> set (slice xs a (Suc b))"
  then obtain k where "k < length (slice xs a (Suc b))" "x = slice xs a (Suc b) ! k"
    by (auto simp: in_set_conv_nth)
  with b have "x = xs ! (a + k)" "a + k \<le> b"
    by (simp_all add: slice_def)
  then show "x \<in> {xs ! j |j. a \<le> j \<and> j \<le> b}"
    by fastforce
next
  fix x
  assume b: "b < length xs" and "x \<in> {xs ! j |j. a \<le> j \<and> j \<le> b}"
  then obtain j where j: "x = xs ! j" "a \<le> j" "j \<le> b"
    by blast
  then have "slice xs a (Suc b) ! (j - a) = x" "j - a < length (slice xs a (Suc b))"
    using b by (simp_all add: slice_def)
  then show "x \<in> set (slice xs a (Suc b))"
    using nth_mem by blast
qed

text \<open>Handing over a segment: one more range in the history, disjoint from those before it.\<close>

definition handed_over :: "u64 \<Rightarrow> nat \<Rightarrow> nat \<Rightarrow> Entry list \<Rightarrow> bytes \<Rightarrow> deshred_state \<Rightarrow> deshred_state \<Rightarrow> bool" where
  "handed_over slot a b entries payload s s' \<longleftrightarrow>
     ds_entries s' = ds_entries s @ [(slot, entries, payload)] \<and> ds_published s' = ds_published s @ [(slot, a, b)]
     \<and> ds_highest_slot s' = ds_highest_slot s
     \<and> (\<exists>t'. trackers s' = (trackers s)(slot \<mapsto> t') \<and> range_done t' a b)"

lemma ds_ok_publish:
  assumes "ds_ok L s" "trackers s slot = Some t" "range_done t a b" "\<forall>r \<in> set (ds_published s). disjoint_ranges r (slot, a, b)"
  shows "ds_ok L (s\<lparr>ds_published := ds_published s @ [(slot, a, b)]\<rparr>)"
proof -
  have old: "too_old sl (s\<lparr>ds_published := ds_published s @ [(slot, a, b)]\<rparr>) = too_old sl s" for sl
    by (simp add: too_old_def)
  have "case trackers s sl of Some t \<Rightarrow> range_done t c d | None \<Rightarrow> too_old sl s"
    if "(sl, c, d) \<in> set (ds_published s @ [(slot, a, b)])" for sl c d
    using that assms(1,2,3) by (auto simp: ds_ok_def)
  then show ?thesis
    using assms(1,4) unfolding ds_ok_def old trackers_simps by (simp add: sorted_wrt_append)
qed

lemma publish_ok:
  assumes "batch_ok L ks s" "trackers s slot = Some t" "is_segment t i a b u"
  shows "\<exists>s'. publish slot a b entries payload s = Some s' \<and> batch_ok L ks s' \<and> handed_over slot a b entries payload s s'"
proof -
  have s: "ds_ok L s" "slots_below s" "keys_ok ks s"
    using assms(1) by (simp_all add: batch_ok_def)
  obtain fecs where e: "slot_entry slot s = ((fecs, t), s)" "fecs_ok fecs"
    using slot_entry_known [OF s(1) assms(2)] by blast
  have t: "wf_tracker t"
    using ds_ok_tracker [OF s(1) assms(2)] .
  have seg: "a \<le> b" "b < MAX_DATA_SHREDS_PER_SLOT" "\<forall>j \<in> {a..b}. \<not> already_deshredded t ! j"
    using assms(3) wf_trackerD [OF t] by (auto simp: is_segment_def)
  let ?hs = "slice (data_shreds t) a (Suc b)"
  have hs: "set ?hs = {data_shreds t ! j |j. a \<le> j \<and> j \<le> b}"
    using set_slice_nth [of b "data_shreds t" a] seg(2) wf_trackerD(2) [OF t] by simp
  then have "\<forall>x. Some x \<in> set ?hs \<longrightarrow> shred_ok x"
    using is_segment_held [OF t assms(3)] by fastforce
  from mark_fold_ok [OF t this] obtain t' where m: "fold_opt mark_shred ?hs t = Some t'" "marked t ?hs t'"
    by blast
  have fin: "range_done t' a b"
  proof -
    have "already_deshredded t' ! j \<and> (\<exists>x. data_shreds t' ! j = Some x \<and> already_recovered_fec_sets t' ! unat (fec_set_index x))"
      if j: "j \<in> {a..b}" for j
    proof -
      obtain x where x: "data_shreds t ! j = Some x" "unat (shred_index x) = j" "shred_ok x"
        using is_segment_held [OF t assms(3) j] by blast
      have "Some x \<in> set ?hs"
        using x(1) j hs by force
      then show ?thesis
        using m(2) x j seg(2) unfolding marked_def shred_ok_def by auto
    qed
    then show ?thesis
      using seg by (simp add: range_done_def)
  qed
  let ?s1 = "s\<lparr>ds_entries := ds_entries s @ [(slot, entries, payload)], ds_published := ds_published s @ [(slot, a, b)]\<rparr>"
  let ?s2 = "set_slot slot (fecs, t') s"
  let ?s' = "set_slot slot (fecs, t') ?s1"
  have s2: "ds_ok L ?s2"
    using set_slot_ok [OF s(1) assms(2) _ e(2) marked_le [OF m(2)]] m(2) by (simp add: marked_def)
  have disjoint: "disjoint_ranges r (slot, a, b)" if "r \<in> set (ds_published s)" for r
  proof -
    obtain sl c d where r: "r = (sl, c, d)" by (cases r)
    have "d < a \<or> b < c" if "sl = slot"
    proof (rule ccontr)
      assume "\<not> (d < a \<or> b < c)"
      moreover have "range_done t c d"
        using s(1) \<open>r \<in> _\<close> r that assms(2) by (fastforce simp: ds_ok_def)
      ultimately have "max a c \<in> {a..b}" "already_deshredded t ! max a c"
        using seg(1) by (auto simp: range_done_def)
      then show False
        using seg(3) by blast
    qed
    then show ?thesis
      by (simp add: r disjoint_ranges_def)
  qed
  have "?s' = ?s2\<lparr>ds_entries := ds_entries s @ [(slot, entries, payload)], ds_published := ds_published s @ [(slot, a, b)]\<rparr>"
    by (simp add: set_slot_def)
  then have "ds_ok L ?s'"
    using ds_ok_publish [of L "?s2\<lparr>ds_entries := ds_entries s @ [(slot, entries, payload)]\<rparr>" slot t' a b] s2 fin disjoint
    by simp
  then have "batch_ok L ks ?s'"
    using s(2,3) assms(2) by (auto simp: batch_ok_def slots_below_def keys_ok_def)
  moreover have "handed_over slot a b entries payload s ?s'"
    using fin by (auto simp: handed_over_def)
  moreover have "publish slot a b entries payload s = Some ?s'"
  proof -
    have "slot_entry slot s = ((fecs, t), s)"
      by (rule e(1))
    then show ?thesis
      using m(1) by (simp add: publish_def)
  qed
  ultimately show ?thesis
    by blast
qed

lemma batch_ok_simps [simp]:
  "batch_ok L ks (bump_metrics f s) = batch_ok L ks s" "batch_ok L ks (s\<lparr>ds_unresolved := u\<rparr>) = batch_ok L ks s"
  "batch_ok L ks (s\<lparr>ds_iterate := x\<rparr>) = batch_ok L ks s"
  by (simp_all add: batch_ok_def keys_ok_def)

lemma bump_metrics_simps [simp]:
  "ds_entries (bump_metrics f s) = ds_entries s" "ds_published (bump_metrics f s) = ds_published s" "ds_highest_slot (bump_metrics f s) = ds_highest_slot s"
  "ds_all_shreds (bump_metrics f s) = ds_all_shreds s" "ds_unresolved (bump_metrics f s) = ds_unresolved s" "ds_early (bump_metrics f s) = ds_early s"
  "ds_pool (bump_metrics f s) = ds_pool s" "ds_iterate (bump_metrics f s) = ds_iterate s"
  by (simp_all add: bump_metrics_def)

lemma handed_over_simps [simp]:
  "handed_over slot a b es p (bump_metrics f s) s' = handed_over slot a b es p s s'"
  "handed_over slot a b es p (s\<lparr>ds_unresolved := u\<rparr>) s' = handed_over slot a b es p s s'"
  by (simp_all add: handed_over_def)

text \<open>A segment is handed over with its payload, or nothing but counters change.\<close>

definition hand_over_result :: "u64 \<Rightarrow> nat \<Rightarrow> nat \<Rightarrow> bytes \<Rightarrow> deshred_state \<Rightarrow> deshred_state \<Rightarrow> bool" where
  "hand_over_result slot a b payload s s' \<longleftrightarrow>
     (\<exists>entries. handed_over slot a b entries payload s s')
     \<or> ds_entries s' = ds_entries s \<and> ds_published s' = ds_published s \<and> ds_all_shreds s' = ds_all_shreds s"

lemma decode_segment_ok:
  assumes "batch_ok L ks s" "trackers s slot = Some t" "is_segment t i a b u"
  shows "\<exists>s'. decode_segment L slot a b u payload s = Some s' \<and> batch_ok L ks s' \<and> hand_over_result slot a b payload s s'"
proof (cases "decode_entries L payload")
  case None
  then show ?thesis
    using assms(1) by (simp add: decode_segment_def hand_over_result_def)
next
  case (Some entries)
  let ?f = "\<lambda>m. m\<lparr>sm_entry_count := sm_entry_count m + of_nat (length entries),
                         sm_txn_count := sm_txn_count m + of_nat (sum_list (map (length \<circ> en_transactions) entries))\<rparr>"
  have "\<exists>s'. publish slot a b entries payload (bump_metrics ?f s) = Some s' \<and> batch_ok L ks s'
      \<and> handed_over slot a b entries payload (bump_metrics ?f s) s'"
    using assms by (intro publish_ok) simp_all
  then show ?thesis
    using Some unfolding handed_over_simps by (auto simp: decode_segment_def hand_over_result_def)
qed

lemma hand_over_ok:
  assumes "batch_ok L ks s" "trackers s slot = Some t" "is_segment t i a b u"
  shows "\<exists>s'. hand_over L slot a b u payload s = Some s' \<and> batch_ok L ks s' \<and> hand_over_result slot a b payload s s'"
proof -
  have pub: "\<exists>s'. publish slot a b es payload s1 = Some s' \<and> batch_ok L ks s' \<and> hand_over_result slot a b payload s s'"
    if "batch_ok L ks s1" "trackers s1 = trackers s" "\<And>s'. handed_over slot a b es payload s1 s' = handed_over slot a b es payload s s'"
    for es s1
    using publish_ok [OF that(1) _ assms(3), where slot = slot and entries = es and payload = payload] that(2,3) assms(2) by (auto simp: hand_over_result_def)
  have dec: "\<exists>s'. decode_segment L slot a b u payload (s\<lparr>ds_unresolved := v\<rparr>) = Some s' \<and> batch_ok L ks s' \<and> hand_over_result slot a b payload s s'" for v
    using decode_segment_ok [of L ks "s\<lparr>ds_unresolved := v\<rparr>" slot t i a b u payload] assms
    by (simp add: hand_over_result_def)
  show ?thesis
  proof (cases "env_pump_only L")
    case False
    then show ?thesis
      using decode_segment_ok [OF assms] by (simp add: hand_over_def Let_def)
  next
    case True
    let ?hits = "create_offsets L (env_confirm L) payload"
    obtain r v where c: "creates_in_payload L (env_confirm L) payload ?hits (ds_unresolved s) = (r, v)"
      by (cases "creates_in_payload L (env_confirm L) payload ?hits (ds_unresolved s)")
    show ?thesis
    proof (cases "\<not> u \<and> ?hits = []")
      case True
      then show ?thesis
        using \<open>env_pump_only L\<close> pub [of "bump_metrics (\<lambda>m. m\<lparr>sm_deserialize_skipped_count := sm_deserialize_skipped_count m + 1\<rparr>) s" "[]"] assms(1)
        by (simp add: hand_over_def Let_def)
    next
      case False
      show ?thesis
      proof (cases r)
        case None
        then show ?thesis
          using True False c dec [of v] by (auto simp: hand_over_def Let_def)
      next
        case (Some txs)
        then show ?thesis
          using True False c assms(1) pub [of "s\<lparr>ds_unresolved := v\<rparr>" "[]"]
            pub [of "bump_metrics (\<lambda>m. m\<lparr>sm_txn_count := sm_txn_count m + of_nat (length txs)\<rparr>) (s\<lparr>ds_unresolved := v\<rparr>)" "[create_entry txs]"]
          by (cases "txs = []") (auto simp: hand_over_def Let_def)
      qed
    qed
  qed
qed

lemma those_slice:
  assumes "wf_tracker t" "is_segment t i a b u"
  shows "\<exists>xs. those (slice (data_shreds t) a (Suc b)) = Some xs \<and> map Some xs = slice (data_shreds t) a (Suc b)"
proof -
  have b: "b < length (data_shreds t)"
    using assms wf_trackerD [OF assms(1)] by (simp add: is_segment_def)
  have "\<forall>h \<in> set (slice (data_shreds t) a (Suc b)). h \<noteq> None"
    using is_segment_held [OF assms] set_slice_nth [OF b, of a] by fastforce
  moreover have "(\<forall>h \<in> set hs. h \<noteq> None) \<Longrightarrow> \<exists>xs. those hs = Some xs \<and> map Some xs = hs" for hs :: "Shred option list"
    by (induction hs) auto
  ultimately show ?thesis
    by blast
qed

lemma deshred_fec_set_ok:
  assumes "batch_ok L ks s" "(slot, fec) \<in> set ks"
  shows "\<exists>s'. deshred_fec_set L (slot, fec) s = Some s' \<and> batch_ok L ks s'"
proof -
  obtain t where t: "trackers s slot = Some t"
    using assms by (auto simp: batch_ok_def keys_ok_def)
  obtain fecs where e: "slot_entry slot s = ((fecs, t), s)"
    using slot_entry_known [OF _ t] assms(1) by (auto simp: batch_ok_def)
  have wf: "wf_tracker t"
    using ds_ok_tracker [OF _ t] assms(1) by (auto simp: batch_ok_def)
  show ?thesis
  proof (cases "get_indexes t (unat fec)")
    case None
    then show ?thesis
      using e assms(1) by (simp add: deshred_fec_set_def)
  next
    case (Some r)
    then obtain a b u where g: "get_indexes t (unat fec) = Some (a, b, u)"
      by (cases r) auto
    then have seg: "is_segment t (unat fec) a b u"
      by (simp add: get_indexes_segment)
    obtain xs where xs: "those (slice (data_shreds t) a (Suc b)) = Some xs"
      using those_slice [OF wf seg] by blast
    show ?thesis
    proof (cases "deshred_data L (map shred_payload xs)")
      case None
      then show ?thesis
        using e g xs assms(1) by (simp add: deshred_fec_set_def del: bind_Some_iff)
    next
      case (Some payload)
      then show ?thesis
        using e g xs hand_over_ok [of L ks "bump_metrics (count_unknown_start u) s" slot t "unat fec" a b u payload] assms(1) t seg
        by (auto simp: deshred_fec_set_def simp del: bind_Some_iff)
    qed
  qed
qed

section \<open>Eviction\<close>

lemma missed_ok:
  assumes "wf_tracker t" "fecs_ok fecs"
  shows "\<exists>m. missed_fec_sets L (fecs, t) = Some m"
proof -
  have "\<exists>m. fold_opt (\<lambda>(fec, shreds) acc. do {
        recovered \<leftarrow> get_at (already_recovered_fec_sets t) (unat fec);
        Some (if recovered then acc
              else acc @ [(fec, num_expected_data_shreds (get_data_shred_info L shreds), length shreds)])
      }) fecs [] = Some m \<and> True"
  proof (rule fold_opt_inv)
    fix x :: "u32 \<times> Shred list" and acc :: "(u32 \<times> u16 \<times> nat) list"
    assume "x \<in> set fecs"
    then have "unat (fst x) < length (already_recovered_fec_sets t)"
      using assms wf_trackerD(3) [OF assms(1)] by (auto simp: fecs_ok_def)
    then show "\<exists>s'. (case x of (fec, shreds) \<Rightarrow> \<lambda>acc. do {
        recovered \<leftarrow> get_at (already_recovered_fec_sets t) (unat fec);
        Some (if recovered then acc
              else acc @ [(fec, num_expected_data_shreds (get_data_shred_info L shreds), length shreds)])
      }) acc = Some s' \<and> True"
      by (cases x) (simp add: get_at_def del: get_at_Some_iff)
  qed simp
  then show ?thesis
    by (simp add: missed_fec_sets_def)
qed

lemma pool_give_ok:
  assumes "wf_tracker t" "set pool \<subseteq> {tracker_default}" "length pool \<le> MAX_POOLED_TRACKERS"
  shows "set (pool_give t pool) \<subseteq> {tracker_default} \<and> length (pool_give t pool) \<le> MAX_POOLED_TRACKERS"
  using assms by (auto simp: pool_give_def tracker_reset_default)

lemma evict_slot_ok:
  assumes "ds_ok L s" "too_old slot s" "\<forall>start. segments (ds_early s) (slot, start) = None"
  shows "\<exists>s'. evict_slot L slot s = Some s' \<and> ds_ok L s' \<and> trackers s' = (trackers s)(slot := None)
    \<and> ds_highest_slot s' = ds_highest_slot s \<and> ds_early s' = ds_early s"
proof (cases "map_of (ds_all_shreds s) slot")
  case None
  then show ?thesis
    using assms(1) by (auto simp: evict_slot_def trackers_def fun_eq_iff)
next
  case (Some e)
  obtain fecs t where e: "e = (fecs, t)" by (cases e)
  have t: "wf_tracker t" "fecs_ok fecs"
    using ds_ok_slot [OF assms(1)] Some e by auto
  obtain m where m: "missed_fec_sets L (fecs, t) = Some m"
    using missed_ok [OF t] by blast
  define rep where "rep = (if m = [] then ds_report s else ds_report s @ [(slot, sort m)])"
  let ?s' = "s\<lparr>ds_all_shreds := AList.delete slot (ds_all_shreds s), ds_pool := pool_give t (ds_pool s), ds_report := rep\<rparr>"
  have tr: "trackers (s\<lparr>ds_all_shreds := AList.delete slot (ds_all_shreds s)\<rparr>) = (trackers s)(slot := None)"
    by (auto simp: trackers_def delete_conv' fun_eq_iff)
  have segs: "segs_ok L (env_confirm L) ((trackers s)(slot := None)) (segments (ds_early s))"
    using assms(1,3) unfolding ds_ok_def segs_ok_def by (metis fun_upd_apply option.distinct(1))
  have pub: "\<forall>sl a b. (sl, a, b) \<in> set (ds_published s) \<longrightarrow>
      (case ((trackers s)(slot := None)) sl of Some t \<Rightarrow> range_done t a b | None \<Rightarrow> too_old sl ?s')"
  proof (intro allI impI)
    fix sl a b
    assume "(sl, a, b) \<in> set (ds_published s)"
    then have "case trackers s sl of Some t \<Rightarrow> range_done t a b | None \<Rightarrow> too_old sl s"
      using assms(1) by (simp add: ds_ok_def)
    moreover have "too_old sl ?s' = too_old sl s"
      by (simp add: too_old_def)
    ultimately show "case ((trackers s)(slot := None)) sl of Some t \<Rightarrow> range_done t a b | None \<Rightarrow> too_old sl ?s'"
      using assms(2) by (cases "sl = slot") (simp_all split: option.splits)
  qed
  have "distinct (map fst (AList.delete slot (ds_all_shreds s)))"
    using assms(1) by (simp add: ds_ok_def distinct_delete)
  moreover have "\<forall>sl f t. map_of (AList.delete slot (ds_all_shreds s)) sl = Some (f, t) \<longrightarrow> wf_tracker t \<and> fecs_ok f"
    using assms(1) by (simp add: ds_ok_def delete_conv')
  moreover have "set (pool_give t (ds_pool s)) \<subseteq> {tracker_default} \<and> length (pool_give t (ds_pool s)) \<le> MAX_POOLED_TRACKERS"
    using pool_give_ok [OF t(1)] assms(1) by (simp add: ds_ok_def)
  ultimately have "ds_ok L ?s'"
    using assms(1) segs pub unfolding ds_ok_def trackers_simps tr by simp
  moreover have "evict_slot L slot s = Some ?s'"
    using Some e m by (simp add: evict_slot_def rep_def)
  ultimately show ?thesis
    using tr by simp
qed

lemma evict_fold_ok:
  assumes "ds_ok L s" "\<forall>slot \<in> set slots. too_old slot s" "\<forall>slot \<in> set slots. \<forall>start. segments (ds_early s) (slot, start) = None"
  shows "\<exists>s'. fold_opt (evict_slot L) slots s = Some s' \<and> ds_ok L s' \<and> trackers s' = trackers s |` (- set slots)
    \<and> ds_highest_slot s' = ds_highest_slot s \<and> ds_early s' = ds_early s"
  using assms
proof (induction slots arbitrary: s)
  case (Cons slot slots)
  obtain s1 where 1: "evict_slot L slot s = Some s1" "ds_ok L s1" "trackers s1 = (trackers s)(slot := None)"
    "ds_highest_slot s1 = ds_highest_slot s" "ds_early s1 = ds_early s"
    using evict_slot_ok [OF Cons.prems(1), of slot] Cons.prems(2,3) by auto
  have "too_old sl s1 = too_old sl s" for sl
    by (simp add: too_old_def 1)
  then obtain s2 where 2: "fold_opt (evict_slot L) slots s1 = Some s2" "ds_ok L s2" "trackers s2 = trackers s1 |` (- set slots)"
    "ds_highest_slot s2 = ds_highest_slot s1" "ds_early s2 = ds_early s1"
    using Cons.IH [OF 1(2)] Cons.prems(2,3) 1(5) by auto
  have "trackers s2 = trackers s |` (- set (slot # slots))"
    by (auto simp: 2(3) 1(3) restrict_map_def fun_eq_iff)
  then show ?case
    using 1 2 by (simp del: bind_Some_iff)
qed (simp add: restrict_map_def)

text \<open>Eviction does not look at the early segments, so dropping the stale ones first is the same.\<close>

lemma evict_slot_early:
  "evict_slot L slot (s\<lparr>ds_early := early\<rparr>) = map_option (\<lambda>s. s\<lparr>ds_early := early\<rparr>) (evict_slot L slot s)"
  by (cases "map_of (ds_all_shreds s) slot"; cases "missed_fec_sets L (the (map_of (ds_all_shreds s) slot))")
    (simp_all add: evict_slot_def)

lemma evict_slot_keeps_early: "evict_slot L slot s = Some s' \<Longrightarrow> ds_early s' = ds_early s"
  by (auto simp: evict_slot_def split: option.splits)

lemma evict_fold_early:
  "fold_opt (evict_slot L) slots (s\<lparr>ds_early := early\<rparr>) = map_option (\<lambda>s. s\<lparr>ds_early := early\<rparr>) (fold_opt (evict_slot L) slots s)"
proof (induction slots arbitrary: s)
  case (Cons slot slots)
  then show ?case
    by (cases "evict_slot L slot s") (simp_all add: evict_slot_early del: bind_Some_iff)
qed simp

lemma evict_fold_keeps_early: "fold_opt (evict_slot L) slots s = Some s' \<Longrightarrow> ds_early s' = ds_early s"
  by (induction slots arbitrary: s) (auto dest: evict_slot_keeps_early)

lemma trackers_dom: "trackers s slot \<noteq> None \<longleftrightarrow> slot \<in> fst ` set (ds_all_shreds s)"
  by (simp add: trackers_def weak_map_of_SomeI map_of_eq_None_iff)

text \<open>How many slots are kept: before an eviction as many as allowed, after it the window of fifty-one.\<close>

lemma window_bound:
  assumes "distinct slots" "\<forall>slot \<in> set slots. sat_sub h SLOT_LOOKBACK \<le> slot \<and> slot \<le> (h :: u64)"
  shows "length slots \<le> 51"
proof -
  have "unat ` set slots \<subseteq> {unat h - 50..unat h}"
    using assms(2) by (auto simp: word_le_nat_alt unat_sat_sub SLOT_LOOKBACK_def)
  then have "card (unat ` set slots) \<le> card {unat h - 50..unat h}"
    by (rule card_mono [rotated]) simp
  also have "\<dots> \<le> 51"
    by simp
  also have "card (unat ` set slots) = card (set slots)"
    by (rule card_image) (metis inj_onI word_unat_eq_iff)
  also have "card (set slots) = length slots"
    using assms(1) by (rule distinct_card)
  finally show ?thesis .
qed

definition settled :: "run_env \<Rightarrow> deshred_state \<Rightarrow> bool" where
  "settled L s \<longleftrightarrow> ds_ok L s \<and> slots_below s \<and> length (ds_all_shreds s) \<le> max (max_processing_age L) 51"

lemma settled_report: "settled L (s\<lparr>ds_report := r\<rparr>) = settled L s"
proof -
  have old: "too_old slot (s\<lparr>ds_report := r\<rparr>) = too_old slot s" for slot
    by (simp add: too_old_def)
  show ?thesis
    unfolding settled_def ds_ok_def slots_below_def trackers_def old by simp
qed

lemma evict_ok:
  assumes "ds_ok L s" "slots_below s"
  shows "\<exists>s'. evict L s = Some s' \<and> settled L s'"
proof (cases "length (ds_all_shreds s) > max_processing_age L")
  case False
  then show ?thesis
    using assms by (simp add: evict_def settled_def)
next
  case True
  let ?th = "sat_sub (ds_highest_slot s) SLOT_LOOKBACK"
  let ?slots = "filter (\<lambda>slot. slot < ?th) (map fst (ds_all_shreds s))"
  let ?early = "(ds_early s)\<lparr>segments := (\<lambda>k. if fst k \<ge> ?th then segments (ds_early s) k else None)\<rparr>"
  let ?s0 = "s\<lparr>ds_report := [], ds_early := ?early\<rparr>"
  have s0: "ds_ok L ?s0"
  proof -
    have "segs_ok L (env_confirm L) (trackers s) (segments ?early)"
      using assms(1) by (simp add: ds_ok_def segs_ok_def)
    moreover have old: "too_old sl ?s0 = too_old sl s" for sl
      by (simp add: too_old_def)
    ultimately show ?thesis
      using assms(1) unfolding ds_ok_def trackers_simps old by simp
  qed
  have "\<exists>s'. fold_opt (evict_slot L) ?slots ?s0 = Some s' \<and> ds_ok L s' \<and> trackers s' = trackers ?s0 |` (- set ?slots)
      \<and> ds_highest_slot s' = ds_highest_slot ?s0 \<and> ds_early s' = ds_early ?s0"
  proof (rule evict_fold_ok)
    show "ds_ok L ?s0"
      by (rule s0)
    show "\<forall>slot \<in> set ?slots. too_old slot ?s0"
      by (simp add: too_old_def)
    show "\<forall>slot \<in> set ?slots. \<forall>start. segments (ds_early ?s0) (slot, start) = None"
      by (auto simp: not_le)
  qed
  then obtain s' where s': "fold_opt (evict_slot L) ?slots ?s0 = Some s'" "ds_ok L s'"
    "trackers s' = trackers s |` (- set ?slots)" "ds_highest_slot s' = ds_highest_slot s" "ds_early s' = ?early"
    by auto
  have "?s0 = (s\<lparr>ds_report := []\<rparr>)\<lparr>ds_early := ?early\<rparr>"
    by simp
  then obtain s1 where s1: "fold_opt (evict_slot L) ?slots (s\<lparr>ds_report := []\<rparr>) = Some s1" "s' = s1\<lparr>ds_early := ?early\<rparr>"
    using s'(1) evict_fold_early [where L = L and slots = ?slots and s = "s\<lparr>ds_report := []\<rparr>" and early = ?early] by auto
  have "ds_early s1 = ds_early s"
    using evict_fold_keeps_early [OF s1(1)] by simp
  then have ev: "evict L s = Some (s'\<lparr>ds_report := sort_key fst (ds_report s1)\<rparr>)"
    using True s1 by (simp add: evict_def Let_def del: bind_Some_iff cong: if_cong)
  have below: "slots_below s'"
    using assms(2) s'(3,4) by (simp add: slots_below_def restrict_map_def)
  moreover have "length (ds_all_shreds s') \<le> 51"
  proof -
    have "distinct (map fst (ds_all_shreds s'))"
      using s'(2) by (simp add: ds_ok_def)
    moreover have "?th \<le> slot \<and> slot \<le> ds_highest_slot s" if "slot \<in> set (map fst (ds_all_shreds s'))" for slot
    proof -
      have "trackers s' slot \<noteq> None"
        using that unfolding trackers_dom by simp
      then have "trackers s slot \<noteq> None" "slot \<notin> set ?slots"
        using s'(3) by (auto simp: restrict_map_def split: if_splits)
      moreover from this(1) have "slot \<in> fst ` set (ds_all_shreds s)"
        unfolding trackers_dom .
      ultimately show ?thesis
        using assms(2) by (auto simp: slots_below_def)
    qed
    ultimately show ?thesis
      using window_bound [of "map fst (ds_all_shreds s')" "ds_highest_slot s"] by simp
  qed
  ultimately have "settled L s'"
    using s'(2) below by (simp add: settled_def)
  then show ?thesis
    using ev by (auto simp: settled_report)
qed

section \<open>A batch\<close>

lemma remdups_adj_set_sort: "set (remdups_adj (sort xs)) = set xs"
  by simp

lemma slot_entry_iterate: "slot_entry slot s = (e, s1) \<Longrightarrow> ds_iterate s1 = ds_iterate s"
  by (auto simp: slot_entry_def split: option.splits prod.splits)

lemma recover_fec_set_iterate:
  "recover_fec_set L k (s, n) = Some (s', n') \<Longrightarrow> ds_iterate s' = ds_iterate s"
  by (cases k) (auto simp: recover_fec_set_def Let_def dest: slot_entry_iterate split: prod.splits option.splits if_splits)

lemma reconstruct_ok:
  assumes "library_ok L" "ds_ok L s" "slots_below s"
  shows "\<exists>n s'. reconstruct_shreds L packets s = Some (n, s') \<and> settled L s'"
proof -
  let ?s0 = "s\<lparr>ds_entries := [], ds_iterate := []\<rparr>"
  have "ingested_ok L ?s0"
    using assms(2,3) by (simp add: ingested_ok_def keys_ok_def)
  then have "\<exists>s1. fold_opt (ingest L) packets ?s0 = Some s1 \<and> ingested_ok L s1"
    using ingest_ok [OF assms(1)] by (intro fold_opt_inv) blast+
  then obtain s1 where 1: "fold_opt (ingest L) packets ?s0 = Some s1" "ingested_ok L s1"
    by blast
  let ?ks = "remdups_adj (sort (ds_iterate s1))"
  let ?s2 = "detect_pass L (s1\<lparr>ds_iterate := ?ks\<rparr>)"
  have b1: "batch_ok L ?ks s1"
    using 1(2) by (simp add: batch_ok_def ingested_ok_def keys_ok_def)
  have 2: "batch_ok L ?ks ?s2" "ds_iterate ?s2 = ?ks"
    using b1 by (simp_all add: detect_pass_ok detect_pass_frame)
  have "\<exists>r. fold_opt (recover_fec_set L) ?ks (?s2, 0) = Some r \<and> (batch_ok L ?ks (fst r) \<and> ds_iterate (fst r) = ?ks)"
  proof (rule fold_opt_inv)
    fix k and r :: "deshred_state \<times> nat"
    assume "k \<in> set ?ks" "batch_ok L ?ks (fst r) \<and> ds_iterate (fst r) = ?ks"
    then have *: "k \<in> set ?ks" "batch_ok L ?ks (fst r) \<and> ds_iterate (fst r) = ?ks" by simp_all
    show "\<exists>r'. recover_fec_set L k r = Some r' \<and> (batch_ok L ?ks (fst r') \<and> ds_iterate (fst r') = ?ks)"
    proof -
      obtain s n slot fec where r: "r = (s, n)" "k = (slot, fec)"
        by (cases r, cases k)
      with * obtain s' n' where "recover_fec_set L k r = Some (s', n')" "batch_ok L ?ks s'"
        using recover_fec_set_ok [OF assms(1), of ?ks s slot fec n] by auto
      then show ?thesis
        using recover_fec_set_iterate [of L k s n s' n'] r * by simp
    qed
  qed (use 2 in simp)
  then obtain s3 n where 3: "fold_opt (recover_fec_set L) ?ks (?s2, 0) = Some (s3, n)" "batch_ok L ?ks s3" "ds_iterate s3 = ?ks"
    by auto
  let ?s4 = "detect_pass L s3"
  have 4: "batch_ok L ?ks ?s4"
    using 3(2) by (rule detect_pass_ok)
  have iter: "ds_iterate ?s4 = ds_iterate s3"
    by (simp add: detect_pass_frame)
  have "\<exists>s5. fold_opt (deshred_fec_set L) ?ks ?s4 = Some s5 \<and> batch_ok L ?ks s5"
    using deshred_fec_set_ok [of L ?ks] 4 by (intro fold_opt_inv) auto
  then obtain s5 where 5: "fold_opt (deshred_fec_set L) ?ks ?s4 = Some s5" "batch_ok L ?ks s5"
    by blast
  then obtain s6 where 6: "evict L s5 = Some s6" "settled L s6"
    using evict_ok [of L s5] by (auto simp: batch_ok_def)
  let ?s7 = "if n > 0 then bump_metrics (\<lambda>m. m\<lparr>sm_recovered_count := sm_recovered_count m + of_nat n\<rparr>) s6 else s6"
  have "reconstruct_shreds L packets s = Some (n, ?s7)"
    using 1(1) 2(2) 3(1) 5(1) 6(1) iter 3(3) by (simp add: reconstruct_shreds_def Let_def del: bind_Some_iff)
  moreover have "settled L ?s7"
    using 6(2) by (simp add: settled_def)
  ultimately show ?thesis
    by blast
qed

section \<open>Runs\<close>

text \<open>What the thread does with batch after batch.\<close>

fun run_batches :: "run_env \<Rightarrow> bytes list list \<Rightarrow> deshred_state \<Rightarrow> deshred_state option" where
  "run_batches L [] s = Some s"
| "run_batches L (b # bs) s = do { (n, s) \<leftarrow> reconstruct_shreds L b s; run_batches L bs s }"

lemma settled_init: "settled L deshred_init"
  using ds_ok_init [of L] by (simp add: settled_def slots_below_def trackers_def) (simp add: deshred_init_def)

lemma run_settled:
  assumes "library_ok L"
  shows "settled L s \<Longrightarrow> \<exists>s'. run_batches L bs s = Some s' \<and> settled L s'"
proof (induction bs arbitrary: s)
  case (Cons b bs)
  then obtain n s1 where "reconstruct_shreds L b s = Some (n, s1)" "settled L s1"
    using reconstruct_ok [OF assms, of s b] by (auto simp: settled_def)
  then show ?case
    using Cons.IH [of s1] by (simp del: bind_Some_iff)
qed simp

lemma run_ok: "library_ok L \<Longrightarrow> run_batches L bs deshred_init = Some s \<Longrightarrow> ds_ok L s"
  using run_settled [of L deshred_init bs] settled_init by (auto simp: settled_def)

section \<open>Early creates\<close>

lemma parse_create_unresolved: "fst (parse_create tx u) = fst (parse_create tx v)"
  by (auto simp: parse_create_def create_loop_eq Let_def)

definition wanted :: "bool \<Rightarrow> VersionedTransaction \<Rightarrow> bool" where
  "wanted confirm tx \<longleftrightarrow> fst (parse_create tx 0) \<noteq> None \<or> confirm \<and> parse_buy tx \<noteq> None"

lemma keep_creates_filter: "fst (keep_creates confirm txs u) = filter (wanted confirm) txs"
proof (induction txs arbitrary: u)
  case (Cons tx txs)
  obtain c v where c: "parse_create tx u = (c, v)" by (cases "parse_create tx u")
  obtain kept w where k: "keep_creates confirm txs v = (kept, w)" by (cases "keep_creates confirm txs v")
  have "c = fst (parse_create tx 0)"
    using c parse_create_unresolved [of tx u 0] by simp
  moreover have "kept = filter (wanted confirm) txs"
    using Cons.IH [of v] k by simp
  ultimately show ?case
    using c k by (simp add: wanted_def [of confirm tx])
qed simp

lemma creates_in_payload_eq:
  "fst (creates_in_payload L confirm payload hits u) =
     (if hits = [] then Some [] else map_option (filter (wanted confirm)) (transactions_at (decode_tx L) payload hits))"
  using keep_creates_filter [of confirm _ u]
  by (cases "transactions_at (decode_tx L) payload hits") (simp_all add: creates_in_payload_def split: prod.split, metis fst_conv)

lemma those_set: "those xs = Some ys \<Longrightarrow> Some y \<in> set xs \<longleftrightarrow> y \<in> set ys"
  by (induction xs arbitrary: ys) (auto split: option.splits)

lemma decode_hits_mono:
  assumes "decode_hits d hits ss = Some txs" "decode_hits d hits' ss = Some txs'" "set hits \<subseteq> set hits'"
  shows "set txs \<subseteq> set txs'"
proof
  fix tx
  assume "tx \<in> set txs"
  then have "Some tx \<in> set (map (d \<circ> snd) (filter (hit_in hits) ss))"
    using assms(1) unfolding decode_hits_def by (simp only: those_set)
  moreover have "hit_in hits x \<Longrightarrow> hit_in hits' x" for x
    using assms(3) by (auto simp: hit_in_def)
  ultimately have "Some tx \<in> set (map (d \<circ> snd) (filter (hit_in hits') ss))"
    by auto
  then show "tx \<in> set txs'"
    using assms(2) unfolding decode_hits_def by (simp only: those_set)
qed

lemma sorted_le_last: "sorted xs \<Longrightarrow> x \<in> set xs \<Longrightarrow> x \<le> last (xs :: nat list)"
  by (induction xs) (auto split: if_splits)

section \<open>A concrete environment\<close>

text \<open>Packets of a toy format: index, whether the shred completes a segment, FEC set, data.\<close>

definition toy_shred :: "bytes \<Rightarrow> Shred option" where
  "toy_shred p = (case p of
     i # c # f # d \<Rightarrow> Some (ShredData
       \<lparr>ch_variant = OtherVariant 0, ch_slot = 0, ch_index = ucast i, ch_fec_set_index = ucast f, ch_rest = []\<rparr>
       \<lparr>dh_data_complete = (c = 1), dh_last_in_slot = False, dh_rest = []\<rparr> d)
   | _ \<Rightarrow> None)"

definition toy_env :: "bool \<Rightarrow> run_env" where
  "toy_env pump_only =
     \<lparr>get_slot = (\<lambda>_. None), get_index = (\<lambda>_. None), is_data_packet = (\<lambda>_. False), parse_shred = toy_shred,
      recover_shreds = (\<lambda>_. None), deshred_data = (\<lambda>ps. Some (concat ps)), shred_data = Some,
      decode_entries = (\<lambda>_. if pump_only then None else Some []), decode_tx = (\<lambda>_. None),
      find_iter = matches_from 0, iter_set = (\<lambda>x. x), code_payload_size = 0, proof_entry_size = 0, signature_size = 0,
      env_confirm = False, env_pump_only = pump_only, max_processing_age = 150, shred_type_byte = (\<lambda>d. if d then 165 else 90)\<rparr>"

lemma toy_library: "library_ok (toy_env pump_only)"
proof -
  have "shred_ok x" if "toy_shred p = Some x" for p x
  proof -
    have "unat (ucast (w :: u8) :: u32) < MAX_DATA_SHREDS_PER_SLOT" for w
    proof -
      have "unat (ucast w :: u32) \<le> unat w"
        by (simp add: unsigned_ucast_eq take_bit_nat_less_eq_self)
      moreover have "unat w < 256"
        using unsigned_less [of w] by simp
      ultimately show ?thesis
        unfolding MAX_DATA_SHREDS_PER_SLOT_def by linarith
    qed
    then show ?thesis
      using that by (auto simp: toy_shred_def shred_ok_def split: list.splits)
  qed
  then show ?thesis
    by (simp add: library_ok_def toy_env_def)
qed

end
