(* ===== verification/Template.thy ===== *)
theory Template
  imports Pumpfun
begin

text \<open>
  \<open>sniper/src/template.rs\<close>: the prebuilt buy transaction, the byte offsets of the fields patched
  per launch, and the table of token accounts derived before the first launch.

  \<open>v0::Message::try_compile\<close> followed by serialization is the parameter \<open>compile\<close>, and
  \<open>Pubkey::create_with_seed\<close> is \<open>create_with_seed\<close>; both belong to the SDK. \<open>None\<close> is a panic
  (\<open>expect\<close>, \<open>assert_eq!\<close>, a range out of bounds).
\<close>

section \<open>Constants\<close>

definition COMPUTE_BUDGET_PROGRAM :: pubkey where
  "COMPUTE_BUDGET_PROGRAM =
     [3, 6, 70, 111, 229, 33, 23, 50, 255, 236, 173, 186, 114, 195, 155, 231, 188, 140, 229,
      187, 197, 247, 18, 107, 44, 67, 155, 58, 64, 0, 0, 0]"

definition FEE_PROGRAM :: pubkey where
  "FEE_PROGRAM =
     [12, 53, 255, 169, 5, 90, 142, 86, 141, 168, 247, 188, 7, 86, 21, 39, 76, 241, 201, 44,
      164, 31, 64, 0, 156, 81, 106, 164, 20, 194, 124, 112]"

definition GLOBAL :: pubkey where
  "GLOBAL =
     [58, 134, 94, 105, 238, 15, 84, 128, 202, 188, 246, 99, 87, 228, 220, 47, 24, 213, 141, 69,
      193, 234, 116, 137, 251, 55, 35, 217, 121, 60, 114, 166]"

definition EVENT_AUTHORITY :: pubkey where
  "EVENT_AUTHORITY =
     [172, 241, 54, 235, 1, 252, 28, 78, 136, 61, 35, 200, 181, 132, 74, 181, 154, 55, 246, 106,
      221, 87, 197, 233, 172, 59, 83, 224, 89, 211, 92, 100]"

definition GLOBAL_VOLUME_ACCUMULATOR :: pubkey where
  "GLOBAL_VOLUME_ACCUMULATOR =
     [250, 9, 17, 165, 72, 99, 65, 45, 99, 31, 78, 7, 135, 3, 41, 108, 3, 95, 13, 19, 51, 160,
      217, 200, 131, 141, 115, 183, 16, 254, 110, 45]"

definition FEE_CONFIG :: pubkey where
  "FEE_CONFIG =
     [111, 154, 180, 164, 241, 149, 141, 192, 169, 201, 76, 63, 183, 44, 7, 153, 88, 67, 237,
      164, 133, 227, 162, 79, 16, 198, 147, 153, 248, 25, 148, 15]"

text \<open>The SDK's ids of the system program and of the blockhash sysvar.\<close>

definition SYSTEM_PROGRAM :: pubkey where
  "SYSTEM_PROGRAM = zero_key"

definition RECENT_BLOCKHASHES :: pubkey where
  "RECENT_BLOCKHASHES =
     [6, 167, 213, 23, 25, 44, 86, 142, 224, 138, 132, 95, 115, 210, 151, 136, 207, 3, 92, 49,
      69, 178, 26, 179, 68, 216, 6, 46, 169, 64, 0, 0]"

definition TOKEN_ACCOUNT_SPACE :: u64 where "TOKEN_ACCOUNT_SPACE = 165"

definition TOKEN_ACCOUNT_RENT :: u64 where "TOKEN_ACCOUNT_RENT = 2039280"

definition SEED_LEN :: nat where "SEED_LEN = 6"

definition MSG_OFFSET :: nat where "MSG_OFFSET = 1 + 64"

definition dummy_key :: "byte \<Rightarrow> pubkey" where
  "dummy_key b = replicate 32 b"

definition D_MINT :: pubkey where "D_MINT = dummy_key 0xA1"
definition D_CURVE :: pubkey where "D_CURVE = dummy_key 0xA2"
definition D_ABC :: pubkey where "D_ABC = dummy_key 0xA3"
definition D_BCV2 :: pubkey where "D_BCV2 = dummy_key 0xA4"
definition D_CREATOR_VAULT :: pubkey where "D_CREATOR_VAULT = dummy_key 0xA5"
definition D_TOKEN_ACCOUNT :: pubkey where "D_TOKEN_ACCOUNT = dummy_key 0xA6"
definition D_TOKEN_PROGRAM :: pubkey where "D_TOKEN_PROGRAM = dummy_key 0xA7"
definition D_TIP_ACCOUNT :: pubkey where "D_TIP_ACCOUNT = dummy_key 0xA8"
definition D_NONCE_VALUE :: bytes where "D_NONCE_VALUE = dummy_key 0xA9"
definition D_FEE_RECIPIENT :: pubkey where "D_FEE_RECIPIENT = dummy_key 0xAA"
definition D_BUYBACK_RECIPIENT :: pubkey where "D_BUYBACK_RECIPIENT = dummy_key 0xAB"
definition D_NONCE_ACCOUNT :: pubkey where "D_NONCE_ACCOUNT = dummy_key 0xAC"
definition D_AMOUNT :: u64 where "D_AMOUNT = 0x1111111111111111"
definition D_MAX_SOL :: u64 where "D_MAX_SOL = 0x2222222222222222"
definition D_TIP_LAMPORTS :: u64 where "D_TIP_LAMPORTS = 0x3333333333333333"
definition D_CU_PRICE :: u64 where "D_CU_PRICE = 0x4444444444444444"
definition D_SEED :: bytes where "D_SEED = [0xB1, 0xB2, 0xB3, 0xB4, 0xB5, 0xB6]"

lemmas dummies = D_MINT_def D_CURVE_def D_ABC_def D_BCV2_def D_CREATOR_VAULT_def D_TOKEN_ACCOUNT_def
  D_TOKEN_PROGRAM_def D_TIP_ACCOUNT_def D_NONCE_VALUE_def D_FEE_RECIPIENT_def D_BUYBACK_RECIPIENT_def
  D_NONCE_ACCOUNT_def D_AMOUNT_def D_MAX_SOL_def D_TIP_LAMPORTS_def D_CU_PRICE_def D_SEED_def dummy_key_def

section \<open>Searching the message\<close>

definition find_all :: "bytes \<Rightarrow> bytes \<Rightarrow> nat list" where
  "find_all haystack needle =
     filter (\<lambda>i. slice haystack i (i + length needle) = needle)
       [0 ..< Suc (length haystack) - length needle]"

fun unique_loop :: "bytes \<Rightarrow> bytes \<Rightarrow> nat option \<Rightarrow> nat list \<Rightarrow> nat option" where
  "unique_loop haystack needle found [] = found"
| "unique_loop haystack needle found (i # is) =
     (if slice haystack i (i + length needle) = needle then
        (if found \<noteq> None then None else unique_loop haystack needle (Some i) is)
      else unique_loop haystack needle found is)"

definition find_unique :: "bytes \<Rightarrow> bytes \<Rightarrow> nat option" where
  "find_unique haystack needle =
     unique_loop haystack needle None [0 ..< Suc (length haystack) - length needle]"

section \<open>The template\<close>

record AccountMeta =
  am_pubkey :: pubkey
  am_is_signer :: bool
  am_is_writable :: bool

record Instruction =
  in_program_id :: pubkey
  in_accounts :: "AccountMeta list"
  in_data :: bytes

definition meta :: "pubkey \<Rightarrow> bool \<Rightarrow> bool \<Rightarrow> AccountMeta" where
  "meta k signer writable = \<lparr>am_pubkey = k, am_is_signer = signer, am_is_writable = writable\<rparr>"

definition ro :: "pubkey \<Rightarrow> AccountMeta" where "ro k = meta k False False"

definition rw :: "pubkey \<Rightarrow> AccountMeta" where "rw k = meta k False True"

record Offsets =
  of_fee_recipient :: nat
  of_buyback_fee_recipient :: nat
  of_mint :: nat
  of_bonding_curve :: nat
  of_associated_bonding_curve :: nat
  of_bonding_curve_v2 :: nat
  of_creator_vault :: nat
  of_token_account :: nat
  of_token_program :: "nat \<times> nat"
  of_seed :: nat
  of_amount :: nat
  of_max_sol_cost :: nat
  of_nonce_account :: nat
  of_nonce_value :: nat
  of_tip_account :: nat
  of_tip_lamports :: nat
  of_cu_price :: nat

record Template =
  tp_tx :: bytes
  tp_offsets :: Offsets

record StaticAccounts =
  sa_fee_recipient :: pubkey
  sa_buyback_fee_recipient :: pubkey
  sa_user :: pubkey
  sa_user_volume_accumulator :: pubkey

definition template_instructions :: "StaticAccounts \<Rightarrow> u32 \<Rightarrow> bool \<Rightarrow> Instruction list" where
  "template_instructions sa cu_limit exact_sol_in =
     (let user = sa_user sa in
      [\<lparr>in_program_id = SYSTEM_PROGRAM,
        in_accounts = [rw D_NONCE_ACCOUNT, ro RECENT_BLOCKHASHES, meta user True False],
        in_data = nat_le 4 4\<rparr>,
       \<lparr>in_program_id = SYSTEM_PROGRAM,
        in_accounts = [meta user True True, rw D_TIP_ACCOUNT],
        in_data = nat_le 4 2 @ u64_to_le D_TIP_LAMPORTS\<rparr>,
       \<lparr>in_program_id = COMPUTE_BUDGET_PROGRAM, in_accounts = [],
        in_data = 0x02 # nat_le 4 (unat cu_limit)\<rparr>,
       \<lparr>in_program_id = COMPUTE_BUDGET_PROGRAM, in_accounts = [],
        in_data = 0x03 # u64_to_le D_CU_PRICE\<rparr>,
       \<lparr>in_program_id = SYSTEM_PROGRAM,
        in_accounts = [meta user True True, rw D_TOKEN_ACCOUNT, meta user True False],
        in_data = nat_le 4 3 @ user @ u64_to_le (of_nat SEED_LEN) @ D_SEED
          @ u64_to_le TOKEN_ACCOUNT_RENT @ u64_to_le TOKEN_ACCOUNT_SPACE @ D_TOKEN_PROGRAM\<rparr>,
       \<lparr>in_program_id = D_TOKEN_PROGRAM,
        in_accounts = [rw D_TOKEN_ACCOUNT, ro D_MINT],
        in_data = 18 # user\<rparr>,
       \<lparr>in_program_id = PUMP_PROGRAM,
        in_accounts = [ro GLOBAL, rw D_FEE_RECIPIENT, ro D_MINT, rw D_CURVE, rw D_ABC,
          rw D_TOKEN_ACCOUNT, meta user True True, ro SYSTEM_PROGRAM, ro D_TOKEN_PROGRAM,
          rw D_CREATOR_VAULT, ro EVENT_AUTHORITY, ro PUMP_PROGRAM, ro GLOBAL_VOLUME_ACCUMULATOR,
          rw (sa_user_volume_accumulator sa), ro FEE_CONFIG, ro FEE_PROGRAM,
          rw D_BCV2, rw D_BUYBACK_RECIPIENT],
        in_data = (if exact_sol_in then DISC_BUY_EXACT_SOL_IN else DISC_BUY)
          @ u64_to_le D_AMOUNT @ u64_to_le D_MAX_SOL @ [0]\<rparr>])"

definition patch_key :: "nat \<Rightarrow> bytes \<Rightarrow> Template \<Rightarrow> Template option" where
  "patch_key offset key t = map_option (\<lambda>tx. t\<lparr>tp_tx := tx\<rparr>) (patch_at (tp_tx t) offset key)"

definition patch_u64 :: "nat \<Rightarrow> u64 \<Rightarrow> Template \<Rightarrow> Template option" where
  "patch_u64 offset v t = map_option (\<lambda>tx. t\<lparr>tp_tx := tx\<rparr>) (patch_at (tp_tx t) offset (u64_to_le v))"

definition patch_token_program :: "bytes \<Rightarrow> Template \<Rightarrow> Template option" where
  "patch_token_program key t = do {
     let (a, b) = of_token_program (tp_offsets t);
     tx \<leftarrow> patch_at (tp_tx t) a key;
     tx \<leftarrow> patch_at tx b key;
     Some (t\<lparr>tp_tx := tx\<rparr>)
   }"

definition patch_seed :: "nat \<Rightarrow> bytes \<Rightarrow> Template \<Rightarrow> Template option" where
  "patch_seed offset seed t = map_option (\<lambda>tx. t\<lparr>tp_tx := tx\<rparr>) (patch_at (tp_tx t) offset seed)"

definition template_message :: "Template \<Rightarrow> bytes" where
  "template_message t = drop MSG_OFFSET (tp_tx t)"

definition find_field :: "bytes \<Rightarrow> bytes \<Rightarrow> nat option" where
  "find_field msg needle = map_option (\<lambda>p. MSG_OFFSET + p) (find_unique msg needle)"

definition find_pair :: "bytes \<Rightarrow> bytes \<Rightarrow> (nat \<times> nat) option" where
  "find_pair msg needle =
     (case find_all msg needle of
        [a, b] \<Rightarrow> Some (MSG_OFFSET + a, MSG_OFFSET + b)
      | _ \<Rightarrow> None)"

definition find_offsets :: "bytes \<Rightarrow> Offsets option" where
  "find_offsets msg = do {
     fee_recipient \<leftarrow> find_field msg D_FEE_RECIPIENT;
     buyback \<leftarrow> find_field msg D_BUYBACK_RECIPIENT;
     mint \<leftarrow> find_field msg D_MINT;
     curve \<leftarrow> find_field msg D_CURVE;
     abc \<leftarrow> find_field msg D_ABC;
     bcv2 \<leftarrow> find_field msg D_BCV2;
     vault \<leftarrow> find_field msg D_CREATOR_VAULT;
     token_account \<leftarrow> find_field msg D_TOKEN_ACCOUNT;
     token_program \<leftarrow> find_pair msg D_TOKEN_PROGRAM;
     seed \<leftarrow> find_field msg D_SEED;
     amount \<leftarrow> find_field msg (u64_to_le D_AMOUNT);
     max_sol \<leftarrow> find_field msg (u64_to_le D_MAX_SOL);
     nonce_account \<leftarrow> find_field msg D_NONCE_ACCOUNT;
     nonce_value \<leftarrow> find_field msg D_NONCE_VALUE;
     tip_account \<leftarrow> find_field msg D_TIP_ACCOUNT;
     tip_lamports \<leftarrow> find_field msg (u64_to_le D_TIP_LAMPORTS);
     cu_price \<leftarrow> find_field msg (u64_to_le D_CU_PRICE);
     Some \<lparr>of_fee_recipient = fee_recipient, of_buyback_fee_recipient = buyback, of_mint = mint,
       of_bonding_curve = curve, of_associated_bonding_curve = abc, of_bonding_curve_v2 = bcv2,
       of_creator_vault = vault, of_token_account = token_account, of_token_program = token_program,
       of_seed = seed, of_amount = amount, of_max_sol_cost = max_sol,
       of_nonce_account = nonce_account, of_nonce_value = nonce_value, of_tip_account = tip_account,
       of_tip_lamports = tip_lamports, of_cu_price = cu_price\<rparr>
   }"

definition build_template ::
  "(pubkey \<Rightarrow> Instruction list \<Rightarrow> bytes \<Rightarrow> bytes option) \<Rightarrow> StaticAccounts \<Rightarrow> u32 \<Rightarrow> bool \<Rightarrow> Template option" where
  "build_template compile sa cu_limit exact_sol_in = do {
     msg \<leftarrow> compile (sa_user sa) (template_instructions sa cu_limit exact_sol_in) D_NONCE_VALUE;
     let tx = [1] @ replicate 64 0 @ msg;
     offsets \<leftarrow> find_offsets msg;
     t \<leftarrow> patch_token_program TOKEN_2022_PROGRAM \<lparr>tp_tx = tx, tp_offsets = offsets\<rparr>;
     t \<leftarrow> patch_key (of_fee_recipient (tp_offsets t)) (sa_fee_recipient sa) t;
     patch_key (of_buyback_fee_recipient (tp_offsets t)) (sa_buyback_fee_recipient sa) t
   }"

section \<open>Token accounts\<close>

fun seed_loop :: "nat \<Rightarrow> u32 \<Rightarrow> bytes \<Rightarrow> bytes" where
  "seed_loop 0 v out = out"
| "seed_loop (Suc i) v out = seed_loop i (v div 10) (out[i := 48 + ucast (v mod 10)])"

definition seed_bytes :: "u32 \<Rightarrow> bytes" where
  "seed_bytes counter = seed_loop SEED_LEN (counter mod 1000000) (replicate SEED_LEN 48)"

record SeedTable =
  st_seeds :: "bytes list"
  st_token_2022 :: "pubkey list"
  st_token_classic :: "pubkey list"

text \<open>\<open>Inl seed\<close> is the error that the seed does not derive an address.\<close>

fun seed_table_loop ::
  "(pubkey \<Rightarrow> bytes \<Rightarrow> pubkey \<Rightarrow> pubkey option) \<Rightarrow> pubkey \<Rightarrow> u32 \<Rightarrow> nat list \<Rightarrow> SeedTable \<Rightarrow> bytes + SeedTable" where
  "seed_table_loop create_with_seed buyer start [] st = Inr st"
| "seed_table_loop create_with_seed buyer start (i # is) st =
     (let seed = seed_bytes ((start + of_nat i) mod 1000000)
      in case create_with_seed buyer seed TOKEN_2022_PROGRAM of
           None \<Rightarrow> Inl seed
         | Some a \<Rightarrow>
             (case create_with_seed buyer seed TOKEN_PROGRAM of
                None \<Rightarrow> Inl seed
              | Some b \<Rightarrow> seed_table_loop create_with_seed buyer start is
                  \<lparr>st_seeds = st_seeds st @ [seed], st_token_2022 = st_token_2022 st @ [a],
                   st_token_classic = st_token_classic st @ [b]\<rparr>))"

definition SeedTable_build ::
  "(pubkey \<Rightarrow> bytes \<Rightarrow> pubkey \<Rightarrow> pubkey option) \<Rightarrow> pubkey \<Rightarrow> u32 \<Rightarrow> nat \<Rightarrow> bytes + SeedTable" where
  "SeedTable_build create_with_seed buyer start len =
     seed_table_loop create_with_seed buyer start [0 ..< len]
       \<lparr>st_seeds = [], st_token_2022 = [], st_token_classic = []\<rparr>"

definition SeedTable_get :: "SeedTable \<Rightarrow> nat \<Rightarrow> pubkey \<Rightarrow> (bytes \<times> pubkey) option" where
  "SeedTable_get st index token_program = do {
     let addresses = (if token_program = TOKEN_2022_PROGRAM then st_token_2022 st else st_token_classic st);
     seed \<leftarrow> get_at (st_seeds st) index;
     a \<leftarrow> get_at addresses index;
     Some (seed, a)
   }"

section \<open>Lemmas on the search\<close>

lemma unique_loop_eq:
  "unique_loop h n found is =
     (case filter (\<lambda>i. slice h i (i + length n) = n) is of
        [] \<Rightarrow> found
      | [p] \<Rightarrow> (if found = None then Some p else None)
      | _ \<Rightarrow> None)"
  by (induction h n found "is" rule: unique_loop.induct) (auto split: list.splits)

lemma find_unique_iff: "find_unique h n = Some p \<longleftrightarrow> find_all h n = [p]"
  by (auto simp: find_unique_def find_all_def unique_loop_eq split: list.splits)

lemma find_all_iff: "p \<in> set (find_all h n) \<longleftrightarrow> at_pos h p n"
  by (auto simp: find_all_def at_pos_def)

lemma at_pos_shift: "at_pos msg q n \<Longrightarrow> at_pos (pre @ msg) (length pre + q) n"
  by (auto simp: at_pos_def slice_def)

lemma find_field_at:
  assumes "find_field msg n = Some p"
  shows "at_pos ([1] @ replicate 64 0 @ msg) p n"
proof -
  obtain q where p: "p = 65 + q" and "find_all msg n = [q]"
    using assms by (auto simp: find_field_def MSG_OFFSET_def find_unique_iff)
  then have "at_pos msg q n"
    using find_all_iff [of q msg n] by simp
  then show ?thesis
    using at_pos_shift [of msg q n "[1] @ replicate 64 0"] p by simp
qed

section \<open>The fields of the template\<close>

text \<open>The sixteen fields with one copy.\<close>

definition single_fields :: "Offsets \<Rightarrow> (nat \<times> bytes) list" where
  "single_fields o' =
    [(of_fee_recipient o', D_FEE_RECIPIENT), (of_buyback_fee_recipient o', D_BUYBACK_RECIPIENT),
     (of_mint o', D_MINT), (of_bonding_curve o', D_CURVE), (of_associated_bonding_curve o', D_ABC),
     (of_bonding_curve_v2 o', D_BCV2), (of_creator_vault o', D_CREATOR_VAULT),
     (of_token_account o', D_TOKEN_ACCOUNT), (of_seed o', D_SEED),
     (of_amount o', u64_to_le D_AMOUNT), (of_max_sol_cost o', u64_to_le D_MAX_SOL),
     (of_nonce_account o', D_NONCE_ACCOUNT), (of_nonce_value o', D_NONCE_VALUE),
     (of_tip_account o', D_TIP_ACCOUNT), (of_tip_lamports o', u64_to_le D_TIP_LAMPORTS),
     (of_cu_price o', u64_to_le D_CU_PRICE)]"

text \<open>Every field: the two copies of the token program, then the others.\<close>

definition fields :: "Offsets \<Rightarrow> (nat \<times> bytes) list" where
  "fields o' = [(fst (of_token_program o'), D_TOKEN_PROGRAM), (snd (of_token_program o'), D_TOKEN_PROGRAM)] @ single_fields o'"

lemma u64_dummies:
  "u64_to_le D_AMOUNT = replicate 8 0x11" "u64_to_le D_MAX_SOL = replicate 8 0x22"
  "u64_to_le D_TIP_LAMPORTS = replicate 8 0x33" "u64_to_le D_CU_PRICE = replicate 8 0x44"
proof -
  have rep: "replicate 8 b = [b, b, b, b, b, b, b, b]" for b :: byte
    by (simp add: numeral_eq_Suc)
  show "u64_to_le D_AMOUNT = replicate 8 0x11" "u64_to_le D_MAX_SOL = replicate 8 0x22"
    "u64_to_le D_TIP_LAMPORTS = replicate 8 0x33" "u64_to_le D_CU_PRICE = replicate 8 0x44"
    using u64_to_from_le [of "replicate 8 0x11"] u64_to_from_le [of "replicate 8 0x22"]
      u64_to_from_le [of "replicate 8 0x33"] u64_to_from_le [of "replicate 8 0x44"]
    by (simp_all add: rep u64_from_le_def dummies)
qed

lemma find_offsets_fields:
  assumes "find_offsets msg = Some o'"
  shows "\<forall>(p, u) \<in> set (single_fields o'). at_pos ([1] @ replicate 64 0 @ msg) p u"
  using assms by (auto simp: find_offsets_def single_fields_def simp del: append.simps dest!: find_field_at)

lemma fields_apart:
  assumes "\<forall>(p, u) \<in> set fs. at_pos m p u \<and> u \<noteq> []"
    and "sorted_wrt (\<lambda>u v. set u \<inter> set v = {}) (map snd fs)"
  shows "sorted_wrt apart fs"
  using assms
proof (induction fs)
  case (Cons f fs)
  have "apart f g" if "g \<in> set fs" for g
    using that Cons.prems disjoint_bytes_apart [of m "fst f" "snd f" "fst g" "snd g"] by (cases f; cases g) auto
  with Cons show ?case
    by simp
qed simp

lemma fields_disjoint: "sorted_wrt (\<lambda>u v. set u \<inter> set v = {}) (map snd (single_fields o'))"
  by (simp add: single_fields_def u64_dummies) (simp add: dummies)

lemma fields_nonempty: "(p, u) \<in> set (single_fields o') \<Longrightarrow> u \<noteq> []"
  using length_u64_to_le [of 0] by (auto simp: single_fields_def dummies dest: arg_cong [of _ _ length])

lemma patch_key_state:
  "patch_key p k t = Some t' \<Longrightarrow> tp_offsets t' = tp_offsets t \<and> length (tp_tx t') = length (tp_tx t)"
  by (auto simp: patch_key_def dest: patch_at_length)

lemma patch_token_program_state:
  "patch_token_program k t = Some t' \<Longrightarrow> tp_offsets t' = tp_offsets t \<and> length (tp_tx t') = length (tp_tx t)"
  by (auto simp: patch_token_program_def dest!: patch_at_length split: prod.splits)

lemma apart_lengths:
  assumes "sorted_wrt apart fs" "map length vals = map (length \<circ> snd) fs"
  shows "sorted_wrt apart (zip (map fst fs) vals)"
proof -
  have len: "length vals = length fs"
    using assms(2) by (metis length_map)
  have "length (vals ! i) = length (snd (fs ! i))" if "i < length fs" for i
    using assms(2) that len by (metis (no_types, lifting) comp_apply nth_map)
  then show ?thesis
    using assms(1) len by (auto simp: sorted_wrt_iff_nth_less apart_def split_def)
qed

section \<open>Lemmas on the seeds\<close>

primrec nat_digits :: "nat \<Rightarrow> nat \<Rightarrow> nat list" where
  "nat_digits 0 n = []"
| "nat_digits (Suc k) n = nat_digits k (n div 10) @ [n mod 10]"

lemma length_nat_digits [simp]: "length (nat_digits k n) = k"
  by (induction k arbitrary: n) simp_all

lemma nat_digits_bound: "d \<in> set (nat_digits k n) \<Longrightarrow> d < 10"
  by (induction k arbitrary: n) auto

lemma nat_digits_inject: "nat_digits k m = nat_digits k n \<Longrightarrow> m mod 10 ^ k = n mod 10 ^ k"
proof (induction k arbitrary: m n)
  case (Suc k)
  have "nat_digits k (m div 10) = nat_digits k (n div 10)" and last: "m mod 10 = n mod 10"
    using Suc.prems by simp_all
  from Suc.IH [OF this(1)] this(2) have "m div 10 mod 10 ^ k = n div 10 mod 10 ^ k" "m mod 10 = n mod 10"
    by blast+
  then show ?case
    by (simp add: mod_mult2_eq)
qed simp

lemma seed_loop_eq:
  "i \<le> length out \<Longrightarrow>
     seed_loop i v out = map (\<lambda>d. byte_of (48 + d)) (nat_digits i (unat v)) @ drop i out"
proof (induction i arbitrary: v out)
  case (Suc i)
  have "byte_of (48 + unat (v mod 10)) = 48 + ucast (v mod 10)"
    by (simp add: byte_of_def)
  then have "48 + ucast (v mod 10) = byte_of (48 + unat v mod 10)"
    by (simp add: unat_mod)
  with Suc show ?case
    by (simp add: unat_div Cons_nth_drop_Suc [symmetric] drop_update_cancel)
qed simp

lemma seed_bytes_eq:
  "seed_bytes c = map (\<lambda>d. byte_of (48 + d)) (nat_digits 6 (unat c mod 1000000))"
  by (simp add: seed_bytes_def SEED_LEN_def seed_loop_eq unat_mod)

lemma seed_bytes_inject:
  assumes "seed_bytes c = seed_bytes d"
  shows "unat c mod 1000000 = unat d mod 1000000"
proof -
  have "inj_on (\<lambda>d. byte_of (48 + d)) {d. d < 10}"
    by (rule inj_onI) (drule arg_cong [of _ _ unat], simp)
  then have "nat_digits 6 (unat c mod 1000000) = nat_digits 6 (unat d mod 1000000)"
    using assms nat_digits_bound by (intro map_inj_on [of "\<lambda>d. byte_of (48 + d)"]) (auto simp: seed_bytes_eq inj_on_def)
  from nat_digits_inject [OF this] show ?thesis
    by simp
qed

lemma seed_table_loop_ok:
  "seed_table_loop cws buyer start is st = Inr st' \<Longrightarrow>
     st_seeds st' = st_seeds st @ map (\<lambda>i. seed_bytes ((start + of_nat i) mod 1000000)) is
     \<and> (\<exists>as bs. st_token_2022 st' = st_token_2022 st @ as \<and> st_token_classic st' = st_token_classic st @ bs
          \<and> length as = length is \<and> length bs = length is
          \<and> (\<forall>k < length is. let seed = seed_bytes ((start + of_nat (is ! k)) mod 1000000)
               in cws buyer seed TOKEN_2022_PROGRAM = Some (as ! k) \<and> cws buyer seed TOKEN_PROGRAM = Some (bs ! k)))"
proof (induction cws buyer start "is" st rule: seed_table_loop.induct)
  case (2 cws buyer start i "is" st)
  let ?seed = "seed_bytes ((start + of_nat i) mod 1000000)"
  obtain a b where a: "cws buyer ?seed TOKEN_2022_PROGRAM = Some a" and b: "cws buyer ?seed TOKEN_PROGRAM = Some b"
    and rest: "seed_table_loop cws buyer start is \<lparr>st_seeds = st_seeds st @ [?seed], st_token_2022 = st_token_2022 st @ [a],
                   st_token_classic = st_token_classic st @ [b]\<rparr> = Inr st'"
    using "2.prems" by (auto simp: Let_def split: option.splits)
  from "2.IH" [OF refl a b rest] obtain as bs where
    "st_seeds st' = st_seeds st @ [?seed] @ map (\<lambda>i. seed_bytes ((start + of_nat i) mod 1000000)) is"
    "st_token_2022 st' = st_token_2022 st @ a # as" "st_token_classic st' = st_token_classic st @ b # bs"
    "length as = length is" "length bs = length is"
    "\<forall>k < length is. let seed = seed_bytes ((start + of_nat (is ! k)) mod 1000000)
               in cws buyer seed TOKEN_2022_PROGRAM = Some (as ! k) \<and> cws buyer seed TOKEN_PROGRAM = Some (bs ! k)"
    by auto
  with a b show ?case
    by (intro conjI exI [of _ "a # as"] exI [of _ "b # bs"]) (auto simp: nth_Cons Let_def split: nat.splits)
qed simp

lemma near_residues_differ: "x < y \<Longrightarrow> y < x + m \<Longrightarrow> x mod m \<noteq> y mod m" for x y m :: nat
proof
  assume "x < y" "y < x + m" "x mod m = y mod m"
  then have "m dvd y - x"
    by (metis less_imp_le_nat mod_eq_dvd_iff_nat)
  then have "m \<le> y - x"
    using \<open>x < y\<close> by (intro dvd_imp_le) simp_all
  with \<open>y < x + m\<close> \<open>x < y\<close> show False
    by linarith
qed

lemma wrapped_residues_differ:
  fixes s i j :: nat
  assumes "s < 2 ^ 32" "i < j" "j < 65536"
  shows "(s + i) mod 2 ^ 32 mod 1000000 \<noteq> (s + j) mod 2 ^ 32 mod 1000000"
proof -
  have wrap: "(s + k) mod 2 ^ 32 = (if s + k < 2 ^ 32 then s + k else s + k - 2 ^ 32)" if "k < 65536" for k
    using assms(1) that by (simp add: mod_if)
  consider "s + j < 2 ^ 32" | "2 ^ 32 \<le> s + i" | "s + i < 2 ^ 32" "2 ^ 32 \<le> s + j"
    by linarith
  then show ?thesis
  proof cases
    case 1
    then show ?thesis
      using wrap [of i] wrap [of j] assms near_residues_differ [of "s + i" "s + j" 1000000] by simp
  next
    case 2
    then show ?thesis
      using wrap [of i] wrap [of j] assms near_residues_differ [of "s + i - 2 ^ 32" "s + j - 2 ^ 32" 1000000]
      by simp
  next
    case 3
    then have "s + i = 4294 * 1000000 + (s + i - 4294000000)" "s + i - 4294000000 < 1000000" "901760 \<le> s + i - 4294000000"
      using assms by simp_all
    moreover have "(4294 * 1000000 + (s + i - 4294000000)) mod 1000000 = (s + i - 4294000000) mod 1000000"
      by (rule mod_mult_self3)
    ultimately have "901760 \<le> (s + i) mod 1000000"
      by (metis mod_less)
    moreover have "(s + j - 2 ^ 32) mod 1000000 < 65536"
      using 3 assms by simp
    ultimately show ?thesis
      using 3 wrap [of i] wrap [of j] assms by simp
  qed
qed

subsection \<open>A message with every placeholder\<close>

lemma at_pos_elems: "at_pos m q n \<Longrightarrow> q \<le> k \<Longrightarrow> k < q + length n \<Longrightarrow> m ! k \<in> set n"
proof -
  assume a: "at_pos m q n" and k: "q \<le> k" "k < q + length n"
  then have "n ! (k - q) = m ! k"
    using nth_slice [of "k - q" "q + length n" q m] by (auto simp: at_pos_def)
  moreover have "k - q < length n"
    using k by simp
  ultimately show "m ! k \<in> set n"
    by (metis nth_mem)
qed

lemma sorted_find_all: "sorted (find_all h n)" "distinct (find_all h n)"
  by (auto simp: find_all_def intro: sorted_wrt_filter)

lemma find_all_set: "set (find_all h n) = {p. at_pos h p n}"
  by (auto simp: find_all_iff)

lemma find_pair_at:
  assumes "find_pair msg n = Some (a, b)"
  shows "a + length n \<le> 65 + length msg \<and> b + length n \<le> 65 + length msg"
proof -
  obtain p q where pq: "find_all msg n = [p, q]" "a = 65 + p" "b = 65 + q"
    using assms by (auto simp: find_pair_def MSG_OFFSET_def split: list.splits)
  then have "at_pos msg p n" "at_pos msg q n"
    using find_all_iff [of p msg n] find_all_iff [of q msg n] by simp_all
  with pq show ?thesis
    by (auto dest: at_pos_bound)
qed

lemma find_offsets_pair:
  "find_offsets msg = Some o' \<Longrightarrow> find_pair msg D_TOKEN_PROGRAM = Some (of_token_program o')"
  by (auto simp: find_offsets_def)

text \<open>Once every placeholder has been found, building the template cannot panic.\<close>

lemma build_template_defined:
  assumes "compile (sa_user sa) (template_instructions sa cu ex) D_NONCE_VALUE = Some msg"
    and "find_offsets msg = Some o'" "wf_key (sa_fee_recipient sa)" "wf_key (sa_buyback_fee_recipient sa)"
  shows "\<exists>t. build_template compile sa cu ex = Some t"
proof -
  let ?tx = "[1] @ replicate 64 0 @ msg"
  obtain a b where ab: "of_token_program o' = (a, b)"
    by fastforce
  have "length D_TOKEN_PROGRAM = 32" "length TOKEN_2022_PROGRAM = 32"
    by (simp_all add: dummies TOKEN_2022_PROGRAM_def)
  then have "a + 32 \<le> length ?tx" "b + 32 \<le> length ?tx"
    using find_pair_at [of msg D_TOKEN_PROGRAM a b] find_offsets_pair [OF assms(2)] ab by simp_all
  then obtain tx1 where tx1: "patch_at ?tx a TOKEN_2022_PROGRAM = Some tx1" and "b + 32 \<le> length tx1"
    using patch_at_defined [of a TOKEN_2022_PROGRAM ?tx] \<open>length TOKEN_2022_PROGRAM = 32\<close>
    by (auto simp: patch_at_length)
  then obtain tx2 where "patch_at tx1 b TOKEN_2022_PROGRAM = Some tx2"
    using patch_at_defined [of b TOKEN_2022_PROGRAM tx1] \<open>length TOKEN_2022_PROGRAM = 32\<close> by auto
  note tx = tx1 this
  have len: "length tx2 = 65 + length msg"
    using patch_at_length [OF tx(1)] patch_at_length [OF tx(2)] by simp
  have f: "of_fee_recipient o' + 32 \<le> 65 + length msg" "of_buyback_fee_recipient o' + 32 \<le> 65 + length msg"
    using find_offsets_fields [OF assms(2)] by (auto simp: single_fields_def dummies dest!: at_pos_bound)
  obtain tx3 where tx3: "patch_at tx2 (of_fee_recipient o') (sa_fee_recipient sa) = Some tx3"
    using f len assms(3) patch_at_defined by (metis wf_key_def)
  obtain tx4 where tx4: "patch_at tx3 (of_buyback_fee_recipient o') (sa_buyback_fee_recipient sa) = Some tx4"
    using f len assms(4) patch_at_defined patch_at_length [OF tx3] by (metis wf_key_def)
  show ?thesis
    using assms(1,2) tx tx3 tx4
    by (simp add: build_template_def patch_token_program_def patch_key_def Let_def ab)
qed

section \<open>The compiled message\<close>

text \<open>
  The wire format of a v0 message without lookup tables, when every list in it is short enough for its
  length to be one byte: the version, three counts, the number of keys and the keys in some order
  without repetition, the blockhash, the instructions with their data verbatim, and the empty list of
  lookups.
\<close>

definition v0_blob :: "Instruction \<Rightarrow> bytes \<Rightarrow> bool" where
  "v0_blob ix b \<longleftrightarrow> (\<exists>program accounts. length accounts = length (in_accounts ix)
     \<and> b = program # of_nat (length accounts) # accounts @ of_nat (length (in_data ix)) # in_data ix)"

definition mentioned :: "pubkey \<Rightarrow> Instruction list \<Rightarrow> pubkey list" where
  "mentioned payer ixs = payer # concat (map (\<lambda>ix. in_program_id ix # map am_pubkey (in_accounts ix)) ixs)"

definition small_message :: "pubkey \<Rightarrow> Instruction list \<Rightarrow> bool" where
  "small_message payer ixs \<longleftrightarrow> length ixs < 128 \<and> length (mentioned payer ixs) < 128
     \<and> (\<forall>ix \<in> set ixs. length (in_accounts ix) < 128 \<and> length (in_data ix) < 128)"

definition v0_message :: "pubkey \<Rightarrow> Instruction list \<Rightarrow> bytes \<Rightarrow> bytes \<Rightarrow> bool" where
  "v0_message payer ixs blockhash msg \<longleftrightarrow> (\<exists>counts keys blobs. length counts = 3 \<and> distinct keys
     \<and> set keys = set (mentioned payer ixs) \<and> list_all2 v0_blob ixs blobs
     \<and> msg = [0x80] @ counts @ of_nat (length keys) # concat keys @ blockhash @ of_nat (length ixs) # concat blobs @ [0])"

text \<open>What the SDK promises of \<open>try_compile\<close> and \<open>serialize\<close>.\<close>

definition compiles_v0 :: "(pubkey \<Rightarrow> Instruction list \<Rightarrow> bytes \<Rightarrow> bytes option) \<Rightarrow> bool" where
  "compiles_v0 compile \<longleftrightarrow> (\<forall>payer ixs blockhash msg.
     small_message payer ixs \<longrightarrow> compile payer ixs blockhash = Some msg \<longrightarrow> v0_message payer ixs blockhash msg)"

lemma v0_blob_length: "v0_blob ix b \<Longrightarrow> length b = 3 + length (in_accounts ix) + length (in_data ix)"
  by (auto simp: v0_blob_def)

lemma v0_blobs_length:
  "list_all2 v0_blob ixs blobs \<Longrightarrow> length (concat blobs) = sum_list (map (\<lambda>ix. 3 + length (in_accounts ix) + length (in_data ix)) ixs)"
  by (induction rule: list_all2_induct) (auto simp: v0_blob_length)

lemma concat_keys_length: "\<forall>k \<in> set keys. wf_key k \<Longrightarrow> length (concat keys) = 32 * length keys"
  by (induction keys) (auto simp: wf_key_def)

lemmas key_constants = SYSTEM_PROGRAM_def zero_key_def RECENT_BLOCKHASHES_def COMPUTE_BUDGET_PROGRAM_def PUMP_PROGRAM_def GLOBAL_def
  EVENT_AUTHORITY_def GLOBAL_VOLUME_ACCUMULATOR_def FEE_CONFIG_def FEE_PROGRAM_def dummy_key_def

lemma mentioned_wf:
  assumes "wf_key (sa_user sa)" "wf_key (sa_user_volume_accumulator sa)"
  shows "\<forall>k \<in> set (mentioned (sa_user sa) (template_instructions sa cu ex)). wf_key k"
  using assms by (simp add: mentioned_def template_instructions_def Let_def meta_def ro_def rw_def wf_key_def dummies
      key_constants)

lemma card_mentioned: "card (set (mentioned (sa_user sa) (template_instructions sa cu ex))) \<le> 22"
proof -
  let ?ks = "[sa_user sa, SYSTEM_PROGRAM, D_NONCE_ACCOUNT, RECENT_BLOCKHASHES, D_TIP_ACCOUNT, COMPUTE_BUDGET_PROGRAM,
    D_TOKEN_ACCOUNT, D_TOKEN_PROGRAM, D_MINT, PUMP_PROGRAM, GLOBAL, D_FEE_RECIPIENT, D_CURVE, D_ABC, D_CREATOR_VAULT,
    EVENT_AUTHORITY, GLOBAL_VOLUME_ACCUMULATOR, sa_user_volume_accumulator sa, FEE_CONFIG, FEE_PROGRAM, D_BCV2, D_BUYBACK_RECIPIENT]"
  have "set (mentioned (sa_user sa) (template_instructions sa cu ex)) \<subseteq> set ?ks"
    by (simp add: mentioned_def template_instructions_def Let_def meta_def ro_def rw_def)
  then have "card (set (mentioned (sa_user sa) (template_instructions sa cu ex))) \<le> card (set ?ks)"
    by (intro card_mono) simp_all
  also have "\<dots> \<le> length ?ks"
    by (rule card_length)
  finally show ?thesis
    by simp
qed

lemma template_is_small:
  assumes "wf_key (sa_user sa)"
  shows "small_message (sa_user sa) (template_instructions sa cu ex)"
  using assms by (simp add: small_message_def mentioned_def template_instructions_def Let_def wf_key_def dummies SEED_LEN_def
      DISC_BUY_def DISC_BUY_EXACT_SOL_IN_def)

lemma v0_template_length:
  assumes "v0_message (sa_user sa) (template_instructions sa cu ex) D_NONCE_VALUE msg"
    and "wf_key (sa_user sa)" "wf_key (sa_user_volume_accumulator sa)"
  shows "length msg \<le> 1003"
proof -
  obtain counts keys blobs where h: "length counts = 3" and keys: "distinct keys" "set keys = set (mentioned (sa_user sa) (template_instructions sa cu ex))"
    and blobs: "list_all2 v0_blob (template_instructions sa cu ex) blobs"
    and msg: "msg = [0x80] @ counts @ of_nat (length keys) # concat keys @ D_NONCE_VALUE @ of_nat (length (template_instructions sa cu ex)) # concat blobs @ [0]"
    using assms(1) unfolding v0_message_def by blast
  have "length keys \<le> 22"
    using card_mentioned [of sa cu ex] keys by (simp add: distinct_card [symmetric])
  moreover have "length (concat keys) = 32 * length keys"
    using mentioned_wf [OF assms(2,3)] keys(2) by (intro concat_keys_length) simp
  moreover have "length (concat blobs) \<le> 260"
    unfolding v0_blobs_length [OF blobs] using assms(2)
    by (simp add: template_instructions_def Let_def wf_key_def dummies SEED_LEN_def DISC_BUY_def DISC_BUY_EXACT_SOL_IN_def)
  ultimately show ?thesis
    by (simp add: msg h D_NONCE_VALUE_def dummy_key_def)
qed

text \<open>One copy of the token program is among the keys, the other in the data, with the blockhash between them.\<close>

lemma v0_token_programs:
  assumes "v0_message (sa_user sa) (template_instructions sa cu ex) D_NONCE_VALUE msg" "find_pair msg D_TOKEN_PROGRAM = Some (a, b)"
  shows "a + 32 \<le> b"
proof -
  let ?n = D_TOKEN_PROGRAM and ?ixs = "template_instructions sa cu ex"
  obtain counts keys blobs where keys: "set keys = set (mentioned (sa_user sa) ?ixs)"
    and blobs: "list_all2 v0_blob ?ixs blobs"
    and msg: "msg = [0x80] @ counts @ of_nat (length keys) # concat keys @ D_NONCE_VALUE @ of_nat (length ?ixs) # concat blobs @ [0]"
    using assms(1) unfolding v0_message_def by blast
  have n: "length ?n = 32" "length D_NONCE_VALUE = 32"
    by (simp_all add: D_TOKEN_PROGRAM_def D_NONCE_VALUE_def dummy_key_def)
  have "?n \<in> set keys"
    unfolding keys by (simp add: mentioned_def template_instructions_def Let_def)
  then obtain ks1 ks2 where "keys = ks1 @ ?n # ks2"
    by (auto simp: in_set_conv_decomp)
  then have k: "concat keys = concat ks1 @ ?n @ concat ks2"
    by simp
  define ix where "ix = ?ixs ! 4"
  have ix: "ix \<in> set ?ixs" "\<exists>u. in_data ix = u @ ?n"
    by (simp_all add: ix_def template_instructions_def Let_def)
  obtain i where i: "i < length ?ixs" "?ixs ! i = ix"
    using ix(1) by (auto simp: in_set_conv_nth)
  then have "v0_blob ix (blobs ! i)" "i < length blobs"
    using blobs by (auto simp: list_all2_conv_all_nth)
  moreover from this(1) ix(2) obtain v where "blobs ! i = v @ ?n"
    by (auto simp: v0_blob_def)
  ultimately obtain w1 w2 where w: "concat blobs = w1 @ ?n @ w2"
    using id_take_nth_drop [of i blobs] by (metis append.assoc concat.simps(2) concat_append)
  let ?h = "[0x80] @ counts @ [of_nat (length keys)]"
  let ?p = "length ?h + length (concat ks1)" and ?q = "length ?h + length (concat keys) + 33 + length w1"
  have "at_pos msg ?p ?n"
    using at_pos_mid [of "?h @ concat ks1" ?n "concat ks2 @ D_NONCE_VALUE @ of_nat (length ?ixs) # concat blobs @ [0]"]
    by (simp add: msg k)
  moreover have "at_pos msg ?q ?n"
    using at_pos_mid [of "?h @ concat keys @ D_NONCE_VALUE @ of_nat (length ?ixs) # w1" ?n "w2 @ [0]"] n(2)
    by (simp add: msg w add.assoc)
  ultimately have found: "?p \<in> set (find_all msg ?n)" "?q \<in> set (find_all msg ?n)"
    by (simp_all add: find_all_set)
  obtain x y where xy: "find_all msg ?n = [x, y]" "a = 65 + x" "b = 65 + y"
    using assms(2) by (auto simp: find_pair_def MSG_OFFSET_def split: list.splits)
  have "?p + 32 \<le> ?q"
    using n(1) by (simp add: k)
  moreover have "x \<le> y"
    using sorted_find_all(1) [of msg ?n] by (simp add: xy(1))
  ultimately have "x = ?p" "y = ?q"
    using found by (auto simp: xy(1))
  then show ?thesis
    using \<open>?p + 32 \<le> ?q\<close> by (simp add: xy(2,3))
qed

text \<open>A pair of copies is in the transaction where it was found in the message.\<close>

lemma find_pair_in_tx:
  assumes "find_pair msg n = Some (a, b)"
  shows "at_pos ([1] @ replicate 64 0 @ msg) a n" "at_pos ([1] @ replicate 64 0 @ msg) b n"
proof -
  obtain p q where pq: "find_all msg n = [p, q]" "a = 65 + p" "b = 65 + q"
    using assms by (auto simp: find_pair_def MSG_OFFSET_def split: list.splits)
  then have "at_pos msg p n" "at_pos msg q n"
    using find_all_iff [of p msg n] find_all_iff [of q msg n] by simp_all
  then show "at_pos ([1] @ replicate 64 0 @ msg) a n" "at_pos ([1] @ replicate 64 0 @ msg) b n"
    using at_pos_shift [of msg _ n "[1] @ replicate 64 0"] pq(2,3) by simp_all
qed

lemma build_template_message:
  assumes "build_template compile sa cu ex = Some t"
  obtains msg where "compile (sa_user sa) (template_instructions sa cu ex) D_NONCE_VALUE = Some msg"
    "find_offsets msg = Some (tp_offsets t)" "length (tp_tx t) = 65 + length msg"
proof -
  from assms obtain msg o' t1 t2 where "compile (sa_user sa) (template_instructions sa cu ex) D_NONCE_VALUE = Some msg" "find_offsets msg = Some o'"
    "patch_token_program TOKEN_2022_PROGRAM \<lparr>tp_tx = [1] @ replicate 64 0 @ msg, tp_offsets = o'\<rparr> = Some t1"
    "patch_key (of_fee_recipient (tp_offsets t1)) (sa_fee_recipient sa) t1 = Some t2"
    "patch_key (of_buyback_fee_recipient (tp_offsets t2)) (sa_buyback_fee_recipient sa) t2 = Some t"
    by (auto simp: build_template_def Let_def)
  then show thesis
    by (intro that [of msg]) (auto dest!: patch_key_state patch_token_program_state)
qed

lemma fields_with_token_program:
  "sorted_wrt (\<lambda>u v. set u \<inter> set v = {}) (map snd ((p, D_TOKEN_PROGRAM) # single_fields o'))"
  by (simp add: single_fields_def u64_dummies) (simp add: dummies)

text \<open>In a built template every field is inside, and no two overlap.\<close>

lemma build_template_fields:
  assumes "build_template compile sa cu ex = Some t" "compiles_v0 compile"
    and "wf_key (sa_user sa)" "wf_key (sa_user_volume_accumulator sa)"
  shows "\<forall>(p, u) \<in> set (fields (tp_offsets t)). p + length u \<le> length (tp_tx t)"
    and "sorted_wrt apart (fields (tp_offsets t))" and "length (tp_tx t) \<le> 1068"
proof -
  let ?o = "tp_offsets t" and ?n = D_TOKEN_PROGRAM
  obtain msg where c: "compile (sa_user sa) (template_instructions sa cu ex) D_NONCE_VALUE = Some msg"
    and msg: "find_offsets msg = Some ?o" "length (tp_tx t) = 65 + length msg"
    by (rule build_template_message [OF assms(1)])
  let ?m = "[1] @ replicate 64 0 @ msg"
  have v0: "v0_message (sa_user sa) (template_instructions sa cu ex) D_NONCE_VALUE msg"
    using c assms(2) template_is_small [OF assms(3)] by (simp add: compiles_v0_def)
  obtain a b where ab: "of_token_program ?o = (a, b)"
    by fastforce
  have pair: "find_pair msg ?n = Some (a, b)"
    using find_offsets_pair [OF msg(1)] ab by simp
  have n: "?n \<noteq> []" "length ?n = 32"
    by (simp_all add: D_TOKEN_PROGRAM_def dummy_key_def)
  have at: "at_pos ?m p u \<and> u \<noteq> []" if "(p, u) \<in> set (single_fields ?o)" for p u
    using that find_offsets_fields [OF msg(1)] fields_nonempty by fast
  have one: "sorted_wrt apart ((p, ?n) # single_fields ?o)" if "at_pos ?m p ?n" for p
    using at that n(1) by (intro fields_apart [OF _ fields_with_token_program]) auto
  have "apart (a, ?n) (b, ?n)"
    using v0_token_programs [OF v0 pair] n(2) by (simp add: apart_def)
  then show "sorted_wrt apart (fields ?o)"
    using one [OF find_pair_in_tx(1) [OF pair]] one [OF find_pair_in_tx(2) [OF pair]] by (simp add: fields_def ab)
  show "\<forall>(p, u) \<in> set (fields ?o). p + length u \<le> length (tp_tx t)"
    using at find_pair_in_tx [OF pair] msg(2) by (fastforce simp: fields_def ab dest: at_pos_bound)
  show "length (tp_tx t) \<le> 1068"
    using v0_template_length [OF v0 assms(3,4)] msg(2) by simp
qed

section \<open>Runs of one byte\<close>

text \<open>
  A message cut into pieces that are free of the byte \<open>x\<close> or no longer than \<open>k\<close>, so that no two neighbours
  meet in \<open>x\<close>: a run of \<open>k\<close> bytes \<open>x\<close> is one of the pieces.
\<close>

definition parted :: "nat \<Rightarrow> 'a \<Rightarrow> 'a list list \<Rightarrow> bool" where
  "parted k x ps \<longleftrightarrow> list_all (\<lambda>p. p \<noteq> [] \<and> (length p \<le> k \<or> x \<notin> set p)) ps \<and> successively (\<lambda>a b. last a = x \<longrightarrow> hd b \<noteq> x) ps"

lemma parted_Cons: "parted k x (p # ps) \<longleftrightarrow> p \<noteq> [] \<and> (length p \<le> k \<or> x \<notin> set p) \<and> parted k x ps \<and> (ps \<noteq> [] \<longrightarrow> last p = x \<longrightarrow> hd (hd ps) \<noteq> x)"
  by (cases ps) (auto simp: parted_def)

lemma hd_concat_parted: "parted k x ps \<Longrightarrow> ps \<noteq> [] \<Longrightarrow> concat ps \<noteq> [] \<and> hd (concat ps) = hd (hd ps)"
  by (cases ps) (auto simp: parted_Cons)

lemma run_is_piece:
  "parted k x ps \<Longrightarrow> 0 < k \<Longrightarrow> at_pos (concat ps) q (replicate k x) \<Longrightarrow>
     \<exists>as bs. ps = as @ replicate k x # bs \<and> q = length (concat as)"
proof (induction ps arbitrary: q)
  case (Cons p ps)
  let ?m = "concat (p # ps)"
  have p: "p \<noteq> []" "length p \<le> k \<or> x \<notin> set p" and ps: "parted k x ps" "ps \<noteq> [] \<longrightarrow> last p = x \<longrightarrow> hd (hd ps) \<noteq> x"
    using Cons.prems(1) by (simp_all add: parted_Cons)
  have run: "?m ! i = x" if "q \<le> i" "i < q + k" for i
    using at_pos_elems [OF Cons.prems(3), of i] that by auto
  have bound: "q + k \<le> length ?m"
    using at_pos_bound [OF Cons.prems(3)] by simp
  show ?case
  proof (cases "length p \<le> q")
    case True
    then have "q - length p + k \<le> length (concat ps)"
      using bound by simp
    moreover have "slice (concat ps) (q - length p) (q - length p + k) = replicate k x"
      using Cons.prems(3) True by (simp add: at_pos_def slice_def)
    ultimately have "at_pos (concat ps) (q - length p) (replicate k x)"
      by (simp only: at_pos_def length_replicate simp_thms)
    then obtain as bs where "ps = as @ replicate k x # bs" "q - length p = length (concat as)"
      using Cons.IH [OF ps(1) Cons.prems(2)] by blast
    with True show ?thesis
      by (intro exI [of _ "p # as"] exI [of _ bs]) simp
  next
    case False
    then have "p ! q = x"
      using run [of q] Cons.prems(2) by (simp add: nth_append)
    with False have small: "length p \<le> k"
      using p(2) nth_mem [of q p] by auto
    show ?thesis
    proof (cases "q = 0 \<and> length p = k")
      case True
      then have "p ! i = x" if "i < k" for i
        using run [of i] that by (simp add: nth_append)
      then have "p = replicate k x"
        using True by (intro nth_equalityI) auto
      with True show ?thesis
        by (intro exI [of _ "[]"] exI [of _ ps]) simp
    next
      case part: False
      then have more: "length p < q + k"
        using False small by auto
      then have ne: "ps \<noteq> []"
        using bound by auto
      have "last p = x"
        using run [of "length p - 1"] False p more by (simp add: nth_append last_conv_nth)
      moreover have "concat ps ! 0 = x"
        using run [of "length p"] False more by (simp add: nth_append)
      then have "hd (concat ps) = x"
        using hd_concat_parted [OF ps(1) ne] by (metis hd_conv_nth)
      ultimately show ?thesis
        using ps ne hd_concat_parted [OF ps(1) ne] by simp
    qed
  qed
qed (use at_pos_bound in fastforce)

text \<open>The offsets of the pieces that are equal to \<open>n\<close>.\<close>

fun piece_offsets :: "nat \<Rightarrow> 'a list \<Rightarrow> 'a list list \<Rightarrow> nat list" where
  "piece_offsets o' n [] = []"
| "piece_offsets o' n (p # ps) = (if p = n then o' # piece_offsets (o' + length p) n ps else piece_offsets (o' + length p) n ps)"

lemma piece_offsets_iff:
  "q \<in> set (piece_offsets o' n ps) \<longleftrightarrow> (\<exists>as bs. ps = as @ n # bs \<and> q = o' + length (concat as))"
proof (induction ps arbitrary: o')
  case (Cons p ps)
  have "(\<exists>as bs. p # ps = as @ n # bs \<and> q = o' + length (concat as))
      \<longleftrightarrow> (p = n \<and> q = o') \<or> (\<exists>as bs. ps = as @ n # bs \<and> q = o' + length p + length (concat as))" (is "?l \<longleftrightarrow> ?a \<or> ?b")
  proof
    assume ?l
    then obtain as bs where "p # ps = as @ n # bs" "q = o' + length (concat as)"
      by blast
    then show "?a \<or> ?b"
      by (cases as) auto
  next
    assume "?a \<or> ?b"
    then show ?l
    proof
      assume ?a
      then show ?l
        by (intro exI [of _ "[]"] exI [of _ ps]) simp
    next
      assume ?b
      then obtain as bs where "ps = as @ n # bs" "q = o' + length p + length (concat as)"
        by blast
      then show ?l
        by (intro exI [of _ "p # as"] exI [of _ bs]) simp
    qed
  qed
  then show ?case
    using Cons.IH [of "o' + length p"] by auto
qed simp

lemma piece_offsets_sorted:
  "list_all (\<lambda>p. p \<noteq> []) ps \<Longrightarrow> sorted (piece_offsets o' n ps) \<and> distinct (piece_offsets o' n ps) \<and> (\<forall>q \<in> set (piece_offsets o' n ps). o' \<le> q)"
proof (induction ps arbitrary: o')
  case (Cons p ps)
  let ?qs = "piece_offsets (o' + length p) n ps"
  have "sorted ?qs \<and> distinct ?qs \<and> (\<forall>q \<in> set ?qs. o' + length p \<le> q)"
    using Cons by simp
  moreover from this have "\<forall>q \<in> set ?qs. o' < q"
    using Cons.prems by (fastforce simp: neq_Nil_conv)
  ultimately show ?case
    by (auto simp: less_imp_le)
qed simp

text \<open>A word whose first byte occurs nowhere else.\<close>

lemma find_all_marked:
  assumes "c \<notin> set a \<union> set b \<union> set n"
  shows "find_all (a @ (c # n) @ b) (c # n) = [length a]"
proof -
  have "q = length a" if q: "at_pos (a @ (c # n) @ b) q (c # n)" for q
  proof -
    have "(a @ (c # n) @ b) ! q = c" "q < length (a @ (c # n) @ b)"
      using q by (simp_all only: at_pos_Cons)
    moreover have "(n @ b) ! i \<noteq> c" if "i < length (n @ b)" for i
      using assms nth_mem [OF that] by auto
    ultimately show ?thesis
      using assms by (auto simp: nth_append nth_Cons' split: if_splits)
  qed
  then have "set (find_all (a @ (c # n) @ b) (c # n)) = set [length a]"
    unfolding find_all_set list.set using at_pos_mid [of a "c # n" b] by blast
  then show ?thesis
    using sorted_find_all [of "a @ (c # n) @ b" "c # n"] by (intro sorted_distinct_set_unique) auto
qed

lemma find_all_pieces:
  assumes "parted k x ps" "0 < k"
  shows "find_all (concat ps) (replicate k x) = piece_offsets 0 (replicate k x) ps"
proof (rule sorted_distinct_set_unique)
  have "at_pos (concat (as @ n # bs)) (length (concat as)) n" for as bs and n :: "byte list"
    using at_pos_mid [of "concat as" n "concat bs"] by simp
  then have "at_pos (concat ps) q (replicate k x) \<longleftrightarrow> (\<exists>as bs. ps = as @ replicate k x # bs \<and> q = length (concat as))" for q
    using run_is_piece [OF assms] by metis
  then show "set (find_all (concat ps) (replicate k x)) = set (piece_offsets 0 (replicate k x) ps)"
    unfolding find_all_set by (intro set_eqI) (simp add: piece_offsets_iff)
qed (use sorted_find_all piece_offsets_sorted [of ps 0] assms(1) in \<open>auto simp: parted_def list_all_iff\<close>)

section \<open>A compiled template\<close>

definition toy_user :: pubkey where
  "toy_user = replicate 32 3"

definition toy_volume :: pubkey where
  "toy_volume = replicate 32 117"

definition toy_account_keys :: "pubkey list" where
  "toy_account_keys = [toy_user, SYSTEM_PROGRAM, D_NONCE_ACCOUNT, RECENT_BLOCKHASHES, D_TIP_ACCOUNT, COMPUTE_BUDGET_PROGRAM,
    D_TOKEN_ACCOUNT, D_TOKEN_PROGRAM, D_MINT, PUMP_PROGRAM, GLOBAL, D_FEE_RECIPIENT, D_CURVE, D_ABC, D_CREATOR_VAULT,
    EVENT_AUTHORITY, GLOBAL_VOLUME_ACCUMULATOR, toy_volume, FEE_CONFIG, FEE_PROGRAM, D_BCV2, D_BUYBACK_RECIPIENT]"

definition toy_blob :: "Instruction \<Rightarrow> bytes" where
  "toy_blob ix = 0 # of_nat (length (in_accounts ix)) # replicate (length (in_accounts ix)) 0 @ of_nat (length (in_data ix)) # in_data ix"

text \<open>A compiler for the keys above, which orders them as listed and gives every account index 0.\<close>

definition toy_compile :: "pubkey \<Rightarrow> Instruction list \<Rightarrow> bytes \<Rightarrow> bytes option" where
  "toy_compile payer ixs bh =
     (if set (mentioned payer ixs) = set toy_account_keys
      then Some ([0x80, 0, 0, 0, 22] @ concat toy_account_keys @ bh @ of_nat (length ixs) # concat (map toy_blob ixs) @ [0]) else None)"

lemma distinct_toy_account_keys: "distinct toy_account_keys"
proof -
  have "distinct (map (\<lambda>k. (hd k, last k)) toy_account_keys)"
    by (simp add: toy_account_keys_def toy_user_def toy_volume_def dummies key_constants)
  then show ?thesis
    by (simp add: distinct_map)
qed

lemma toy_compile_v0: "compiles_v0 toy_compile"
proof -
  have "v0_blob ix (toy_blob ix)" for ix
    unfolding v0_blob_def toy_blob_def
    by (intro exI [of _ 0] exI [of _ "replicate (length (in_accounts ix)) 0"]) simp
  then have "list_all2 v0_blob ixs (map toy_blob ixs)" for ixs
    by (simp add: list_all2_conv_all_nth)
  moreover have "of_nat (length toy_account_keys) = (22 :: byte)"
    by (simp add: toy_account_keys_def)
  ultimately have v0: "v0_message payer ixs blockhash
      ([0x80, 0, 0, 0, 22] @ concat toy_account_keys @ blockhash @ of_nat (length ixs) # concat (map toy_blob ixs) @ [0])"
    if "set (mentioned payer ixs) = set toy_account_keys" for payer ixs blockhash
    using distinct_toy_account_keys that unfolding v0_message_def
    by (intro exI [of _ "[0, 0, 0]"] exI [of _ toy_account_keys] exI [of _ "map toy_blob ixs"]) simp
  show ?thesis
    unfolding compiles_v0_def toy_compile_def using v0 by (simp only: split: if_splits) blast
qed

definition cut8 :: "bytes \<Rightarrow> bytes list" where
  "cut8 k = [take 8 k, take 8 (drop 8 k), take 8 (drop 16 k), drop 24 k]"

lemma concat_cut8: "concat (cut8 k) = k"
  using append_take_drop_id [of 8 k] append_take_drop_id [of 8 "drop 8 k"] append_take_drop_id [of 8 "drop 16 k"]
  by (simp add: cut8_def)

definition toy_head :: "bytes list" where
  "toy_head = [[0x80, 0, 0, 0, 22], toy_user, SYSTEM_PROGRAM, D_NONCE_ACCOUNT] @ cut8 RECENT_BLOCKHASHES
    @ [D_TIP_ACCOUNT, COMPUTE_BUDGET_PROGRAM, D_TOKEN_ACCOUNT, D_TOKEN_PROGRAM, D_MINT] @ cut8 PUMP_PROGRAM
    @ [GLOBAL, D_FEE_RECIPIENT, D_CURVE, D_ABC, D_CREATOR_VAULT, EVENT_AUTHORITY] @ cut8 GLOBAL_VOLUME_ACCUMULATOR
    @ [toy_volume, FEE_CONFIG, FEE_PROGRAM, D_BCV2, D_BUYBACK_RECIPIENT]"

definition toy_body :: "bytes list" where
  "toy_body = [[7], [0, 3, 0, 0, 0, 4], [4, 0, 0, 0], [0, 2, 0, 0, 12], [2, 0, 0, 0], replicate 8 0x33,
       [0, 0, 5, 2], [144, 95, 1, 0], [0, 0, 9, 3], replicate 8 0x44,
       [0, 3, 0, 0, 0, 98], [3, 0, 0, 0], toy_user, [6, 0, 0, 0, 0, 0, 0, 0], D_SEED, [240, 29, 31, 0, 0, 0, 0, 0],
       [165, 0, 0, 0, 0, 0, 0, 0], D_TOKEN_PROGRAM, [0, 2, 0, 0, 33, 18], toy_user,
       [0, 18, 0, 0, 0, 0, 0, 0, 0, 0, 0, 0, 0, 0, 0, 0, 0, 0, 0, 0, 25], DISC_BUY_EXACT_SOL_IN, replicate 8 0x11, replicate 8 0x22, [0], [0]]"

definition toy_pieces :: "bytes list" where
  "toy_pieces = toy_head @ [D_NONCE_VALUE] @ toy_body"

definition toy_statics :: "pubkey \<Rightarrow> pubkey \<Rightarrow> StaticAccounts" where
  "toy_statics fee recipient = \<lparr>sa_fee_recipient = fee, sa_buyback_fee_recipient = recipient, sa_user = toy_user,
     sa_user_volume_accumulator = toy_volume\<rparr>"

lemma toy_numbers:
  "u64_to_le TOKEN_ACCOUNT_RENT = [240, 29, 31, 0, 0, 0, 0, 0]" "u64_to_le TOKEN_ACCOUNT_SPACE = [165, 0, 0, 0, 0, 0, 0, 0]"
  "u64_to_le (of_nat SEED_LEN) = [6, 0, 0, 0, 0, 0, 0, 0]"
  "nat_le 4 2 = [2, 0, 0, 0]" "nat_le 4 3 = [3, 0, 0, 0]" "nat_le 4 4 = [4, 0, 0, 0]" "nat_le 4 90000 = [144, 95, 1, 0]"
  by (simp_all add: TOKEN_ACCOUNT_RENT_def TOKEN_ACCOUNT_SPACE_def SEED_LEN_def u64_to_le_def nat_le_def byte_of_def)

lemma toy_body_blobs:
  "concat toy_body = 7 # concat (map toy_blob (template_instructions (toy_statics fee recipient) 90000 True)) @ [0]"
  by (simp add: toy_body_def template_instructions_def toy_statics_def toy_blob_def Let_def meta_def ro_def rw_def u64_dummies
      D_SEED_def toy_numbers D_TOKEN_PROGRAM_def dummy_key_def toy_user_def DISC_BUY_EXACT_SOL_IN_def)

lemma toy_message: "toy_compile toy_user (template_instructions (toy_statics fee recipient) 90000 True) D_NONCE_VALUE = Some (concat toy_pieces)"
proof -
  let ?ixs = "template_instructions (toy_statics fee recipient) 90000 True"
  have "set (mentioned toy_user ?ixs) = set toy_account_keys"
    by (auto simp: mentioned_def template_instructions_def toy_statics_def toy_account_keys_def Let_def meta_def ro_def rw_def)
  moreover have "concat toy_head = [0x80, 0, 0, 0, 22] @ concat toy_account_keys"
    by (simp add: toy_head_def toy_account_keys_def concat_cut8)
  moreover have "length ?ixs = 7"
    by (simp add: template_instructions_def Let_def)
  ultimately show ?thesis
    by (simp add: toy_compile_def toy_pieces_def toy_body_blobs [of fee recipient])
qed

lemma piece_offsets_length: "length (piece_offsets o' n ps) = length (filter (\<lambda>p. p = n) ps)"
  by (induction ps arbitrary: o') auto

lemmas toy_message_bytes = toy_user_def toy_volume_def dummies key_constants D_SEED_def DISC_BUY_EXACT_SOL_IN_def cut8_def

text \<open>The first and the last byte of every piece.\<close>

definition toy_ends :: "(byte \<times> byte) list" where
  "toy_ends = [
    (128, 22), (3, 3), (0, 0), (172, 172), (6, 142), (224, 136), (207, 179), (68, 0), (168, 168), (3, 0), (166, 166),
    (167, 167), (161, 161), (1, 207), (68, 170), (81, 59), (101, 176), (58, 166), (170, 170), (162, 162), (163, 163),
    (165, 165), (172, 100), (250, 45), (99, 108), (3, 200), (131, 45), (117, 117), (111, 15), (12, 112), (164, 164),
    (171, 171), (169, 169), (7, 7), (0, 4), (4, 0), (0, 12), (2, 0), (51, 51), (0, 2), (144, 0), (0, 3), (68, 68),
    (0, 98), (3, 0), (3, 3), (6, 0), (177, 182), (240, 0), (165, 0), (167, 167), (0, 18), (3, 3), (0, 25), (56, 95),
    (17, 17), (34, 34), (0, 0), (0, 0)]"

lemma toy_pieces_ends: "map (\<lambda>p. (hd p, last p)) toy_pieces = toy_ends"
  by (simp add: toy_ends_def toy_pieces_def toy_head_def toy_body_def toy_message_bytes)

lemma toy_pieces_short: "list_all (\<lambda>p. p \<noteq> [] \<and> length p \<le> 32) toy_pieces"
  by (simp add: toy_pieces_def toy_head_def toy_body_def toy_message_bytes)

lemma toy_pieces_plain: "x \<in> {0x11, 0x22, 0x33, 0x44} \<Longrightarrow> list_all (\<lambda>p. length p \<le> 8 \<or> x \<notin> set p) toy_pieces"
  by (elim insertE; simp add: toy_pieces_def toy_head_def toy_body_def toy_message_bytes)

lemma toy_parted:
  assumes "successively (\<lambda>a b. snd a = x \<longrightarrow> fst b \<noteq> x) toy_ends" "list_all (\<lambda>p. length p \<le> k \<or> x \<notin> set p) toy_pieces"
  shows "parted k x toy_pieces"
proof -
  have "successively (\<lambda>a b. last a = x \<longrightarrow> hd b \<noteq> x) toy_pieces"
    using assms(1) unfolding toy_pieces_ends [symmetric] successively_map by simp
  then show ?thesis
    using assms(2) toy_pieces_short by (simp add: parted_def list_all_iff)
qed

lemma toy_piece_bound:
  "0 < k \<Longrightarrow> length (filter (\<lambda>p. p = replicate k x) toy_pieces) \<le> length (filter (\<lambda>e. e = (x, x)) toy_ends)"
proof -
  assume k: "0 < k"
  have imp: "length (filter P ps) \<le> length (filter Q ps)" if "\<And>p. P p \<Longrightarrow> Q p" for P Q and ps :: "bytes list"
    using that by (induction ps) (auto simp: le_SucI)
  have "length (filter (\<lambda>p. p = replicate k x) toy_pieces) \<le> length (filter (\<lambda>p. (hd p, last p) = (x, x)) toy_pieces)"
    using k by (intro imp) auto
  also have "\<dots> = length (filter (\<lambda>e. e = (x, x)) toy_ends)"
    unfolding toy_pieces_ends [symmetric] filter_map length_map comp_def ..
  finally show ?thesis .
qed

lemma toy_piece_count:
  assumes "length (filter (\<lambda>e. e = (x, x)) toy_ends) \<le> 1" "replicate k x \<in> set toy_pieces" "0 < k" "parted k x toy_pieces"
  shows "\<exists>p. find_field (concat toy_pieces) (replicate k x) = Some p"
proof -
  have "length (filter (\<lambda>p. p = replicate k x) toy_pieces) \<le> 1"
    using toy_piece_bound [OF assms(3), of x] assms(1) by simp
  moreover have "filter (\<lambda>p. p = replicate k x) toy_pieces \<noteq> []"
    using assms(2) by (auto simp: filter_empty_conv)
  ultimately have "length (piece_offsets 0 (replicate k x) toy_pieces) = 1"
    unfolding piece_offsets_length by (cases "filter (\<lambda>p. p = replicate k x) toy_pieces") auto
  then show ?thesis
    unfolding find_field_def using find_all_pieces [OF assms(4,3)]
    by (auto simp: find_unique_iff length_Suc_conv)
qed

lemma toy_found:
  assumes "x \<in> {0xA1, 0xA2, 0xA3, 0xA4, 0xA5, 0xA6, 0xA8, 0xA9, 0xAA, 0xAB, 0xAC}"
  shows "\<exists>p. find_field (concat toy_pieces) (dummy_key x) = Some p"
proof -
  have "list_all (\<lambda>p. length p \<le> 32 \<or> x \<notin> set p) toy_pieces"
    using toy_pieces_short by (simp add: list_all_iff)
  moreover have "successively (\<lambda>a b. snd a = x \<longrightarrow> fst b \<noteq> x) toy_ends" "length (filter (\<lambda>e. e = (x, x)) toy_ends) \<le> 1"
    using assms by (elim insertE; simp add: toy_ends_def)+
  moreover have "dummy_key x \<in> set toy_pieces"
    using assms by (elim insertE) (simp_all add: toy_pieces_def toy_head_def dummies)
  ultimately show ?thesis
    unfolding dummy_key_def by (intro toy_piece_count toy_parted) simp_all
qed

lemma toy_found_u64:
  assumes "x \<in> {0x11, 0x22, 0x33, 0x44}"
  shows "\<exists>p. find_field (concat toy_pieces) (replicate 8 x) = Some p"
proof -
  have "successively (\<lambda>a b. snd a = x \<longrightarrow> fst b \<noteq> x) toy_ends" "length (filter (\<lambda>e. e = (x, x)) toy_ends) \<le> 1"
    using assms by (elim insertE; simp add: toy_ends_def)+
  moreover have "replicate 8 x \<in> set toy_pieces"
    using assms by (elim insertE) (simp_all add: toy_pieces_def toy_body_def)
  ultimately show ?thesis
    using toy_pieces_plain [OF assms] by (intro toy_piece_count toy_parted) simp_all
qed

lemma toy_found_pair: "find_pair (concat toy_pieces) D_TOKEN_PROGRAM \<noteq> None"
proof -
  have "list_all (\<lambda>p. length p \<le> 32 \<or> 0xA7 \<notin> set p) toy_pieces"
    using toy_pieces_short by (simp add: list_all_iff)
  moreover have "successively (\<lambda>a b. snd a = 0xA7 \<longrightarrow> fst b \<noteq> 0xA7) toy_ends"
    by (simp add: toy_ends_def)
  ultimately have "parted 32 0xA7 toy_pieces"
    by (intro toy_parted)
  then have all: "find_all (concat toy_pieces) D_TOKEN_PROGRAM = piece_offsets 0 D_TOKEN_PROGRAM toy_pieces"
    unfolding D_TOKEN_PROGRAM_def dummy_key_def by (rule find_all_pieces) simp
  have "length (filter (\<lambda>p. p = D_TOKEN_PROGRAM) toy_pieces) \<le> 2"
    unfolding D_TOKEN_PROGRAM_def dummy_key_def by (rule order_trans [OF toy_piece_bound]) (simp_all add: toy_ends_def)
  moreover have "toy_pieces = take 11 toy_head @ D_TOKEN_PROGRAM # (drop 12 toy_head @ [D_NONCE_VALUE] @ take 17 toy_body) @ D_TOKEN_PROGRAM # drop 18 toy_body"
    by (simp add: toy_pieces_def toy_head_def toy_body_def cut8_def)
  then obtain as bs cs where "toy_pieces = as @ D_TOKEN_PROGRAM # bs @ D_TOKEN_PROGRAM # cs"
    by blast
  then have "2 \<le> length (filter (\<lambda>p. p = D_TOKEN_PROGRAM) toy_pieces)"
    by (elim ssubst) simp
  ultimately have "length (piece_offsets 0 D_TOKEN_PROGRAM toy_pieces) = 2"
    unfolding piece_offsets_length by simp
  with all show ?thesis
    unfolding find_pair_def by (auto simp: numeral_2_eq_2 length_Suc_conv)
qed

lemma toy_found_seed: "\<exists>p. find_field (concat toy_pieces) D_SEED = Some p"
proof -
  let ?a = "concat (toy_head @ [D_NONCE_VALUE] @ take 14 toy_body)" and ?b = "concat (drop 15 toy_body)"
  have "concat toy_pieces = ?a @ D_SEED @ ?b"
    by (simp add: toy_pieces_def toy_body_def)
  moreover have "0xB1 \<notin> set ?a \<union> set ?b"
    by (simp add: toy_head_def toy_body_def toy_message_bytes)
  ultimately have "find_all (concat toy_pieces) D_SEED = [length ?a]"
    using find_all_marked [of "0xB1" ?a ?b "[0xB2, 0xB3, 0xB4, 0xB5, 0xB6]"] by (simp add: D_SEED_def)
  then show ?thesis
    by (simp add: find_field_def find_unique_iff [symmetric])
qed

lemma toy_template_offsets: "\<exists>o'. find_offsets (concat toy_pieces) = Some o'"
  using toy_found [of "0xA1"] toy_found [of "0xA2"] toy_found [of "0xA3"] toy_found [of "0xA4"] toy_found [of "0xA5"]
    toy_found [of "0xA6"] toy_found [of "0xA8"] toy_found [of "0xA9"] toy_found [of "0xAA"] toy_found [of "0xAB"] toy_found [of "0xAC"]
    toy_found_u64 [of "0x11"] toy_found_u64 [of "0x22"] toy_found_u64 [of "0x33"] toy_found_u64 [of "0x44"] toy_found_pair toy_found_seed
  by (auto simp: find_offsets_def u64_dummies D_MINT_def D_CURVE_def D_ABC_def D_BCV2_def D_CREATOR_VAULT_def D_TOKEN_ACCOUNT_def
      D_TIP_ACCOUNT_def D_NONCE_VALUE_def D_FEE_RECIPIENT_def D_BUYBACK_RECIPIENT_def D_NONCE_ACCOUNT_def)

lemma toy_build:
  assumes "wf_key fee" "wf_key recipient"
  shows "\<exists>t. build_template toy_compile (toy_statics fee recipient) 90000 True = Some t"
proof -
  obtain o' where "find_offsets (concat toy_pieces) = Some o'"
    using toy_template_offsets by blast
  with toy_message [of fee recipient] show ?thesis
    by (intro build_template_defined [where msg = "concat toy_pieces"]) (simp_all add: toy_statics_def assms)
qed

section \<open>Properties\<close>

text \<open>
  C13: The fields patched per launch never overlap. In a template built with a compiler that keeps to the
  wire format of v0 messages, take all eighteen places that are patched at start, per launch or per
  provider: the sixteen single fields and both copies of the token program. Any values of the right
  lengths written to the recorded offsets are all read back, and the transaction keeps its length. So
  patching one field cannot corrupt another, and the two copies of the token program are two places.
\<close>

theorem template_fields_independent:
  assumes "build_template compile sa cu_limit exact_sol_in = Some t" "compiles_v0 compile"
    and "wf_key (sa_user sa)" "wf_key (sa_user_volume_accumulator sa)"
    and "map length vals = map (length \<circ> snd) (fields (tp_offsets t))"
  shows "\<exists>tx. patch_all (tp_tx t) (zip (map fst (fields (tp_offsets t))) vals) = Some tx
    \<and> length tx = length (tp_tx t)
    \<and> (\<forall>(p, u) \<in> set (zip (map fst (fields (tp_offsets t))) vals). at_pos tx p u)"
proof (rule patch_all_reads_back)
  let ?fs = "fields (tp_offsets t)"
  note built = build_template_fields [OF assms(1-4)]
  show "sorted_wrt apart (zip (map fst ?fs) vals)"
    using built(2) assms(5) by (rule apart_lengths)
  have len: "length vals = length ?fs"
    using assms(5) by (metis length_map)
  have "length (vals ! i) = length (snd (?fs ! i))" if "i < length ?fs" for i
    using assms(5) that len by (metis (no_types, lifting) comp_apply nth_map)
  then show "\<forall>(p, u) \<in> set (zip (map fst ?fs) vals). p + length u \<le> length (tp_tx t)"
    using built(1) len by (fastforce simp: in_set_zip in_set_conv_nth)
qed

theorem template_fields_independent_witness:
  "\<exists>t tx. build_template toy_compile (toy_statics zero_key zero_key) 90000 True = Some t
     \<and> patch_all (tp_tx t) (zip (map fst (fields (tp_offsets t))) (map (\<lambda>(p, u). replicate (length u) 7) (fields (tp_offsets t)))) = Some tx"
proof -
  obtain t where t: "build_template toy_compile (toy_statics zero_key zero_key) 90000 True = Some t"
    using toy_build [of zero_key zero_key] by (auto simp: wf_key_def zero_key_def)
  have "wf_key (sa_user (toy_statics zero_key zero_key))" "wf_key (sa_user_volume_accumulator (toy_statics zero_key zero_key))"
    by (simp_all add: toy_statics_def wf_key_def toy_user_def toy_volume_def)
  from template_fields_independent [OF t toy_compile_v0 this, of "map (\<lambda>(p, u). replicate (length u) 7) (fields (tp_offsets t))"] t
  show ?thesis
    by (auto simp: comp_def split_def)
qed

text \<open>
  Every launch of a run gets its own token account seed. For any starting counter, including
  one whose addition wraps around 32 bits, the first 65536 seeds are pairwise different, each is
  six ASCII digits, and every entry of the table pairs a seed with the addresses derived from it
  under both token programs.
\<close>

theorem seed_table_distinct:
  assumes "SeedTable_build create_with_seed buyer start len = Inr st" "len \<le> 65536"
  shows "distinct (st_seeds st) \<and> length (st_seeds st) = len
    \<and> (\<forall>s \<in> set (st_seeds st). length s = 6 \<and> (\<forall>b \<in> set s. 48 \<le> unat b \<and> unat b \<le> 57))
    \<and> (\<forall>k < len. \<forall>program. \<exists>seed a. SeedTable_get st k program = Some (seed, a)
        \<and> create_with_seed buyer seed
            (if program = TOKEN_2022_PROGRAM then TOKEN_2022_PROGRAM else TOKEN_PROGRAM) = Some a)"
proof -
  let ?seed = "\<lambda>i. seed_bytes ((start + of_nat i) mod 1000000)"
  obtain as bs where st: "st_seeds st = map ?seed [0 ..< len]" "st_token_2022 st = as" "st_token_classic st = bs"
    "length as = len" "length bs = len"
    and addr: "\<forall>k < len. create_with_seed buyer (?seed k) TOKEN_2022_PROGRAM = Some (as ! k)
      \<and> create_with_seed buyer (?seed k) TOKEN_PROGRAM = Some (bs ! k)"
    using seed_table_loop_ok [OF assms(1) [unfolded SeedTable_build_def]] by (auto simp: Let_def)
  have u: "unat ((start + of_nat i) mod 1000000) mod 1000000 = (unat start + i) mod 2 ^ 32 mod 1000000"
    if "i < len" for i
    using that assms(2) by (simp add: unat_mod unat_word_ariths unat_of_nat)
  have s: "unat start < 2 ^ 32"
    using unat_lt_length [of start] by simp
  have "inj_on ?seed {0 ..< len}"
  proof (rule inj_onI, rule ccontr)
    fix i j assume ij: "i \<in> {0 ..< len}" "j \<in> {0 ..< len}" "?seed i = ?seed j" "i \<noteq> j"
    then have "(unat start + i) mod 2 ^ 32 mod 1000000 = (unat start + j) mod 2 ^ 32 mod 1000000"
      using seed_bytes_inject [OF ij(3)] u [of i] u [of j] by simp
    then show False
      using ij assms(2) wrapped_residues_differ [OF s, of i j] wrapped_residues_differ [OF s, of j i]
      by (cases "i < j") auto
  qed
  then have "distinct (st_seeds st)"
    by (simp add: st distinct_map)
  moreover have "length w = 6 \<and> (\<forall>b \<in> set w. 48 \<le> unat b \<and> unat b \<le> 57)" if "w \<in> set (st_seeds st)" for w
    using that nat_digits_bound by (fastforce simp: st seed_bytes_eq)
  moreover have "\<exists>seed a. SeedTable_get st k program = Some (seed, a) \<and> create_with_seed buyer seed
            (if program = TOKEN_2022_PROGRAM then TOKEN_2022_PROGRAM else TOKEN_PROGRAM) = Some a" if "k < len" for k program
    using that addr by (auto simp: SeedTable_get_def st get_at_def Let_def)
  ultimately show ?thesis
    by (simp add: st(1))
qed

theorem seed_table_distinct_witness:
  "\<exists>st. SeedTable_build (\<lambda>b s p. Some (s @ drop 6 b)) (replicate 32 9) 4294967294 4 = Inr st
     \<and> distinct (st_seeds st)"
proof -
  have "\<exists>st'. seed_table_loop (\<lambda>b s p. Some (s @ drop 6 b)) buyer start is st = Inr st'" for buyer start "is" st
    by (induction "is" arbitrary: st) (simp_all add: Let_def)
  then obtain st where "SeedTable_build (\<lambda>b s p. Some (s @ drop 6 b)) (replicate 32 9) 4294967294 4 = Inr st"
    unfolding SeedTable_build_def by blast
  with seed_table_distinct [OF this] show ?thesis
    by auto
qed

end
