(* ===== verification/RustText.thy ===== *)
theory RustText
  imports Prelude
begin

text \<open>
  The parts of Rust's text handling the configuration and table loaders use: a \<open>str\<close> as its list
  of Unicode code points, \<open>lines\<close>, \<open>trim\<close>, \<open>split_whitespace\<close>, \<open>parse::<u64>\<close>, reads of the
  environment, and the conversions of \<open>f64\<close> to integers. Multiplication of floats is a parameter
  (\<open>fmul\<close>) of whatever uses it; it stands for the processor's IEEE-754 operation.

  The locale \<open>lookup_table\<close> is the interface of the hash tables the loaders fill. It is
  interpreted on maps, the model of \<open>HashMap\<close>, and gives what a table built line by line holds.
\<close>

section \<open>Strings\<close>

type_synonym ustr = "nat list"

definition str_of :: "string \<Rightarrow> ustr" where
  "str_of s = map of_char s"

text \<open>\<open>char::is_whitespace\<close>: the Unicode property White_Space.\<close>

definition is_ws :: "nat \<Rightarrow> bool" where
  "is_ws c \<longleftrightarrow> 9 \<le> c \<and> c \<le> 13 \<or> c = 32 \<or> c = 0x85 \<or> c = 0xA0 \<or> c = 0x1680
     \<or> 0x2000 \<le> c \<and> c \<le> 0x200A \<or> c = 0x2028 \<or> c = 0x2029 \<or> c = 0x202F \<or> c = 0x205F \<or> c = 0x3000"

definition trim :: "ustr \<Rightarrow> ustr" where
  "trim s = rev (dropWhile is_ws (rev (dropWhile is_ws s)))"

definition strip_cr :: "ustr \<Rightarrow> ustr" where
  "strip_cr l = (if l \<noteq> [] \<and> last l = 13 then butlast l else l)"

text \<open>\<open>str::lines\<close>: a final line without terminator counts, an empty rest after the last one does not.\<close>

fun lines_from :: "ustr \<Rightarrow> ustr \<Rightarrow> ustr list" where
  "lines_from cur [] = (if cur = [] then [] else [cur])"
| "lines_from cur (c # cs) =
     (if c = 10 then strip_cr cur # lines_from [] cs else lines_from (cur @ [c]) cs)"

definition lines :: "ustr \<Rightarrow> ustr list" where
  "lines s = lines_from [] s"

text \<open>\<open>line.split('#').next().unwrap_or("")\<close>\<close>

definition before_hash :: "ustr \<Rightarrow> ustr" where
  "before_hash l = takeWhile (\<lambda>c. c \<noteq> 35) l"

fun tokens_from :: "ustr \<Rightarrow> ustr \<Rightarrow> ustr list" where
  "tokens_from cur [] = (if cur = [] then [] else [cur])"
| "tokens_from cur (c # cs) =
     (if is_ws c then (if cur = [] then tokens_from [] cs else cur # tokens_from [] cs)
      else tokens_from (cur @ [c]) cs)"

definition split_whitespace :: "ustr \<Rightarrow> ustr list" where
  "split_whitespace s = tokens_from [] s"

text \<open>\<open>split(c)\<close> gives at least one part; \<open>split_once(c)\<close> needs the separator.\<close>

fun split_char :: "nat \<Rightarrow> ustr \<Rightarrow> ustr \<Rightarrow> ustr list" where
  "split_char sep cur [] = [cur]"
| "split_char sep cur (c # cs) = (if c = sep then cur # split_char sep [] cs else split_char sep (cur @ [c]) cs)"

definition split_once :: "nat \<Rightarrow> ustr \<Rightarrow> (ustr \<times> ustr) option" where
  "split_once sep s =
     (let a = takeWhile (\<lambda>c. c \<noteq> sep) s in if length a < length s then Some (a, drop (length a + 1) s) else None)"

section \<open>Numbers\<close>

fun digits_value :: "nat \<Rightarrow> ustr \<Rightarrow> nat option" where
  "digits_value acc [] = Some acc"
| "digits_value acc (c # cs) =
     (if 48 \<le> c \<and> c \<le> 57 then digits_value (10 * acc + (c - 48)) cs else None)"

text \<open>\<open>u64::from_str\<close>: an optional plus sign, at least one digit, no overflow.\<close>

definition parse_u64 :: "ustr \<Rightarrow> u64 option" where
  "parse_u64 s =
     (let ds = (case s of [] \<Rightarrow> [] | c # cs \<Rightarrow> if c = 43 then cs else s)
      in if ds = [] then None
         else do { n \<leftarrow> digits_value 0 ds; if n < 2 ^ 64 then Some (of_nat n) else None })"

text \<open>\<open>f64::round\<close> (half away from zero) and the saturating cast \<open>as u64\<close>.\<close>

definition rat_round :: "rat \<Rightarrow> int" where
  "rat_round r = (if r \<ge> 0 then \<lfloor>r + 1 / 2\<rfloor> else - \<lfloor>1 / 2 - r\<rfloor>)"

lemma rat_round_numeral [simp]: "rat_round (numeral k) = numeral k"
proof -
  have "\<lfloor>numeral k + 1 / 2 :: rat\<rfloor> = numeral k"
  proof (rule floor_unique)
    show "(numeral k :: rat) + 1 / 2 < of_int (numeral k) + 1"
      by (simp only: of_int_numeral add_less_cancel_left)
  qed simp
  then show ?thesis
    by (simp add: rat_round_def del: add_divide_eq_iff add_divide_eq_if_simps)
qed

fun f64_round :: "f64 \<Rightarrow> f64" where
  "f64_round (Fin r) = Fin (of_int (rat_round r))"
| "f64_round x = x"

fun f64_to_u64 :: "f64 \<Rightarrow> u64" where
  "f64_to_u64 NaN = 0"
| "f64_to_u64 NegInf = 0"
| "f64_to_u64 PosInf = - 1"
| "f64_to_u64 (Fin r) = (if r \<le> 0 then 0 else if r \<ge> 2 ^ 64 then - 1 else of_int \<lfloor>r\<rfloor>)"

fun f64_to_u16 :: "f64 \<Rightarrow> u16" where
  "f64_to_u16 NaN = 0"
| "f64_to_u16 NegInf = 0"
| "f64_to_u16 PosInf = - 1"
| "f64_to_u16 (Fin r) = (if r \<le> 0 then 0 else if r \<ge> 2 ^ 16 then - 1 else of_int \<lfloor>r\<rfloor>)"

text \<open>\<open>v.clamp(0.0, 1.0)\<close>; NaN stays NaN.\<close>

fun f64_clamp01 :: "f64 \<Rightarrow> f64" where
  "f64_clamp01 NaN = NaN"
| "f64_clamp01 NegInf = Fin 0"
| "f64_clamp01 PosInf = Fin 1"
| "f64_clamp01 (Fin r) = Fin (if r < 0 then 0 else if 1 < r then 1 else r)"

section \<open>The environment\<close>

type_synonym env = "string \<rightharpoonup> ustr"

definition env_u64 :: "env \<Rightarrow> string \<Rightarrow> u64 \<Rightarrow> u64" where
  "env_u64 env key d =
     (case env key of None \<Rightarrow> d
      | Some v \<Rightarrow> (case parse_u64 (trim v) of None \<Rightarrow> d | Some n \<Rightarrow> n))"

definition env_f64 :: "(ustr \<Rightarrow> f64 option) \<Rightarrow> env \<Rightarrow> string \<Rightarrow> f64 \<Rightarrow> f64" where
  "env_f64 parse_f64 env key d =
     (case env key of None \<Rightarrow> d
      | Some v \<Rightarrow> (case parse_f64 (trim v) of None \<Rightarrow> d | Some x \<Rightarrow> x))"

definition LAMPORTS_PER_SOL :: f64 where
  "LAMPORTS_PER_SOL = Fin 1000000000"

definition sol_env ::
  "(ustr \<Rightarrow> f64 option) \<Rightarrow> (f64 \<Rightarrow> f64 \<Rightarrow> f64) \<Rightarrow> env \<Rightarrow> string \<Rightarrow> f64 \<Rightarrow> u64" where
  "sol_env parse_f64 fmul env key default_sol =
     f64_to_u64 (f64_round (fmul (env_f64 parse_f64 env key default_sol) LAMPORTS_PER_SOL))"

text \<open>Exact multiplication of finite values, an instance of \<open>fmul\<close> for concrete evaluations.\<close>

fun exact_fmul :: "f64 \<Rightarrow> f64 \<Rightarrow> f64" where
  "exact_fmul (Fin a) (Fin b) = Fin (a * b)"
| "exact_fmul _ _ = NaN"

section \<open>Hash tables\<close>

text \<open>
  A loader folds over lines; a line is ignored (\<open>None\<close>), counted as skipped (\<open>Some None\<close>) or
  gives an entry.
\<close>

definition load_line ::
  "('k \<Rightarrow> 'v \<Rightarrow> 't \<Rightarrow> 't) \<Rightarrow> ('l \<Rightarrow> ('k \<times> 'v) option option) \<Rightarrow> 'l \<Rightarrow> 't \<times> nat \<Rightarrow> 't \<times> nat" where
  "load_line put classify l = (\<lambda>(t, skipped).
     case classify l of
       None \<Rightarrow> (t, skipped)
     | Some None \<Rightarrow> (t, skipped + 1)
     | Some (Some (k, v)) \<Rightarrow> (put k v t, skipped))"

locale lookup_table =
  fixes empty :: 't
    and put :: "'k \<Rightarrow> 'v \<Rightarrow> 't \<Rightarrow> 't"
    and get :: "'t \<Rightarrow> 'k \<Rightarrow> 'v option"
  assumes get_empty: "get empty k = None"
    and get_put: "get (put k v t) k' = (if k' = k then Some v else get t k')"
begin

lemma load_get:
  "get (fst (fold (load_line put classify) ls (t, n))) k =
     (case find (\<lambda>l. \<exists>v. classify l = Some (Some (k, v))) (rev ls) of
        None \<Rightarrow> get t k
      | Some l \<Rightarrow> map_option snd (the (classify l)))"
proof (induction ls arbitrary: t n)
  case (Cons l ls)
  have find_snoc: "find P (xs @ [x]) = (case find P xs of None \<Rightarrow> if P x then Some x else None | Some y \<Rightarrow> Some y)"
    for P and xs :: "'l list" and x
    by (induction xs) auto
  show ?case
    using Cons.IH
    by (auto simp: find_snoc load_line_def get_put split: option.splits prod.splits)
qed simp

lemma load_skipped:
  "snd (fold (load_line put classify) ls (t, n)) = n + length (filter (\<lambda>l. classify l = Some None) ls)"
  by (induction ls arbitrary: t n) (auto simp: load_line_def split: option.splits)

end

text \<open>\<open>HashMap\<close> as a map; \<open>len\<close> is the size of its domain.\<close>

definition map_put :: "'k \<Rightarrow> 'v \<Rightarrow> ('k \<rightharpoonup> 'v) \<Rightarrow> ('k \<rightharpoonup> 'v)" where
  "map_put k v m = m(k \<mapsto> v)"

interpretation hash_map: lookup_table Map.empty map_put "\<lambda>m. m"
  by unfold_locales (auto simp: map_put_def)

end
