(* ===== verification/Config.thy ===== *)
theory Config
  imports RustText Bytes
begin

text \<open>
  \<open>sniper/src/config.rs\<close>: the provider and sniper configuration, the endpoints a provider expands
  to, the datagram key, the tip accounts, and the environment overrides. A \<open>String\<close> is its UTF-8
  bytes. Decoding the JSON file is serde's and not modelled; the defaults it fills in are.
\<close>

section \<open>Providers\<close>

datatype BodyFormat = JsonRpc | Wrapped | WrappedBlox | PlainTx | Batch | Binary | LenPrefixedBinary | UdpRaw

definition is_udp :: "BodyFormat \<Rightarrow> bool" where
  "is_udp f \<longleftrightarrow> f = UdpRaw"

definition is_raw_bytes :: "BodyFormat \<Rightarrow> bool" where
  "is_raw_bytes f \<longleftrightarrow> f = Binary \<or> f = LenPrefixedBinary \<or> f = UdpRaw"

record ProviderConfig =
  pc_name :: bytes
  pc_hosts :: "bytes list"
  pc_host :: bytes
  pc_port :: u16
  pc_path :: bytes
  pc_tls :: bool
  pc_body :: BodyFormat
  pc_headers :: "(bytes \<times> bytes) list"
  pc_tip_accounts :: "bytes list"
  pc_tip_account :: bytes
  pc_tip_lamports :: u64
  pc_cu_price :: u64
  pc_health_path :: bytes
  pc_udp_prefix :: bytes
  pc_enabled :: bool

text \<open>\<open>h.find('/')\<close> splits a host from the path it carries; the slash, byte 47, stays with the path.\<close>

definition split_host :: "bytes \<Rightarrow> bytes \<Rightarrow> bytes \<times> bytes" where
  "split_host path h =
     (if 47 \<in> set h then (takeWhile (\<lambda>c. c \<noteq> 47) h, dropWhile (\<lambda>c. c \<noteq> 47) h) else (h, path))"

definition endpoints :: "ProviderConfig \<Rightarrow> (bytes \<times> bytes) list" where
  "endpoints c =
     (let all = pc_hosts c @ (if pc_host c \<noteq> [] then [pc_host c] else [])
      in map (split_host (pc_path c)) all)"

definition hex_digit :: "byte \<Rightarrow> byte option" where
  "hex_digit c =
     (if 48 \<le> c \<and> c \<le> 57 then Some (c - 48)
      else if 97 \<le> c \<and> c \<le> 102 then Some (c - 87)
      else if 65 \<le> c \<and> c \<le> 70 then Some (c - 55)
      else None)"

text \<open>
  \<open>u8::from_str_radix(s, 16)\<close> on two bytes: a leading plus sign is skipped, as for every integer
  parse of the standard library. Two bytes that are not UTF-8 are an error too.
\<close>

definition from_hex_pair :: "byte \<Rightarrow> byte \<Rightarrow> byte option" where
  "from_hex_pair a b =
     (if a = 43 then hex_digit b
      else do { x \<leftarrow> hex_digit a; y \<leftarrow> hex_digit b; Some (16 * x + y) })"

fun from_hex :: "bytes \<Rightarrow> bytes option" where
  "from_hex (a # b # cs) = do { x \<leftarrow> from_hex_pair a b; xs \<leftarrow> from_hex cs; Some (x # xs) }"
| "from_hex cs = Some []"

datatype ConfigError = OddPrefix | BadPrefix | NoTipAccounts | BadTipAccount bytes

definition udp_prefix_bytes :: "ProviderConfig \<Rightarrow> ConfigError + bytes" where
  "udp_prefix_bytes c =
     (if pc_udp_prefix c = [] then Inr []
      else if length (pc_udp_prefix c) mod 2 \<noteq> 0 then Inl OddPrefix
      else case from_hex (pc_udp_prefix c) of None \<Rightarrow> Inl BadPrefix | Some bs \<Rightarrow> Inr bs)"

fun parse_keys :: "(bytes \<Rightarrow> pubkey option) \<Rightarrow> bytes list \<Rightarrow> ConfigError + pubkey list" where
  "parse_keys parse_key [] = Inr []"
| "parse_keys parse_key (s # ss) =
     (case parse_key s of
        None \<Rightarrow> Inl (BadTipAccount s)
      | Some k \<Rightarrow> (case parse_keys parse_key ss of Inl e \<Rightarrow> Inl e | Inr ks \<Rightarrow> Inr (k # ks)))"

definition tip_account_bytes :: "(bytes \<Rightarrow> pubkey option) \<Rightarrow> ProviderConfig \<Rightarrow> ConfigError + pubkey list" where
  "tip_account_bytes parse_key c =
     (let all = pc_tip_accounts c @ (if pc_tip_account c \<noteq> [] then [pc_tip_account c] else [])
      in if all = [] then Inl NoTipAccounts else parse_keys parse_key all)"

section \<open>The sniper\<close>

record SniperConfig =
  sc_keypair_path :: bytes
  sc_whitelist_path :: bytes
  sc_whitelist_disabled :: bool
  sc_rpc_url :: bytes
  sc_nonce_accounts :: "bytes list"
  sc_buy_lamports :: u64
  sc_max_dev_buy_lamports :: u64
  sc_haircut_bps :: u64
  sc_slippage_bps :: u64
  sc_cu_limit :: u32
  sc_nonce_refresh_ms :: u64
  sc_sender_spin_micros :: u64
  sc_max_endpoint_ms :: u64
  sc_min_endpoints :: nat
  sc_sync_mode :: bool
  sc_test_mode :: bool
  sc_test_trips :: u32
  sc_ghost_mode :: bool
  sc_hold_ms :: u64
  sc_position_poll_ms :: u64
  sc_buy_timeout_ms :: u64
  sc_dry_run :: bool
  sc_providers :: "ProviderConfig list"

text \<open>The required fields and the default of every other.\<close>

definition SniperConfig_default :: "bytes \<Rightarrow> bytes \<Rightarrow> ProviderConfig list \<Rightarrow> SniperConfig" where
  "SniperConfig_default keypair_path rpc_url providers = \<lparr>
     sc_keypair_path = keypair_path, sc_whitelist_path = [], sc_whitelist_disabled = False,
     sc_rpc_url = rpc_url, sc_nonce_accounts = [], sc_buy_lamports = 1000000000,
     sc_max_dev_buy_lamports = 0, sc_haircut_bps = 30, sc_slippage_bps = 100, sc_cu_limit = 90000,
     sc_nonce_refresh_ms = 300, sc_sender_spin_micros = 2000000, sc_max_endpoint_ms = 20,
     sc_min_endpoints = 2, sc_sync_mode = True, sc_test_mode = False, sc_test_trips = 1,
     sc_ghost_mode = False, sc_hold_ms = 1600, sc_position_poll_ms = 200,
     sc_buy_timeout_ms = 30000, sc_dry_run = False, sc_providers = providers\<rparr>"

definition parse_u32 :: "ustr \<Rightarrow> u32 option" where
  "parse_u32 s = do { n \<leftarrow> parse_u64 s; if unat n < 2 ^ 32 then Some (ucast n) else None }"

definition env_num :: "env \<Rightarrow> string \<Rightarrow> u64 option" where
  "env_num env key = do { v \<leftarrow> env key; parse_u64 (trim v) }"

definition env_flag :: "env \<Rightarrow> string \<Rightarrow> bool option" where
  "env_flag env key = map_option (\<lambda>v. trim v = str_of ''1'') (env key)"

text \<open>\<open>if let Some(v) = ... { field = v }\<close>\<close>

definition override :: "'a option \<Rightarrow> ('a \<Rightarrow> 'c \<Rightarrow> 'c) \<Rightarrow> 'c \<Rightarrow> 'c" where
  "override x upd c = (case x of None \<Rightarrow> c | Some v \<Rightarrow> upd v c)"

definition apply_env_overrides :: "env \<Rightarrow> SniperConfig \<Rightarrow> SniperConfig" where
  "apply_env_overrides env c =
     (let c = override (env_num env ''SNIPER_BUY_LAMPORTS'') (\<lambda>v c. c\<lparr>sc_buy_lamports := v\<rparr>) c;
          c = override (env_num env ''SNIPER_MAX_DEV_BUY_LAMPORTS'') (\<lambda>v c. c\<lparr>sc_max_dev_buy_lamports := v\<rparr>) c;
          c = override (env_num env ''SNIPER_HAIRCUT_BPS'') (\<lambda>v c. c\<lparr>sc_haircut_bps := v\<rparr>) c;
          c = override (env_num env ''SNIPER_SLIPPAGE_BPS'') (\<lambda>v c. c\<lparr>sc_slippage_bps := v\<rparr>) c;
          c = override (env_num env ''SNIPER_CU_LIMIT'') (\<lambda>v c. c\<lparr>sc_cu_limit := ucast v\<rparr>) c;
          c = override (env_num env ''SNIPER_HOLD_MS'') (\<lambda>v c. c\<lparr>sc_hold_ms := v\<rparr>) c;
          c = override (env_num env ''SNIPER_POSITION_POLL_MS'') (\<lambda>v c. c\<lparr>sc_position_poll_ms := v\<rparr>) c;
          c = override (env_num env ''SNIPER_BUY_TIMEOUT_MS'') (\<lambda>v c. c\<lparr>sc_buy_timeout_ms := v\<rparr>) c;
          c = override (env_num env ''SNIPER_NONCE_REFRESH_MS'') (\<lambda>v c. c\<lparr>sc_nonce_refresh_ms := v\<rparr>) c;
          c = override (env ''SNIPER_SYNC_MODE'') (\<lambda>v c. c\<lparr>sc_sync_mode := (trim v \<noteq> str_of ''0'')\<rparr>) c;
          c = override (env_flag env ''SNIPER_TEST_MODE'') (\<lambda>v c. c\<lparr>sc_test_mode := v\<rparr>) c;
          c = override (Option.bind (env ''SNIPER_TEST_TRIPS'') (\<lambda>v. parse_u32 (trim v)))
                (\<lambda>v c. c\<lparr>sc_test_trips := v\<rparr>) c;
          c = override (env_flag env ''SNIPER_GHOST_MODE'') (\<lambda>v c. c\<lparr>sc_ghost_mode := v\<rparr>) c
      in override (env_flag env ''SNIPER_DRY_RUN'') (\<lambda>v c. c\<lparr>sc_dry_run := v\<rparr>) c)"

section \<open>Lemmas\<close>

lemma split_host_parts:
  assumes "split_host path h = (host, p)"
  shows "47 \<notin> set host \<and> (if 47 \<in> set h then host @ p = h \<and> hd p = 47 else host = h \<and> p = path)"
proof (cases "47 \<in> set h")
  case True
  moreover have "hd (dropWhile (\<lambda>c. c \<noteq> 47) h) = 47"
    using True by (induction h) auto
  ultimately show ?thesis
    using assms by (auto simp: split_host_def dest: set_takeWhileD)
qed (use assms in \<open>auto simp: split_host_def\<close>)

definition hex_char :: "byte \<Rightarrow> byte" where
  "hex_char n = (if n < 10 then n + 48 else n + 87)"

definition to_hex :: "bytes \<Rightarrow> bytes" where
  "to_hex bs = concat (map (\<lambda>b. [hex_char (b div 16), hex_char (b mod 16)]) bs)"

lemma hex_digit_char: "n < 16 \<Longrightarrow> hex_digit (hex_char n) = Some n \<and> hex_char n \<noteq> 43"
proof -
  assume "n < 16"
  then have "unat n < 16"
    by (simp add: word_less_nat_alt)
  then have "unat n \<in> {0, 1, 2, 3, 4, 5, 6, 7, 8, 9, 10, 11, 12, 13, 14, 15}"
    unfolding insert_iff empty_iff by presburger
  then have "of_nat (unat n) \<in> (of_nat ` {0, 1, 2, 3, 4, 5, 6, 7, 8, 9, 10, 11, 12, 13, 14, 15} :: byte set)"
    by (rule imageI)
  then have "n \<in> {0, 1, 2, 3, 4, 5, 6, 7, 8, 9, 10, 11, 12, 13, 14, 15}"
    by simp
  then show ?thesis
    by (elim insertE emptyE) (simp_all add: hex_digit_def hex_char_def)
qed

lemma from_to_hex: "from_hex (to_hex bs) = Some bs"
proof (induction bs)
  case (Cons b bs)
  have "unat (b div 16) < 16" "unat (b mod 16) < 16"
    using unat_byte_less [of b] by (simp_all add: unat_div unat_mod less_mult_imp_div_less del: unat_byte_less)
  then have d: "b div 16 < 16" "b mod 16 < 16"
    by (simp_all add: word_less_nat_alt)
  have "16 * (b div 16) + b mod 16 = b"
    by (metis mult_div_mod_eq)
  with Cons d show ?case
    by (simp add: to_hex_def from_hex_pair_def hex_digit_char)
qed (simp add: to_hex_def)

lemma parse_keys_Inr:
  "parse_keys parse_key ss = Inr ks \<longleftrightarrow> map parse_key ss = map Some ks"
proof (induction ss arbitrary: ks)
  case (Cons s ss)
  show ?case
  proof (cases "parse_keys parse_key ss")
    case (Inl e)
    then have "map parse_key ss \<noteq> map Some ks'" for ks'
      using Cons.IH by simp
    with Inl show ?thesis
      by (cases ks) (auto split: option.splits)
  next
    case (Inr ks')
    then show ?thesis
      using Cons.IH [of ks'] by (cases ks) (auto split: option.splits)
  qed
qed auto

lemma udp_prefix_round_trip: "udp_prefix_bytes (c\<lparr>pc_udp_prefix := to_hex key\<rparr>) = Inr key"
proof -
  have "length (to_hex key) mod 2 = 0"
    by (induction key) (simp_all add: to_hex_def)
  then show ?thesis
    using from_to_hex [of key] by (auto simp: udp_prefix_bytes_def to_hex_def)
qed

text \<open>A sign passes as a hex digit, so a malformed key can be taken for a good one.\<close>

lemma udp_prefix_accepts_sign: "udp_prefix_bytes (c\<lparr>pc_udp_prefix := [43, 97]\<rparr>) = Inr [10]"
  by (simp add: udp_prefix_bytes_def from_hex_pair_def hex_digit_def)

lemma endpoints_split:
  "(host, path) \<in> set (endpoints c) \<Longrightarrow>
     47 \<notin> set host \<and> (host @ path \<in> set (pc_hosts c @ [pc_host c]) \<and> hd path = 47
       \<or> host \<in> set (pc_hosts c @ [pc_host c]) \<and> path = pc_path c)"
proof -
  assume "(host, path) \<in> set (endpoints c)"
  then obtain h where h: "h \<in> set (pc_hosts c @ [pc_host c])" "split_host (pc_path c) h = (host, path)"
    by (simp add: endpoints_def Let_def image_iff split: if_splits) metis+
  from split_host_parts [OF h(2)] h(1) show ?thesis
    by (auto split: if_splits)
qed

lemma tip_account_bytes_nonempty: "tip_account_bytes parse_key c = Inr ks \<Longrightarrow> ks \<noteq> []"
  by (auto simp: tip_account_bytes_def Let_def parse_keys_Inr split: if_splits)

end
