(* ===== verification/Sender.thy ===== *)
theory Sender
  imports Template Config
begin

text \<open>
  \<open>sniper/src/sender.rs\<close> and \<open>sniper/src/batch_write.rs\<close>: one thread per provider that stamps, signs
  and writes a launch to every endpoint of its provider.

  Shared bodies (\<open>Arc<TxBuf>\<close>) live in an explicit store with reference counts, since what the
  detect thread may overwrite depends on who still holds a body. Sockets are inputs: a step of
  the thread takes the outcomes of the writes and reads it performs, and its effect on endpoints
  and counters is computed from them. Signing and base64 are parameters.
\<close>

section \<open>Bodies and jobs\<close>

definition MAX_TX :: nat where "MAX_TX = 1232"

record TxBuf =
  tb_len :: u16
  tb_tx :: bytes

definition TxBuf_default :: TxBuf where
  "TxBuf_default = \<lparr>tb_len = 0, tb_tx = replicate MAX_TX 0\<rparr>"

text \<open>The heap of \<open>Arc\<close>s: contents, strong counts, and the next unused address.\<close>

record bodies =
  bd_buf :: "nat \<Rightarrow> TxBuf"
  bd_refs :: "nat \<Rightarrow> nat"
  bd_next :: nat

definition arc_new :: "TxBuf \<Rightarrow> bodies \<Rightarrow> nat \<times> bodies" where
  "arc_new b h = (bd_next h, h\<lparr>bd_buf := (bd_buf h)(bd_next h := b),
     bd_refs := (bd_refs h)(bd_next h := 1), bd_next := bd_next h + 1\<rparr>)"

definition arc_clone :: "nat \<Rightarrow> bodies \<Rightarrow> bodies" where
  "arc_clone a h = h\<lparr>bd_refs := (bd_refs h)(a := bd_refs h a + 1)\<rparr>"

definition arc_drop :: "nat \<Rightarrow> bodies \<Rightarrow> bodies" where
  "arc_drop a h = h\<lparr>bd_refs := (bd_refs h)(a := bd_refs h a - 1)\<rparr>"

record Job =
  job_base :: nat
  job_tip_account :: pubkey
  job_tip_lamports :: u64
  job_cu_price :: u64

record SenderMetrics =
  sm_sent :: u64
  sm_send_errors :: u64
  sm_reconnects :: u64
  sm_dropped_full :: u64
  sm_rejected :: u64
  sm_skipped_cold :: u64

record TipOffsets =
  to_tip_account :: nat
  to_tip_lamports :: nat
  to_cu_price :: nat

text \<open>
  The handle the detect thread holds, with the bounded channel behind it; \<open>ph_open\<close> is whether
  the receiving thread still runs.
\<close>

record ProviderHandle =
  ph_queue :: "Job list"
  ph_depth :: nat
  ph_open :: bool
  ph_dropped_full :: u64
  ph_tip_accounts :: "pubkey list"
  ph_tip_lamports :: u64
  ph_cu_price :: u64
  ph_endpoint_count :: nat

text \<open>\<open>try_send\<close> takes the job; a job it cannot queue is dropped, and with it its hold on the body.\<close>

definition try_send :: "Job \<Rightarrow> ProviderHandle \<Rightarrow> bodies \<Rightarrow> ProviderHandle \<times> bodies" where
  "try_send job p h =
     (if ph_open p \<and> length (ph_queue p) < ph_depth p then (p\<lparr>ph_queue := ph_queue p @ [job]\<rparr>, h)
      else (p\<lparr>ph_dropped_full := ph_dropped_full p + 1\<rparr>, arc_drop (job_base job) h))"

section \<open>Endpoints\<close>

datatype Conn = Plain | Tls | Udp

record Endpoint =
  ep_host :: bytes
  ep_udp :: bool
  ep_head :: bytes
  ep_health :: bytes
  ep_conn :: "Conn option"
  ep_request :: bytes
  ep_awaiting :: "bool list"
  ep_consecutive_rejects :: u32

definition MAX_AWAITING :: nat where "MAX_AWAITING = 64"

text \<open>Whether the endpoint can go through the batch writer.\<close>

definition raw_fd :: "Endpoint \<Rightarrow> bool" where
  "raw_fd ep = (case ep_conn ep of Some Plain \<Rightarrow> True | Some Udp \<Rightarrow> True | _ \<Rightarrow> False)"

definition CRLF :: bytes where "CRLF = [13, 10]"

definition build_request :: "bytes \<Rightarrow> bytes \<Rightarrow> Endpoint \<Rightarrow> Endpoint" where
  "build_request length_digits body ep =
     ep\<lparr>ep_request :=
       (if ep_udp ep then body
        else ep_head ep @ ascii ''Content-Length: '' @ length_digits @ CRLF @ CRLF @ body)\<rparr>"

definition expect_reply :: "bool \<Rightarrow> Endpoint \<Rightarrow> Endpoint" where
  "expect_reply probe ep =
     ep\<lparr>ep_awaiting := (if length (ep_awaiting ep) \<ge> MAX_AWAITING then [] else ep_awaiting ep) @ [probe]\<rparr>"

text \<open>
  \<open>connect\<close>: \<open>ok\<close> is whether resolving and the socket calls succeeded. Only a stream connection
  forgets the replies it waited for.
\<close>

definition connect :: "bool \<Rightarrow> bool \<Rightarrow> Endpoint \<Rightarrow> bool \<times> Endpoint" where
  "connect tls ok ep =
     (if \<not> ok then (False, ep)
      else if ep_udp ep then (True, ep\<lparr>ep_conn := Some Udp\<rparr>)
      else (True, ep\<lparr>ep_conn := Some (if tls then Tls else Plain), ep_awaiting := []\<rparr>))"

section \<open>Reading replies\<close>

definition is_digit :: "byte \<Rightarrow> bool" where
  "is_digit c \<longleftrightarrow> 48 \<le> c \<and> c \<le> 57"

definition is_status_line :: "bytes \<Rightarrow> bool" where
  "is_status_line w \<longleftrightarrow> take 7 w = ascii ''HTTP/1.'' \<and> list_all is_digit (drop 9 w)"

definition find_status_line :: "bytes \<Rightarrow> nat option" where
  "find_status_line buf =
     find (\<lambda>i. is_status_line (slice buf i (i + 12))) [0 ..< length buf + 1 - 12]"

lemma find_status_line_bound: "find_status_line buf = Some p \<Longrightarrow> p + 12 \<le> length buf"
  by (auto simp: find_status_line_def find_Some_iff)

definition STATUS_CAPACITY :: nat where "STATUS_CAPACITY = 8"

text \<open>\<open>StatusCodes::scan\<close>: at most eight codes are kept.\<close>

function scan :: "bytes \<Rightarrow> bytes list \<Rightarrow> bytes list" where
  "scan rest codes =
     (case find_status_line rest of
        None \<Rightarrow> codes
      | Some pos \<Rightarrow>
          scan (drop (pos + 12) rest)
            (if length codes < STATUS_CAPACITY then codes @ [slice rest (pos + 9) (pos + 12)] else codes))"
  by pat_completeness auto
termination
  by (relation "measure (\<lambda>(rest, codes). length rest)") (auto dest!: find_status_line_bound)

declare scan.simps [simp del]

definition note_code :: "bytes \<Rightarrow> Endpoint \<times> SenderMetrics \<Rightarrow> Endpoint \<times> SenderMetrics" where
  "note_code code = (\<lambda>(ep, m).
     let was_probe = (case ep_awaiting ep of [] \<Rightarrow> True | b # _ \<Rightarrow> b);
         ep = ep\<lparr>ep_awaiting := tl (ep_awaiting ep)\<rparr>
     in if was_probe then (ep, m)
        else if take 1 code = [50] then (ep\<lparr>ep_consecutive_rejects := 0\<rparr>, m)
        else (ep\<lparr>ep_consecutive_rejects := sat_add (ep_consecutive_rejects ep) 1\<rparr>,
              m\<lparr>sm_rejected := sm_rejected m + 1\<rparr>))"

definition note_status :: "bytes list \<Rightarrow> Endpoint \<times> SenderMetrics \<Rightarrow> Endpoint \<times> SenderMetrics" where
  "note_status codes em = fold note_code codes em"

datatype read_result = Data bytes | NothingReady | Interrupted | ReadFailed

text \<open>
  The read loop of \<open>drain_ready\<close> over the results of its reads into a buffer of the given size:
  the codes found and whether the connection is dead. Reads past the list have nothing ready.
\<close>

fun drain_loop :: "nat \<Rightarrow> read_result list \<Rightarrow> bytes list \<Rightarrow> bytes list \<times> bool" where
  "drain_loop n [] codes = (codes, False)"
| "drain_loop n (r # rs) codes =
     (case r of
        Data d \<Rightarrow>
          if d = [] then (codes, True)
          else if length d = n then drain_loop n rs (scan d codes)
          else (scan d codes, False)
      | NothingReady \<Rightarrow> (codes, False)
      | Interrupted \<Rightarrow> drain_loop n rs codes
      | ReadFailed \<Rightarrow> (codes, True))"

record drain_io =
  dr_nonblocking :: bool
  dr_reads :: "read_result list"
  dr_blocking :: bool

definition DRAIN_BUFFER :: nat where "DRAIN_BUFFER = 2048"

definition drain_ready :: "drain_io \<Rightarrow> Endpoint \<times> SenderMetrics \<Rightarrow> Endpoint \<times> SenderMetrics" where
  "drain_ready io = (\<lambda>(ep, m).
     case ep_conn ep of
       None \<Rightarrow> (ep, m)
     | Some Udp \<Rightarrow> (ep, m)
     | Some _ \<Rightarrow>
         if \<not> dr_nonblocking io then (ep\<lparr>ep_conn := None\<rparr>, m)
         else let (codes, dead) = drain_loop DRAIN_BUFFER (dr_reads io) []
              in note_status codes
                   (if dead \<or> \<not> dr_blocking io then ep\<lparr>ep_conn := None\<rparr> else ep, m))"

section \<open>Request bodies\<close>

definition JSON_RPC_PREFIX :: bytes where
  \<open>JSON_RPC_PREFIX = ascii ''{"jsonrpc":"2.0","id":1,"method":"sendTransaction","params":["''\<close>

definition JSON_RPC_SUFFIX :: bytes where
  \<open>JSON_RPC_SUFFIX = ascii ''",{"encoding":"base64","skipPreflight":true,"maxRetries":0}]}''\<close>

definition WRAPPED_PREFIX :: bytes where
  \<open>WRAPPED_PREFIX = ascii ''{"transaction":{"content":"''\<close>

definition WRAPPED_SUFFIX :: bytes where
  \<open>WRAPPED_SUFFIX = ascii ''"},"skipPreFlight":true,"frontRunningProtection":false}''\<close>

definition WRAPPED_BLOX_SUFFIX :: bytes where
  \<open>WRAPPED_BLOX_SUFFIX = ascii (''"},"skipPreFlight":true,"frontRunningProtection":false,''
     @ ''"useStakedRPCs":true,"submitProtection":"SP_LOW"}'')\<close>

definition PLAIN_PREFIX :: bytes where \<open>PLAIN_PREFIX = ascii ''{"transaction":"''\<close>

definition PLAIN_SUFFIX :: bytes where \<open>PLAIN_SUFFIX = ascii ''"}''\<close>

definition BATCH_PREFIX :: bytes where \<open>BATCH_PREFIX = ascii ''{"transactions":["''\<close>

definition BATCH_SUFFIX :: bytes where \<open>BATCH_SUFFIX = ascii ''"]}''\<close>

fun body_wrappers :: "BodyFormat \<Rightarrow> bytes \<times> bytes" where
  "body_wrappers JsonRpc = (JSON_RPC_PREFIX, JSON_RPC_SUFFIX)"
| "body_wrappers Wrapped = (WRAPPED_PREFIX, WRAPPED_SUFFIX)"
| "body_wrappers WrappedBlox = (WRAPPED_PREFIX, WRAPPED_BLOX_SUFFIX)"
| "body_wrappers PlainTx = (PLAIN_PREFIX, PLAIN_SUFFIX)"
| "body_wrappers Batch = (BATCH_PREFIX, BATCH_SUFFIX)"
| "body_wrappers _ = ([], [])"

definition B64_BUFFER :: nat where "B64_BUFFER = MAX_TX * 4 div 3 + 8"

definition u16_to_be :: "u16 \<Rightarrow> bytes" where
  "u16_to_be n = rev (nat_le 2 (unat n))"

text \<open>\<open>encode\<close> is the base64 engine; \<open>encode_slice\<close> panics when the output does not fit the buffer.\<close>

definition build_body ::
  "(bytes \<Rightarrow> bytes) \<Rightarrow> BodyFormat \<Rightarrow> bytes \<Rightarrow> nat \<Rightarrow> bytes \<Rightarrow> bytes \<times> bytes \<Rightarrow> bytes option" where
  "build_body encode format tx b64_len udp_prefix wrappers =
     (case format of
        UdpRaw \<Rightarrow> Some (udp_prefix @ tx)
      | LenPrefixedBinary \<Rightarrow> Some (u16_to_be (of_nat (length tx)) @ tx)
      | Binary \<Rightarrow> Some tx
      | _ \<Rightarrow> if length (encode tx) \<le> b64_len
             then Some (fst wrappers @ encode tx @ snd wrappers) else None)"

definition content_type :: "BodyFormat \<Rightarrow> bytes" where
  "content_type f =
     (if f = Binary \<or> f = LenPrefixedBinary \<or> f = UdpRaw then ascii ''application/octet-stream''
      else ascii ''application/json'')"

definition header_lines :: "(bytes \<times> bytes) list \<Rightarrow> bytes" where
  "header_lines hs = concat (map (\<lambda>(k, v). k @ ascii '': '' @ v @ CRLF) hs)"

definition request_head :: "ProviderConfig \<Rightarrow> bytes \<Rightarrow> bytes \<Rightarrow> bytes" where
  "request_head cfg host path =
     ascii ''POST '' @ path @ ascii '' HTTP/1.1'' @ CRLF @ ascii ''Host: '' @ host @ CRLF
     @ ascii ''Content-Type: '' @ content_type (pc_body cfg) @ CRLF
     @ ascii ''Connection: keep-alive'' @ CRLF @ header_lines (pc_headers cfg)"

definition health_request :: "ProviderConfig \<Rightarrow> bytes \<Rightarrow> bytes" where
  "health_request cfg host =
     (if pc_health_path cfg = [] then []
      else ascii ''GET '' @ pc_health_path cfg @ ascii '' HTTP/1.1'' @ CRLF @ ascii ''Host: '' @ host @ CRLF
        @ ascii ''Connection: keep-alive'' @ CRLF @ header_lines (pc_headers cfg) @ CRLF)"

text \<open>\<open>write_usize\<close>: the digits are written from the end of a twenty-byte buffer.\<close>

fun write_loop :: "nat \<Rightarrow> nat \<Rightarrow> bytes \<Rightarrow> (nat \<times> bytes) option" where
  "write_loop i v buf =
     (if v = 0 then Some (i, buf)
      else if i = 0 then None
      else write_loop (i - 1) (v div 10) (buf[i - 1 := 48 + byte_of (v mod 10)]))"

declare write_loop.simps [simp del]

definition write_usize :: "nat \<Rightarrow> bytes option" where
  "write_usize v =
     (if v = 0 then Some [48]
      else map_option (\<lambda>(i, buf). drop i buf) (write_loop 20 v (replicate 20 0)))"

section \<open>The latency gate\<close>

record LatencyGate =
  lg_max_ms :: u64
  lg_min_endpoints :: nat

definition LatencyGate_default :: LatencyGate where
  "LatencyGate_default = \<lparr>lg_max_ms = 20, lg_min_endpoints = 2\<rparr>"

definition RTT_SAMPLES :: nat where "RTT_SAMPLES = 3"

text \<open>
  \<open>probe_rtt\<close>: the answer is the round trip in nanoseconds, or \<open>None\<close> when writing or reading
  failed or the peer closed.
\<close>

definition probe_rtt :: "nat option \<Rightarrow> Endpoint \<Rightarrow> nat option \<times> Endpoint" where
  "probe_rtt answer ep =
     (if ep_health ep = [] \<or> ep_conn ep = None then (None, ep)
      else case answer of
        None \<Rightarrow> (None, ep\<lparr>ep_conn := None\<rparr>)
      | Some d \<Rightarrow> (Some d, ep))"

fun rtt_loop :: "nat option list \<Rightarrow> nat option \<Rightarrow> Endpoint \<Rightarrow> nat option \<times> Endpoint" where
  "rtt_loop [] best ep = (best, ep)"
| "rtt_loop (a # as) best ep =
     (case probe_rtt a ep of
        (None, ep) \<Rightarrow> (best, ep)
      | (Some d, ep) \<Rightarrow> rtt_loop as (Some (case best of None \<Rightarrow> d | Some b \<Rightarrow> min b d)) ep)"

definition time_endpoint :: "nat option list \<Rightarrow> Endpoint \<Rightarrow> nat option \<times> Endpoint" where
  "time_endpoint answers ep = rtt_loop (take RTT_SAMPLES answers) None ep"

text \<open>\<open>Duration::MAX\<close> in nanoseconds.\<close>

definition DURATION_MAX :: nat where "DURATION_MAX = 2 ^ 64 * 1000000000 - 1"

definition rank_key :: "nat option \<Rightarrow> nat" where
  "rank_key d = (case d of None \<Rightarrow> DURATION_MAX | Some t \<Rightarrow> t)"

definition within_limit :: "nat \<Rightarrow> nat option \<Rightarrow> bool" where
  "within_limit limit d = (case d of None \<Rightarrow> True | Some t \<Rightarrow> t \<le> limit)"

fun keep_loop :: "nat \<Rightarrow> nat \<Rightarrow> (nat \<times> nat option) list \<Rightarrow> bool list \<times> nat \<Rightarrow> bool list \<times> nat" where
  "keep_loop limit min_endpoints [] acc = acc"
| "keep_loop limit min_endpoints ((i, d) # ranked) (keep, kept) =
     keep_loop limit min_endpoints ranked
       (if within_limit limit d \<or> kept < min_endpoints then (keep[i := True], kept + 1) else (keep, kept))"

definition gate_keep :: "LatencyGate \<Rightarrow> nat option list \<Rightarrow> bool list" where
  "gate_keep g timed =
     (let ranked = sort_key (rank_key \<circ> snd) (enumerate 0 timed)
      in fst (keep_loop (unat (lg_max_ms g) * 1000000) (lg_min_endpoints g) ranked
           (replicate (length timed) False, 0)))"

text \<open>\<open>answers\<close> holds the replies to the probes of each endpoint.\<close>

definition apply_latency_gate :: "LatencyGate \<Rightarrow> nat option list list \<Rightarrow> Endpoint list \<Rightarrow> Endpoint list" where
  "apply_latency_gate g answers eps =
     (if lg_max_ms g = 0 \<or> length eps \<le> max (lg_min_endpoints g) 1 then eps
      else let timed = map (\<lambda>(a, ep). time_endpoint a ep) (zip answers eps);
               keep = gate_keep g (map fst timed)
           in map snd (filter fst (zip keep (map snd timed))))"

section \<open>Batched writes\<close>

function next_pow2_from :: "nat \<Rightarrow> nat \<Rightarrow> nat" where
  "next_pow2_from p n = (if n \<le> p \<or> p = 0 then p else next_pow2_from (2 * p) n)"
  by pat_completeness auto
termination
  by (relation "measure (\<lambda>(p, n). n - p)") auto

declare next_pow2_from.simps [simp del]

definition BatchWriter_entries :: "nat \<Rightarrow> nat" where
  "BatchWriter_entries capacity = max (next_pow2_from 1 capacity) 8"

type_synonym io_result = "unit + nat"

fun reap_loop :: "nat \<Rightarrow> nat \<Rightarrow> (nat \<times> int) list \<Rightarrow> io_result list \<Rightarrow> io_result list" where
  "reap_loop submitted reaped [] results = results"
| "reap_loop submitted reaped ((idx, res) # cqes) results =
     (let results = (if idx < length results
                     then results[idx := (if res < 0 then Inl () else Inr (nat res))] else results)
      in if reaped + 1 = submitted then results
         else reap_loop submitted (reaped + 1) cqes results)"

definition batch_write_all :: "nat \<Rightarrow> bool \<Rightarrow> (nat \<times> int) list \<Rightarrow> bytes list \<Rightarrow> io_result list" where
  "batch_write_all entries submit_ok cqes items =
     (let results = replicate (length items) (Inr 0);
          submitted = min (length items) entries
      in if items = [] \<or> submitted = 0 then results
         else if \<not> submit_ok then replicate (length items) (Inl ())
         else let results = reap_loop submitted 0 cqes results
              in take submitted results @ replicate (length items - submitted) (Inr 0))"

section \<open>Spawning\<close>

datatype SpawnError = Config ConfigError | NoEndpoints | OffsetPastTemplate

definition spawn_sender ::
  "(bytes \<Rightarrow> pubkey option) \<Rightarrow> ProviderConfig \<Rightarrow> nat \<Rightarrow> TipOffsets \<Rightarrow> nat \<Rightarrow> SpawnError + ProviderHandle" where
  "spawn_sender parse_key cfg queue_depth offsets tx_len =
     (case tip_account_bytes parse_key cfg of
        Inl e \<Rightarrow> Inl (Config e)
      | Inr tip_accounts \<Rightarrow>
          let eps = endpoints cfg
          in if eps = [] then Inl NoEndpoints
             else if to_tip_account offsets + 32 > tx_len \<or> to_tip_lamports offsets + 8 > tx_len
                  \<or> to_cu_price offsets + 8 > tx_len then Inl OffsetPastTemplate
             else Inr \<lparr>ph_queue = [], ph_depth = queue_depth, ph_open = True, ph_dropped_full = 0,
               ph_tip_accounts = tip_accounts, ph_tip_lamports = pc_tip_lamports cfg,
               ph_cu_price = pc_cu_price cfg, ph_endpoint_count = length eps\<rparr>)"

section \<open>The sender thread\<close>

record sender_config =
  sd_cfg :: ProviderConfig
  sd_dry_run :: bool
  sd_offsets :: TipOffsets
  sd_udp_prefix :: bytes
  sd_batch :: "nat option"

record sender_state =
  sd_endpoints :: "Endpoint list"
  sd_metrics :: SenderMetrics
  sd_tx :: bytes

text \<open>A loop over the endpoints that threads the counters.\<close>

fun each :: "(nat \<Rightarrow> Endpoint \<times> SenderMetrics \<Rightarrow> Endpoint \<times> SenderMetrics) \<Rightarrow> nat \<Rightarrow>
    Endpoint list \<times> SenderMetrics \<Rightarrow> Endpoint list \<times> SenderMetrics" where
  "each f i ([], m) = ([], m)"
| "each f i (ep # eps, m) =
     (let (ep, m) = f i (ep, m); (eps, m) = each f (i + 1) (eps, m) in (ep # eps, m))"

definition new_endpoint :: "ProviderConfig \<Rightarrow> bytes \<times> bytes \<Rightarrow> Endpoint" where
  "new_endpoint cfg = (\<lambda>(host, path).
     \<lparr>ep_host = host, ep_udp = is_udp (pc_body cfg), ep_head = request_head cfg host path,
      ep_health = health_request cfg host, ep_conn = None, ep_request = [], ep_awaiting = [],
      ep_consecutive_rejects = 0\<rparr>)"

record startup_io =
  si_connect :: "nat \<Rightarrow> bool"
  si_ring :: bool
  si_probes :: "nat option list list"
  si_drain :: "nat \<Rightarrow> drain_io"

text \<open>The thread up to its loop; \<open>None\<close> when it disables the provider and returns.\<close>

definition sender_start ::
  "ProviderConfig \<Rightarrow> bool \<Rightarrow> LatencyGate \<Rightarrow> TipOffsets \<Rightarrow> SenderMetrics \<Rightarrow> startup_io \<Rightarrow>
     (sender_config \<times> sender_state) option" where
  "sender_start cfg dry_run g offsets m io =
     (case udp_prefix_bytes cfg of
        Inl e \<Rightarrow> None
      | Inr udp_prefix \<Rightarrow>
          if is_udp (pc_body cfg) \<and> udp_prefix = [] then None
          else
            let eps = map (new_endpoint cfg) (endpoints cfg);
                batch = (if length eps > 1 \<and> si_ring io then Some (length eps) else None);
                (eps, m) =
                  (if dry_run then (eps, m)
                   else let (eps, m) = each (\<lambda>i (ep, m). (snd (connect (pc_tls cfg) (si_connect io i) ep), m)) 0 (eps, m);
                            eps = apply_latency_gate g (si_probes io) eps
                        in each (\<lambda>i (ep, m). drain_ready (si_drain io i) (ep\<lparr>ep_awaiting := []\<rparr>, m)) 0 (eps, m))
            in Some (\<lparr>sd_cfg = cfg, sd_dry_run = dry_run, sd_offsets = offsets,
                      sd_udp_prefix = udp_prefix, sd_batch = batch\<rparr>,
                     \<lparr>sd_endpoints = eps, sd_metrics = m, sd_tx = replicate MAX_TX 0\<rparr>))"

text \<open>
  Stamping and signing: the transaction buffer of the provider after the copy of the shared body,
  the three patches and the signature.
\<close>

definition stamp_job :: "(bytes \<Rightarrow> bytes) \<Rightarrow> TipOffsets \<Rightarrow> TxBuf \<Rightarrow> Job \<Rightarrow> bytes \<Rightarrow> bytes option" where
  "stamp_job sign o' base job tx = do {
     let len = unat (tb_len base);
     tx \<leftarrow> patch_at tx 0 (take len (tb_tx base));
     tx \<leftarrow> patch_at tx (to_tip_account o') (job_tip_account job);
     tx \<leftarrow> patch_at tx (to_tip_lamports o') (u64_to_le (job_tip_lamports job));
     tx \<leftarrow> patch_at tx (to_cu_price o') (u64_to_le (job_cu_price job));
     patch_at tx 1 (sign (slice tx MSG_OFFSET len))
   }"

definition request_phase :: "bytes \<Rightarrow> bytes \<Rightarrow> Endpoint \<times> SenderMetrics \<Rightarrow> Endpoint \<times> SenderMetrics" where
  "request_phase digits body = (\<lambda>(ep, m).
     if ep_conn ep = None then (ep\<lparr>ep_request := []\<rparr>, m\<lparr>sm_skipped_cold := sm_skipped_cold m + 1\<rparr>)
     else (build_request digits body ep, m))"

definition mark_sent :: "Endpoint \<times> SenderMetrics \<Rightarrow> Endpoint \<times> SenderMetrics" where
  "mark_sent = (\<lambda>(ep, m).
     ((expect_reply False ep)\<lparr>ep_request := []\<rparr>, m\<lparr>sm_sent := sm_sent m + 1\<rparr>))"

text \<open>
  The results of a batched submit, handed to the endpoints that went through it in order; \<open>None\<close>
  is the panic of draining more bytes than the request has.
\<close>

fun batch_phase :: "io_result list \<Rightarrow> Endpoint list \<times> SenderMetrics \<Rightarrow> (Endpoint list \<times> SenderMetrics) option" where
  "batch_phase results ([], m) = Some ([], m)"
| "batch_phase results (ep # eps, m) =
     (if \<not> raw_fd ep then do {
        (eps, m) \<leftarrow> batch_phase results (eps, m);
        Some (ep # eps, m)
      }
      else do {
        (ep, m) \<leftarrow> (case results of
            Inr n # _ \<Rightarrow>
              if n = length (ep_request ep) then Some (mark_sent (ep, m))
              else if n < length (ep_request ep) then Some (ep\<lparr>ep_request := drop n (ep_request ep)\<rparr>, m)
              else None
          | _ \<Rightarrow> Some (ep\<lparr>ep_conn := None\<rparr>, m));
        (eps, m) \<leftarrow> batch_phase (tl results) (eps, m);
        Some (ep # eps, m)
      })"

definition write_phase :: "bool \<Rightarrow> Endpoint \<times> SenderMetrics \<Rightarrow> Endpoint \<times> SenderMetrics" where
  "write_phase ok = (\<lambda>(ep, m).
     if ep_request ep = [] \<or> ep_conn ep = None then (ep, m)
     else if ok then mark_sent (ep, m)
     else (ep\<lparr>ep_conn := None, ep_request := []\<rparr>, m\<lparr>sm_send_errors := sm_send_errors m + 1\<rparr>))"

record launch_io =
  li_submit :: bool
  li_completions :: "(nat \<times> int) list"
  li_write :: "nat \<Rightarrow> bool"
  li_drain :: "nat \<Rightarrow> drain_io"

definition fan_out ::
  "sender_config \<Rightarrow> launch_io \<Rightarrow> bytes \<Rightarrow> bytes \<Rightarrow> Endpoint list \<times> SenderMetrics \<Rightarrow>
     (Endpoint list \<times> SenderMetrics) option" where
  "fan_out c io digits body em = do {
     let (eps, m) = each (\<lambda>_. request_phase digits body) 0 em;
     (eps, m) \<leftarrow> (case sd_batch c of
         None \<Rightarrow> Some (eps, m)
       | Some capacity \<Rightarrow>
           let items = map ep_request (filter raw_fd eps)
           in if length items > 1 \<and> length items \<le> capacity
              then batch_phase (batch_write_all (BatchWriter_entries capacity) (li_submit io) (li_completions io) items) (eps, m)
              else Some (eps, m));
     let (eps, m) = each (\<lambda>i. write_phase (li_write io i)) 0 (eps, m);
     Some (each (\<lambda>i. drain_ready (li_drain io i)) 0 (eps, m))
   }"

text \<open>One job: the new state, and the bodies once the job has let go of its own.\<close>

definition handle_job ::
  "(bytes \<Rightarrow> bytes) \<Rightarrow> (bytes \<Rightarrow> bytes) \<Rightarrow> sender_config \<Rightarrow> launch_io \<Rightarrow> Job \<Rightarrow> sender_state \<times> bodies \<Rightarrow>
     (sender_state \<times> bodies) option" where
  "handle_job sign encode c io job = (\<lambda>(s, h).
     let base = bd_buf h (job_base job);
         len = unat (tb_len base);
         h = arc_drop (job_base job) h
     in if len \<le> MSG_OFFSET \<or> len > MAX_TX then Some (s, h)
        else do {
          tx \<leftarrow> stamp_job sign (sd_offsets c) base job (sd_tx s);
          if sd_dry_run c then
            Some (s\<lparr>sd_tx := tx, sd_metrics := (sd_metrics s)\<lparr>sm_sent := sm_sent (sd_metrics s) + 1\<rparr>\<rparr>, h)
          else do {
            body \<leftarrow> build_body encode (pc_body (sd_cfg c)) (take len tx) B64_BUFFER (sd_udp_prefix c)
                      (body_wrappers (pc_body (sd_cfg c)));
            digits \<leftarrow> write_usize (length body);
            (eps, m) \<leftarrow> fan_out c io digits body (sd_endpoints s, sd_metrics s);
            Some (s\<lparr>sd_tx := tx, sd_endpoints := eps, sd_metrics := m\<rparr>, h)
          }
        })"

record tick_io =
  ti_connect :: "nat \<Rightarrow> bool"
  ti_probe :: "nat \<Rightarrow> bool"
  ti_drain :: "nat \<Rightarrow> drain_io"

definition probe_phase :: "bool \<Rightarrow> bool \<Rightarrow> bool \<Rightarrow> Endpoint \<times> SenderMetrics \<Rightarrow> Endpoint \<times> SenderMetrics" where
  "probe_phase tls connect_ok probe_ok = (\<lambda>(ep, m).
     let cold = (ep_conn ep = None);
         (ok, ep) = (if cold then connect tls connect_ok ep else (True, ep))
     in if \<not> ok then (ep, m)
        else let m = (if cold then m\<lparr>sm_reconnects := sm_reconnects m + 1\<rparr> else m)
             in if ep_udp ep \<or> ep_health ep = [] then (ep, m)
                else if probe_ok then (expect_reply True ep, m)
                else (ep\<lparr>ep_conn := None\<rparr>, m))"

definition keep_alive :: "sender_config \<Rightarrow> tick_io \<Rightarrow> sender_state \<Rightarrow> sender_state" where
  "keep_alive c io s =
     (if sd_dry_run c then s
      else let (eps, m) = each (\<lambda>i. probe_phase (pc_tls (sd_cfg c)) (ti_connect io i) (ti_probe io i)) 0
                            (sd_endpoints s, sd_metrics s);
               (eps, m) = each (\<lambda>i. drain_ready (ti_drain io i)) 0 (eps, m)
           in s\<lparr>sd_endpoints := eps, sd_metrics := m\<rparr>)"

datatype sender_event = Launch Job launch_io | Tick tick_io

fun sender_run ::
  "(bytes \<Rightarrow> bytes) \<Rightarrow> (bytes \<Rightarrow> bytes) \<Rightarrow> sender_config \<Rightarrow> sender_event list \<Rightarrow> sender_state \<times> bodies \<Rightarrow>
     (sender_state \<times> bodies) option" where
  "sender_run sign encode c [] sh = Some sh"
| "sender_run sign encode c (Launch job io # evs) sh =
     do { sh \<leftarrow> handle_job sign encode c io job sh; sender_run sign encode c evs sh }"
| "sender_run sign encode c (Tick io # evs) sh =
     sender_run sign encode c evs (keep_alive c io (fst sh), snd sh)"

section \<open>Lemmas\<close>

subsection \<open>Decimal lengths\<close>

lemma digits_value_append:
  "digits_value acc (xs @ ys) = Option.bind (digits_value acc xs) (\<lambda>a. digits_value a ys)"
  by (induction xs arbitrary: acc) auto

lemma write_loop_digits:
  assumes "v < 10 ^ i" "i \<le> length buf"
  shows "\<exists>j ds. write_loop i v buf = Some (j, take j buf @ ds @ drop i buf) \<and> j + length ds = i
     \<and> list_all is_digit ds \<and> digits_value 0 (map unat ds) = Some v \<and> (ds = [] \<longleftrightarrow> v = 0)"
  using assms
proof (induction i arbitrary: v buf)
  case 0
  then show ?case
    by (intro exI [of _ 0] exI [of _ "[]"]) (simp add: write_loop.simps)
next
  case (Suc i)
  show ?case
  proof (cases "v = 0")
    case True
    then show ?thesis
      by (intro exI [of _ "Suc i"] exI [of _ "[]"]) (simp add: write_loop.simps)
  next
    case False
    let ?d = "48 + byte_of (v mod 10)" and ?buf = "buf[i := 48 + byte_of (v mod 10)]"
    have "v div 10 < 10 ^ i"
      using Suc.prems(1) by (simp add: less_mult_imp_div_less mult.commute)
    then obtain j ds where IH: "write_loop i (v div 10) ?buf = Some (j, take j ?buf @ ds @ drop i ?buf)"
      "j + length ds = i" "list_all is_digit ds" "digits_value 0 (map unat ds) = Some (v div 10)"
      using Suc.IH [of "v div 10" ?buf] Suc.prems(2) by auto
    have d: "unat ?d = 48 + v mod 10"
      by (simp add: unat_word_ariths)
    have "drop i ?buf = ?d # drop (Suc i) buf"
      using Suc.prems(2) by (simp add: Cons_nth_drop_Suc [symmetric])
    moreover have "take j ?buf = take j buf"
      using IH(2) by simp
    moreover have "digits_value 0 (map unat (ds @ [?d])) = Some v"
      using IH(4) d by (simp add: digits_value_append)
    moreover have "is_digit ?d"
      using d by (simp add: is_digit_def word_le_nat_alt)
    ultimately show ?thesis
      using IH(1,2,3) False
      by (intro exI [of _ j] exI [of _ "ds @ [?d]"]) (simp add: write_loop.simps [of "Suc i"])
  qed
qed

lemma write_usize_digits:
  assumes "v < 2 ^ 64"
  shows "\<exists>ds. write_usize v = Some ds \<and> ds \<noteq> [] \<and> list_all is_digit ds \<and> digits_value 0 (map unat ds) = Some v"
proof (cases "v = 0")
  case True
  then show ?thesis
    by (simp add: write_usize_def is_digit_def)
next
  case False
  have "v < 10 ^ 20"
    using assms by simp
  then obtain j ds where "write_loop 20 v (replicate 20 0) = Some (j, take j (replicate 20 0) @ ds @ drop 20 (replicate 20 0))"
    "j + length ds = 20" "list_all is_digit ds" "digits_value 0 (map unat ds) = Some v" "ds = [] \<longleftrightarrow> v = 0"
    using write_loop_digits [of v 20 "replicate 20 0"] by auto
  with False show ?thesis
    by (simp add: write_usize_def)
qed

lemma parse_digits:
  "ds \<noteq> [] \<Longrightarrow> list_all is_digit ds \<Longrightarrow> digits_value 0 (map unat ds) = Some v \<Longrightarrow> v < 2 ^ 64 \<Longrightarrow>
     parse_u64 (map unat ds) = Some (of_nat v)"
  by (cases ds) (auto simp: parse_u64_def is_digit_def word_le_nat_alt Let_def)

subsection \<open>Replies\<close>

definition rejecting :: "bool \<times> bytes \<Rightarrow> bool" where
  "rejecting = (\<lambda>(probe, code). \<not> probe \<and> take 1 code \<noteq> [50])"

lemma note_status_counts:
  "note_status codes (ep, m) = (ep', m') \<Longrightarrow>
     ep_awaiting ep' = drop (length codes) (ep_awaiting ep)
     \<and> sm_rejected m' = sm_rejected m + of_nat (length (filter rejecting (zip (ep_awaiting ep) codes)))
     \<and> m'\<lparr>sm_rejected := sm_rejected m\<rparr> = m"
proof (induction codes arbitrary: ep m)
  case (Cons c codes)
  obtain ep1 m1 where step: "note_code c (ep, m) = (ep1, m1)"
    by fastforce
  then have "note_status codes (ep1, m1) = (ep', m')"
    using Cons.prems by (simp add: note_status_def)
  note IH = Cons.IH [OF this]
  have "ep_awaiting ep1 = tl (ep_awaiting ep)"
    "sm_rejected m1 = sm_rejected m + (case ep_awaiting ep of [] \<Rightarrow> 0 | b # _ \<Rightarrow> if rejecting (b, c) then 1 else 0)"
    "m1\<lparr>sm_rejected := sm_rejected m\<rparr> = m"
    using step by (auto simp: note_code_def Let_def rejecting_def split: list.splits if_splits)
  with IH show ?case
    by (cases "ep_awaiting ep") (auto simp: drop_Suc)
qed (simp add: note_status_def)

subsection \<open>The latency gate\<close>

lemma keep_loop_length: "length (fst (keep_loop limit n ranked (keep, kept))) = length keep"
  by (induction limit n ranked "(keep, kept)" arbitrary: keep kept rule: keep_loop.induct) auto

lemma keep_loop_other:
  "i \<notin> fst ` set ranked \<Longrightarrow> fst (keep_loop limit n ranked (keep, kept)) ! i = keep ! i"
  by (induction limit n ranked "(keep, kept)" arbitrary: keep kept rule: keep_loop.induct) auto

text \<open>An endpoint is kept when it is within the limit or among the first \<open>n\<close> of the ranking.\<close>

lemma keep_loop_iff:
  assumes "distinct (map fst ranked)" "\<forall>(i, d) \<in> set ranked. i < length keep \<and> \<not> keep ! i" "k < length ranked"
  shows "fst (keep_loop limit n ranked (keep, kept)) ! fst (ranked ! k) \<longleftrightarrow>
     within_limit limit (snd (ranked ! k)) \<or> k + kept < n"
  using assms
proof (induction limit n ranked "(keep, kept)" arbitrary: keep kept k rule: keep_loop.induct)
  case (2 limit n i d ranked keep kept)
  show ?case
  proof (cases k)
    case 0
    with "2.prems" show ?thesis
      by (simp add: keep_loop_other)
  next
    case (Suc k')
    let ?acc = "if within_limit limit d \<or> kept < n then (keep[i := True], kept + 1) else (keep, kept)"
    have "j < length keep \<and> \<not> keep ! j \<and> i \<noteq> j" if "(j, e) \<in> set ranked" for j e
      using "2.prems"(1,2) that by force
    then have "\<forall>(j, e) \<in> set ranked. j < length (fst ?acc) \<and> \<not> fst ?acc ! j"
      by auto
    then have "fst (keep_loop limit n ranked ?acc) ! fst (ranked ! k') \<longleftrightarrow>
        within_limit limit (snd (ranked ! k')) \<or> k' + snd ?acc < n"
      using "2.hyps" [of "fst ?acc" "snd ?acc" k'] "2.prems"(1,3) Suc by simp
    with Suc show ?thesis
      by auto
  qed
qed simp

definition ranking :: "nat option list \<Rightarrow> (nat \<times> nat option) list" where
  "ranking timed = sort_key (rank_key \<circ> snd) (enumerate 0 timed)"

lemma ranking_facts:
  "length (ranking timed) = length timed" "distinct (map fst (ranking timed))"
  "set (ranking timed) = {(i, timed ! i) | i. i < length timed}"
  "sorted (map (rank_key \<circ> snd) (ranking timed))"
proof -
  show "length (ranking timed) = length timed" "sorted (map (rank_key \<circ> snd) (ranking timed))"
    by (simp_all add: ranking_def)
  show "set (ranking timed) = {(i, timed ! i) | i. i < length timed}"
    by (auto simp: ranking_def in_set_enumerate_eq)
  have "distinct (map fst (enumerate 0 timed))"
    by (simp add: map_fst_enumerate)
  then show "distinct (map fst (ranking timed))"
    unfolding ranking_def distinct_map distinct_sort set_sort by simp
qed

lemma gate_keep_iff:
  assumes "k < length timed"
  shows "gate_keep g timed ! fst (ranking timed ! k) \<longleftrightarrow>
     within_limit (unat (lg_max_ms g) * 1000000) (snd (ranking timed ! k)) \<or> k < lg_min_endpoints g"
proof -
  have "\<forall>(i, d) \<in> set (ranking timed). i < length (replicate (length timed) False) \<and> \<not> replicate (length timed) False ! i"
    by (auto simp: ranking_facts(3))
  from keep_loop_iff [OF ranking_facts(2) this, of k] assms show ?thesis
    by (simp add: gate_keep_def ranking_def [symmetric] ranking_facts(1) Let_def)
qed

lemma gate_keep_length: "length (gate_keep g timed) = length timed"
  by (simp add: gate_keep_def keep_loop_length Let_def)

lemma ranked_at: "i < length timed \<Longrightarrow> \<exists>k < length timed. ranking timed ! k = (i, timed ! i)"
  using ranking_facts(1,3) [of timed] by (metis (mono_tags, lifting) in_set_conv_nth mem_Collect_eq)

lemma gate_keep_dropped:
  assumes "j < length timed" "\<not> gate_keep g timed ! j"
  shows "\<exists>t. timed ! j = Some t \<and> t > unat (lg_max_ms g) * 1000000"
proof -
  obtain k where k: "k < length timed" "ranking timed ! k = (j, timed ! j)"
    using ranked_at [OF assms(1)] by blast
  with gate_keep_iff [OF k(1), of g] assms(2) show ?thesis
    by (auto simp: within_limit_def split: option.splits)
qed

lemma gate_keep_fastest:
  assumes "i < length timed" "j < length timed" "gate_keep g timed ! i" "\<not> gate_keep g timed ! j"
  shows "timed ! i = None \<or> rank_key (timed ! i) \<le> rank_key (timed ! j)"
proof -
  obtain k l where k: "k < length timed" "ranking timed ! k = (i, timed ! i)"
    and l: "l < length timed" "ranking timed ! l = (j, timed ! j)"
    using ranked_at assms(1,2) by blast
  have l': "lg_min_endpoints g \<le> l" "\<not> within_limit (unat (lg_max_ms g) * 1000000) (timed ! j)"
    using gate_keep_iff [OF l(1), of g] l(2) assms(4) by auto
  consider "within_limit (unat (lg_max_ms g) * 1000000) (timed ! i)" | "k < lg_min_endpoints g"
    using gate_keep_iff [OF k(1), of g] k(2) assms(3) by auto
  then show ?thesis
  proof cases
    case 1
    with l'(2) show ?thesis
      by (auto simp: within_limit_def rank_key_def split: option.splits)
  next
    case 2
    then have "map (rank_key \<circ> snd) (ranking timed) ! k \<le> map (rank_key \<circ> snd) (ranking timed) ! l"
      using l l'(1) by (intro sorted_nth_mono [OF ranking_facts(4)]) (simp_all add: ranking_facts(1))
    with k l show ?thesis
      by (simp add: ranking_facts(1))
  qed
qed

lemma gate_keep_enough: "min (lg_min_endpoints g) (length timed) \<le> length (filter id (gate_keep g timed))"
proof -
  let ?m = "min (lg_min_endpoints g) (length timed)" and ?r = "map fst (ranking timed)"
  have "set (take ?m ?r) \<subseteq> {i. i < length (gate_keep g timed) \<and> gate_keep g timed ! i}"
  proof
    fix i assume "i \<in> set (take ?m ?r)"
    then obtain k where k: "k < ?m" "i = ?r ! k"
      by (auto simp: in_set_conv_nth ranking_facts(1))
    then have "i = fst (ranking timed ! k)"
      by (simp add: ranking_facts(1))
    moreover have "ranking timed ! k \<in> set (ranking timed)"
      using k by (simp add: ranking_facts(1))
    ultimately have "i < length timed" "gate_keep g timed ! i"
      using k gate_keep_iff [of k timed g] by (auto simp: ranking_facts(3))
    then show "i \<in> {i. i < length (gate_keep g timed) \<and> gate_keep g timed ! i}"
      by (simp add: gate_keep_length)
  qed
  from card_mono [OF _ this] have "card (set (take ?m ?r)) \<le> length (filter id (gate_keep g timed))"
    by (simp add: length_filter_conv_card)
  moreover have "card (set (take ?m ?r)) = ?m"
    by (subst distinct_card) (simp_all add: ranking_facts(1,2) distinct_take)
  ultimately show ?thesis
    by simp
qed

lemma length_filter_zip: "length keep = length xs \<Longrightarrow> length (filter fst (zip keep xs)) = length (filter id keep)"
  by (induction keep xs rule: list_induct2) auto

lemma set_filter_zip:
  "length keep = length xs \<Longrightarrow> set (map snd (filter fst (zip keep xs))) = {xs ! i | i. i < length xs \<and> keep ! i}"
  by (auto simp: set_zip image_iff) metis

subsection \<open>Stamping\<close>

lemma patch_at_nth:
  "patch_at xs p ys = Some zs \<Longrightarrow> i < p \<or> p + length ys \<le> i \<Longrightarrow> zs ! i = xs ! i"
  by (auto simp: patch_at_Some_iff nth_append)

lemma patch_all_nth:
  "patch_all xs fs = Some zs \<Longrightarrow> \<forall>(p, u) \<in> set fs. i < p \<or> p + length u \<le> i \<Longrightarrow> zs ! i = xs ! i"
  by (induction xs fs rule: patch_all.induct) (auto dest: patch_at_nth)

lemma stamp_job_patches:
  "stamp_job sign o' base job tx = do {
     tx \<leftarrow> patch_at tx 0 (take (unat (tb_len base)) (tb_tx base));
     tx \<leftarrow> patch_all tx [(to_tip_account o', job_tip_account job), (to_tip_lamports o', u64_to_le (job_tip_lamports job)),
       (to_cu_price o', u64_to_le (job_cu_price job))];
     patch_at tx 1 (sign (slice tx MSG_OFFSET (unat (tb_len base))))
   }"
  by (simp add: stamp_job_def Let_def)

lemma stamp_job_ok:
  assumes len: "len = unat (tb_len base)" "65 < len" "len \<le> MAX_TX" "length (tb_tx base) = MAX_TX" "length tx = MAX_TX"
    and offs: "to_tip_account o' \<ge> 65" "to_tip_account o' + 32 \<le> len" "to_tip_lamports o' \<ge> 65"
      "to_tip_lamports o' + 8 \<le> len" "to_cu_price o' \<ge> 65" "to_cu_price o' + 8 \<le> len"
    and fields: "fs = [(to_tip_account o', job_tip_account job), (to_tip_lamports o', u64_to_le (job_tip_lamports job)),
      (to_cu_price o', u64_to_le (job_cu_price job))]" "sorted_wrt apart fs"
    and sizes: "length (job_tip_account job) = 32" "\<And>x. length (sign x) = 64"
  shows "\<exists>tx'. stamp_job sign o' base job tx = Some tx' \<and> length tx' = MAX_TX
    \<and> (\<forall>(p, u) \<in> set fs. at_pos tx' p u)
    \<and> slice tx' 1 65 = sign (slice tx' 65 len)
    \<and> (\<forall>i. 65 \<le> i \<and> i < len \<and> (\<forall>(p, u) \<in> set fs. i < p \<or> p + length u \<le> i) \<longrightarrow> tx' ! i = tb_tx base ! i)"
proof -
  obtain tx0 where tx0: "patch_at tx 0 (take len (tb_tx base)) = Some tx0" "length tx0 = MAX_TX"
    using len by (auto simp: patch_at_def)
  have "\<forall>(p, u) \<in> set fs. p + length u \<le> length tx0"
    using fields(1) offs len tx0(2) sizes(1) by auto
  then obtain tx1 where tx1: "patch_all tx0 fs = Some tx1" "length tx1 = MAX_TX" "\<forall>(p, u) \<in> set fs. at_pos tx1 p u"
    using patch_all_reads_back fields(2) tx0(2) by metis
  define sig where "sig = sign (slice tx1 65 len)"
  have sig: "length sig = 64"
    by (simp add: sig_def sizes)
  then obtain tx' where tx': "patch_at tx1 1 sig = Some tx'" "length tx' = MAX_TX"
    using patch_at_defined [of 1 sig tx1] patch_at_length tx1(2) len by fastforce
  have "stamp_job sign o' base job tx = Some tx'"
    using tx0(1) tx1(1) tx'(1) unfolding stamp_job_patches len(1) [symmetric] fields(1) [symmetric]
    by (simp add: sig_def MSG_OFFSET_def)
  moreover have "\<forall>(p, u) \<in> set fs. at_pos tx' p u"
  proof -
    have "apart (1, sig) f" if "f \<in> set fs" for f
      using that offs sig by (auto simp: fields(1) apart_def)
    with tx1(3) show ?thesis
      using patch_at_keeps [OF tx'(1)] by fastforce
  qed
  moreover have "slice tx' 65 len = slice tx1 65 len"
    using patch_at_frame [OF tx'(1), of len 65] sig len tx1(2) by simp
  moreover have "slice tx' 1 65 = sig"
    using patch_at_slice [OF tx'(1)] sig by simp
  moreover have "tx' ! i = tb_tx base ! i"
    if "65 \<le> i \<and> i < len \<and> (\<forall>(p, u) \<in> set fs. i < p \<or> p + length u \<le> i)" for i
  proof -
    have "tx' ! i = tx0 ! i"
      using patch_at_nth [OF tx'(1), of i] patch_all_nth [OF tx1(1), of i] that sig by simp
    with tx0(1) that len show ?thesis
      by (auto simp: patch_at_Some_iff nth_append)
  qed
  ultimately show ?thesis
    using tx'(2) by (simp add: sig_def)
qed

subsection \<open>What a fan-out counts\<close>

definition accounted :: "SenderMetrics \<Rightarrow> u64" where
  "accounted m = sm_sent m + sm_send_errors m + sm_skipped_cold m"

definition unsent :: "Endpoint \<Rightarrow> u64" where
  "unsent ep = (if ep_request ep \<noteq> [] \<and> ep_conn ep \<noteq> None then 1 else 0)"

definition pending :: "Endpoint list \<Rightarrow> u64" where
  "pending eps = sum_list (map unsent eps)"

lemma add_counts: "a1 + d = a + e \<Longrightarrow> a2 + D = a1 + E \<Longrightarrow> a2 + (d + D) = a + (e + E)"
  for a :: "'b::len word"
proof -
  assume 1: "a1 + d = a + e" and 2: "a2 + D = a1 + E"
  have "a2 + (d + D) = (a2 + D) + d"
    by (simp add: algebra_simps)
  also have "\<dots> = (a1 + d) + E"
    unfolding 2 by (simp add: algebra_simps)
  also have "\<dots> = a + (e + E)"
    unfolding 1 by (simp add: algebra_simps)
  finally show ?thesis .
qed

text \<open>A loop over the endpoints adds up what its body counts.\<close>

lemma each_counts:
  assumes "\<And>i ep m ep' m'. f i (ep, m) = (ep', m') \<Longrightarrow> accounted m' + d ep' = accounted m + e ep"
  shows "each f i (eps, m) = (eps', m') \<Longrightarrow>
    accounted m' + sum_list (map d eps') = accounted m + sum_list (map e eps) \<and> length eps' = length eps"
proof (induction eps arbitrary: i m eps' m')
  case (Cons ep eps)
  obtain ep1 m1 where 1: "f i (ep, m) = (ep1, m1)"
    by fastforce
  obtain eps2 m2 where r: "each f (Suc i) (eps, m1) = (eps2, m2)"
    by fastforce
  then have "eps' = ep1 # eps2" "m' = m2"
    using Cons.prems 1 by auto
  with Cons.IH [OF r] add_counts [OF assms [OF 1]] show ?case
    by simp
qed simp

lemma each_all:
  assumes "\<And>i ep m. Q (fst (f i (ep, m)))"
  shows "\<forall>ep \<in> set (fst (each f i (eps, m))). Q ep"
proof (induction eps arbitrary: i m)
  case (Cons ep eps)
  then show ?case
    using assms [of i ep m] by (auto split: prod.splits) (metis fst_conv)
qed simp

lemma mark_sent_facts:
  "mark_sent (ep, m) = (ep', m') \<Longrightarrow> accounted m' = accounted m + 1 \<and> ep_request ep' = [] \<and> ep_conn ep' = ep_conn ep"
  by (auto simp: mark_sent_def expect_reply_def accounted_def)

lemma request_phase_counts:
  assumes "each (\<lambda>_. request_phase digits body) i (eps, m) = (eps', m')" "body \<noteq> []"
  shows "accounted m' + pending eps' = accounted m + of_nat (length eps)" "length eps' = length eps"
    "\<forall>ep \<in> set eps'. ep_conn ep \<noteq> None \<longrightarrow> ep_request ep \<noteq> []"
proof -
  have "accounted m' + unsent ep' = accounted m + 1" if "request_phase digits body (ep, m) = (ep', m')" for ep m ep' m'
    using that assms(2)
    by (auto simp: request_phase_def build_request_def accounted_def unsent_def split: if_splits)
  from each_counts [OF this assms(1)] show "accounted m' + pending eps' = accounted m + of_nat (length eps)"
    "length eps' = length eps"
    by (simp_all add: pending_def sum_list_triv)
  have "ep_conn (fst (request_phase digits body (ep, m))) \<noteq> None \<longrightarrow>
      ep_request (fst (request_phase digits body (ep, m))) \<noteq> []" for ep m
    using assms(2) by (simp add: request_phase_def build_request_def)
  from each_all [of "\<lambda>ep. ep_conn ep \<noteq> None \<longrightarrow> ep_request ep \<noteq> []" "\<lambda>_. request_phase digits body", OF this, of i eps m] assms(1)
  show "\<forall>ep \<in> set eps'. ep_conn ep \<noteq> None \<longrightarrow> ep_request ep \<noteq> []"
    by simp
qed

lemma batch_phase_counts:
  "batch_phase results (eps, m) = Some (eps', m') \<Longrightarrow> \<forall>ep \<in> set eps. ep_conn ep \<noteq> None \<longrightarrow> ep_request ep \<noteq> [] \<Longrightarrow>
   length results = length (filter raw_fd eps) \<Longrightarrow>
     accounted m' + pending eps' + of_nat (length (filter isl results)) = accounted m + pending eps
     \<and> length eps' = length eps"
proof (induction results "(eps, m)" arbitrary: eps m eps' m' rule: batch_phase.induct)
  case (2 results ep eps m)
  show ?case
  proof (cases "raw_fd ep")
    case False
    with 2 show ?thesis
      by (auto simp: pending_def algebra_simps)
  next
    case True
    then obtain r rs where rs: "results = r # rs"
      using "2.prems"(3) by (cases results) auto
    have warm: "ep_conn ep \<noteq> None" "ep_request ep \<noteq> []"
      using True "2.prems"(2) by (auto simp: raw_fd_def split: option.splits)
    obtain ep1 m1 eps2 where step: "(case results of
            Inr n # _ \<Rightarrow>
              if n = length (ep_request ep) then Some (mark_sent (ep, m))
              else if n < length (ep_request ep) then Some (ep\<lparr>ep_request := drop n (ep_request ep)\<rparr>, m)
              else None
          | _ \<Rightarrow> Some (ep\<lparr>ep_conn := None\<rparr>, m)) = Some (ep1, m1)"
      and rest: "batch_phase rs (eps, m1) = Some (eps2, m')" "eps' = ep1 # eps2"
      using "2.prems"(1) True rs by auto
    have "accounted m1 + (unsent ep1 + (if isl r then 1 else 0)) = accounted m + unsent ep"
      using step rs warm by (auto simp: unsent_def dest: mark_sent_facts split: sum.splits if_splits)
    moreover have "accounted m' + (pending eps2 + of_nat (length (filter isl rs))) = accounted m1 + pending eps"
      and "length eps2 = length eps"
      using "2.hyps"(2) [OF _ step] True rest(1) rs "2.prems"(2,3) by (auto simp: add.assoc)
    ultimately have "accounted m' + (unsent ep1 + (if isl r then 1 else 0) + (pending eps2 + of_nat (length (filter isl rs))))
        = accounted m + (unsent ep + pending eps)" "length eps2 = length eps"
      using add_counts by blast+
    then show ?thesis
      unfolding rest(2) rs pending_def by (cases "isl r") (simp_all add: ac_simps)
  qed
qed (simp add: pending_def)

lemma write_phase_counts:
  assumes "each (\<lambda>i. write_phase (ok i)) i (eps, m) = (eps', m')"
  shows "accounted m' = accounted m + pending eps \<and> length eps' = length eps"
proof -
  have "accounted m' + 0 = accounted m + unsent ep" if "write_phase (ok i) (ep, m) = (ep', m')" for i ep m ep' m'
    using that by (auto simp: write_phase_def accounted_def mark_sent_def unsent_def split: if_splits)
  from each_counts [of "\<lambda>i. write_phase (ok i)" "\<lambda>_. 0", OF this assms] show ?thesis
    by (simp add: pending_def)
qed

lemma drain_ready_accounted: "accounted (snd (drain_ready io (ep, m))) = accounted m"
proof -
  have "accounted (snd (note_status codes (ep, m))) = accounted m" for codes and ep :: Endpoint
  proof -
    obtain ep' m' where "note_status codes (ep, m) = (ep', m')"
      by fastforce
    moreover from note_status_counts [OF this] have "m'\<lparr>sm_rejected := sm_rejected m\<rparr> = m"
      by blast
    then have "accounted m' = accounted m"
      by (cases m'; cases m) (simp add: accounted_def)
    ultimately show ?thesis
      by simp
  qed
  then show ?thesis
    by (auto simp: drain_ready_def split: option.splits Conn.splits prod.splits)
qed

lemma drain_phase_counts:
  assumes "each (\<lambda>i. drain_ready (io i)) i (eps, m) = (eps', m')"
  shows "accounted m' = accounted m \<and> length eps' = length eps"
proof -
  have "accounted m' + 0 = accounted m + 0" if "drain_ready (io i) (ep, m) = (ep', m')" for i ep m ep' m'
    using that drain_ready_accounted [of "io i" ep m] by simp
  from each_counts [of "\<lambda>i. drain_ready (io i)" "\<lambda>_. 0" "\<lambda>_. 0", OF this assms] show ?thesis
    by simp
qed

lemma reap_loop_length [simp]: "length (reap_loop submitted reaped cqes results) = length results"
  by (induction submitted reaped cqes results rule: reap_loop.induct) (simp_all add: Let_def)

lemma batch_write_all_length [simp]: "length (batch_write_all entries ok cqes items) = length items"
  by (auto simp: batch_write_all_def Let_def)

lemma batch_write_all_Nil [simp]: "batch_write_all entries ok cqes items = [] \<longleftrightarrow> items = []"
  by (metis batch_write_all_length length_0_conv)

text \<open>The results of the batched submit a fan-out makes; none when it makes no such submit.\<close>

definition batch_results :: "sender_config \<Rightarrow> launch_io \<Rightarrow> Endpoint list \<Rightarrow> io_result list" where
  "batch_results c io eps =
     (case sd_batch c of
        None \<Rightarrow> []
      | Some capacity \<Rightarrow>
          let items = map ep_request (filter raw_fd eps)
          in if length items > 1 \<and> length items \<le> capacity
             then batch_write_all (BatchWriter_entries capacity) (li_submit io) (li_completions io) items
             else [])"

lemma fan_out_accounts:
  assumes "fan_out c io digits body (eps, m) = Some (eps', m')" "body \<noteq> []"
  shows "accounted m' + of_nat (length (filter isl
      (batch_results c io (fst (each (\<lambda>_. request_phase digits body) 0 (eps, m))))))
    = accounted m + of_nat (length eps) \<and> length eps' = length eps"
proof -
  obtain eps1 m1 where 1: "each (\<lambda>_. request_phase digits body) 0 (eps, m) = (eps1, m1)"
    by fastforce
  note req = request_phase_counts [OF 1 assms(2)]
  let ?rs = "batch_results c io eps1"
  have "(case sd_batch c of
         None \<Rightarrow> Some (eps1, m1)
       | Some capacity \<Rightarrow>
           let items = map ep_request (filter raw_fd eps1)
           in if length items > 1 \<and> length items \<le> capacity
              then batch_phase (batch_write_all (BatchWriter_entries capacity) (li_submit io) (li_completions io) items) (eps1, m1)
              else Some (eps1, m1)) = (if ?rs = [] then Some (eps1, m1) else batch_phase ?rs (eps1, m1))"
    by (simp add: batch_results_def Let_def filter_empty_conv split: option.splits)
      (metis filter_empty_conv less_numeral_extra(3) list.size(3) not_less_zero)
  then obtain eps2 m2 where 2: "(if ?rs = [] then Some (eps1, m1) else batch_phase ?rs (eps1, m1)) = Some (eps2, m2)"
    and rest: "each (\<lambda>i. drain_ready (li_drain io i)) 0 (each (\<lambda>i. write_phase (li_write io i)) 0 (eps2, m2)) = (eps', m')"
    using assms(1) 1 unfolding fan_out_def by auto
  have len: "?rs \<noteq> [] \<Longrightarrow> length ?rs = length (filter raw_fd eps1)"
    by (auto simp: batch_results_def Let_def split: option.splits if_splits)
  have b: "accounted m2 + pending eps2 + of_nat (length (filter isl ?rs)) = accounted m1 + pending eps1"
    "length eps2 = length eps1"
    using 2 batch_phase_counts [of ?rs eps1 m1 eps2 m2] req(3) len by (auto split: if_splits)
  obtain eps3 m3 where 3: "each (\<lambda>i. write_phase (li_write io i)) 0 (eps2, m2) = (eps3, m3)"
    by fastforce
  have "accounted m3 = accounted m2 + pending eps2" "length eps3 = length eps2"
    using write_phase_counts [OF 3] by simp_all
  moreover have "accounted m' = accounted m3" "length eps' = length eps3"
    using drain_phase_counts [of "li_drain io"] rest 3 by auto
  ultimately show ?thesis
    using b req(1,2) 1 by simp
qed

section \<open>Properties\<close>

text \<open>
  C23: What a provider signs is what it sends. For a body that fits and offsets inside the message
  that do not overlap, stamping a job succeeds, the tip account, the tip and the compute-unit
  price are the job's, every other byte of the message is the shared body's, and the signature
  field holds the signature of exactly that message.
\<close>

theorem stamp_job_signs:
  assumes "len = unat (tb_len base)" "65 < len" "len \<le> MAX_TX" "length (tb_tx base) = MAX_TX" "length tx = MAX_TX"
    and "to_tip_account o' \<ge> 65" "to_tip_account o' + 32 \<le> len" "to_tip_lamports o' \<ge> 65"
      "to_tip_lamports o' + 8 \<le> len" "to_cu_price o' \<ge> 65" "to_cu_price o' + 8 \<le> len"
    and "fs = [(to_tip_account o', job_tip_account job), (to_tip_lamports o', u64_to_le (job_tip_lamports job)),
      (to_cu_price o', u64_to_le (job_cu_price job))]" "sorted_wrt apart fs"
    and "length (job_tip_account job) = 32" "\<And>x. length (sign x) = 64"
  shows "\<exists>tx'. stamp_job sign o' base job tx = Some tx' \<and> length tx' = MAX_TX
    \<and> (\<forall>(p, u) \<in> set fs. at_pos tx' p u)
    \<and> slice tx' 1 65 = sign (slice tx' 65 len)
    \<and> (\<forall>i. 65 \<le> i \<and> i < len \<and> (\<forall>(p, u) \<in> set fs. i < p \<or> p + length u \<le> i) \<longrightarrow> tx' ! i = tb_tx base ! i)"
  using assms by (rule stamp_job_ok)

definition sample_body :: TxBuf where
  "sample_body = \<lparr>tb_len = 200, tb_tx = replicate MAX_TX 5\<rparr>"

definition sample_job :: Job where
  "sample_job = \<lparr>job_base = 0, job_tip_account = replicate 32 9, job_tip_lamports = 7, job_cu_price = 8\<rparr>"

definition sample_tip_offsets :: TipOffsets where
  "sample_tip_offsets = \<lparr>to_tip_account = 70, to_tip_lamports = 110, to_cu_price = 120\<rparr>"

theorem stamp_job_signs_witness:
  "\<exists>tx'. stamp_job (\<lambda>x. replicate 64 3) sample_tip_offsets sample_body sample_job (replicate MAX_TX 0) = Some tx'
     \<and> slice tx' 1 65 = replicate 64 3"
proof -
  have "\<exists>tx'. stamp_job (\<lambda>x. replicate 64 3) sample_tip_offsets sample_body sample_job (replicate MAX_TX 0) = Some tx'
    \<and> length tx' = MAX_TX
    \<and> (\<forall>(p, u) \<in> set [(70, replicate 32 9), (110, u64_to_le 7), (120, u64_to_le 8)]. at_pos tx' p u)
    \<and> slice tx' 1 65 = (\<lambda>x. replicate 64 3) (slice tx' 65 200)
    \<and> (\<forall>i. 65 \<le> i \<and> i < 200 \<and> (\<forall>(p, u) \<in> set [(70, replicate 32 9), (110, u64_to_le 7), (120, u64_to_le 8)].
         i < p \<or> p + length u \<le> i) \<longrightarrow> tx' ! i = tb_tx sample_body ! i)"
    by (rule stamp_job_signs)
      (simp_all add: sample_body_def sample_job_def sample_tip_offsets_def MAX_TX_def apart_def)
  then show ?thesis
    by blast
qed

text \<open>
  Every HTTP submit carries its own length: the digits written are a decimal number that
  reads back as the number of body bytes that follow the empty line, and a datagram is the body
  alone.
\<close>

theorem request_length_round_trip:
  assumes "length body < 2 ^ 64"
  shows "\<exists>digits. write_usize (length body) = Some digits \<and> parse_u64 (map unat digits) = Some (of_nat (length body))
    \<and> ep_request (build_request digits body ep) =
        (if ep_udp ep then body
         else ep_head ep @ ascii ''Content-Length: '' @ digits @ [13, 10, 13, 10] @ body)"
  using write_usize_digits [OF assms] parse_digits assms
  by (auto simp: build_request_def CRLF_def)

theorem request_length_round_trip_witness:
  "\<exists>digits. write_usize (length (replicate 1234 (0 :: byte))) = Some digits \<and> parse_u64 (map unat digits) = Some 1234"
  using request_length_round_trip [of "replicate 1234 0" undefined] by (simp del: replicate.simps) blast

text \<open>
  Replies are attributed in request order: the rejections a drain adds are exactly the codes
  that are not 2xx among those whose outstanding request was a submit, so a keep-alive probe that
  is answered with an error never counts; the answered requests leave the queue and no other
  counter moves.
\<close>

theorem replies_attributed:
  assumes "note_status codes (ep, m) = (ep', m')"
  shows "ep_awaiting ep' = drop (length codes) (ep_awaiting ep)
    \<and> sm_rejected m' = sm_rejected m + of_nat (length (filter rejecting (zip (ep_awaiting ep) codes)))
    \<and> m'\<lparr>sm_rejected := sm_rejected m\<rparr> = m"
  using assms by (rule note_status_counts)

definition sample_endpoint :: "Conn option \<Rightarrow> bool list \<Rightarrow> Endpoint" where
  "sample_endpoint conn awaiting = \<lparr>ep_host = [], ep_udp = False, ep_head = [], ep_health = [1], ep_conn = conn,
     ep_request = [], ep_awaiting = awaiting, ep_consecutive_rejects = 0\<rparr>"

definition zero_sender_metrics :: SenderMetrics where
  "zero_sender_metrics = \<lparr>sm_sent = 0, sm_send_errors = 0, sm_reconnects = 0, sm_dropped_full = 0,
     sm_rejected = 0, sm_skipped_cold = 0\<rparr>"

theorem replies_attributed_witness:
  "sm_rejected (snd (note_status [[52, 48, 52], [52, 50, 57], [50, 48, 48]]
     (sample_endpoint (Some Plain) [True, False, False], zero_sender_metrics))) = 1"
proof -
  let ?codes = "[[52, 48, 52], [52, 50, 57], [50, 48, 48 :: byte]]" and ?ep = "sample_endpoint (Some Plain) [True, False, False]"
  obtain ep' m' where r: "note_status ?codes (?ep, zero_sender_metrics) = (ep', m')"
    by fastforce
  from replies_attributed [OF r] r show ?thesis
    by (simp add: sample_endpoint_def rejecting_def zero_sender_metrics_def)
qed

text \<open>
  The latency gate drops only endpoints that were measured slower than the limit, keeps at
  least \<open>min_endpoints\<close> of them, and never keeps a measured endpoint while dropping a faster one.
\<close>

theorem latency_gate_keeps:
  assumes "length answers = length eps" "lg_max_ms g \<noteq> 0" "max (lg_min_endpoints g) 1 < length eps"
    and "timed = map (\<lambda>(a, ep). time_endpoint a ep) (zip answers eps)"
  shows "\<exists>keep. length keep = length eps
    \<and> apply_latency_gate g answers eps = map snd (filter fst (zip keep (map snd timed)))
    \<and> lg_min_endpoints g \<le> length (apply_latency_gate g answers eps)
    \<and> (\<forall>j < length eps. \<not> keep ! j \<longrightarrow>
         (\<exists>t. fst (timed ! j) = Some t \<and> t > unat (lg_max_ms g) * 1000000
            \<and> (\<forall>i < length eps. keep ! i \<longrightarrow> (case fst (timed ! i) of None \<Rightarrow> True | Some t' \<Rightarrow> t' \<le> t))))"
proof -
  define keep where "keep = gate_keep g (map fst timed)"
  have len: "length timed = length eps" "length keep = length eps"
    using assms(1,4) by (simp_all add: keep_def gate_keep_length)
  have out: "apply_latency_gate g answers eps = map snd (filter fst (zip keep (map snd timed)))"
    unfolding apply_latency_gate_def keep_def assms(4) Let_def
    by (subst if_not_P) (use assms(2,3) in \<open>simp_all only: not_le not_less de_Morgan_disj, simp\<close>)
  have "lg_min_endpoints g \<le> length (apply_latency_gate g answers eps)"
    using gate_keep_enough [of g "map fst timed"] len assms(3)
    by (simp add: out length_filter_zip keep_def [symmetric])
  moreover have "\<exists>t. fst (timed ! j) = Some t \<and> t > unat (lg_max_ms g) * 1000000
      \<and> (\<forall>i < length eps. keep ! i \<longrightarrow> (case fst (timed ! i) of None \<Rightarrow> True | Some t' \<Rightarrow> t' \<le> t))"
    if j: "j < length eps" "\<not> keep ! j" for j
  proof -
    obtain t where t: "fst (timed ! j) = Some t" "t > unat (lg_max_ms g) * 1000000"
      using gate_keep_dropped [of j "map fst timed" g] j len by (auto simp: keep_def)
    moreover have "case fst (timed ! i) of None \<Rightarrow> True | Some t' \<Rightarrow> t' \<le> t" if "i < length eps" "keep ! i" for i
      using gate_keep_fastest [of i "map fst timed" j g] that j len t(1)
      by (auto simp: keep_def rank_key_def split: option.splits)
    ultimately show ?thesis
      by blast
  qed
  ultimately show ?thesis
    using len out by blast
qed

theorem latency_gate_keeps_witness:
  "2 \<le> length (apply_latency_gate LatencyGate_default [[Some 30000000], [Some 1000000], [Some 90000000]]
     (replicate 3 (sample_endpoint (Some Plain) [])))"
  using latency_gate_keeps [of "[[Some 30000000], [Some 1000000], [Some 90000000]]"
      "replicate 3 (sample_endpoint (Some Plain) [])" LatencyGate_default, OF _ _ _ refl]
  by (auto simp: LatencyGate_default_def)

text \<open>
  A fan-out accounts for every endpoint: what sent, send errors and skipped cold endpoints
  grow by, together with the batched writes that failed, is the number of endpoints. The batched
  failures are in no counter.
\<close>

theorem fan_out_counts:
  assumes "fan_out c io digits body (eps, m) = Some (eps', m')" "body \<noteq> []"
  shows "accounted m' + of_nat (length (filter isl
      (batch_results c io (fst (each (\<lambda>_. request_phase digits body) 0 (eps, m))))))
    = accounted m + of_nat (length eps) \<and> length eps' = length eps"
  using assms by (rule fan_out_accounts)

definition sample_provider :: ProviderConfig where
  "sample_provider = \<lparr>pc_name = [], pc_hosts = [[97], [98]], pc_host = [], pc_port = 80, pc_path = [47], pc_tls = False,
     pc_body = Binary, pc_headers = [], pc_tip_accounts = [], pc_tip_account = [], pc_tip_lamports = 0,
     pc_cu_price = 0, pc_health_path = [], pc_udp_prefix = [], pc_enabled = True\<rparr>"

definition sample_sender :: sender_config where
  "sample_sender = \<lparr>sd_cfg = sample_provider, sd_dry_run = False, sd_offsets = sample_tip_offsets,
     sd_udp_prefix = [], sd_batch = Some 2\<rparr>"

definition sample_io :: launch_io where
  "sample_io = \<lparr>li_submit = False, li_completions = [], li_write = \<lambda>_. True,
     li_drain = \<lambda>_. \<lparr>dr_nonblocking = True, dr_reads = [], dr_blocking = True\<rparr>\<rparr>"

theorem fan_out_counts_witness:
  "\<exists>eps' m'. fan_out sample_sender sample_io [49] [1] (replicate 2 (sample_endpoint (Some Plain) []), zero_sender_metrics)
       = Some (eps', m') \<and> accounted m' = 0"
proof -
  let ?eps = "replicate 2 (sample_endpoint (Some Plain) [])"
  have rs: "batch_results sample_sender sample_io (fst (each (\<lambda>_. request_phase [49] [1]) 0 (?eps, zero_sender_metrics)))
      = [Inl (), Inl ()]"
    by (simp add: numeral_2_eq_2 batch_results_def sample_sender_def sample_io_def sample_endpoint_def request_phase_def
        build_request_def raw_fd_def batch_write_all_def BatchWriter_entries_def)
  have "fan_out sample_sender sample_io [49] [1] (?eps, zero_sender_metrics) \<noteq> None"
    by (simp add: numeral_2_eq_2 fan_out_def sample_sender_def sample_io_def sample_endpoint_def request_phase_def
        build_request_def raw_fd_def batch_write_all_def BatchWriter_entries_def)
  then obtain eps' m' where r: "fan_out sample_sender sample_io [49] [1] (?eps, zero_sender_metrics) = Some (eps', m')"
    by auto
  from fan_out_counts [OF r] rs r show ?thesis
    by (auto simp: accounted_def zero_sender_metrics_def)
qed

end
