(* ===== verification/Position.thy ===== *)
theory Position
  imports RustText Curve Bytes
begin

text \<open>
  \<open>sniper/src/position.rs\<close>: the gate that keeps at most one position open, and the tracker that
  releases it. The tracker's loops are driven by what they read: every iteration of \<open>live_cycle\<close>
  consumes one observation, the clock readings and RPC answers of that iteration. Times are in
  nanoseconds since the cycle started.

  The interleaving of several detect threads with the tracker is the step relation \<open>gate_step\<close>,
  whose transitions are the gate's operations.
\<close>

section \<open>Data\<close>

record OpenPosition =
  op_mint :: pubkey
  op_create_slot :: u64
  op_bonding_curve :: pubkey
  op_token_account :: pubkey
  op_amount :: u64
  op_cost :: u64
  op_nonce_account :: pubkey
  op_prior_flow_at_fire :: u64
  op_ghost :: bool

record PositionMetrics =
  pm_opened :: u64
  pm_closed :: u64
  pm_never_landed :: u64
  pm_nonce_killed :: u64
  pm_stuck_released :: u64
  pm_skipped_busy :: u64
  pm_skipped_disarmed :: u64
  pm_landed_same_slot :: u64
  pm_landed_plus_one :: u64
  pm_landed_later :: u64
  pm_landing_slot_unknown :: u64
  pm_ghost_pnl_lamports :: u64
  pm_ghost_wins :: u64
  pm_ghost_losses :: u64

record ModeConfig =
  sync_mode :: bool
  test_mode :: bool
  test_trips :: u32
  ghost_mode :: bool
  hold_ms :: u64
  poll_ms :: u64
  buy_timeout_ms :: u64

definition ModeConfig_default :: ModeConfig where
  "ModeConfig_default = \<lparr>sync_mode = True, test_mode = False, test_trips = 1, ghost_mode = False,
     hold_ms = 1600, poll_ms = 200, buy_timeout_ms = 30000\<rparr>"

text \<open>
  The gate: two atomics, the metrics, and the bounded channel to the tracker with what is in it.
  \<open>pg_open\<close> says that the tracker still holds the receiving end.
\<close>

record PositionGate =
  busy :: bool
  armed :: bool
  pg_sync_mode :: bool
  pg_metrics :: PositionMetrics
  pg_queue :: "OpenPosition list"
  pg_open :: bool

definition CHANNEL_CAPACITY :: nat where "CHANNEL_CAPACITY = 64"

definition zero_metrics :: PositionMetrics where
  "zero_metrics = \<lparr>pm_opened = 0, pm_closed = 0, pm_never_landed = 0, pm_nonce_killed = 0,
     pm_stuck_released = 0, pm_skipped_busy = 0, pm_skipped_disarmed = 0, pm_landed_same_slot = 0,
     pm_landed_plus_one = 0, pm_landed_later = 0, pm_landing_slot_unknown = 0,
     pm_ghost_pnl_lamports = 0, pm_ghost_wins = 0, pm_ghost_losses = 0\<rparr>"

definition gate_start :: "ModeConfig \<Rightarrow> PositionGate" where
  "gate_start modes = \<lparr>busy = False, armed = True, pg_sync_mode = sync_mode modes,
     pg_metrics = zero_metrics, pg_queue = [], pg_open = True\<rparr>"

section \<open>The gate\<close>

definition may_fire :: "PositionGate \<Rightarrow> bool \<times> PositionGate" where
  "may_fire g =
     (if \<not> armed g then
        (False, g\<lparr>pg_metrics := (pg_metrics g)\<lparr>pm_skipped_disarmed := pm_skipped_disarmed (pg_metrics g) + 1\<rparr>\<rparr>)
      else if pg_sync_mode g \<and> busy g then
        (False, g\<lparr>pg_metrics := (pg_metrics g)\<lparr>pm_skipped_busy := pm_skipped_busy (pg_metrics g) + 1\<rparr>\<rparr>)
      else (True, g))"

definition claim :: "PositionGate \<Rightarrow> bool \<times> PositionGate" where
  "claim g =
     (if \<not> pg_sync_mode g then (True, g)
      else if busy g then (False, g)
      else (True, g\<lparr>busy := True\<rparr>))"

text \<open>\<open>try_send\<close> fails on a full channel and on one whose receiver is gone.\<close>

definition opened :: "OpenPosition \<Rightarrow> PositionGate \<Rightarrow> PositionGate" where
  "opened p g =
     (let g = g\<lparr>pg_metrics := (pg_metrics g)\<lparr>pm_opened := pm_opened (pg_metrics g) + 1\<rparr>\<rparr>
      in if pg_open g \<and> length (pg_queue g) < CHANNEL_CAPACITY then g\<lparr>pg_queue := pg_queue g @ [p]\<rparr>
         else g\<lparr>busy := False\<rparr>)"

section \<open>A live position\<close>

definition ms :: "u64 \<Rightarrow> nat" where
  "ms t = unat t * 1000000"

definition env_ms :: "env \<Rightarrow> string \<Rightarrow> u64 \<Rightarrow> u64" where
  "env_ms env key d =
     (case env key of None \<Rightarrow> d | Some v \<Rightarrow> (case parse_u64 v of None \<Rightarrow> d | Some n \<Rightarrow> n))"

record live_config =
  lc_deadline :: nat
  lc_hold_ceiling :: nat
  lc_kill_after :: nat
  lc_has_keypair :: bool

definition live_config_of :: "env \<Rightarrow> ModeConfig \<Rightarrow> bool \<Rightarrow> live_config" where
  "live_config_of env modes has_keypair =
     \<lparr>lc_deadline = ms (buy_timeout_ms modes),
      lc_hold_ceiling = ms (env_ms env ''SNIPER_HOLD_CEILING_MS'' 120000),
      lc_kill_after = ms (env_ms env ''SNIPER_NONCE_KILL_MS'' 3000),
      lc_has_keypair = has_keypair\<rparr>"

text \<open>
  What one iteration reads, in order: the clock at the kill check, whether advancing the nonce
  was accepted and the clock then, the clock at the grace check, the account (\<open>None\<close> for an RPC
  error, else whether it exists), and the clock after the account read.
\<close>

record observation =
  ob_t_kill :: nat
  ob_kill_ok :: bool
  ob_t_killed :: nat
  ob_t_grace :: nat
  ob_account :: "bool option"
  ob_t_after :: nat

record live_state =
  ls_landed :: bool
  ls_landed_at :: "nat option"
  ls_kill_attempted :: bool
  ls_nonce_killed_at :: "nat option"
  ls_metrics :: PositionMetrics
  ls_recorders :: nat

definition live_start :: "PositionMetrics \<Rightarrow> live_state" where
  "live_start m = \<lparr>ls_landed = False, ls_landed_at = None, ls_kill_attempted = False,
     ls_nonce_killed_at = None, ls_metrics = m, ls_recorders = 0\<rparr>"

definition live_kill :: "live_config \<Rightarrow> observation \<Rightarrow> live_state \<Rightarrow> live_state" where
  "live_kill c ob s =
     (if \<not> ls_landed s \<and> \<not> ls_kill_attempted s \<and> lc_kill_after c \<noteq> 0 \<and> ob_t_kill ob > lc_kill_after c then
        let s = s\<lparr>ls_kill_attempted := True\<rparr>
        in if lc_has_keypair c \<and> ob_kill_ok ob then
             s\<lparr>ls_metrics := (ls_metrics s)\<lparr>pm_nonce_killed := pm_nonce_killed (ls_metrics s) + 1\<rparr>,
               ls_nonce_killed_at := Some (ob_t_killed ob)\<rparr>
           else s
      else s)"

definition never_landed :: "live_state \<Rightarrow> live_state" where
  "never_landed s =
     s\<lparr>ls_metrics := (ls_metrics s)\<lparr>pm_never_landed := pm_never_landed (ls_metrics s) + 1\<rparr>\<rparr>"

definition GRACE :: nat where "GRACE = 6 * 1000000000"

text \<open>One iteration of the loop: the new state, and the return value when it returns.\<close>

definition live_step :: "live_config \<Rightarrow> observation \<Rightarrow> live_state \<Rightarrow> live_state \<times> bool option" where
  "live_step c ob s =
     (let s = live_kill c ob s
      in if \<not> ls_landed s
            \<and> (case ls_nonce_killed_at s of None \<Rightarrow> False | Some t \<Rightarrow> ob_t_grace ob - t > GRACE) then
           (never_landed s, Some False)
         else case ob_account ob of
           None \<Rightarrow>
             if \<not> ls_landed s \<and> ob_t_after ob > lc_deadline c then (never_landed s, Some False)
             else (s, None)
         | Some True \<Rightarrow>
             if \<not> ls_landed s then
               (s\<lparr>ls_landed := True, ls_landed_at := Some (ob_t_after ob),
                  ls_recorders := ls_recorders s + 1\<rparr>, None)
             else if (case ls_landed_at s of None \<Rightarrow> False
                      | Some t \<Rightarrow> ob_t_after ob - t > lc_hold_ceiling c) then
               (s\<lparr>ls_metrics := (ls_metrics s)\<lparr>pm_stuck_released := pm_stuck_released (ls_metrics s) + 1\<rparr>\<rparr>,
                Some True)
             else (s, None)
         | Some False \<Rightarrow>
             if ls_landed s then (s, Some True)
             else if ob_t_after ob > lc_deadline c then (never_landed s, Some False)
             else (s, None))"

fun live_run :: "live_config \<Rightarrow> live_state \<Rightarrow> observation list \<Rightarrow> live_state \<times> bool option" where
  "live_run c s [] = (s, None)"
| "live_run c s (ob # obs) =
     (case live_step c ob s of
        (s, Some r) \<Rightarrow> (s, Some r)
      | (s, None) \<Rightarrow> live_run c s obs)"

definition live_cycle ::
  "env \<Rightarrow> ModeConfig \<Rightarrow> bool \<Rightarrow> PositionMetrics \<Rightarrow> observation list \<Rightarrow> live_state \<times> bool option" where
  "live_cycle env modes has_keypair m obs =
     live_run (live_config_of env modes has_keypair) (live_start m) obs"

section \<open>A ghost position\<close>

definition read_reserves :: "bytes \<Rightarrow> (u64 \<times> u64) option" where
  "read_reserves d = do {
     token \<leftarrow> map_option u64_from_le (get_range d 8 16);
     sol \<leftarrow> map_option u64_from_le (get_range d 16 24);
     Some (token, sol)
   }"

text \<open>\<open>i64\<close> values are 64-bit words read with \<open>sint\<close>; \<open>None\<close> is a failed read of the curve account.\<close>

definition ghost_cycle ::
  "CurveParams \<Rightarrow> OpenPosition \<Rightarrow> bytes option \<Rightarrow> PositionMetrics \<Rightarrow> PositionMetrics" where
  "ghost_cycle curve p account m =
     (case Option.bind account read_reserves of
        None \<Rightarrow> m
      | Some (virtual_token, virtual_sol) \<Rightarrow>
          let proceeds = sell_proceeds curve virtual_sol virtual_token (op_amount p);
              pnl = proceeds - op_cost p;
              m = m\<lparr>pm_ghost_pnl_lamports := pm_ghost_pnl_lamports m + pnl\<rparr>
          in if sint pnl \<ge> 0 then m\<lparr>pm_ghost_wins := pm_ghost_wins m + 1\<rparr>
             else m\<lparr>pm_ghost_losses := pm_ghost_losses m + 1\<rparr>)"

section \<open>The landing slot\<close>

record status_signature =
  ss_slot :: u64
  ss_failed :: bool
  ss_signature :: bytes

text \<open>\<open>min_by_key\<close> returns the first of several minimal elements.\<close>

fun min_by_slot :: "status_signature list \<Rightarrow> status_signature option" where
  "min_by_slot [] = None"
| "min_by_slot (s # ss) =
     (case min_by_slot ss of
        None \<Rightarrow> Some s
      | Some m \<Rightarrow> if ss_slot s \<le> ss_slot m then Some s else Some m)"

definition creating_signature :: "status_signature list \<Rightarrow> (u64 \<times> bytes) option" where
  "creating_signature sigs =
     map_option (\<lambda>s. (ss_slot s, ss_signature s)) (min_by_slot (filter (\<lambda>s. \<not> ss_failed s) sigs))"

definition LANDING_LOOKUP_ATTEMPTS :: nat where "LANDING_LOOKUP_ATTEMPTS = 12"

text \<open>The answers of the successive attempts; \<open>None\<close> is a failed call.\<close>

fun landed_slot_loop :: "status_signature list option list \<Rightarrow> (u64 \<times> bytes) option" where
  "landed_slot_loop [] = None"
| "landed_slot_loop (a # as) =
     (case Option.bind a creating_signature of
        Some r \<Rightarrow> Some r
      | None \<Rightarrow> landed_slot_loop as)"

definition read_landed_slot :: "status_signature list option list \<Rightarrow> (u64 \<times> bytes) option" where
  "read_landed_slot answers = landed_slot_loop (take LANDING_LOOKUP_ATTEMPTS answers)"

definition record_landing ::
  "OpenPosition \<Rightarrow> status_signature list option list \<Rightarrow> PositionMetrics \<Rightarrow> PositionMetrics" where
  "record_landing p answers m =
     (case read_landed_slot answers of
        None \<Rightarrow> m\<lparr>pm_landing_slot_unknown := pm_landing_slot_unknown m + 1\<rparr>
      | Some (landed_slot, sig) \<Rightarrow>
          let delta = sat_sub landed_slot (op_create_slot p)
          in if delta = 0 then m\<lparr>pm_landed_same_slot := pm_landed_same_slot m + 1\<rparr>
             else if delta = 1 then m\<lparr>pm_landed_plus_one := pm_landed_plus_one m + 1\<rparr>
             else m\<lparr>pm_landed_later := pm_landed_later m + 1\<rparr>)"

section \<open>The tracker\<close>

text \<open>
  The rest of an iteration of \<open>track\<close> once the cycle of a position has returned: \<open>landed\<close> is its
  result, \<open>floor\<close> the configured bankroll floor, \<open>balances\<close> the two balance reads.
\<close>

definition bankroll_floor ::
  "(ustr \<Rightarrow> f64 option) \<Rightarrow> (f64 \<Rightarrow> f64 \<Rightarrow> f64) \<Rightarrow> env \<Rightarrow> u64" where
  "bankroll_floor parse_f64 fmul env =
     f64_to_u64 (fmul (env_f64 parse_f64 env ''SNIPER_MIN_BANKROLL_SOL'' (Fin 4)) (Fin 1000000000))"

definition below_bankroll :: "u64 \<Rightarrow> bool \<Rightarrow> u64 option \<times> u64 option \<Rightarrow> bool" where
  "below_bankroll floor_lamports has_keypair = (\<lambda>(first, settled).
     floor_lamports > 0 \<and> has_keypair
     \<and> (case first of
          None \<Rightarrow> False
        | Some balance \<Rightarrow>
            balance < floor_lamports
            \<and> (case settled of None \<Rightarrow> balance | Some b \<Rightarrow> b) < floor_lamports))"

record tracker =
  tk_gate :: PositionGate
  tk_trips_done :: u32

definition track_close ::
  "ModeConfig \<Rightarrow> u64 \<Rightarrow> bool \<Rightarrow> u64 option \<times> u64 option \<Rightarrow> OpenPosition \<Rightarrow> bool \<Rightarrow> tracker \<Rightarrow> tracker" where
  "track_close modes floor_lamports has_keypair balances p landed tk =
     (let g = tk_gate tk;
          g = g\<lparr>pg_metrics := (pg_metrics g)\<lparr>pm_closed := pm_closed (pg_metrics g) + 1\<rparr>\<rparr>;
          g = (if landed \<and> \<not> op_ghost p \<and> below_bankroll floor_lamports has_keypair balances
               then g\<lparr>armed := False\<rparr> else g);
          trips = (if test_mode modes \<and> landed then tk_trips_done tk + 1 else tk_trips_done tk);
          g = (if test_mode modes \<and> landed \<and> trips \<ge> max (test_trips modes) 1
               then g\<lparr>armed := False\<rparr> else g)
      in \<lparr>tk_gate = g\<lparr>busy := False\<rparr>, tk_trips_done = trips\<rparr>)"

section \<open>The interface of the gate\<close>

text \<open>What a client of a one-at-a-time gate may rely on.\<close>

locale exclusive_gate =
  fixes acquire :: "'g \<Rightarrow> bool \<times> 'g" and held :: "'g \<Rightarrow> bool" and free :: "'g \<Rightarrow> 'g" and ok :: "'g \<Rightarrow> bool"
  assumes acquire_ok: "ok g \<Longrightarrow> acquire g = (True, g') \<Longrightarrow> \<not> held g \<and> held g'"
    and acquire_fail: "ok g \<Longrightarrow> acquire g = (False, g') \<Longrightarrow> held g \<and> g' = g"
    and acquire_keeps: "ok g \<Longrightarrow> acquire g = (b, g') \<Longrightarrow> ok g'"
    and freed: "ok g \<Longrightarrow> \<not> held (free g) \<and> ok (free g)"
begin

lemma second_acquire_fails: "ok g \<Longrightarrow> acquire g = (True, g') \<Longrightarrow> acquire g' = (False, g')"
  using acquire_ok acquire_fail acquire_keeps by (metis surj_pair)

lemma acquire_after_free: "ok g \<Longrightarrow> fst (acquire (free g))"
  using freed acquire_fail by (metis prod.collapse)

end

definition release :: "PositionGate \<Rightarrow> PositionGate" where
  "release g = g\<lparr>busy := False\<rparr>"

interpretation gate: exclusive_gate claim busy release pg_sync_mode
  by unfold_locales (auto simp: claim_def release_def split: if_splits)

section \<open>Detect threads and tracker together\<close>

text \<open>
  \<open>w_passed\<close> counts the detect threads between \<open>may_fire\<close> and \<open>claim\<close>, \<open>w_claimed\<close> those between
  \<open>claim\<close> and \<open>opened\<close>; \<open>w_current\<close> is the position the tracker is cycling. The tracker may exit
  between two positions; what is then left in the channel is never received.
\<close>

record world =
  w_tracker :: tracker
  w_passed :: nat
  w_claimed :: nat
  w_current :: "OpenPosition option"

abbreviation w_gate :: "world \<Rightarrow> PositionGate" where
  "w_gate w \<equiv> tk_gate (w_tracker w)"

definition with_gate :: "PositionGate \<Rightarrow> world \<Rightarrow> world" where
  "with_gate g w = w\<lparr>w_tracker := (w_tracker w)\<lparr>tk_gate := g\<rparr>\<rparr>"

definition world_start :: "ModeConfig \<Rightarrow> world" where
  "world_start modes = \<lparr>w_tracker = \<lparr>tk_gate = gate_start modes, tk_trips_done = 0\<rparr>,
     w_passed = 0, w_claimed = 0, w_current = None\<rparr>"

inductive gate_step :: "ModeConfig \<Rightarrow> world \<Rightarrow> world \<Rightarrow> bool" for modes where
  check: "may_fire (w_gate w) = (b, g) \<Longrightarrow>
    gate_step modes w ((with_gate g w)\<lparr>w_passed := w_passed w + (if b then 1 else 0)\<rparr>)"
| claim_won: "w_passed w > 0 \<Longrightarrow> claim (w_gate w) = (True, g) \<Longrightarrow>
    gate_step modes w ((with_gate g w)\<lparr>w_passed := w_passed w - 1, w_claimed := w_claimed w + 1\<rparr>)"
| claim_lost: "w_passed w > 0 \<Longrightarrow> claim (w_gate w) = (False, g) \<Longrightarrow>
    gate_step modes w ((with_gate g w)\<lparr>w_passed := w_passed w - 1\<rparr>)"
| hand_over: "w_claimed w > 0 \<Longrightarrow>
    gate_step modes w ((with_gate (opened p (w_gate w)) w)\<lparr>w_claimed := w_claimed w - 1\<rparr>)"
| receive: "w_current w = None \<Longrightarrow> pg_open (w_gate w) \<Longrightarrow> pg_queue (w_gate w) = p # q \<Longrightarrow>
    gate_step modes w ((with_gate ((w_gate w)\<lparr>pg_queue := q\<rparr>) w)\<lparr>w_current := Some p\<rparr>)"
| close: "w_current w = Some p \<Longrightarrow>
    gate_step modes w (w\<lparr>w_tracker := track_close modes floor_lamports kp balances p landed (w_tracker w),
      w_current := None\<rparr>)"
| quit: "w_current w = None \<Longrightarrow> gate_step modes w (with_gate ((w_gate w)\<lparr>pg_open := False\<rparr>) w)"

inductive gate_reach :: "ModeConfig \<Rightarrow> world \<Rightarrow> bool" for modes where
  start: "gate_reach modes (world_start modes)"
| step: "gate_reach modes w \<Longrightarrow> gate_step modes w w' \<Longrightarrow> gate_reach modes w'"

inductive_cases gate_stepE: "gate_step modes w w'"

definition outstanding :: "world \<Rightarrow> nat" where
  "outstanding w = w_claimed w + length (pg_queue (w_gate w)) + (if w_current w = None then 0 else 1)"

definition one_open :: "world \<Rightarrow> bool" where
  "one_open w \<longleftrightarrow> pg_sync_mode (w_gate w) \<and> outstanding w = (if busy (w_gate w) then 1 else 0)"

lemma may_fire_keeps:
  "may_fire g = (b, g') \<Longrightarrow> busy g' = busy g \<and> armed g' = armed g \<and> pg_queue g' = pg_queue g
     \<and> pg_sync_mode g' = pg_sync_mode g \<and> (b \<longrightarrow> armed g)"
  by (auto simp: may_fire_def split: if_splits)

lemma claim_keeps:
  "claim g = (b, g') \<Longrightarrow> armed g' = armed g \<and> pg_queue g' = pg_queue g \<and> pg_sync_mode g' = pg_sync_mode g"
  by (auto simp: claim_def split: if_splits)

lemma track_close_keeps [simp]:
  "pg_queue (tk_gate (track_close modes fl kp bal p landed tk)) = pg_queue (tk_gate tk)"
  "pg_sync_mode (tk_gate (track_close modes fl kp bal p landed tk)) = pg_sync_mode (tk_gate tk)"
  "\<not> busy (tk_gate (track_close modes fl kp bal p landed tk))"
  by (simp_all add: track_close_def Let_def)

lemma one_open_step:
  assumes "gate_step modes w w'" "one_open w"
  shows "one_open w'"
  using assms(1)
proof cases
  case (check b g)
  with assms(2) may_fire_keeps [OF check(2)] show ?thesis
    by (auto simp: one_open_def outstanding_def with_gate_def)
next
  case (claim_won g)
  with assms(2) claim_keeps [OF claim_won(3)] gate.acquire_ok [OF _ claim_won(3)] show ?thesis
    by (auto simp: one_open_def outstanding_def with_gate_def)
next
  case (claim_lost g)
  with assms(2) gate.acquire_fail [OF _ claim_lost(3)] show ?thesis
    by (auto simp: one_open_def outstanding_def with_gate_def)
next
  case (hand_over p)
  with assms(2) have "busy (w_gate w)" "length (pg_queue (w_gate w)) = 0" "w_claimed w = 1" "w_current w = None"
    unfolding one_open_def outstanding_def by (auto split: if_splits simp del: length_0_conv)
  with hand_over assms(2) show ?thesis
    by (simp add: one_open_def outstanding_def with_gate_def opened_def CHANNEL_CAPACITY_def Let_def)
next
  case (receive p q)
  with assms(2) show ?thesis
    by (auto simp: one_open_def outstanding_def with_gate_def split: if_splits)
next
  case (close p fl kp bal landed)
  with assms(2) show ?thesis
    by (auto simp: one_open_def outstanding_def split: if_splits)
next
  case quit
  with assms(2) show ?thesis
    by (simp add: one_open_def outstanding_def with_gate_def)
qed

lemma one_open_reach: "gate_reach modes w \<Longrightarrow> sync_mode modes \<Longrightarrow> one_open w"
  by (induction rule: gate_reach.induct)
    (simp_all add: one_open_step, simp add: one_open_def outstanding_def world_start_def gate_start_def)

definition trips_left :: "ModeConfig \<Rightarrow> world \<Rightarrow> bool" where
  "trips_left modes w \<longleftrightarrow> (armed (w_gate w) \<longrightarrow> tk_trips_done (w_tracker w) < max (test_trips modes) 1)"

lemma trips_left_step:
  assumes "gate_step modes w w'" "test_mode modes" "trips_left modes w"
  shows "trips_left modes w'"
  using assms(1)
proof cases
  case (check b g)
  with assms(3) may_fire_keeps [OF check(2)] show ?thesis
    by (auto simp: trips_left_def with_gate_def)
next
  case (claim_won g)
  with assms(3) claim_keeps [OF claim_won(3)] show ?thesis
    by (auto simp: trips_left_def with_gate_def)
next
  case (claim_lost g)
  with assms(3) claim_keeps [OF claim_lost(3)] show ?thesis
    by (auto simp: trips_left_def with_gate_def)
next
  case (hand_over p)
  with assms(3) show ?thesis
    by (auto simp: trips_left_def with_gate_def opened_def Let_def)
next
  case (receive p q)
  with assms(3) show ?thesis
    by (auto simp: trips_left_def with_gate_def)
next
  case (close p fl kp bal landed)
  with assms(2,3) show ?thesis
    by (auto simp: trips_left_def track_close_def Let_def not_le less_max_iff_disj)
next
  case quit
  with assms(3) show ?thesis
    by (simp add: trips_left_def with_gate_def)
qed

lemma trips_left_reach: "gate_reach modes w \<Longrightarrow> test_mode modes \<Longrightarrow> trips_left modes w"
  by (induction rule: gate_reach.induct)
    (simp_all add: trips_left_step, simp add: trips_left_def world_start_def less_max_iff_disj)

lemma disarmed_step: "gate_step modes w w' \<Longrightarrow> \<not> armed (w_gate w) \<Longrightarrow> \<not> armed (w_gate w') \<and> w_passed w' \<le> w_passed w"
  by (erule gate_stepE)
    (auto simp: with_gate_def opened_def track_close_def Let_def dest!: may_fire_keeps claim_keeps)

lemma disarmed_for_good:
  "(gate_step modes)\<^sup>*\<^sup>* w w' \<Longrightarrow> \<not> armed (w_gate w) \<Longrightarrow> \<not> armed (w_gate w') \<and> w_passed w' \<le> w_passed w"
  by (induction rule: rtranclp_induct) (auto dest: disarmed_step)

section \<open>The life of a position\<close>

text \<open>What the loop has seen: whether the account was there at an iteration that has run.\<close>

definition account_seen :: "observation list \<Rightarrow> bool" where
  "account_seen obs \<longleftrightarrow> (\<exists>ob \<in> set obs. ob_account ob = Some True)"

lemma live_kill_keeps [simp]:
  "ls_landed (live_kill c ob s) = ls_landed s"
  "ls_landed_at (live_kill c ob s) = ls_landed_at s"
  "ls_recorders (live_kill c ob s) = ls_recorders s"
  by (simp_all add: live_kill_def Let_def)

lemma never_landed_keeps [simp]:
  "ls_landed (never_landed s) = ls_landed s"
  "ls_landed_at (never_landed s) = ls_landed_at s"
  "ls_recorders (never_landed s) = ls_recorders s"
  by (simp_all add: never_landed_def)

lemma live_run_append:
  "live_run c s (xs @ ys) =
     (case live_run c s xs of (s', Some r) \<Rightarrow> (s', Some r) | (s', None) \<Rightarrow> live_run c s' ys)"
  by (induction xs arbitrary: s) (auto split: prod.splits option.splits)

text \<open>How an iteration ends, by the state it starts in.\<close>

lemma live_step_open:
  "ls_landed s \<Longrightarrow> live_step c ob s =
     (case ob_account ob of
        None \<Rightarrow> (s, None)
      | Some False \<Rightarrow> (s, Some True)
      | Some True \<Rightarrow>
          if (case ls_landed_at s of None \<Rightarrow> False | Some t \<Rightarrow> ob_t_after ob - t > lc_hold_ceiling c)
          then (s\<lparr>ls_metrics := (ls_metrics s)\<lparr>pm_stuck_released := pm_stuck_released (ls_metrics s) + 1\<rparr>\<rparr>, Some True)
          else (s, None))"
proof -
  assume "ls_landed s"
  then have "live_kill c ob s = s"
    by (simp add: live_kill_def)
  with \<open>ls_landed s\<close> show ?thesis
    by (simp add: live_step_def Let_def split: option.splits bool.splits)
qed

lemma live_step_waiting:
  assumes "\<not> ls_landed s" "live_step c ob s = (s', r)"
  shows "r = Some False \<and> \<not> ls_landed s' \<and> ls_metrics s' = ls_metrics (never_landed (live_kill c ob s))
       \<and> (ob_account ob \<noteq> Some True \<or> ls_nonce_killed_at (live_kill c ob s) \<noteq> None)
     \<or> r = None \<and> ls_landed s' \<and> ob_account ob = Some True \<and> ls_landed_at s' = Some (ob_t_after ob)
     \<or> r = None \<and> \<not> ls_landed s' \<and> ob_account ob \<noteq> Some True \<and> ob_t_after ob \<le> lc_deadline c"
  using assms
  by (auto simp: live_step_def Let_def never_landed_def split: if_splits option.splits bool.splits)

definition first_seen :: "observation list \<Rightarrow> observation option" where
  "first_seen obs = find (\<lambda>ob. ob_account ob = Some True) obs"

lemma first_seen_append:
  "first_seen (xs @ ys) = (case first_seen xs of None \<Rightarrow> first_seen ys | Some f \<Rightarrow> Some f)"
  unfolding first_seen_def by (induction xs) auto

lemma first_seen_snoc:
  "first_seen (obs @ [ob]) =
     (case first_seen obs of
        None \<Rightarrow> if ob_account ob = Some True then Some ob else None
      | Some f \<Rightarrow> Some f)"
  by (simp add: first_seen_append first_seen_def [of "[ob]"] split: option.split)

lemma first_seen_None: "first_seen obs = None \<longleftrightarrow> \<not> account_seen obs"
  by (auto simp: first_seen_def account_seen_def find_None_iff)

lemma first_seen_in: "first_seen obs = Some f \<Longrightarrow> f \<in> set obs \<and> ob_account f = Some True"
  by (auto simp: first_seen_def find_Some_iff)

text \<open>A loop that is still running remembers exactly the first sighting of the account.\<close>

lemma live_run_running:
  "live_run c (live_start m) obs = (s, None) \<Longrightarrow>
     ls_landed_at s = map_option ob_t_after (first_seen obs)
     \<and> ls_landed s = account_seen obs \<and> ls_recorders s = (if account_seen obs then 1 else 0)"
proof (induction obs arbitrary: s rule: rev_induct)
  case Nil
  then show ?case
    by (auto simp: live_start_def first_seen_def account_seen_def)
next
  case (snoc ob obs)
  then obtain s0 where run: "live_run c (live_start m) obs = (s0, None)" and "live_run c s0 [ob] = (s, None)"
    by (auto simp: live_run_append split: prod.splits option.splits)
  then have step: "live_step c ob s0 = (s, None)"
    by (auto split: prod.splits option.splits)
  note IH = snoc.IH [OF run]
  have seen: "account_seen (obs @ [ob]) \<longleftrightarrow> account_seen obs \<or> ob_account ob = Some True"
    by (auto simp: account_seen_def)
  show ?case
  proof (cases "ls_landed s0")
    case True
    then have "s = s0"
      using step by (auto simp: live_step_open split: option.splits bool.splits if_splits)
    with True IH seen first_seen_None [of obs] show ?thesis
      by (auto simp: first_seen_snoc split: option.splits)
  next
    case False
    with IH have "first_seen obs = None"
      by (simp add: first_seen_None)
    with False IH seen step show ?thesis
      by (auto simp: live_step_def Let_def first_seen_snoc split: if_splits option.splits bool.splits)
  qed
qed

lemma live_run_returns:
  "live_run c s obs = (s', Some r) \<Longrightarrow>
     \<exists>pre ob post s0. obs = pre @ ob # post \<and> live_run c s pre = (s0, None) \<and> live_step c ob s0 = (s', Some r)"
proof (induction obs arbitrary: s)
  case (Cons ob obs)
  show ?case
  proof (cases "live_step c ob s")
    case (Pair s1 r1)
    show ?thesis
    proof (cases r1)
      case None
      with Pair Cons.prems have "live_run c s1 obs = (s', Some r)"
        by simp
      with Cons.IH obtain pre ob1 post s0
        where "obs = pre @ ob1 # post" "live_run c s1 pre = (s0, None)" "live_step c ob1 s0 = (s', Some r)"
        by blast
      with Pair None show ?thesis
        by (intro exI [of _ "ob # pre"] exI [of _ ob1] exI [of _ post] exI [of _ s0]) simp
    next
      case (Some r2)
      with Pair Cons show ?thesis
        by (intro exI [of _ "[]"] exI [of _ ob] exI [of _ obs] exI [of _ s]) simp
    qed
  qed
qed simp

abbreviation hold_ceiling :: "env \<Rightarrow> nat" where
  "hold_ceiling env \<equiv> ms (env_ms env ''SNIPER_HOLD_CEILING_MS'' 120000)"

lemma live_cycle_verdict:
  assumes "live_cycle env modes kp m obs = (s, Some r)"
  shows "\<exists>pre ob post. obs = pre @ ob # post \<and> r = account_seen pre
     \<and> (r \<longrightarrow> ob_account ob = Some False
          \<or> ob_account ob = Some True \<and> ob_t_after ob - ob_t_after (the (first_seen pre)) > hold_ceiling env)"
proof -
  obtain pre ob post s0 where obs: "obs = pre @ ob # post"
    and run: "live_run (live_config_of env modes kp) (live_start m) pre = (s0, None)"
    and step: "live_step (live_config_of env modes kp) ob s0 = (s, Some r)"
    using assms live_run_returns unfolding live_cycle_def by blast
  note inv = live_run_running [OF run]
  show ?thesis
  proof (cases "ls_landed s0")
    case True
    with inv obtain f where f: "first_seen pre = Some f"
      by (metis first_seen_None not_None_eq)
    have "r \<and> (ob_account ob = Some False
      \<or> ob_account ob = Some True \<and> ob_t_after ob - ob_t_after f > hold_ceiling env)"
      using step True inv f
      by (auto simp: live_step_open live_config_of_def split: option.splits bool.splits if_splits)
    with True inv f obs show ?thesis
      by (intro exI [of _ pre] exI [of _ ob] exI [of _ post]) simp
  next
    case False
    with inv live_step_waiting [OF False step] obs show ?thesis
      by (intro exI [of _ pre] exI [of _ ob] exI [of _ post]) auto
  qed
qed

lemma first_seen_at_most:
  "sorted (map ob_t_after (obs @ [ob])) \<Longrightarrow> first_seen (obs @ [ob]) = Some f \<Longrightarrow> ob_t_after f \<le> ob_t_after ob"
  using first_seen_in [of "obs @ [ob]" f] by (auto simp: sorted_append)

lemma live_run_extend:
  "live_run c s xs = (s', Some r) \<Longrightarrow> live_run c s (xs @ ys) = (s', Some r)"
  by (simp add: live_run_append)

lemma live_cycle_releases:
  assumes "sorted (map ob_t_after (pre @ ob1 # mid @ [ob2]))"
    and "ob_account ob1 \<noteq> None" "ob_t_after ob1 > ms (buy_timeout_ms modes)"
    and "ob_account ob2 \<noteq> None" "ob_t_after ob2 > ob_t_after ob1 + hold_ceiling env"
  shows "\<exists>s r. live_cycle env modes kp m (pre @ ob1 # mid @ [ob2]) = (s, Some r)"
proof (rule ccontr)
  let ?c = "live_config_of env modes kp" and ?s = "live_start m"
  assume "\<not> ?thesis"
  then obtain s where all: "live_run ?c ?s (pre @ ob1 # mid @ [ob2]) = (s, None)"
    unfolding live_cycle_def by (metis not_None_eq surj_pair)
  obtain s2 where run2: "live_run ?c ?s ((pre @ [ob1]) @ mid) = (s2, None)"
    and "live_run ?c s2 [ob2] = (s, None)"
    using all live_run_append [of ?c ?s "(pre @ [ob1]) @ mid" "[ob2]"]
    by (auto split: prod.splits option.splits)
  then have step2: "live_step ?c ob2 s2 = (s, None)"
    by (auto split: prod.splits option.splits)
  obtain s1 where run1: "live_run ?c ?s (pre @ [ob1]) = (s1, None)"
    using run2 live_run_append [of ?c ?s "pre @ [ob1]" mid] by (auto split: prod.splits option.splits)
  have "account_seen (pre @ [ob1])"
  proof (rule ccontr)
    assume no: "\<not> account_seen (pre @ [ob1])"
    obtain s0 where "live_run ?c ?s pre = (s0, None)" "live_run ?c s0 [ob1] = (s1, None)"
      using run1 live_run_append [of ?c ?s pre "[ob1]"] by (auto split: prod.splits option.splits)
    then have "\<not> ls_landed s0" "live_step ?c ob1 s0 = (s1, None)"
      using live_run_running no by (auto simp: account_seen_def split: prod.splits option.splits)
    with live_step_waiting [OF this] no assms(3) show False
      by (auto simp: account_seen_def live_config_of_def)
  qed
  then obtain f where f: "first_seen (pre @ [ob1]) = Some f"
    by (metis first_seen_None not_None_eq)
  then have "ob_t_after f \<le> ob_t_after ob1"
    using assms(1) by (intro first_seen_at_most [of pre]) (auto simp: sorted_append)
  moreover have "first_seen ((pre @ [ob1]) @ mid) = Some f"
    using f by (subst first_seen_append) simp
  ultimately show False
    using step2 live_run_running [OF run2] assms(4,5) first_seen_None [of "(pre @ [ob1]) @ mid"]
    by (auto simp: live_step_open live_config_of_def split: option.splits bool.splits if_splits)
qed

lemma live_cycle_stuck:
  assumes "live_cycle env modes kp m pre = (s, None)" "account_seen pre"
    and "\<forall>ob \<in> set errs. ob_account ob = None"
  shows "live_cycle env modes kp m (pre @ errs) = (s, None)"
proof -
  have "ls_landed s"
    using assms(1,2) live_run_running unfolding live_cycle_def by blast
  then have "live_run c s errs = (s, None)" for c
    using assms(3) by (induction errs) (simp_all add: live_step_open)
  with assms(1) show ?thesis
    by (simp add: live_cycle_def live_run_append)
qed

section \<open>Ghost accounting and landing slots\<close>

lemma sint_small: "uint x < 2 ^ 63 \<Longrightarrow> sint x = uint x" for x :: u64
proof -
  assume "uint x < 2 ^ 63"
  moreover have "- (2 ^ 63) \<le> uint x" by (rule order.trans [OF _ uint_ge_0]) simp
  ultimately have "signed_take_bit 63 (uint x) = uint x"
    by (simp add: signed_take_bit_int_eq_self)
  then show ?thesis by (simp add: sint_uint)
qed
lemma sint_diff:
  fixes a b :: u64
  assumes "uint a < 2 ^ 63" "uint b < 2 ^ 63"
  shows "sint (a - b) = uint a - uint b"
proof -
  have "sint (a - b) = signed_take_bit 63 (uint a - uint b)"
   using sint_word_ariths(2) [of a b] assms by (simp add: sint_small)
  also have "\<dots> = uint a - uint b"
    using assms uint_ge_0 [of a] uint_ge_0 [of b] by (intro signed_take_bit_int_eq_self) linarith+
  finally show ?thesis .
qed

lemma min_by_slot_None: "min_by_slot ss = None \<longleftrightarrow> ss = []"
  by (cases ss) (auto split: option.splits)

lemma min_by_slot_least:
  "min_by_slot ss = Some x \<Longrightarrow> x \<in> set ss \<and> (\<forall>y \<in> set ss. ss_slot x \<le> ss_slot y)"
  by (induction ss arbitrary: x)
    (fastforce simp: min_by_slot_None split: option.splits if_splits)+

lemma creating_signature_least:
  "creating_signature sigs = Some (slot, sig) \<Longrightarrow>
     \<exists>x \<in> set sigs. \<not> ss_failed x \<and> ss_slot x = slot \<and> ss_signature x = sig
       \<and> (\<forall>y \<in> set sigs. \<not> ss_failed y \<longrightarrow> slot \<le> ss_slot y)"
  by (auto simp: creating_signature_def dest!: min_by_slot_least)

lemma creating_signature_None: "creating_signature sigs = None \<longleftrightarrow> (\<forall>x \<in> set sigs. ss_failed x)"
  by (auto simp: creating_signature_def min_by_slot_None filter_empty_conv)

lemma landed_slot_loop_Some:
  "landed_slot_loop as = Some r \<Longrightarrow> \<exists>a. Some a \<in> set as \<and> creating_signature a = Some r"
  by (induction as) (auto split: option.splits bind_splits)

lemma landed_slot_loop_None:
  "landed_slot_loop as = None \<longleftrightarrow> (\<forall>a. Some a \<in> set as \<longrightarrow> creating_signature a = None)"
  by (induction as) (auto split: option.splits bind_splits)

lemma sell_proceeds_le: "sell_proceeds c vs vt a \<le> vs"
  unfolding word_le_nat_alt unat_sell_proceeds Let_def nat_gross_def
  by (auto intro: order.trans [OF diff_le_self])

lemma ghost_cycle_pnl:
  assumes "account = Some d" "read_reserves d = Some (vt, vs)" "uint vs < 2 ^ 63" "uint (op_cost p) < 2 ^ 63"
  shows "ghost_cycle curve p account m =
     (let out = sell_proceeds curve vs vt (op_amount p);
          m = m\<lparr>pm_ghost_pnl_lamports := pm_ghost_pnl_lamports m + (out - op_cost p)\<rparr>
      in if op_cost p \<le> out then m\<lparr>pm_ghost_wins := pm_ghost_wins m + 1\<rparr>
         else m\<lparr>pm_ghost_losses := pm_ghost_losses m + 1\<rparr>)"
proof -
  let ?out = "sell_proceeds curve vs vt (op_amount p)"
  have "uint ?out < 2 ^ 63"
    using sell_proceeds_le [of curve vs vt "op_amount p"] assms(3) by (simp add: word_le_def)
  then have "sint (?out - op_cost p) \<ge> 0 \<longleftrightarrow> op_cost p \<le> ?out"
    using assms(4) by (simp add: sint_diff word_le_def)
  with assms show ?thesis
    by (simp add: ghost_cycle_def Let_def)
qed

section \<open>Properties\<close>

text \<open>
  C14: In sync mode, however the detect threads and the tracker interleave, at most one position
  is anywhere between a won claim and its close, and \<open>busy\<close> says whether there is one. The channel
  to the tracker therefore never fills, so \<open>opened\<close> drops no position while the tracker runs; once it has
  exited, \<open>opened\<close> releases the gate.
\<close>

theorem sync_one_position:
  assumes "gate_reach modes w" "sync_mode modes"
  shows "outstanding w = (if busy (w_gate w) then 1 else 0)
    \<and> length (pg_queue (w_gate w)) < CHANNEL_CAPACITY
    \<and> (fst (claim (w_gate w)) \<longrightarrow> outstanding w = 0)"
proof -
  from one_open_reach [OF assms] have inv: "one_open w" .
  then have o: "outstanding w = (if busy (w_gate w) then 1 else 0)"
    by (simp add: one_open_def)
  then have "length (pg_queue (w_gate w)) < CHANNEL_CAPACITY"
    by (simp add: outstanding_def CHANNEL_CAPACITY_def split: if_splits)
  with inv o show ?thesis
    by (auto simp: one_open_def claim_def)
qed

theorem sync_one_position_witness:
  "\<exists>w. gate_reach ModeConfig_default w \<and> busy (w_gate w) \<and> outstanding w = 1"
proof -
  let ?M = ModeConfig_default
  let ?w0 = "world_start ?M"
  let ?w1 = "(with_gate (w_gate ?w0) ?w0)\<lparr>w_passed := w_passed ?w0 + (if True then 1 else 0)\<rparr>"
  let ?g = "(w_gate ?w1)\<lparr>busy := True\<rparr>"
  let ?w2 = "(with_gate ?g ?w1)\<lparr>w_passed := w_passed ?w1 - 1, w_claimed := w_claimed ?w1 + 1\<rparr>"
  note defs = world_start_def gate_start_def ModeConfig_default_def with_gate_def
  have "gate_reach ?M ?w1"
    by (rule gate_reach.step [OF gate_reach.start], rule gate_step.check) (simp add: may_fire_def defs)
  then have reach: "gate_reach ?M ?w2"
    by (rule gate_reach.step, intro gate_step.claim_won) (simp_all add: claim_def defs)
  have "outstanding ?w2 = (if busy (w_gate ?w2) then 1 else 0)"
    by (rule sync_one_position [OF reach, THEN conjunct1]) (simp add: ModeConfig_default_def)
  with reach show ?thesis
    by (intro exI [of _ ?w2]) (simp add: with_gate_def)
qed

text \<open>
  In test mode the gate is armed only while fewer round trips have closed than were asked
  for (at least one), and a gate that has been disarmed, by the trip count or by the bankroll
  floor, lets no further launch through in any continuation.
\<close>

theorem test_mode_stops:
  assumes "gate_reach modes w"
  shows "(test_mode modes \<longrightarrow> armed (w_gate w) \<longrightarrow> tk_trips_done (w_tracker w) < max (test_trips modes) 1)
    \<and> (\<not> armed (w_gate w) \<longrightarrow> (gate_step modes)\<^sup>*\<^sup>* w w' \<longrightarrow>
      \<not> fst (may_fire (w_gate w')) \<and> w_passed w' \<le> w_passed w)"
  using trips_left_reach [OF assms] disarmed_for_good [of modes w w']
  by (auto simp: trips_left_def may_fire_def)

theorem test_mode_stops_witness:
  "tk_trips_done (w_tracker (world_start (ModeConfig_default\<lparr>test_mode := True\<rparr>))) < max 1 1"
  using test_mode_stops [OF gate_reach.start [of "ModeConfig_default\<lparr>test_mode := True\<rparr>"]]
  by (simp add: world_start_def gate_start_def ModeConfig_default_def)

text \<open>
  The verdict on a live position is right: \<open>live_cycle\<close> returns \<open>True\<close> exactly when the token
  account had been seen, and then only on a read that finds it gone or, after the configured
  ceiling counted from the first sighting, still there; a failed RPC read alone never closes a
  position that landed.
\<close>

theorem live_cycle_returns:
  assumes "live_cycle env modes kp m obs = (s, Some r)"
  shows "\<exists>pre ob post. obs = pre @ ob # post \<and> r = account_seen pre
     \<and> (r \<longrightarrow> ob_account ob = Some False
          \<or> ob_account ob = Some True \<and> ob_t_after ob - ob_t_after (the (first_seen pre)) > hold_ceiling env)"
  using assms by (rule live_cycle_verdict)

definition seen_at :: "bool option \<Rightarrow> nat \<Rightarrow> observation" where
  "seen_at a t = \<lparr>ob_t_kill = 0, ob_kill_ok = False, ob_t_killed = 0, ob_t_grace = 0,
     ob_account = a, ob_t_after = t\<rparr>"

lemma hold_ceiling_default [simp]: "hold_ceiling Map.empty = 120000000000"
  by (simp add: ms_def env_ms_def)

lemma seen_at_account [simp]: "ob_account (seen_at a t) = a"
  by (simp add: seen_at_def)

lemma live_step_first_sight [simp]:
  "\<not> ls_landed s \<Longrightarrow> ls_nonce_killed_at s = None \<Longrightarrow> live_step c (seen_at (Some True) t) s =
     (s\<lparr>ls_landed := True, ls_landed_at := Some t, ls_recorders := ls_recorders s + 1\<rparr>, None)"
  by (simp add: live_step_def live_kill_def seen_at_def)

theorem live_cycle_returns_witness:
  "\<exists>pre ob post. [seen_at (Some True) 5, seen_at None 6, seen_at (Some False) 7] = pre @ ob # post
     \<and> True = account_seen pre"
proof -
  have "live_cycle Map.empty ModeConfig_default False zero_metrics
      [seen_at (Some True) 5, seen_at None 6, seen_at (Some False) 7] =
      ((live_start zero_metrics)\<lparr>ls_landed := True, ls_landed_at := Some 5, ls_recorders := 1\<rparr>, Some True)"
    by (simp add: live_cycle_def live_start_def live_step_open)
  from live_cycle_returns [OF this] show ?thesis
    by blast
qed

text \<open>
  C40: The gate is released: with a clock that does not run backwards, two successful account
  reads, one after the buy timeout and one more than the hold ceiling later, are enough for
  \<open>live_cycle\<close> to have returned, whatever the other iterations read.
\<close>

theorem live_cycle_terminates:
  assumes "sorted (map ob_t_after (pre @ ob1 # mid @ [ob2]))"
    and "ob_account ob1 \<noteq> None" "ob_t_after ob1 > ms (buy_timeout_ms modes)"
    and "ob_account ob2 \<noteq> None" "ob_t_after ob2 > ob_t_after ob1 + hold_ceiling env"
  shows "\<exists>s r. live_cycle env modes kp m (pre @ ob1 # mid @ [ob2]) = (s, Some r)"
  using assms by (rule live_cycle_releases)

theorem live_cycle_terminates_witness:
  "\<exists>s r. live_cycle Map.empty ModeConfig_default False zero_metrics
     ([] @ seen_at (Some True) 40000000000 # [seen_at None 50000000000] @ [seen_at (Some True) 190000000000]) = (s, Some r)"
  by (rule live_cycle_terminates) (simp_all add: seen_at_def ms_def env_ms_def ModeConfig_default_def)

text \<open>
  The hold ceiling does not bound a position once every account read fails: after the account
  has been seen, failing reads keep the loop running without any effect, for any number of
  iterations and whatever the clock says.
\<close>

theorem live_cycle_rpc_outage:
  assumes "live_cycle env modes kp m pre = (s, None)" "account_seen pre"
    and "\<forall>ob \<in> set errs. ob_account ob = None"
  shows "live_cycle env modes kp m (pre @ errs) = (s, None)"
  using assms by (rule live_cycle_stuck)

theorem live_cycle_rpc_outage_witness:
  "snd (live_cycle Map.empty ModeConfig_default False zero_metrics
     ([seen_at (Some True) 5] @ replicate 1000 (seen_at None 999000000000))) = None"
proof -
  have "live_cycle Map.empty ModeConfig_default False zero_metrics [seen_at (Some True) 5] =
      ((live_start zero_metrics)\<lparr>ls_landed := True, ls_landed_at := Some 5, ls_recorders := 1\<rparr>, None)"
    by (simp add: live_cycle_def live_start_def live_step_open)
  from live_cycle_rpc_outage [OF this, of "replicate 1000 (seen_at None 999000000000)"] show ?thesis
    by (simp add: account_seen_def seen_at_def)
qed

text \<open>
  A ghost position is booked at what selling it into the curve read back would pay: the
  running total moves by proceeds less cost, and it counts as a win exactly when the proceeds
  cover the cost, as long as both are below \<open>2 ^ 63\<close> lamports, where the signed difference is
  exact.
\<close>

theorem ghost_cycle_books:
  assumes "read_reserves d = Some (vt, vs)" "uint vs < 2 ^ 63" "uint (op_cost p) < 2 ^ 63"
  shows "ghost_cycle curve p (Some d) m =
     (let out = sell_proceeds curve vs vt (op_amount p);
          m = m\<lparr>pm_ghost_pnl_lamports := pm_ghost_pnl_lamports m + (out - op_cost p)\<rparr>
      in if op_cost p \<le> out then m\<lparr>pm_ghost_wins := pm_ghost_wins m + 1\<rparr>
         else m\<lparr>pm_ghost_losses := pm_ghost_losses m + 1\<rparr>)"
  using ghost_cycle_pnl [OF refl assms] .

definition ghost_example :: OpenPosition where
  "ghost_example = \<lparr>op_mint = [], op_create_slot = 0, op_bonding_curve = [], op_token_account = [],
     op_amount = 0, op_cost = 5, op_nonce_account = [], op_prior_flow_at_fire = 0, op_ghost = True\<rparr>"

definition curve_example :: CurveParams where
  "curve_example = \<lparr>initial_virtual_sol_reserves = 30, initial_virtual_token_reserves = 1000,
     initial_real_token_reserves = 800, fee_basis_points = 95, creator_fee_basis_points = 30\<rparr>"

lemma read_reserves_layout:
  "length disc = 8 \<Longrightarrow> read_reserves (disc @ u64_to_le t @ u64_to_le s @ rest) = Some (t, s)"
  using get_range_mid [of 8 disc 16 "u64_to_le t" "u64_to_le s @ rest"]
    get_range_mid [of 16 "disc @ u64_to_le t" 24 "u64_to_le s" rest]
  by (simp add: read_reserves_def)

theorem ghost_cycle_books_witness:
  "pm_ghost_losses (ghost_cycle curve_example ghost_example (Some (replicate 8 0 @ u64_to_le 7 @ u64_to_le 9 @ [])) zero_metrics) = 1"
  using ghost_cycle_books [OF read_reserves_layout [of "replicate 8 0" 7 9 "[]"], of ghost_example curve_example zero_metrics]
  by (simp add: ghost_example_def Let_def zero_metrics_def sell_proceeds_def)

text \<open>
  A landing is recorded in exactly one counter: unknown when none of the first twelve
  lookups returned a signature that did not fail, otherwise by how far the oldest successful slot
  of one such answer is behind the create.
\<close>

theorem record_landing_counts:
  "if \<forall>a. Some a \<in> set (take LANDING_LOOKUP_ATTEMPTS answers) \<longrightarrow> (\<forall>x \<in> set a. ss_failed x)
   then record_landing p answers m = m\<lparr>pm_landing_slot_unknown := pm_landing_slot_unknown m + 1\<rparr>
   else \<exists>a x. Some a \<in> set (take LANDING_LOOKUP_ATTEMPTS answers) \<and> x \<in> set a \<and> \<not> ss_failed x
      \<and> (\<forall>y \<in> set a. \<not> ss_failed y \<longrightarrow> ss_slot x \<le> ss_slot y)
      \<and> record_landing p answers m =
          (if ss_slot x \<le> op_create_slot p then m\<lparr>pm_landed_same_slot := pm_landed_same_slot m + 1\<rparr>
           else if ss_slot x = op_create_slot p + 1 then m\<lparr>pm_landed_plus_one := pm_landed_plus_one m + 1\<rparr>
           else m\<lparr>pm_landed_later := pm_landed_later m + 1\<rparr>)"
proof (cases "read_landed_slot answers")
  case None
  then have "\<forall>a. Some a \<in> set (take LANDING_LOOKUP_ATTEMPTS answers) \<longrightarrow> (\<forall>x \<in> set a. ss_failed x)"
    by (simp add: read_landed_slot_def landed_slot_loop_None creating_signature_None)
  with None show ?thesis
    by (simp add: record_landing_def)
next
  case (Some r)
  then obtain a where a: "Some a \<in> set (take LANDING_LOOKUP_ATTEMPTS answers)" "creating_signature a = Some r"
    using landed_slot_loop_Some unfolding read_landed_slot_def by blast
  obtain x where x: "x \<in> set a" "\<not> ss_failed x" "ss_slot x = fst r"
    "\<forall>y \<in> set a. \<not> ss_failed y \<longrightarrow> ss_slot x \<le> ss_slot y"
    using creating_signature_least [of a "fst r" "snd r"] a(2) by auto
  have "sat_sub s t = 0 \<longleftrightarrow> s \<le> t" "sat_sub s t = 1 \<longleftrightarrow> t < s \<and> s = t + 1" for s t :: u64
    by (auto simp: sat_sub_def not_less order.order_iff_strict diff_eq_eq add.commute)
  with Some x(3) have "record_landing p answers m =
          (if ss_slot x \<le> op_create_slot p then m\<lparr>pm_landed_same_slot := pm_landed_same_slot m + 1\<rparr>
           else if ss_slot x = op_create_slot p + 1 then m\<lparr>pm_landed_plus_one := pm_landed_plus_one m + 1\<rparr>
           else m\<lparr>pm_landed_later := pm_landed_later m + 1\<rparr>)"
    by (auto simp: record_landing_def Let_def split: prod.splits)
  with a(1) x(1,2,4) show ?thesis
    by (subst if_not_P) blast+
qed

theorem record_landing_counts_witness:
  "record_landing ghost_example [None, Some []] zero_metrics = zero_metrics\<lparr>pm_landing_slot_unknown := 1\<rparr>"
  using record_landing_counts [of "[None, Some []]" ghost_example zero_metrics]
  by (simp add: LANDING_LOOKUP_ATTEMPTS_def zero_metrics_def)

end
