(* ===== verification/Tip.thy ===== *)
theory Tip
  imports RustText
begin

text \<open>
  \<open>sniper/src/tip.rs\<close>: the tip floor published by the poller and the per-launch tip. JSON decoding
  (\<open>serde_json\<close>) is the parameter \<open>from_json\<close>; \<open>parse_f64\<close> and \<open>fmul\<close> are the float parser and the
  float product.
\<close>

section \<open>Model\<close>

record TipFloor =
  p50 :: u64
  p75 :: u64
  p95 :: u64
  p99 :: u64

record TipParams =
  pctile :: u8
  size_bps :: u64
  comp_step_bps :: u64
  min_lamports :: u64
  max_lamports :: u64
  fallback_lamports :: u64

definition TipParams_from_env ::
  "(ustr \<Rightarrow> f64 option) \<Rightarrow> (f64 \<Rightarrow> f64 \<Rightarrow> f64) \<Rightarrow> env \<Rightarrow> u64 \<Rightarrow> TipParams option" where
  "TipParams_from_env parse_f64 fmul env fallback =
     (if env_u64 env ''SNIPER_DYNAMIC_TIP'' 0 \<noteq> 1 then None
      else Some \<lparr>
        pctile = ucast (env_u64 env ''SNIPER_TIP_PCTILE'' 75),
        size_bps = env_u64 env ''SNIPER_TIP_SIZE_BPS'' 58,
        comp_step_bps = env_u64 env ''SNIPER_TIP_COMP_STEP_BPS'' 300,
        min_lamports = sol_env parse_f64 fmul env ''SNIPER_TIP_MIN_SOL''
          (Fin (3458764513820541 / 576460752303423488)),
        max_lamports = sol_env parse_f64 fmul env ''SNIPER_TIP_MAX_SOL''
          (Fin (3602879701896397 / 72057594037927936)),
        fallback_lamports = fallback\<rparr>)"

definition floor_at :: "TipParams \<Rightarrow> TipFloor \<Rightarrow> u64" where
  "floor_at p f =
     (if pctile p \<le> 50 then p50 f
      else if pctile p \<le> 75 then p75 f
      else if pctile p \<le> 95 then p95 f
      else p99 f)"

definition market_tip :: "TipParams \<Rightarrow> TipFloor option \<Rightarrow> u64" where
  "market_tip p fl = (case fl of None \<Rightarrow> fallback_lamports p | Some f \<Rightarrow> floor_at p f)"

text \<open>\<open>None\<close> is the panic of \<open>clamp\<close> on crossed bounds.\<close>

definition dynamic_tip :: "TipParams \<Rightarrow> TipFloor option \<Rightarrow> u64 \<Rightarrow> u32 \<Rightarrow> u64 option" where
  "dynamic_tip p fl size_lamports block_buys =
     (let market = market_tip p fl;
          size_term = as_u64 (as_u128 size_lamports * as_u128 (size_bps p) div 10000);
          base = max market size_term;
          comp_num = 10000 + ucast block_buys * as_u128 (comp_step_bps p);
          tip = as_u64 (as_u128 base * comp_num div 10000)
      in clamp_word tip (min_lamports p) (max_lamports p))"

datatype json = JNull | JBool bool | JNumber f64 | JString ustr | JArray "json list"
  | JObject "(string \<times> json) list"

fun json_get :: "json \<Rightarrow> string \<Rightarrow> json option" where
  "json_get (JObject kvs) k = map_of kvs k"
| "json_get _ k = None"

fun json_as_f64 :: "json \<Rightarrow> f64 option" where
  "json_as_f64 (JNumber x) = Some x"
| "json_as_f64 _ = None"

definition tip_field :: "(f64 \<Rightarrow> f64 \<Rightarrow> f64) \<Rightarrow> json \<Rightarrow> string \<Rightarrow> u64" where
  "tip_field fmul obj k =
     (case Option.bind (json_get obj k) json_as_f64 of
        None \<Rightarrow> 0
      | Some s \<Rightarrow> f64_to_u64 (f64_round (fmul s LAMPORTS_PER_SOL)))"

definition parse_tip_floor ::
  "(ustr \<Rightarrow> json option) \<Rightarrow> (f64 \<Rightarrow> f64 \<Rightarrow> f64) \<Rightarrow> ustr \<Rightarrow> TipFloor option" where
  "parse_tip_floor from_json fmul body = do {
     v \<leftarrow> from_json body;
     obj \<leftarrow> (case v of JArray a \<Rightarrow> if a = [] then None else Some (last a) | _ \<Rightarrow> Some v);
     let f = \<lparr>p50 = tip_field fmul obj ''landed_tips_50th_percentile'',
              p75 = tip_field fmul obj ''landed_tips_75th_percentile'',
              p95 = tip_field fmul obj ''landed_tips_95th_percentile'',
              p99 = tip_field fmul obj ''landed_tips_99th_percentile''\<rparr>;
     if p50 f = 0 \<and> p75 f = 0 then None else Some f
   }"

text \<open>One round of the poller on the static \<open>FLOOR\<close>; \<open>None\<close> is a failed request.\<close>

definition poll_tip_floor ::
  "(ustr \<Rightarrow> json option) \<Rightarrow> (f64 \<Rightarrow> f64 \<Rightarrow> f64) \<Rightarrow> ustr option \<Rightarrow> TipFloor option \<Rightarrow> TipFloor option" where
  "poll_tip_floor from_json fmul resp fl =
     (case resp of
        None \<Rightarrow> fl
      | Some body \<Rightarrow>
          (case parse_tip_floor from_json fmul body of None \<Rightarrow> fl | Some f \<Rightarrow> Some f))"

section \<open>Exact reading\<close>

definition nat_tip :: "TipParams \<Rightarrow> TipFloor option \<Rightarrow> nat \<Rightarrow> nat \<Rightarrow> nat" where
  "nat_tip p fl amt buys =
     max (unat (market_tip p fl)) (amt * unat (size_bps p) div 10000)
       * (10000 + buys * unat (comp_step_bps p)) div 10000"

text \<open>The tip before clamping fits 64 bits.\<close>

definition tip_fits :: "TipParams \<Rightarrow> TipFloor option \<Rightarrow> nat \<Rightarrow> nat \<Rightarrow> bool" where
  "tip_fits p fl amt buys \<longleftrightarrow> nat_tip p fl amt buys < 2 ^ 64"

lemma nat_tip_base:
  "max (unat (market_tip p fl)) (amt * unat (size_bps p) div 10000) \<le> nat_tip p fl amt buys"
proof -
  let ?b = "max (unat (market_tip p fl)) (amt * unat (size_bps p) div 10000)"
  have "?b * 10000 div 10000 \<le> nat_tip p fl amt buys"
    unfolding nat_tip_def by (intro div_le_mono mult_le_mono2) simp
  then show ?thesis
    by simp
qed

lemma nat_tip_mono:
  "s \<le> t \<Longrightarrow> a \<le> b \<Longrightarrow> nat_tip p fl s a \<le> nat_tip p fl t b"
  unfolding nat_tip_def
  by (intro div_le_mono mult_le_mono max.mono add_left_mono) (auto intro: div_le_mono mult_le_mono1)

lemma unat_comp_num:
  "unat (10000 + ucast (b :: u32) * as_u128 s :: u128) = 10000 + unat b * unat s"
proof -
  have b: "unat (ucast b :: u128) = unat b"
    using unat_lt_length [of b] by (simp add: unsigned_ucast_eq take_bit_nat_eq_self_iff)
  have "unat b * unat s < 2 ^ 32 * 2 ^ 64"
    using unat_lt_length [of b] unat_lt_length [of s] by (intro mult_strict_mono) auto
  then show ?thesis
    by (simp add: unat_word_ariths b)
qed

lemma dynamic_tip_eq:
  assumes "tip_fits p fl (unat amt) (unat buys)"
  shows "dynamic_tip p fl amt buys =
    clamp_word (of_nat (nat_tip p fl (unat amt) (unat buys))) (min_lamports p) (max_lamports p)"
proof -
  define st where "st = as_u64 (as_u128 amt * as_u128 (size_bps p) div 10000)"
  define comp where "comp = (10000 + ucast buys * as_u128 (comp_step_bps p) :: u128)"
  let ?n = "nat_tip p fl (unat amt) (unat buys)"
  have n: "?n < 2 ^ 64"
    using assms by (simp add: tip_fits_def)
  have "unat amt * unat (size_bps p) div 10000 < 2 ^ 64"
    using nat_tip_base [of p fl "unat amt" "unat buys"] n by linarith
  then have st: "unat st = unat amt * unat (size_bps p) div 10000"
    by (simp add: st_def unat_as_u64 unat_div unat_u128_mult)
  let ?b = "max (market_tip p fl) st"
  have eq: "unat ?b * unat comp div 10000 = ?n"
    by (simp add: nat_tip_def comp_def unat_comp_num unat_max st)
  then have "unat ?b * unat comp < 10000 * 2 ^ 64"
    using n by (metis div_less_iff_less_mult mult.commute zero_less_numeral)
  then have "unat (as_u128 ?b * comp) = unat ?b * unat comp"
    by (simp add: unat_word_ariths)
  then have "unat (as_u64 (as_u128 ?b * comp div 10000)) = ?n"
    using n by (simp add: unat_as_u64 unat_div eq)
  then have "(of_nat (unat (as_u64 (as_u128 ?b * comp div 10000))) :: u64) = of_nat ?n"
    by (rule arg_cong)
  then have "as_u64 (as_u128 ?b * comp div 10000) = of_nat ?n"
    by simp
  then show ?thesis
    by (simp add: dynamic_tip_def Let_def st_def comp_def)
qed

section \<open>Properties\<close>

definition default_tip_params :: TipParams where
  "default_tip_params = \<lparr>pctile = 75, size_bps = 58, comp_step_bps = 300, min_lamports = 6000000,
     max_lamports = 50000000, fallback_lamports = 1000000\<rparr>"

text \<open>
  C35: The per-launch tip is defined exactly when the configured bounds are ordered, and it then lies
  between them, whatever the market and the position. As long as the tip before clamping fits 64 bits
  (\<open>tip_fits\<close>; beyond that the casts \<open>as u64\<close> truncate), it is the exact tip moved into the bounds, so
  up to the upper bound it pays at least the market floor and at least the configured share of the
  position.
\<close>

theorem dynamic_tip_pays_floor:
  "(dynamic_tip p fl amt buys = None \<longleftrightarrow> max_lamports p < min_lamports p)
   \<and> (\<forall>t. dynamic_tip p fl amt buys = Some t \<longrightarrow> min_lamports p \<le> t \<and> t \<le> max_lamports p)
   \<and> (\<forall>t. dynamic_tip p fl amt buys = Some t \<and> tip_fits p fl (unat amt) (unat buys) \<longrightarrow>
        unat t = max (unat (min_lamports p)) (min (nat_tip p fl (unat amt) (unat buys)) (unat (max_lamports p)))
        \<and> min (market_tip p fl) (max_lamports p) \<le> t
        \<and> min (unat amt * unat (size_bps p) div 10000) (unat (max_lamports p)) \<le> unat t)"
proof (intro conjI allI impI)
  show "dynamic_tip p fl amt buys = None \<longleftrightarrow> max_lamports p < min_lamports p"
    by (simp add: dynamic_tip_def Let_def)
  show "min_lamports p \<le> t" "t \<le> max_lamports p" if "dynamic_tip p fl amt buys = Some t" for t
    using that clamp_word_bounds [of _ "min_lamports p" "max_lamports p" t] by (auto simp: dynamic_tip_def Let_def)
next
  let ?n = "nat_tip p fl (unat amt) (unat buys)"
  fix t assume "dynamic_tip p fl amt buys = Some t \<and> tip_fits p fl (unat amt) (unat buys)"
  then have t: "clamp_word (of_nat ?n) (min_lamports p) (max_lamports p) = Some t" and n: "?n < 2 ^ 64"
    using dynamic_tip_eq [of p fl amt buys] by (simp_all add: tip_fits_def)
  then show "unat t = max (unat (min_lamports p)) (min ?n (unat (max_lamports p)))"
    by (auto simp: clamp_word_def word_less_nat_alt word_le_nat_alt unat_of_nat split: if_splits)
  then have "min ?n (unat (max_lamports p)) \<le> unat t"
    by simp
  with nat_tip_base [of p fl "unat amt" "unat buys"]
  show "min (market_tip p fl) (max_lamports p) \<le> t"
    "min (unat amt * unat (size_bps p) div 10000) (unat (max_lamports p)) \<le> unat t"
    by (auto simp: word_le_nat_alt unat_min)
qed

theorem dynamic_tip_pays_floor_witness:
  "\<exists>t. dynamic_tip default_tip_params None 2000000000 3 = Some t \<and> unat t = 12644000"
proof -
  obtain t where t: "dynamic_tip default_tip_params None 2000000000 3 = Some t"
    by (cases "dynamic_tip default_tip_params None 2000000000 3")
      (auto simp: dynamic_tip_def Let_def default_tip_params_def)
  moreover have "nat_tip default_tip_params None (unat (2000000000 :: u64)) (unat (3 :: u32)) = 12644000"
    by (simp add: nat_tip_def default_tip_params_def market_tip_def)
  ultimately show ?thesis
    using dynamic_tip_pays_floor [of default_tip_params None 2000000000 3]
    by (auto simp: default_tip_params_def tip_fits_def)
qed

text \<open>
  A larger position or a more crowded block never lowers the tip.
\<close>

theorem dynamic_tip_mono:
  assumes "tip_fits p fl (unat amt') (unat buys')" "amt \<le> amt'" "buys \<le> buys'"
    and "dynamic_tip p fl amt buys = Some t" "dynamic_tip p fl amt' buys' = Some t'"
  shows "t \<le> t'"
proof -
  have le: "nat_tip p fl (unat amt) (unat buys) \<le> nat_tip p fl (unat amt') (unat buys')"
    using assms(2,3) by (intro nat_tip_mono) (simp_all add: word_le_nat_alt)
  then have "tip_fits p fl (unat amt) (unat buys)"
    using assms(1) by (simp add: tip_fits_def)
  moreover have "(of_nat (nat_tip p fl (unat amt) (unat buys)) :: u64) \<le> of_nat (nat_tip p fl (unat amt') (unat buys'))"
    using le assms(1) by (simp add: word_le_nat_alt unat_of_nat tip_fits_def)
  ultimately show ?thesis
    using assms(4,5) by (auto simp: dynamic_tip_eq assms(1) intro: clamp_word_mono)
qed

theorem dynamic_tip_mono_witness:
  "the (dynamic_tip default_tip_params None 1000000000 0)
     \<le> the (dynamic_tip default_tip_params None 2000000000 5)"
proof -
  have defined: "\<exists>t. dynamic_tip default_tip_params fl a b = Some t" for fl a b
    by (simp add: dynamic_tip_def Let_def default_tip_params_def clamp_word_def)
  have "tip_fits default_tip_params None (unat (2000000000 :: u64)) (unat (5 :: u32))"
    by (simp add: tip_fits_def nat_tip_def default_tip_params_def market_tip_def)
  then show ?thesis
    using dynamic_tip_mono [of default_tip_params None 2000000000 5 1000000000 0]
      defined [of None 1000000000 0] defined [of None 2000000000 5] by auto
qed

end
