(* ===== verification/Confirm.thy ===== *)
theory Confirm
  imports RustText Tip
begin

text \<open>
  \<open>sniper/src/confirm.rs\<close>, the confirmation trigger, and the launcher set of
  \<open>sniper/src/whitelist.rs\<close>: the tables and their loaders, the per-launch state machine
  \<open>LaunchWatch\<close> with \<open>on_buy\<close>, and the per-day freshness of a deployer.

  The statics \<open>DEVS\<close>, \<open>WATCH\<close> and \<open>RUG\<close> are the record \<open>tables\<close>; a loader takes the contents of its
  file (\<open>None\<close> when reading fails). Base58 parsing is the SDK's and is the parameter \<open>parse_key\<close>;
  the clock is an argument (\<open>today\<close>).
\<close>

section \<open>Parameters\<close>

definition VIRT_SOL_0 :: u64 where "VIRT_SOL_0 = 30000000000"

definition CURVE_K :: u128 where "CURVE_K = 30000000000 * 1073000000000000"

record Params =
  cf_n_conf :: u32
  min_conf_lamports :: u64
  ratio_bps :: u64
  size_lo_lamports :: u64
  size_hi_lamports :: u64
  follow_lamports :: u64
  vq_cap_lamports :: u64
  conf_pad_bps :: u64

definition Params_from_env ::
  "(ustr \<Rightarrow> f64 option) \<Rightarrow> (f64 \<Rightarrow> f64 \<Rightarrow> f64) \<Rightarrow> env \<Rightarrow> Params" where
  "Params_from_env parse_f64 fmul env = \<lparr>
     cf_n_conf = ucast (env_u64 env ''SNIPER_N_CONF'' 3),
     min_conf_lamports = sol_env parse_f64 fmul env ''SNIPER_MIN_CONF_SOL'' (Fin 4),
     ratio_bps = env_u64 env ''SNIPER_SIZE_RATIO_BPS'' 4700,
     size_lo_lamports = sol_env parse_f64 fmul env ''SNIPER_SIZE_LO_SOL'' (Fin (3 / 2)),
     size_hi_lamports = sol_env parse_f64 fmul env ''SNIPER_SIZE_HI_SOL'' (Fin (7 / 2)),
     follow_lamports = sol_env parse_f64 fmul env ''SNIPER_FOLLOW_SIZE_SOL'' (Fin 2),
     vq_cap_lamports = sol_env parse_f64 fmul env ''SNIPER_VQ_CAP_SOL'' (Fin 115),
     conf_pad_bps = env_u64 env ''SNIPER_CONF_PAD_BPS'' 0\<rparr>"

definition confirm_enabled :: "env \<Rightarrow> bool" where
  "confirm_enabled env \<longleftrightarrow> env_u64 env ''SNIPER_CONFIRM_MODE'' 0 = 1"

section \<open>Tables\<close>

datatype WatchAction = FollowSymbiont | FollowWhale | Avoid

type_synonym DevSet = "pubkey \<rightharpoonup> unit"
type_synonym Watch = "pubkey \<rightharpoonup> WatchAction"
type_synonym RugMap = "pubkey \<rightharpoonup> u16"

text \<open>What one line of each file is: ignored, skipped, or an entry.\<close>

definition devset_entry ::
  "(ustr \<Rightarrow> pubkey option) \<Rightarrow> ustr \<Rightarrow> (pubkey \<times> unit) option option" where
  "devset_entry parse_key line =
     (let l = trim (before_hash line)
      in if l = [] then None
         else Some (map_option (\<lambda>k. (k, ())) (parse_key l)))"

definition watch_action :: "ustr \<Rightarrow> WatchAction option" where
  "watch_action act =
     (if act = str_of ''follow_symbiont'' then Some FollowSymbiont
      else if act = str_of ''follow_whale'' then Some FollowWhale
      else if act = str_of ''avoid'' then Some Avoid
      else None)"

definition watch_entry ::
  "(ustr \<Rightarrow> pubkey option) \<Rightarrow> ustr \<Rightarrow> (pubkey \<times> WatchAction) option option" where
  "watch_entry parse_key line =
     (let l = trim (before_hash line)
      in if l = [] then None
         else Some (case split_whitespace l of
             key # act # _ \<Rightarrow>
               do { a \<leftarrow> watch_action act; k \<leftarrow> parse_key key; Some (k, a) }
           | _ \<Rightarrow> None))"

definition rug_entry ::
  "(ustr \<Rightarrow> pubkey option) \<Rightarrow> (ustr \<Rightarrow> f64 option) \<Rightarrow> (f64 \<Rightarrow> f64 \<Rightarrow> f64) \<Rightarrow> ustr \<Rightarrow>
     (pubkey \<times> u16) option option" where
  "rug_entry parse_key parse_f64 fmul line =
     (let l = trim (before_hash line)
      in if l = [] then None
         else Some (case split_whitespace l of
             key # val # _ \<Rightarrow> do {
               k \<leftarrow> parse_key key;
               v \<leftarrow> parse_f64 val;
               Some (k, f64_to_u16 (fmul (f64_clamp01 v) (Fin 1000)))
             }
           | _ \<Rightarrow> None))"

text \<open>The loader loops: \<open>skipped\<close> counts the lines that are neither blank nor an entry.\<close>

definition DevSet_parse :: "(ustr \<Rightarrow> pubkey option) \<Rightarrow> ustr \<Rightarrow> DevSet \<times> nat" where
  "DevSet_parse parse_key text =
     fold (load_line map_put (devset_entry parse_key)) (lines text) (Map.empty, 0)"

definition Watch_parse :: "(ustr \<Rightarrow> pubkey option) \<Rightarrow> ustr \<Rightarrow> Watch \<times> nat" where
  "Watch_parse parse_key text =
     fold (load_line map_put (watch_entry parse_key)) (lines text) (Map.empty, 0)"

definition RugMap_parse ::
  "(ustr \<Rightarrow> pubkey option) \<Rightarrow> (ustr \<Rightarrow> f64 option) \<Rightarrow> (f64 \<Rightarrow> f64 \<Rightarrow> f64) \<Rightarrow> ustr \<Rightarrow> RugMap \<times> nat" where
  "RugMap_parse parse_key parse_f64 fmul text =
     fold (load_line map_put (rug_entry parse_key parse_f64 fmul)) (lines text) (Map.empty, 0)"

record tables =
  DEVS :: "DevSet option"
  WATCH :: "Watch option"
  RUG :: "RugMap option"

definition load_devs_from_file ::
  "(ustr \<Rightarrow> pubkey option) \<Rightarrow> ustr option \<Rightarrow> tables \<Rightarrow> (nat \<times> nat) option \<times> tables" where
  "load_devs_from_file parse_key file tb =
     (case file of
        None \<Rightarrow> (None, tb)
      | Some text \<Rightarrow>
          let (set, skipped) = DevSet_parse parse_key text
          in (Some (card (dom set), skipped), tb\<lparr>DEVS := Some set\<rparr>))"

definition load_watch_from_file ::
  "(ustr \<Rightarrow> pubkey option) \<Rightarrow> ustr option \<Rightarrow> tables \<Rightarrow> (nat \<times> nat) option \<times> tables" where
  "load_watch_from_file parse_key file tb =
     (case file of
        None \<Rightarrow> (None, tb)
      | Some text \<Rightarrow>
          let (w, skipped) = Watch_parse parse_key text
          in (Some (card (dom w), skipped), tb\<lparr>WATCH := Some w\<rparr>))"

definition load_rug_from_file ::
  "(ustr \<Rightarrow> pubkey option) \<Rightarrow> (ustr \<Rightarrow> f64 option) \<Rightarrow> (f64 \<Rightarrow> f64 \<Rightarrow> f64) \<Rightarrow> ustr option \<Rightarrow> tables \<Rightarrow>
     (nat \<times> nat) option \<times> tables" where
  "load_rug_from_file parse_key parse_f64 fmul file tb =
     (case file of
        None \<Rightarrow> (None, tb)
      | Some text \<Rightarrow>
          let (m, skipped) = RugMap_parse parse_key parse_f64 fmul text
          in (Some (card (dom m), skipped), tb\<lparr>RUG := Some m\<rparr>))"

text \<open>One round of the reloader: three files, each read or not.\<close>

definition reload_tables ::
  "(ustr \<Rightarrow> pubkey option) \<Rightarrow> (ustr \<Rightarrow> f64 option) \<Rightarrow> (f64 \<Rightarrow> f64 \<Rightarrow> f64) \<Rightarrow>
     ustr option \<Rightarrow> ustr option \<Rightarrow> ustr option \<Rightarrow> tables \<Rightarrow> tables" where
  "reload_tables parse_key parse_f64 fmul devs watch rug tb =
     (let tb = snd (load_devs_from_file parse_key devs tb);
          tb = snd (load_watch_from_file parse_key watch tb)
      in snd (load_rug_from_file parse_key parse_f64 fmul rug tb))"

text \<open>
  \<open>creator_rug\<close> is \<open>milli / 1000\<close> as a float; the quotient of two integers is kept exact here, the
  code only compares it with a threshold.
\<close>

definition creator_rug_milli :: "tables \<Rightarrow> pubkey \<Rightarrow> u16" where
  "creator_rug_milli tb dev =
     (case RUG tb of None \<Rightarrow> 0 | Some m \<Rightarrow> (case m dev of None \<Rightarrow> 0 | Some r \<Rightarrow> r))"

text \<open>The launcher whitelist: the current set and the shadow-run switch.\<close>

record Whitelist =
  wl_set :: "pubkey set"
  wl_disabled :: bool

definition whitelist_contains :: "Whitelist \<Rightarrow> pubkey \<Rightarrow> bool" where
  "whitelist_contains w key \<longleftrightarrow> wl_disabled w \<or> key \<in> wl_set w"

definition whitelist_line :: "(ustr \<Rightarrow> pubkey option) \<Rightarrow> ustr \<Rightarrow> pubkey set \<Rightarrow> pubkey set" where
  "whitelist_line from_str line set' =
     (let l = trim line
      in if l = [] \<or> hd l = 35 then set'
         else case from_str l of None \<Rightarrow> set' | Some key \<Rightarrow> insert key set')"

definition whitelist_parse_str :: "(ustr \<Rightarrow> pubkey option) \<Rightarrow> ustr \<Rightarrow> pubkey set" where
  "whitelist_parse_str from_str raw = fold (whitelist_line from_str) (lines raw) {}"

text \<open>One round of the whitelist refresher; the second component is \<open>last_modified\<close>.\<close>

definition whitelist_refresh ::
  "(ustr \<Rightarrow> pubkey option) \<Rightarrow> nat option \<Rightarrow> ustr option \<Rightarrow> Whitelist \<times> nat option \<Rightarrow>
     Whitelist \<times> nat option" where
  "whitelist_refresh from_str modified file = (\<lambda>(w, last_modified).
     if modified \<noteq> last_modified then
       (case file of
          Some raw \<Rightarrow> (w\<lparr>wl_set := whitelist_parse_str from_str raw\<rparr>, modified)
        | None \<Rightarrow> (w, last_modified))
     else (w, last_modified))"

section \<open>The launch watch\<close>

datatype Book = Main | Book_FollowSymbiont | Book_FollowWhale

record ConfirmFire =
  fire_book :: Book
  fire_budget_lamports :: u64
  fire_prior_flow_lamports :: u64
  fire_n_conf :: u32

datatype Pass = Watching | EliteAhead | CurveCapped | Dead

record LaunchWatch =
  vq_lamports :: u64
  lw_n_conf :: u32
  conf_lamports :: u64
  elite_ahead :: bool
  lw_done :: bool

text \<open>\<open>Result<ConfirmFire, Pass>\<close>: \<open>Inr\<close> is \<open>Ok\<close>, \<open>Inl\<close> is \<open>Err\<close>.\<close>

type_synonym fire_result = "Pass + ConfirmFire"

definition LaunchWatch_new :: "u64 \<Rightarrow> LaunchWatch" where
  "LaunchWatch_new dev_buy_lamports =
     (let dev_net = as_u64 (as_u128 dev_buy_lamports * 10000 div 10125)
      in \<lparr>vq_lamports = sat_add VIRT_SOL_0 dev_net, lw_n_conf = 0, conf_lamports = 0,
          elite_ahead = False, lw_done = False\<rparr>)"

definition watch_fire :: "Book \<Rightarrow> u64 \<Rightarrow> Params \<Rightarrow> LaunchWatch \<Rightarrow> LaunchWatch \<times> fire_result" where
  "watch_fire book budget p w =
     (let w = w\<lparr>lw_done := True\<rparr>
      in if vq_lamports w \<ge> vq_cap_lamports p then (w, Inl CurveCapped)
         else (w, Inr \<lparr>fire_book = book, fire_budget_lamports = budget,
                fire_prior_flow_lamports = sat_sub (vq_lamports w) VIRT_SOL_0,
                fire_n_conf = lw_n_conf w\<rparr>))"

definition pledged_net :: "Params \<Rightarrow> u64 \<Rightarrow> u64" where
  "pledged_net p sol_lamports =
     (let spend = as_u64 (as_u128 sol_lamports * as_u128 (10000 - min (conf_pad_bps p) 10000) div 10000)
      in as_u64 (as_u128 spend * 10000 div 10125))"

text \<open>The net inflow one confirming buy is counted with.\<close>

definition counted_net :: "Params \<Rightarrow> u64 \<Rightarrow> u64 \<Rightarrow> u64 \<Rightarrow> bool \<Rightarrow> u64" where
  "counted_net p vq sol_lamports token_amount exact_sol =
     (let pledged = pledged_net p sol_lamports
      in if exact_sol \<or> token_amount = 0 then pledged
         else let vsol = as_u128 (max vq 1); vtok = CURVE_K div vsol
              in case checked_sub vtok (as_u128 token_amount) of
                   Some rem \<Rightarrow>
                     if rem > 0 then min (as_u64 (sat_sub (CURVE_K div rem) vsol)) pledged
                     else pledged
                 | None \<Rightarrow> pledged)"

definition watch_lookup :: "tables \<Rightarrow> pubkey \<Rightarrow> WatchAction option" where
  "watch_lookup tb buyer = (case WATCH tb of None \<Rightarrow> None | Some w \<Rightarrow> w buyer)"

definition main_budget :: "Params \<Rightarrow> u64 \<Rightarrow> u64 option" where
  "main_budget p conf = do {
     let raw = as_u64 (as_u128 conf * as_u128 (ratio_bps p) div 10000);
     budget \<leftarrow> clamp_word raw (size_lo_lamports p) (size_hi_lamports p);
     Some (max (budget div 100000000 * 100000000) (size_lo_lamports p))
   }"

definition count_buy :: "tables \<Rightarrow> Params \<Rightarrow> pubkey \<Rightarrow> u64 \<Rightarrow> u64 \<Rightarrow> bool \<Rightarrow> LaunchWatch \<Rightarrow> LaunchWatch" where
  "count_buy tb p buyer sol_lamports token_amount exact_sol w =
     (let w = (if watch_lookup tb buyer = Some Avoid then w\<lparr>elite_ahead := True\<rparr> else w);
          net = counted_net p (vq_lamports w) sol_lamports token_amount exact_sol
      in w\<lparr>lw_n_conf := lw_n_conf w + 1, conf_lamports := sat_add (conf_lamports w) net,
           vq_lamports := sat_add (vq_lamports w) net\<rparr>)"

text \<open>\<open>on_buy\<close>; the outer option is the panic of \<open>clamp\<close> when the configured sizes are crossed.\<close>

definition on_buy ::
  "tables \<Rightarrow> Params \<Rightarrow> pubkey \<Rightarrow> u64 \<Rightarrow> u64 \<Rightarrow> bool \<Rightarrow> LaunchWatch \<Rightarrow>
     (LaunchWatch \<times> fire_result) option" where
  "on_buy tb p buyer sol_lamports token_amount exact_sol w =
     (if lw_done w then Some (w, Inl Dead)
      else
        let action = watch_lookup tb buyer;
            w = count_buy tb p buyer sol_lamports token_amount exact_sol w
        in if action = Some FollowSymbiont then
             Some (watch_fire Book_FollowSymbiont (follow_lamports p) p w)
           else if action = Some FollowWhale then
             Some (watch_fire Book_FollowWhale (follow_lamports p) p w)
           else if lw_n_conf w \<ge> cf_n_conf p \<and> conf_lamports w \<ge> min_conf_lamports p then
             if elite_ahead w then Some (w\<lparr>lw_done := True\<rparr>, Inl EliteAhead)
             else do {
               budget \<leftarrow> main_budget p (conf_lamports w);
               Some (watch_fire Main budget p w)
             }
           else Some (w, Inl Watching))"

section \<open>Freshness of a deployer\<close>

record Session =
  seen_devs :: "pubkey set"
  day :: u64

definition dev_is_fresh :: "tables \<Rightarrow> u64 \<Rightarrow> pubkey \<Rightarrow> Session \<Rightarrow> bool \<times> Session" where
  "dev_is_fresh tb today dev s =
     (let s = (if today \<noteq> day s then s\<lparr>seen_devs := {}, day := today\<rparr> else s);
          seen = dev \<in> seen_devs s;
          s = s\<lparr>seen_devs := insert dev (seen_devs s)\<rparr>
      in (if seen then False
          else case DEVS tb of Some devs \<Rightarrow> devs dev = None | None \<Rightarrow> False, s))"

section \<open>Lemmas on one buy\<close>

definition is_ok :: "fire_result \<Rightarrow> bool" where
  "is_ok r \<longleftrightarrow> (\<exists>f. r = Inr f)"

lemma counted_net_le: "counted_net p vq sol tok ex \<le> pledged_net p sol"
  by (auto simp: counted_net_def Let_def split: option.splits)

lemma unat_pledged_net:
  "unat (pledged_net p sol) = unat sol * (10000 - unat (conf_pad_bps p)) div 10000 * 10000 div 10125"
proof -
  let ?b = "10000 - min (conf_pad_bps p) 10000 :: u64"
  have b: "unat ?b = 10000 - unat (conf_pad_bps p)"
    by (simp add: unat_sub_if' unat_min word_le_nat_alt)
  define spend where "spend = as_u64 (as_u128 sol * as_u128 ?b div 10000)"
  have "unat sol * unat ?b div 10000 \<le> unat sol * 10000 div 10000"
    using b by (intro div_le_mono mult_le_mono2) simp
  then have s: "unat spend = unat sol * unat ?b div 10000"
    using unat_u64_less [of sol]
    by (simp add: spend_def unat_as_u64 unat_div unat_u128_mult del: unat_u64_less)
  have "unat (as_u128 spend * 10000) = unat spend * 10000"
    using unat_u128_mult [of spend 10000] by (simp add: as_u128_def)
  moreover have "unat spend * 10000 div 10125 \<le> unat spend"
    by simp
  ultimately show ?thesis
    using unat_u64_less [of spend]
    by (simp add: pledged_net_def spend_def [symmetric] unat_as_u64 unat_div s b del: unat_u64_less)
qed

lemma pledged_net_le: "pledged_net p sol \<le> sol"
proof -
  have "unat sol * (10000 - unat (conf_pad_bps p)) div 10000 \<le> unat sol * 10000 div 10000"
    by (intro div_le_mono mult_le_mono2) simp
  then show ?thesis
    by (simp add: word_le_nat_alt unat_pledged_net)
qed

lemma count_buy_fields [simp]:
  "lw_done (count_buy tb p buyer sol tok ex w) = lw_done w"
  "elite_ahead (count_buy tb p buyer sol tok ex w) \<longleftrightarrow> elite_ahead w \<or> watch_lookup tb buyer = Some Avoid"
  "conf_lamports (count_buy tb p buyer sol tok ex w)
     = sat_add (conf_lamports w) (counted_net p (vq_lamports w) sol tok ex)"
  "vq_lamports (count_buy tb p buyer sol tok ex w)
     = sat_add (vq_lamports w) (counted_net p (vq_lamports w) sol tok ex)"
  "lw_n_conf (count_buy tb p buyer sol tok ex w) = lw_n_conf w + 1"
  by (simp_all add: count_buy_def Let_def)

lemma watch_fire_fields:
  "watch_fire book b p w = (w', r) \<Longrightarrow> w' = w\<lparr>lw_done := True\<rparr>
     \<and> (is_ok r \<longleftrightarrow> vq_lamports w < vq_cap_lamports p)
     \<and> (\<forall>f. r = Inr f \<longrightarrow> fire_book f = book \<and> fire_budget_lamports f = b
          \<and> fire_prior_flow_lamports f = sat_sub (vq_lamports w) VIRT_SOL_0 \<and> fire_n_conf f = lw_n_conf w)"
  by (auto simp: watch_fire_def Let_def is_ok_def split: if_splits)

lemma main_budget_bounds:
  assumes "main_budget p conf = Some b"
  shows "size_lo_lamports p \<le> b \<and> b \<le> size_hi_lamports p
    \<and> (b = size_lo_lamports p \<or> 100000000 dvd unat b)"
proof -
  obtain c where c: "clamp_word (as_u64 (as_u128 conf * as_u128 (ratio_bps p) div 10000))
      (size_lo_lamports p) (size_hi_lamports p) = Some c"
    and b: "b = max (c div 100000000 * 100000000) (size_lo_lamports p)"
    using assms by (auto simp: main_budget_def Let_def)
  have small: "unat c div 100000000 * 100000000 \<le> unat c"
    by simp
  then have "unat (c div 100000000 * 100000000) = unat c div 100000000 * 100000000"
    using unat_u64_less [of c] by (simp add: unat_word_ariths unat_div del: unat_u64_less)
  moreover have "size_lo_lamports p \<le> c" "c \<le> size_hi_lamports p"
    using clamp_word_bounds [OF c] by auto
  ultimately show ?thesis
    using small by (auto simp: b max_def word_le_nat_alt)
qed

lemma main_budget_defined: "size_lo_lamports p \<le> size_hi_lamports p \<Longrightarrow> main_budget p conf \<noteq> None"
  by (auto simp: main_budget_def Let_def clamp_word_def)

lemma on_buy_defined:
  "size_lo_lamports p \<le> size_hi_lamports p \<Longrightarrow> on_buy tb p buyer sol tok ex w \<noteq> None"
  using main_budget_defined [of p "conf_lamports (count_buy tb p buyer sol tok ex w)"]
  by (auto simp: on_buy_def Let_def simp del: count_buy_fields bind_Some_iff)

lemma on_buy_cases:
  assumes "on_buy tb p buyer sol tok ex w = Some (w', r)" "\<not> lw_done w"
  defines "c \<equiv> count_buy tb p buyer sol tok ex w"
  obtains (follow) book b where "watch_fire book b p c = (w', r)" "book \<noteq> Main" "b = follow_lamports p"
      "watch_lookup tb buyer = Some FollowSymbiont \<or> watch_lookup tb buyer = Some FollowWhale"
    | (main) b where "watch_fire Main b p c = (w', r)" "main_budget p (conf_lamports c) = Some b"
      "cf_n_conf p \<le> lw_n_conf c" "min_conf_lamports p \<le> conf_lamports c" "\<not> elite_ahead c"
    | (elite) "w' = c\<lparr>lw_done := True\<rparr>" "r = Inl EliteAhead" "elite_ahead c"
    | (watching) "w' = c" "r = Inl Watching"
  using assms by (auto simp: on_buy_def Let_def split: if_splits)

lemma on_buy_done: "on_buy tb p buyer sol tok ex w = Some (w', r) \<Longrightarrow> lw_done w \<Longrightarrow> w' = w \<and> r = Inl Dead"
  by (simp add: on_buy_def)

lemma on_buy_ok_done:
  assumes step: "on_buy tb p buyer sol tok ex w = Some (w', r)"
  shows "is_ok r \<Longrightarrow> \<not> lw_done w \<and> lw_done w'" and "lw_done w \<Longrightarrow> lw_done w'"
    and "elite_ahead w \<Longrightarrow> elite_ahead w'"
    and "\<not> lw_done w \<Longrightarrow> watch_lookup tb buyer = Some Avoid \<Longrightarrow> elite_ahead w'"
proof -
  have "lw_done w \<Longrightarrow> w' = w \<and> r = Inl Dead"
    using step on_buy_done by blast
  moreover have "(is_ok r \<longrightarrow> lw_done w') \<and> (elite_ahead w \<or> watch_lookup tb buyer = Some Avoid \<longrightarrow> elite_ahead w')"
    if "\<not> lw_done w"
    by (rule on_buy_cases [OF step that]) (auto dest!: watch_fire_fields simp: is_ok_def)
  ultimately show "is_ok r \<Longrightarrow> \<not> lw_done w \<and> lw_done w'" "lw_done w \<Longrightarrow> lw_done w'"
    "elite_ahead w \<Longrightarrow> elite_ahead w'"
    "\<not> lw_done w \<Longrightarrow> watch_lookup tb buyer = Some Avoid \<Longrightarrow> elite_ahead w'"
    by (auto simp: is_ok_def)
qed

section \<open>Sequences of buys\<close>

text \<open>
  The buys of a create block in landing order. The tables may be reloaded in between, so every
  event carries the tables its \<open>on_buy\<close> call sees.
\<close>

type_synonym buy_event = "tables \<times> pubkey \<times> u64 \<times> u64 \<times> bool"

fun watch_run :: "Params \<Rightarrow> LaunchWatch \<Rightarrow> buy_event list \<Rightarrow> (LaunchWatch \<times> fire_result list) option" where
  "watch_run p w [] = Some (w, [])"
| "watch_run p w ((tb, buyer, sol, tok, ex) # evs) = do {
     (w, r) \<leftarrow> on_buy tb p buyer sol tok ex w;
     (w, rs) \<leftarrow> watch_run p w evs;
     Some (w, r # rs)
   }"

definition ev_action :: "buy_event \<Rightarrow> WatchAction option" where
  "ev_action = (\<lambda>(tb, buyer, sol, tok, ex). watch_lookup tb buyer)"

definition ev_pledge :: "buy_event \<Rightarrow> nat" where
  "ev_pledge = (\<lambda>(tb, buyer, sol, tok, ex). unat sol)"

lemma watch_run_dead:
  "lw_done w \<Longrightarrow> watch_run p w evs = Some (w, map (\<lambda>_. Inl Dead) evs)"
  by (induction p w evs rule: watch_run.induct) (auto simp: on_buy_def)

lemma watch_run_once:
  assumes "watch_run p w evs = Some (w', rs)"
  shows "\<exists>pre post. rs = pre @ post \<and> (\<forall>r \<in> set pre. \<not> is_ok r)
    \<and> (post = [] \<or> (\<exists>f n. post = Inr f # replicate n (Inl Dead)))"
  using assms
proof (induction p w evs arbitrary: rs rule: watch_run.induct)
  case (2 p w tb buyer sol tok ex evs)
  then obtain w1 r rs' where r: "on_buy tb p buyer sol tok ex w = Some (w1, r)"
    and run: "watch_run p w1 evs = Some (w', rs')" and rs: "rs = r # rs'"
    by auto
  show ?case
  proof (cases "is_ok r")
    case True
    then have "rs' = map (\<lambda>_. Inl Dead) evs"
      using on_buy_ok_done(1) [OF r True] run by (simp add: watch_run_dead)
    with rs True show ?thesis
      by (intro exI [of _ "[]"] exI [of _ rs]) (auto simp: is_ok_def map_replicate_const)
  next
    case False
    from "2.IH" [OF r refl run] obtain pre post where "rs' = pre @ post"
      "\<forall>r \<in> set pre. \<not> is_ok r" "post = [] \<or> (\<exists>f n. post = Inr f # replicate n (Inl Dead))"
      by blast
    with rs False show ?thesis
      by (intro exI [of _ "r # pre"] exI [of _ post]) simp
  qed
qed simp

lemma watch_run_defined: "size_lo_lamports p \<le> size_hi_lamports p \<Longrightarrow> watch_run p w evs \<noteq> None"
proof (induction p w evs rule: watch_run.induct)
  case (2 p w tb buyer sol tok ex evs)
  then show ?case
    using on_buy_defined [of p tb buyer sol tok ex w] by fastforce
qed simp

lemma watch_run_length: "watch_run p w evs = Some (w', rs) \<Longrightarrow> length rs = length evs"
  by (induction p w evs arbitrary: rs rule: watch_run.induct) auto

lemma on_buy_main_not_elite:
  assumes "on_buy tb p buyer sol tok ex w = Some (w', Inr f)" "fire_book f = Main"
  shows "\<not> elite_ahead w \<and> watch_lookup tb buyer \<noteq> Some Avoid"
proof -
  have "\<not> lw_done w"
    using on_buy_done [OF assms(1)] by blast
  then show ?thesis
    by (rule on_buy_cases [OF assms(1)]) (use assms(2) in \<open>auto dest!: watch_fire_fields\<close>)
qed

lemma watch_run_elite:
  assumes "watch_run p w evs = Some (w', rs)" "j < length evs" "rs ! j = Inr f" "fire_book f = Main"
  shows "\<not> elite_ahead w \<and> (\<forall>i \<le> j. ev_action (evs ! i) \<noteq> Some Avoid)"
  using assms
proof (induction p w evs arbitrary: rs j rule: watch_run.induct)
  case (2 p w tb buyer sol tok ex evs)
  then obtain w1 r rs' where r: "on_buy tb p buyer sol tok ex w = Some (w1, r)"
    and run: "watch_run p w1 evs = Some (w', rs')" and rs: "rs = r # rs'"
    by auto
  show ?case
  proof (cases j)
    case 0
    with rs "2.prems" on_buy_main_not_elite r show ?thesis
      by (auto simp: ev_action_def)
  next
    case (Suc k)
    have IH: "\<not> elite_ahead w1 \<and> (\<forall>i \<le> k. ev_action (evs ! i) \<noteq> Some Avoid)"
      using "2.IH" [OF r refl run] "2.prems" Suc rs by simp
    moreover have "\<not> lw_done w"
    proof
      assume "lw_done w"
      with r have "rs' = map (\<lambda>_. Inl Dead) evs"
        using run on_buy_done [OF r] by (simp add: watch_run_dead)
      then show False
        using "2.prems" Suc rs by simp
    qed
    ultimately have "\<not> elite_ahead w" "watch_lookup tb buyer \<noteq> Some Avoid"
      using on_buy_ok_done(3,4) [OF r] by blast+
    with IH Suc show ?thesis
      by (auto simp: ev_action_def nth_Cons split: nat.splits)
  qed
qed simp

text \<open>The accounting invariant: the tracked reserve starts above the virtual offset and carries every counted lamport.\<close>

definition watch_inv :: "LaunchWatch \<Rightarrow> bool" where
  "watch_inv w \<longleftrightarrow> VIRT_SOL_0 \<le> vq_lamports w \<and> conf_lamports w \<le> vq_lamports w"

lemma watch_inv_new: "watch_inv (LaunchWatch_new dev)"
  by (simp add: watch_inv_def LaunchWatch_new_def Let_def sat_add_ge)

lemma sat_add_le_mono: "a \<le> b \<Longrightarrow> sat_add a c \<le> sat_add b (c :: u64)"
  by (simp add: word_le_nat_alt unat_sat_add min_def)

lemma watch_inv_count: "watch_inv w \<Longrightarrow> watch_inv (count_buy tb p buyer sol tok ex w)"
  using sat_add_ge order.trans sat_add_le_mono by (fastforce simp: watch_inv_def)

lemma on_buy_accounts:
  assumes "on_buy tb p buyer sol tok ex w = Some (w', r)"
  shows "conf_lamports w' = conf_lamports w \<and> vq_lamports w' = vq_lamports w
    \<or> conf_lamports w' = sat_add (conf_lamports w) (counted_net p (vq_lamports w) sol tok ex)
      \<and> vq_lamports w' = sat_add (vq_lamports w) (counted_net p (vq_lamports w) sol tok ex)"
proof (cases "lw_done w")
  case False
  then show ?thesis
    by (rule on_buy_cases [OF assms]) (auto dest!: watch_fire_fields)
qed (use on_buy_done [OF assms] in simp)

lemma on_buy_inv:
  "on_buy tb p buyer sol tok ex w = Some (w', r) \<Longrightarrow> watch_inv w \<Longrightarrow> watch_inv w'
     \<and> unat (conf_lamports w') \<le> unat (conf_lamports w) + unat sol"
proof -
  assume step: "on_buy tb p buyer sol tok ex w = Some (w', r)" and inv: "watch_inv w"
  have "counted_net p (vq_lamports w) sol tok ex \<le> sol"
    using counted_net_le pledged_net_le order.trans by blast
  with on_buy_accounts [OF step] inv watch_inv_count [OF inv, of tb p buyer sol tok ex] show ?thesis
    by (auto simp: watch_inv_def unat_sat_add word_le_nat_alt)
qed

lemma watch_run_inv:
  "watch_run p w evs = Some (w', rs) \<Longrightarrow> watch_inv w \<Longrightarrow>
     watch_inv w' \<and> unat (conf_lamports w') \<le> unat (conf_lamports w) + sum_list (map ev_pledge evs)"
proof (induction p w evs arbitrary: rs rule: watch_run.induct)
  case (2 p w tb buyer sol tok ex evs)
  then obtain w1 r rs' where r: "on_buy tb p buyer sol tok ex w = Some (w1, r)"
    and run: "watch_run p w1 evs = Some (w', rs')"
    by auto
  from "2.IH" [OF r refl run] on_buy_inv [OF r "2.prems"(2)] show ?case
    by (simp add: ev_pledge_def)
qed simp

section \<open>Sequences of launches\<close>

text \<open>The freshness checks of one detect thread: the day and the tables are read at each call.\<close>

type_synonym launch_event = "tables \<times> u64 \<times> pubkey"

fun fresh_run :: "Session \<Rightarrow> launch_event list \<Rightarrow> bool list" where
  "fresh_run s [] = []"
| "fresh_run s ((tb, today, dev) # evs) =
     (let (b, s) = dev_is_fresh tb today dev s in b # fresh_run s evs)"

lemma length_fresh_run [simp]: "length (fresh_run s evs) = length evs"
  by (induction s evs rule: fresh_run.induct) (auto split: prod.splits)

lemma dev_is_fresh_marks:
  "dev_is_fresh tb today dev s = (b, s') \<Longrightarrow> dev \<in> seen_devs s' \<and> day s' = today"
  by (auto simp: dev_is_fresh_def Let_def)

lemma dev_is_fresh_keeps:
  "dev_is_fresh tb today dev s = (b, s') \<Longrightarrow> day s = today \<Longrightarrow> d \<in> seen_devs s \<Longrightarrow>
     d \<in> seen_devs s' \<and> (d = dev \<longrightarrow> \<not> b)"
  by (auto simp: dev_is_fresh_def Let_def)

lemma seen_not_fresh:
  assumes "j < length evs" "\<forall>k \<le> j. fst (snd (evs ! k)) = day s" "snd (snd (evs ! j)) \<in> seen_devs s"
  shows "\<not> fresh_run s evs ! j"
  using assms
proof (induction s evs arbitrary: j rule: fresh_run.induct)
  case (2 s tb today dev evs)
  obtain b s' where b: "dev_is_fresh tb today dev s = (b, s')"
    by fastforce
  have today: "day s = today"
    using "2.prems"(2) by (metis fst_conv nth_Cons_0 snd_conv zero_le)
  show ?case
  proof (cases j)
    case 0
    then show ?thesis
      using dev_is_fresh_keeps [OF b today] "2.prems"(3) b by simp
  next
    case (Suc k)
    have "\<forall>i \<le> k. fst (snd (evs ! i)) = day s'"
      using "2.prems"(2) Suc today dev_is_fresh_marks [OF b] by (metis Suc_le_mono nth_Cons_Suc)
    moreover have "snd (snd (evs ! k)) \<in> seen_devs s'"
      using dev_is_fresh_keeps [OF b today] "2.prems"(3) Suc by simp
    ultimately have "\<not> fresh_run s' evs ! k"
      using "2.IH" [OF b [symmetric] refl, of k] "2.prems"(1) Suc by simp
    with Suc b show ?thesis by simp
  qed
qed simp

lemma fresh_not_again:
  assumes "i < j" "j < length evs" "\<forall>k. i \<le> k \<and> k \<le> j \<longrightarrow> fst (snd (evs ! k)) = today"
    and "snd (snd (evs ! i)) = snd (snd (evs ! j))"
  shows "\<not> fresh_run s evs ! j"
  using assms
proof (induction s evs arbitrary: i j rule: fresh_run.induct)
  case (2 s tb td dev evs)
  obtain b s' where b: "dev_is_fresh tb td dev s = (b, s')"
    by fastforce
  obtain l where l: "j = Suc l"
    using "2.prems"(1) by (cases j) auto
  show ?case
  proof (cases i)
    case 0
    have td: "td = today"
      using "2.prems"(3) 0 by (metis fst_conv le0 nth_Cons_0 snd_conv)
    have "\<not> fresh_run s' evs ! l"
    proof (rule seen_not_fresh)
      show "\<forall>k \<le> l. fst (snd (evs ! k)) = day s'"
        using "2.prems"(3) 0 l td dev_is_fresh_marks [OF b] by (metis Suc_le_mono le0 nth_Cons_Suc)
      show "snd (snd (evs ! l)) \<in> seen_devs s'"
        using "2.prems"(4) 0 l dev_is_fresh_marks [OF b] by simp
    qed (use "2.prems"(2) l in simp)
    with l b show ?thesis by simp
  next
    case (Suc k)
    have "\<not> fresh_run s' evs ! l"
    proof (rule "2.IH" [OF b [symmetric] refl])
      show "k < l" "l < length evs" "snd (snd (evs ! k)) = snd (snd (evs ! l))"
        using "2.prems" Suc l by simp_all
      show "\<forall>i. k \<le> i \<and> i \<le> l \<longrightarrow> fst (snd (evs ! i)) = today"
        using "2.prems"(3) Suc l by (metis Suc_le_mono nth_Cons_Suc)
    qed
    with l b show ?thesis by simp
  qed
qed simp

lemma fresh_not_historical:
  "i < length evs \<Longrightarrow> fresh_run s evs ! i \<Longrightarrow>
     \<exists>devs. DEVS (fst (evs ! i)) = Some devs \<and> devs (snd (snd (evs ! i))) = None"
proof (induction s evs arbitrary: i rule: fresh_run.induct)
  case (2 s tb today dev evs)
  then show ?case
    by (cases i) (auto simp: dev_is_fresh_def Let_def split: option.splits if_splits)
qed simp

section \<open>Properties\<close>

definition default_params :: Params where
  "default_params = Params_from_env (\<lambda>_. None) exact_fmul Map.empty"

lemma default_params_eq:
  "default_params = \<lparr>cf_n_conf = 3, min_conf_lamports = 4000000000, ratio_bps = 4700,
     size_lo_lamports = 1500000000, size_hi_lamports = 3500000000, follow_lamports = 2000000000,
     vq_cap_lamports = 115000000000, conf_pad_bps = 0\<rparr>"
  by (simp add: default_params_def Params_from_env_def env_u64_def sol_env_def env_f64_def
      LAMPORTS_PER_SOL_def)

definition no_tables :: tables where
  "no_tables = \<lparr>DEVS = None, WATCH = None, RUG = None\<rparr>"

definition sample_block :: "buy_event list" where
  "sample_block = (let b = (no_tables, replicate 32 1, 2000000000, 0, True) in [b, b, b, b])"

definition sample_watch :: "nat \<Rightarrow> bool \<Rightarrow> LaunchWatch" where
  "sample_watch n d = \<lparr>vq_lamports = 30000000000 + of_nat n * 1975308641, lw_n_conf = of_nat n,
     conf_lamports = of_nat n * 1975308641, elite_ahead = False, lw_done = d\<rparr>"

lemmas sample_eval = on_buy_def count_buy_def watch_lookup_def no_tables_def counted_net_def
  pledged_net_def default_params_eq LaunchWatch_new_def sample_watch_def

lemma sample_buys:
  "LaunchWatch_new 0 = sample_watch 0 False"
  "on_buy no_tables default_params (replicate 32 1) 2000000000 0 True (sample_watch 0 False) =
     Some (sample_watch 1 False, Inl Watching)"
  "on_buy no_tables default_params (replicate 32 1) 2000000000 0 True (sample_watch 1 False) =
     Some (sample_watch 2 False, Inl Watching)"
  "on_buy no_tables default_params (replicate 32 1) 2000000000 0 True (sample_watch 2 False) =
     Some (sample_watch 3 True, Inr \<lparr>fire_book = Main, fire_budget_lamports = 2700000000,
       fire_prior_flow_lamports = 5925925923, fire_n_conf = 3\<rparr>)"
  unfolding sample_eval
  by (simp_all add: VIRT_SOL_0_def as_u128_def as_u64_def sat_add_def sat_sub_def Let_def main_budget_def
      clamp_word_def watch_fire_def)

lemma sample_run:
  "watch_run default_params (LaunchWatch_new 0) sample_block =
     Some (sample_watch 3 True, [Inl Watching, Inl Watching, Inr \<lparr>fire_book = Main,
       fire_budget_lamports = 2700000000, fire_prior_flow_lamports = 5925925923, fire_n_conf = 3\<rparr>,
       Inl Dead])"
proof -
  have "on_buy no_tables default_params (replicate 32 1) 2000000000 0 True (sample_watch 3 True)
      = Some (sample_watch 3 True, Inl Dead)"
    by (simp add: on_buy_def sample_watch_def)
  then show ?thesis
    by (simp add: sample_block_def sample_buys sample_buys(3) [simplified] Let_def)
qed

text \<open>
  C18: A launch fires at most once. Over any sequence of buys, with the tables reloaded at will in
  between, at most one call returns a fire, and every later call reports the launch dead.
\<close>

theorem watch_fires_once:
  assumes "watch_run p w evs = Some (w', rs)"
  shows "length (filter is_ok rs) \<le> 1 \<and>
    (\<forall>i j. i < j \<and> j < length rs \<and> is_ok (rs ! i) \<longrightarrow> rs ! j = Inl Dead)"
proof -
  obtain pre post where rs: "rs = pre @ post" and pre: "\<forall>r \<in> set pre. \<not> is_ok r"
    and post: "post = [] \<or> (\<exists>f n. post = Inr f # replicate n (Inl Dead))"
    using watch_run_once [OF assms] by blast
  have "filter is_ok pre = []" "length (filter is_ok post) \<le> 1"
    using pre post by (auto simp: filter_empty_conv is_ok_def)
  moreover have "rs ! j = Inl Dead" if "i < j" "j < length rs" "is_ok (rs ! i)" for i j
  proof -
    have "length pre \<le> i"
      using that pre rs by (metis leI nth_append nth_mem)
    with that post rs show ?thesis
      by (auto simp: nth_append nth_Cons' split: if_splits)
  qed
  ultimately show ?thesis
    using rs by auto
qed

theorem watch_fires_once_witness:
  "length (filter is_ok [Inl Watching, Inl Watching, Inr \<lparr>fire_book = Main,
       fire_budget_lamports = 2700000000, fire_prior_flow_lamports = 5925925923, fire_n_conf = 3\<rparr>,
       Inl Dead]) \<le> 1"
  using watch_fires_once [OF sample_run] by blast

text \<open>
  C17: Why a launch fires. A fire from \<open>on_buy\<close> means the watch was still open and is now closed,
  the tracked reserve including this buy is below the cap, and the flow handed to the pricing is
  that reserve less the virtual offset. A main-book fire has the required number and volume of
  confirming buys and a budget within the configured sizes, a multiple of 0.1 SOL unless it is
  the minimum; a follow fire comes from a followed wallet with the fixed size.
\<close>

theorem on_buy_fire_sound:
  assumes "on_buy tb p buyer sol tok ex w = Some (w', Inr f)"
  shows "\<not> lw_done w \<and> lw_done w' \<and> vq_lamports w' < vq_cap_lamports p
    \<and> fire_prior_flow_lamports f = sat_sub (vq_lamports w') VIRT_SOL_0 \<and> fire_n_conf f = lw_n_conf w + 1
    \<and> (fire_book f = Main \<longrightarrow>
         cf_n_conf p \<le> lw_n_conf w' \<and> min_conf_lamports p \<le> conf_lamports w' \<and> \<not> elite_ahead w'
         \<and> size_lo_lamports p \<le> fire_budget_lamports f \<and> fire_budget_lamports f \<le> size_hi_lamports p
         \<and> (fire_budget_lamports f = size_lo_lamports p \<or> 100000000 dvd unat (fire_budget_lamports f)))
    \<and> (fire_book f \<noteq> Main \<longrightarrow> fire_budget_lamports f = follow_lamports p
         \<and> (watch_lookup tb buyer = Some FollowSymbiont \<or> watch_lookup tb buyer = Some FollowWhale))"
proof -
  have open': "\<not> lw_done w"
    using on_buy_done [OF assms] by blast
  then show ?thesis
    by (rule on_buy_cases [OF assms])
      (use open' main_budget_bounds in \<open>auto dest!: watch_fire_fields simp: is_ok_def\<close>)
qed

theorem on_buy_fire_sound_witness:
  "vq_lamports (sample_watch 3 True) < 115000000000
   \<and> fire_budget_lamports \<lparr>fire_book = Main, fire_budget_lamports = 2700000000,
       fire_prior_flow_lamports = 5925925923, fire_n_conf = 3\<rparr> \<le> 3500000000"
  using on_buy_fire_sound [OF sample_buys(4)] by (simp add: default_params_eq)

text \<open>
  An elite operator ahead consumes the edge: once a buy of a wallet marked \<open>Avoid\<close> has been
  fed, no later buy of the block makes the main book fire.
\<close>

theorem elite_blocks_main:
  assumes "watch_run p w evs = Some (w', rs)" "i \<le> j" "j < length evs"
    and "ev_action (evs ! i) = Some Avoid" "rs ! j = Inr f"
  shows "fire_book f \<noteq> Main"
  using watch_run_elite [OF assms(1,3,5)] assms(2,4) by blast

theorem elite_blocks_main_witness:
  "\<exists>f. watch_run (default_params\<lparr>cf_n_conf := 2\<rparr>) (LaunchWatch_new 0)
     [(\<lparr>DEVS = None, WATCH = Some [replicate 32 9 \<mapsto> Avoid], RUG = None\<rparr>, replicate 32 9, 1, 0, True),
      (\<lparr>DEVS = None, WATCH = Some [replicate 32 8 \<mapsto> FollowWhale], RUG = None\<rparr>, replicate 32 8, 1, 0, True)]
     = Some f \<and> (\<forall>g. snd f ! 1 = Inr g \<longrightarrow> fire_book g \<noteq> Main)"
proof -
  let ?p = "default_params\<lparr>cf_n_conf := 2\<rparr>"
  let ?evs = "[(\<lparr>DEVS = None, WATCH = Some [replicate 32 9 \<mapsto> Avoid], RUG = None\<rparr>, replicate 32 9, 1, 0, True),
      (\<lparr>DEVS = None, WATCH = Some [replicate 32 8 \<mapsto> FollowWhale], RUG = None\<rparr>, replicate 32 8, 1, 0, True)] :: buy_event list"
  obtain w rs where run: "watch_run ?p (LaunchWatch_new 0) ?evs = Some (w, rs)"
    using watch_run_defined [of ?p "LaunchWatch_new 0" ?evs] by (auto simp: default_params_eq)
  have "ev_action (?evs ! 0) = Some Avoid"
    by (simp add: ev_action_def watch_lookup_def)
  then have "\<forall>g. rs ! 1 = Inr g \<longrightarrow> fire_book g \<noteq> Main"
    using elite_blocks_main [OF run, of 0 1] by simp
  with run show ?thesis
    by (intro exI [of _ "(w, rs)"]) (simp del: watch_run.simps)
qed

text \<open>
  The accounting of a create block never runs ahead of what was pledged: starting from a new
  watch, the confirmed volume stays below the sum of the caps of the buys fed, and below the
  tracked reserve, which never falls under the virtual offset.
\<close>

theorem watch_accounting:
  assumes "watch_run p (LaunchWatch_new dev) evs = Some (w', rs)"
  shows "unat (conf_lamports w') \<le> sum_list (map ev_pledge evs)
    \<and> conf_lamports w' \<le> vq_lamports w' \<and> VIRT_SOL_0 \<le> vq_lamports w'"
  using watch_run_inv [OF assms watch_inv_new]
  by (auto simp: watch_inv_def LaunchWatch_new_def Let_def)

theorem watch_accounting_witness:
  "unat (conf_lamports (sample_watch 3 True)) \<le> 8000000000"
  using watch_accounting [OF sample_run] by (simp add: sample_block_def ev_pledge_def Let_def)

text \<open>
  \<open>on_buy\<close> panics in exactly one situation: the configured sizes are crossed and an open watch
  reaches the main-book sizing. With ordered sizes, and so with the defaults, no buy panics.
\<close>

theorem on_buy_panics_iff:
  "(on_buy tb p buyer sol tok ex w = None \<longleftrightarrow>
     \<not> lw_done w \<and> size_hi_lamports p < size_lo_lamports p
     \<and> watch_lookup tb buyer = None
     \<and> cf_n_conf p \<le> lw_n_conf w + 1 \<and> \<not> elite_ahead w
     \<and> min_conf_lamports p \<le> sat_add (conf_lamports w) (counted_net p (vq_lamports w) sol tok ex))
   \<and> on_buy tb default_params buyer sol tok ex w \<noteq> None"
proof
  show "on_buy tb default_params buyer sol tok ex w \<noteq> None"
    by (rule on_buy_defined) (simp add: default_params_eq)
  have "main_budget p c = None \<longleftrightarrow> size_hi_lamports p < size_lo_lamports p" for c
    by (auto simp: main_budget_def Let_def clamp_word_def not_le)
  then show "on_buy tb p buyer sol tok ex w = None \<longleftrightarrow>
     \<not> lw_done w \<and> size_hi_lamports p < size_lo_lamports p \<and> watch_lookup tb buyer = None
     \<and> cf_n_conf p \<le> lw_n_conf w + 1 \<and> \<not> elite_ahead w
     \<and> min_conf_lamports p \<le> sat_add (conf_lamports w) (counted_net p (vq_lamports w) sol tok ex)"
    by (cases "watch_lookup tb buyer"; cases "the (watch_lookup tb buyer)")
      (simp_all add: on_buy_def Let_def bind_None_iff)
qed

text \<open>
  A deployer is fresh at most once per UTC day, never when the published history knows it,
  and never while no history is published. The day may be read differently at every call.
\<close>

theorem fresh_once_a_day:
  assumes "i < j" "j < length evs" "\<forall>k. i \<le> k \<and> k \<le> j \<longrightarrow> fst (snd (evs ! k)) = today"
    and "snd (snd (evs ! i)) = snd (snd (evs ! j))"
  shows "\<not> fresh_run s evs ! j
    \<and> (fresh_run s evs ! i \<longrightarrow>
        (\<exists>devs. DEVS (fst (evs ! i)) = Some devs \<and> devs (snd (snd (evs ! i))) = None))"
  using fresh_not_again [OF assms] fresh_not_historical [of i evs s] assms(1,2) by auto

theorem fresh_once_a_day_witness:
  "\<not> fresh_run \<lparr>seen_devs = {}, day = 0\<rparr>
      [(no_tables\<lparr>DEVS := Some Map.empty\<rparr>, 5, replicate 32 1),
       (no_tables\<lparr>DEVS := Some Map.empty\<rparr>, 5, replicate 32 2),
       (no_tables\<lparr>DEVS := Some Map.empty\<rparr>, 5, replicate 32 1)] ! 2
   \<and> fresh_run \<lparr>seen_devs = {}, day = 0\<rparr> [(no_tables\<lparr>DEVS := Some Map.empty\<rparr>, 5, replicate 32 1)] ! 0"
proof
  let ?t = "no_tables\<lparr>DEVS := Some Map.empty\<rparr>"
  let ?evs = "[(?t, 5, replicate 32 1), (?t, 5, replicate 32 2), (?t, 5, replicate 32 1)] :: launch_event list"
  have "\<forall>k. 0 \<le> k \<and> k \<le> 2 \<longrightarrow> fst (snd (?evs ! k)) = 5"
    by (auto simp: nth_Cons' )
  then show "\<not> fresh_run \<lparr>seen_devs = {}, day = 0\<rparr> ?evs ! 2"
    using fresh_once_a_day [of 0 2 ?evs 5 "\<lparr>seen_devs = {}, day = 0\<rparr>"] by simp
  show "fresh_run \<lparr>seen_devs = {}, day = 0\<rparr> [(?t, 5, replicate 32 1)] ! 0"
    by (simp add: dev_is_fresh_def)
qed

text \<open>
  The watch file is read so that the last usable line of a wallet decides its action, and the
  skip count is the number of lines that are neither blank nor an entry. A reload with unreadable
  files leaves every table as it was.
\<close>

theorem watch_file_last_line_wins:
  "fst (Watch_parse parse_key text) k =
     (case find (\<lambda>l. \<exists>a. watch_entry parse_key l = Some (Some (k, a))) (rev (lines text)) of
        None \<Rightarrow> None
      | Some l \<Rightarrow> map_option snd (the (watch_entry parse_key l)))
   \<and> snd (Watch_parse parse_key text)
       = length (filter (\<lambda>l. watch_entry parse_key l = Some None) (lines text))
   \<and> reload_tables parse_key parse_f64 fmul None None None tb = tb"
  using hash_map.load_get [of "watch_entry parse_key" "lines text" Map.empty 0 k]
    hash_map.load_skipped [of "watch_entry parse_key" "lines text" Map.empty 0]
  by (simp add: Watch_parse_def reload_tables_def load_devs_from_file_def load_watch_from_file_def
      load_rug_from_file_def)

end
