(* ===== verification/Chain.thy ===== *)
theory Chain
  imports Bytes Curve
begin

text \<open>
  \<open>sniper/src/chain.rs\<close>: the parse of the on-chain \<open>Global\<close> account, the caches of fee recipients
  and of the blockhash, and the pool of durable nonces. What an RPC call returned is an argument
  of the operation that consumes it; a failed call is \<open>None\<close>.

  The locale \<open>nonce_provider\<close> is what the hot path relies on from the pool.
\<close>

section \<open>The Global account\<close>

record GlobalConfig =
  gc_fee_recipient :: pubkey
  buyback_fee_recipients :: "pubkey list"
  gc_curve :: CurveParams
  gc_fee_basis_points :: u64
  gc_creator_fee_basis_points :: u64

text \<open>
  The closures of \<open>parse_global\<close>, with the rest of the function as a continuation. \<open>Inl o\<close> is the
  error "global account too short at o".
\<close>

definition take_n :: "bytes \<Rightarrow> nat \<Rightarrow> nat \<Rightarrow> (bytes \<Rightarrow> nat \<Rightarrow> nat + 'a) \<Rightarrow> nat + 'a" where
  "take_n data o' n k =
     (case get_range data o' (o' + n) of None \<Rightarrow> Inl o' | Some s \<Rightarrow> k s (o' + n))"

definition take_pk :: "bytes \<Rightarrow> nat \<Rightarrow> (pubkey \<Rightarrow> nat \<Rightarrow> nat + 'a) \<Rightarrow> nat + 'a" where
  "take_pk data o' k = take_n data o' 32 k"

definition take_u64le :: "bytes \<Rightarrow> nat \<Rightarrow> (u64 \<Rightarrow> nat \<Rightarrow> nat + 'a) \<Rightarrow> nat + 'a" where
  "take_u64le data o' k = take_n data o' 8 (\<lambda>b. k (u64_from_le b))"

fun take_pks :: "nat \<Rightarrow> bytes \<Rightarrow> nat \<Rightarrow> pubkey list \<Rightarrow> (pubkey list \<Rightarrow> nat \<Rightarrow> nat + 'a) \<Rightarrow> nat + 'a" where
  "take_pks 0 data o' acc k = k acc o'"
| "take_pks (Suc n) data o' acc k = take_pk data o' (\<lambda>p o'. take_pks n data o' (acc @ [p]) k)"

definition parse_global :: "bytes \<Rightarrow> nat + GlobalConfig" where
  "parse_global data =
     take_n data 8 1 (\<lambda>initialized o1.
     take_pk data o1 (\<lambda>authority o1.
     take_pk data o1 (\<lambda>fee_recipient o1.
     take_u64le data o1 (\<lambda>virtual_token o1.
     take_u64le data o1 (\<lambda>virtual_sol o1.
     take_u64le data o1 (\<lambda>real_token o1.
     take_u64le data o1 (\<lambda>token_total_supply o1.
     take_u64le data o1 (\<lambda>fee_bps o1.
     take_pk data o1 (\<lambda>withdraw_authority o1.
     take_n data o1 1 (\<lambda>enable_migrate o1.
     take_u64le data o1 (\<lambda>pool_migration_fee o1.
     take_u64le data o1 (\<lambda>creator_fee_bps o1.
     take_pks 7 data o1 [] (\<lambda>fee_recipients o1.
     take_pk data o1 (\<lambda>set_creator_authority o1.
     take_pk data o1 (\<lambda>admin_set_creator_authority o1.
     take_n data o1 1 (\<lambda>create_v2_enabled o1.
     take_pk data o1 (\<lambda>whitelist_pda o1.
     take_pk data o1 (\<lambda>reserved_fee_recipient o1.
     take_n data o1 1 (\<lambda>mayhem_mode_enabled o1.
     take_pks 7 data o1 [] (\<lambda>reserved_fee_recipients o1.
     take_n data o1 1 (\<lambda>is_cashback_enabled o1.
     take_pks 8 data o1 [] (\<lambda>buyback o1.
       Inr \<lparr>gc_fee_recipient = fee_recipient, buyback_fee_recipients = buyback,
            gc_curve = \<lparr>initial_virtual_sol_reserves = virtual_sol,
              initial_virtual_token_reserves = virtual_token,
              initial_real_token_reserves = real_token,
              fee_basis_points = fee_bps, creator_fee_basis_points = creator_fee_bps\<rparr>,
            gc_fee_basis_points = fee_bps,
            gc_creator_fee_basis_points = creator_fee_bps\<rparr>))))))))))))))))))))))"

section \<open>Caches\<close>

record FeeRecipientCache =
  frc_fee_recipient :: pubkey
  frc_buyback :: "pubkey list"

definition FeeRecipientCache_new :: "GlobalConfig \<Rightarrow> FeeRecipientCache" where
  "FeeRecipientCache_new g =
     \<lparr>frc_fee_recipient = gc_fee_recipient g, frc_buyback = buyback_fee_recipients g\<rparr>"

definition buyback :: "FeeRecipientCache \<Rightarrow> nat \<Rightarrow> pubkey" where
  "buyback c nth' =
     (if frc_buyback c = [] then zero_key
      else frc_buyback c ! (nth' mod length (frc_buyback c)))"

text \<open>One round of the refresher: the account data, or \<open>None\<close> when the fetch failed.\<close>

definition refresh_fee_recipients :: "bytes option \<Rightarrow> FeeRecipientCache \<Rightarrow> FeeRecipientCache" where
  "refresh_fee_recipients fetched c =
     (case fetched of
        None \<Rightarrow> c
      | Some data \<Rightarrow>
          (case parse_global data of
             Inl _ \<Rightarrow> c
           | Inr g \<Rightarrow> c\<lparr>frc_fee_recipient := gc_fee_recipient g,
                         frc_buyback := buyback_fee_recipients g\<rparr>))"

type_synonym BlockhashCache = bytes

definition BlockhashCache_new :: BlockhashCache where
  "BlockhashCache_new = zero_key"

definition blockhash_is_ready :: "BlockhashCache \<Rightarrow> bool" where
  "blockhash_is_ready c \<longleftrightarrow> c \<noteq> zero_key"

definition refresh_blockhash :: "bytes option \<Rightarrow> BlockhashCache \<Rightarrow> BlockhashCache" where
  "refresh_blockhash fetched c = (case fetched of None \<Rightarrow> c | Some hash \<Rightarrow> hash)"

section \<open>Durable nonces\<close>

record NonceState =
  authority :: pubkey
  nonce_state_value :: bytes

definition parse_nonce :: "bytes \<Rightarrow> NonceState option" where
  "parse_nonce data =
     (if length data < 80 then None
      else if u32_from_le (slice data 4 8) \<noteq> 1 then None
      else Some \<lparr>authority = slice data 8 40, nonce_state_value = slice data 40 72\<rparr>)"

record NoncePool =
  np_accounts :: "pubkey list"
  np_values :: "bytes list"
  np_next :: u64

definition NoncePool_new :: "pubkey list \<Rightarrow> NoncePool" where
  "NoncePool_new accounts =
     \<lparr>np_accounts = accounts, np_values = replicate (length accounts) zero_key, np_next = 0\<rparr>"

text \<open>
  The scan of \<open>take\<close> over \<open>i\<close> in \<open>0..len\<close>. The outer option is the panic of \<open>values[idx]\<close>; the
  inner one is the return value.
\<close>

fun nonce_scan :: "NoncePool \<Rightarrow> u64 \<Rightarrow> nat list \<Rightarrow> (pubkey \<times> bytes) option option" where
  "nonce_scan np start [] = Some None"
| "nonce_scan np start (i # is) = do {
     let idx = unat (start + of_nat i) mod length (np_accounts np);
     value \<leftarrow> get_at (np_values np) idx;
     if value \<noteq> zero_key then do { a \<leftarrow> get_at (np_accounts np) idx; Some (Some (a, value)) }
     else nonce_scan np start is
   }"

definition nonce_take :: "NoncePool \<Rightarrow> ((pubkey \<times> bytes) option \<times> NoncePool) option" where
  "nonce_take np =
     (if np_accounts np = [] then Some (None, np)
      else do {
        r \<leftarrow> nonce_scan np (np_next np) [0 ..< length (np_accounts np)];
        Some (r, np\<lparr>np_next := np_next np + 1\<rparr>)
      })"

definition load_from_values :: "bytes list \<Rightarrow> NoncePool \<Rightarrow> NoncePool option" where
  "load_from_values values np =
     (if length values \<noteq> length (np_accounts np) then None else Some (np\<lparr>np_values := values\<rparr>))"

datatype NonceError = FetchFailed | DoesNotExist nat | NotANonce nat | WrongAuthority nat

text \<open>The validation loop of \<open>load_once\<close> over the fetched accounts; \<open>None\<close> is an index panic.\<close>

fun load_loop ::
  "pubkey \<Rightarrow> nat \<Rightarrow> bytes option list \<Rightarrow> bytes list \<Rightarrow> (NonceError + bytes list) option" where
  "load_loop expected i [] values = Some (Inr values)"
| "load_loop expected i (account # accounts) values =
     (case account of
        None \<Rightarrow> Some (Inl (DoesNotExist i))
      | Some data \<Rightarrow>
          (case parse_nonce data of
             None \<Rightarrow> Some (Inl (NotANonce i))
           | Some state \<Rightarrow>
               if authority state \<noteq> expected then Some (Inl (WrongAuthority i))
               else if i < length values then
                 load_loop expected (i + 1) accounts (values[i := nonce_state_value state])
               else None))"

definition load_once ::
  "pubkey \<Rightarrow> bytes option list option \<Rightarrow> NoncePool \<Rightarrow> (NonceError option \<times> NoncePool) option" where
  "load_once expected fetched np =
     (case fetched of
        None \<Rightarrow> Some (Some FetchFailed, np)
      | Some accounts \<Rightarrow> do {
          r \<leftarrow> load_loop expected 0 accounts (replicate (length (np_accounts np)) zero_key);
          (case r of
             Inl e \<Rightarrow> Some (Some e, np)
           | Inr values \<Rightarrow> Some (None, np\<lparr>np_values := values\<rparr>))
        })"

text \<open>The loop of the background refresher, which skips an account it cannot read.\<close>

fun refresh_loop :: "nat \<Rightarrow> bytes option list \<Rightarrow> bytes list \<Rightarrow> bytes list option" where
  "refresh_loop i [] values = Some values"
| "refresh_loop i (account # accounts) values =
     (case Option.bind account parse_nonce of
        None \<Rightarrow> refresh_loop (i + 1) accounts values
      | Some state \<Rightarrow>
          if i < length values then
            refresh_loop (i + 1) accounts (values[i := nonce_state_value state])
          else None)"

definition refresh_nonces :: "bytes option list option \<Rightarrow> NoncePool \<Rightarrow> NoncePool option" where
  "refresh_nonces fetched np =
     (case fetched of
        None \<Rightarrow> Some np
      | Some accounts \<Rightarrow> do {
          values \<leftarrow> refresh_loop 0 accounts (replicate (length (np_accounts np)) zero_key);
          Some (np\<lparr>np_values := values\<rparr>)
        })"

section \<open>What the hot path relies on\<close>

text \<open>
  \<open>holds s a v\<close>: the provider currently has value \<open>v\<close> for nonce account \<open>a\<close>.
\<close>

locale nonce_provider =
  fixes inv :: "'s \<Rightarrow> bool"
    and holds :: "'s \<Rightarrow> pubkey \<Rightarrow> bytes \<Rightarrow> bool"
    and draw :: "'s \<Rightarrow> ((pubkey \<times> bytes) option \<times> 's) option"
  assumes draw_defined: "inv s \<Longrightarrow> draw s \<noteq> None"
    and draw_inv: "inv s \<Longrightarrow> draw s = Some (r, s') \<Longrightarrow> inv s'"
    and draw_pair: "inv s \<Longrightarrow> draw s = Some (Some (a, v), s') \<Longrightarrow> holds s a v \<and> v \<noteq> zero_key"
    and draw_keeps: "inv s \<Longrightarrow> draw s = Some (r, s') \<Longrightarrow> holds s' = holds s"

fun draws ::
  "('s \<Rightarrow> ((pubkey \<times> bytes) option \<times> 's) option) \<Rightarrow> nat \<Rightarrow> 's \<Rightarrow> ((pubkey \<times> bytes) option list \<times> 's) option" where
  "draws draw 0 s = Some ([], s)"
| "draws draw (Suc n) s = do {
     (r, s) \<leftarrow> draw s;
     (rs, s) \<leftarrow> draws draw n s;
     Some (r # rs, s)
   }"

context nonce_provider
begin

lemma draws_defined: "inv s \<Longrightarrow> draws draw n s \<noteq> None"
proof (induction n arbitrary: s)
  case (Suc n)
  then show ?case
    using draw_defined [of s] draw_inv [of s] by fastforce
qed simp

lemma draws_pairs:
  "inv s \<Longrightarrow> draws draw n s = Some (rs, s') \<Longrightarrow> Some (a, v) \<in> set rs \<Longrightarrow> holds s a v \<and> v \<noteq> zero_key"
proof (induction n arbitrary: s rs)
  case (Suc n)
  then obtain r s1 rs1 where "draw s = Some (r, s1)" "draws draw n s1 = Some (rs1, s')" "rs = r # rs1"
    by auto
  with Suc show ?case
    using Suc.IH [of s1 rs1] draw_inv [of s r s1] draw_keeps [of s r s1] draw_pair [of s a v s1] by auto
qed simp

end

section \<open>Lemmas\<close>

lemma take_n_Inr:
  "take_n data o' n k = Inr g \<longleftrightarrow> o' + n \<le> length data \<and> k (slice data o' (o' + n)) (o' + n) = Inr g"
  by (auto simp: take_n_def split: option.splits)

lemma take_pks_Inr:
  "take_pks n data o' acc k = Inr g \<longleftrightarrow>
     (n = 0 \<or> o' + 32 * n \<le> length data)
     \<and> k (acc @ map (\<lambda>i. slice data (o' + 32 * i) (o' + 32 * i + 32)) [0 ..< n]) (o' + 32 * n) = Inr g"
proof (induction n arbitrary: o' acc)
  case (Suc n)
  have "map (\<lambda>i. slice data (o' + 32 * i) (o' + 32 * i + 32)) [0 ..< Suc n]
      = slice data o' (o' + 32) # map (\<lambda>i. slice data (o' + 32 + 32 * i) (o' + 32 + 32 * i + 32)) [0 ..< n]"
    by (simp only: upt_conv_Cons [OF zero_less_Suc] map_Suc_upt [symmetric]) (simp add: add.assoc o_def)
  then show ?case
    by (auto simp: Suc.IH take_pk_def take_n_Inr add.assoc simp del: upt_Suc)
qed simp

lemmas parse_global_reads = take_n_Inr take_pks_Inr take_pk_def take_u64le_def

definition key_slots :: "bytes \<Rightarrow> nat \<Rightarrow> nat \<Rightarrow> pubkey list" where
  "key_slots data o' n = map (\<lambda>i. slice data (o' + 32 * i) (o' + 32 * i + 32)) [0 ..< n]"

lemma parse_global_iff:
  "parse_global data = Inr g \<longleftrightarrow>
     997 \<le> length data \<and>
     g = \<lparr>gc_fee_recipient = slice data 41 73, buyback_fee_recipients = key_slots data 741 8,
          gc_curve = \<lparr>initial_virtual_sol_reserves = u64_from_le (slice data 81 89),
            initial_virtual_token_reserves = u64_from_le (slice data 73 81),
            initial_real_token_reserves = u64_from_le (slice data 89 97),
            fee_basis_points = u64_from_le (slice data 105 113),
            creator_fee_basis_points = u64_from_le (slice data 154 162)\<rparr>,
          gc_fee_basis_points = u64_from_le (slice data 105 113),
          gc_creator_fee_basis_points = u64_from_le (slice data 154 162)\<rparr>"
  unfolding parse_global_def key_slots_def
  by (simp only: parse_global_reads) auto

subsection \<open>The nonce pool\<close>

definition pool_inv :: "NoncePool \<Rightarrow> bool" where
  "pool_inv np \<longleftrightarrow> length (np_values np) = length (np_accounts np)"

definition pool_holds :: "NoncePool \<Rightarrow> pubkey \<Rightarrow> bytes \<Rightarrow> bool" where
  "pool_holds np a v \<longleftrightarrow> (a, v) \<in> set (zip (np_accounts np) (np_values np))"

definition slot_of :: "NoncePool \<Rightarrow> u64 \<Rightarrow> nat \<Rightarrow> nat" where
  "slot_of np start i = unat (start + of_nat i) mod length (np_accounts np)"

lemma nonce_scan_eq:
  assumes "pool_inv np" "np_accounts np \<noteq> []"
  shows "nonce_scan np start is =
    Some (map_option (\<lambda>i. (np_accounts np ! slot_of np start i, np_values np ! slot_of np start i))
      (find (\<lambda>i. np_values np ! slot_of np start i \<noteq> zero_key) is))"
proof (induction "is")
  case (Cons i "is")
  have "slot_of np start i < length (np_accounts np)"
    using assms(2) by (simp add: slot_of_def)
  with assms(1) Cons show ?case
    by (simp add: pool_inv_def slot_of_def get_at_def Let_def)
qed simp

lemma nonce_take_eq:
  assumes "pool_inv np"
  shows "nonce_take np =
    (if np_accounts np = [] then Some (None, np)
     else Some (map_option
         (\<lambda>i. (np_accounts np ! slot_of np (np_next np) i, np_values np ! slot_of np (np_next np) i))
         (find (\<lambda>i. np_values np ! slot_of np (np_next np) i \<noteq> zero_key) [0 ..< length (np_accounts np)]),
       np\<lparr>np_next := np_next np + 1\<rparr>))"
  using nonce_scan_eq [OF assms] by (simp add: nonce_take_def)

lemma nonce_take_pair:
  assumes "pool_inv np" "nonce_take np = Some (Some (a, v), np')"
  shows "pool_holds np a v \<and> v \<noteq> zero_key"
proof -
  obtain i where ne: "np_accounts np \<noteq> []" and i: "find (\<lambda>i. np_values np ! slot_of np (np_next np) i \<noteq> zero_key)
      [0 ..< length (np_accounts np)] = Some i"
    and av: "a = np_accounts np ! slot_of np (np_next np) i" "v = np_values np ! slot_of np (np_next np) i"
    using assms by (auto simp: nonce_take_eq split: if_splits)
  have "slot_of np (np_next np) i < length (np_accounts np)"
    using ne by (simp add: slot_of_def)
  moreover have "v \<noteq> zero_key"
    using i av by (auto simp: find_Some_iff)
  ultimately show ?thesis
    using assms(1) av by (auto simp: pool_holds_def pool_inv_def in_set_zip)
qed

lemma nonce_take_state:
  "pool_inv np \<Longrightarrow> nonce_take np = Some (r, np') \<Longrightarrow>
     np' = (if np_accounts np = [] then np else np\<lparr>np_next := np_next np + 1\<rparr>)"
  by (auto simp: nonce_take_eq split: if_splits)

interpretation nonces: nonce_provider pool_inv pool_holds nonce_take
proof
  fix s r s'
  assume "pool_inv s"
  then show "nonce_take s \<noteq> None"
    by (simp add: nonce_take_eq)
  fix a v
  show "nonce_take s = Some (Some (a, v), s') \<Longrightarrow> pool_holds s a v \<and> v \<noteq> zero_key"
    using nonce_take_pair [OF \<open>pool_inv s\<close>] .
  assume "nonce_take s = Some (r, s')"
  with nonce_take_state [OF \<open>pool_inv s\<close> this] \<open>pool_inv s\<close>
  show "pool_inv s'" "pool_holds s' = pool_holds s"
    by (auto simp: pool_inv_def pool_holds_def fun_eq_iff)
qed

text \<open>Before the counter wraps, the slots scanned are the \<open>n\<close> positions after it, in order.\<close>

lemma slot_of_plain:
  "unat start + i < 2 ^ 64 \<Longrightarrow> slot_of np start i = (unat start + i) mod length (np_accounts np)"
  by (simp add: slot_of_def unat_word_ariths unat_of_nat)

lemma nonce_take_none:
  assumes "pool_inv np" "unat (np_next np) + length (np_accounts np) \<le> 2 ^ 64"
    and "nonce_take np = Some (None, np')"
  shows "\<forall>v \<in> set (np_values np). v = zero_key"
proof
  fix v assume "v \<in> set (np_values np)"
  then obtain j where j: "j < length (np_accounts np)" "v = np_values np ! j"
    using assms(1) by (auto simp: in_set_conv_nth pool_inv_def)
  let ?n = "length (np_accounts np)" and ?s = "unat (np_next np)"
  define i where "i = (j + (?n - ?s mod ?n)) mod ?n"
  have pos: "0 < ?n"
    using j(1) by linarith
  then have "i < ?n"
    unfolding i_def by (rule mod_less_divisor)
  moreover have "(?s + i) mod ?n = j"
  proof -
    have "(?s + i) mod ?n = (?s mod ?n + (j + (?n - ?s mod ?n))) mod ?n"
      unfolding i_def by (metis mod_add_eq mod_mod_trivial)
    also have "?s mod ?n + (j + (?n - ?s mod ?n)) = j + ?n"
      using mod_less_divisor [OF pos, of ?s] by linarith
    finally show ?thesis
      using j by simp
  qed
  ultimately have "slot_of np (np_next np) i = j"
    using assms(2) by (simp add: slot_of_plain)
  moreover have "np_values np ! slot_of np (np_next np) i = zero_key"
    using assms(1,3) \<open>i < ?n\<close> j by (auto simp: nonce_take_eq find_None_iff split: if_splits)
  ultimately show "v = zero_key"
    using j by simp
qed

lemma nonce_take_full:
  assumes "pool_inv np" "\<forall>v \<in> set (np_values np). v \<noteq> zero_key" "np_accounts np \<noteq> []"
  shows "nonce_take np = Some (Some (np_accounts np ! (unat (np_next np) mod length (np_accounts np)),
      np_values np ! (unat (np_next np) mod length (np_accounts np))), np\<lparr>np_next := np_next np + 1\<rparr>)"
proof -
  have "np_values np ! slot_of np (np_next np) 0 \<noteq> zero_key"
    using assms by (auto simp: slot_of_def pool_inv_def)
  moreover have "[0 ..< length (np_accounts np)] = 0 # [1 ..< length (np_accounts np)]"
    using assms(3) by (simp add: upt_conv_Cons)
  ultimately show ?thesis
    using assms(1,3) by (simp add: nonce_take_eq slot_of_def)
qed

lemma map_upt_shift: "map f [0 ..< Suc k] = f 0 # map (\<lambda>j. f (Suc j)) [0 ..< k]"
  by (simp only: upt_conv_Cons [OF zero_less_Suc] map_Suc_upt [symmetric] list.map map_map o_def)

lemma draws_full:
  assumes "pool_inv np" "\<forall>v \<in> set (np_values np). v \<noteq> zero_key" "np_accounts np \<noteq> []"
    and "unat (np_next np) + k < 2 ^ 64"
  shows "draws nonce_take k np = Some (map (\<lambda>j.
      let i = (unat (np_next np) + j) mod length (np_accounts np)
      in Some (np_accounts np ! i, np_values np ! i)) [0 ..< k], np\<lparr>np_next := np_next np + of_nat k\<rparr>)"
  using assms
proof (induction k arbitrary: np)
  case (Suc k)
  let ?np = "np\<lparr>np_next := np_next np + 1\<rparr>"
  have "unat (np_next np + 1) = unat (np_next np) + 1"
    using Suc.prems(4) by (simp add: unat_word_ariths)
  moreover have "draws nonce_take k ?np = Some (map (\<lambda>j.
      let i = (unat (np_next ?np) + j) mod length (np_accounts ?np)
      in Some (np_accounts ?np ! i, np_values ?np ! i)) [0 ..< k], ?np\<lparr>np_next := np_next ?np + of_nat k\<rparr>)"
    using Suc.prems calculation by (intro Suc.IH) (simp_all add: pool_inv_def)
  ultimately show ?case
    using nonce_take_full [OF Suc.prems(1-3)] by (simp add: Let_def add.assoc map_upt_shift del: upt_Suc)
qed simp

lemma load_loop_ok:
  "load_loop expected i accs vals = Some (Inr vs) \<Longrightarrow>
     length vs = length vals
     \<and> (\<forall>j < i. j < length vals \<longrightarrow> vs ! j = vals ! j)
     \<and> (\<forall>j < length accs. i + j < length vals \<and> (\<exists>data st. accs ! j = Some data \<and> parse_nonce data = Some st
          \<and> authority st = expected \<and> vs ! (i + j) = nonce_state_value st))"
proof (induction expected i accs vals arbitrary: vs rule: load_loop.induct)
  case (2 expected i account accounts vals)
  then obtain data st where a: "account = Some data" "parse_nonce data = Some st" "authority st = expected"
    "i < length vals"
    and rest: "load_loop expected (i + 1) accounts (vals[i := nonce_state_value st]) = Some (Inr vs)"
    by (auto split: option.splits if_splits)
  note IH = "2.IH" [OF a(1,2) _ a(4) rest]
  have vi: "vs ! i = nonce_state_value st"
    using IH a(3,4) by simp
  show ?case
  proof (intro conjI allI impI)
    show "length vs = length vals" using IH a(3) by simp
    show "vs ! j = vals ! j" if "j < i" "j < length vals" for j using IH a(3) that by simp
    fix j assume "j < length (account # accounts)"
    then show "i + j < length vals" using IH a(3,4) by (cases j) auto
    show "\<exists>data st. (account # accounts) ! j = Some data \<and> parse_nonce data = Some st \<and> authority st = expected
        \<and> vs ! (i + j) = nonce_state_value st"
      using IH a vi \<open>j < length (account # accounts)\<close> by (cases j) auto
  qed
qed simp

lemma load_once_length:
  "load_once expected fetched np = Some (e, np') \<Longrightarrow> pool_inv np \<Longrightarrow> pool_inv np'"
proof (cases fetched)
  case (Some accs)
  assume step: "load_once expected fetched np = Some (e, np')" and inv: "pool_inv np"
  then obtain r where "load_loop expected 0 accs (replicate (length (np_accounts np)) zero_key) = Some r"
    and "(case r of Inl e \<Rightarrow> Some (Some e, np) | Inr vs \<Rightarrow> Some (None, np\<lparr>np_values := vs\<rparr>)) = Some (e, np')"
    using Some by (auto simp: load_once_def)
  with inv show ?thesis
    by (cases r) (auto simp: pool_inv_def dest!: load_loop_ok)
qed (simp add: load_once_def)

lemma refresh_loop_ok:
  "refresh_loop i accs vals = Some vs \<Longrightarrow> length vs = length vals \<and>
     (\<forall>k < length vals. vs ! k =
       (if i \<le> k \<and> k < i + length accs then
          (case Option.bind (accs ! (k - i)) parse_nonce of Some st \<Rightarrow> nonce_state_value st | None \<Rightarrow> vals ! k)
        else vals ! k))"
proof (induction i accs vals arbitrary: vs rule: refresh_loop.induct)
  case (2 i account accounts vals)
  have pos: "k - i = (if k = i then 0 else Suc (k - (i + 1)))" if "i \<le> k" for k
    using that by auto
  show ?case
  proof (cases "Option.bind account parse_nonce")
    case None
    then have "refresh_loop (i + 1) accounts vals = Some vs"
      using "2.prems" by simp
    from "2.IH"(1) [OF None this] None show ?thesis
      by (auto simp: pos)
  next
    case (Some st)
    then have i: "i < length vals"
      and "refresh_loop (i + 1) accounts (vals[i := nonce_state_value st]) = Some vs"
      using "2.prems" by (auto split: if_splits)
    from "2.IH"(2) [OF Some this] Some i show ?thesis
      by (auto simp: pos nth_list_update split: option.splits)
  qed
qed auto

section \<open>Properties\<close>

text \<open>
  \<open>parse_global\<close> succeeds exactly on account data of at least 997 bytes and then returns the
  fields at the offsets of the deployed layout, wherever the data ends.
\<close>

theorem parse_global_layout:
  "(\<exists>g. parse_global data = Inr g) = (997 \<le> length data)
   \<and> (\<forall>g. parse_global data = Inr g \<longrightarrow>
        gc_fee_recipient g = slice data 41 73
        \<and> buyback_fee_recipients g = key_slots data 741 8
        \<and> wf_key (gc_fee_recipient g) \<and> (\<forall>k \<in> set (buyback_fee_recipients g). wf_key k)
        \<and> unat (initial_virtual_token_reserves (gc_curve g)) = le_nat (slice data 73 81)
        \<and> unat (initial_virtual_sol_reserves (gc_curve g)) = le_nat (slice data 81 89)
        \<and> unat (initial_real_token_reserves (gc_curve g)) = le_nat (slice data 89 97)
        \<and> unat (fee_basis_points (gc_curve g)) = le_nat (slice data 105 113)
        \<and> unat (creator_fee_basis_points (gc_curve g)) = le_nat (slice data 154 162))"
  unfolding parse_global_iff
  by (auto simp: wf_key_def key_slots_def unat_u64_from_le)

theorem parse_global_layout_witness:
  "\<exists>g. parse_global (replicate 1000 1) = Inr g \<and> wf_key (gc_fee_recipient g)"
  using parse_global_layout [of "replicate 1000 1"] by auto

text \<open>
  C29: The nonce pool never panics and never mixes accounts and values: each of any number of
  consecutive takes returns either nothing or an account of the pool together with its own,
  already read value.
\<close>

theorem nonce_takes_pair_up:
  assumes "length (np_values np) = length (np_accounts np)"
  shows "\<exists>rs np'. draws nonce_take n np = Some (rs, np')
    \<and> (\<forall>a v. Some (a, v) \<in> set rs \<longrightarrow>
        v \<noteq> zero_key \<and> (\<exists>i < length (np_accounts np). a = np_accounts np ! i \<and> v = np_values np ! i))"
proof -
  have inv: "pool_inv np"
    using assms by (simp add: pool_inv_def)
  then obtain rs np' where run: "draws nonce_take n np = Some (rs, np')"
    using nonces.draws_defined [of np n] by auto
  with nonces.draws_pairs [OF inv run] assms show ?thesis
    by (intro exI [of _ rs] exI [of _ np']) (auto simp: pool_holds_def in_set_zip)
qed

definition sample_pool :: NoncePool where
  "sample_pool = \<lparr>np_accounts = [replicate 32 1, replicate 32 2, replicate 32 3],
     np_values = [replicate 32 11, replicate 32 12, replicate 32 13], np_next = 7\<rparr>"

theorem nonce_takes_pair_up_witness:
  "\<exists>rs np'. draws nonce_take 5 sample_pool = Some (rs, np')"
  using nonce_takes_pair_up [of sample_pool 5] by (auto simp: sample_pool_def)

text \<open>
  Once every value has been read, the pool is a round robin: as many consecutive launches as
  there are accounts all get different nonce accounts, each with its own value.
\<close>

theorem nonce_round_robin:
  assumes "length (np_values np) = length (np_accounts np)" "distinct (np_accounts np)"
    and "\<forall>v \<in> set (np_values np). v \<noteq> zero_key" "k \<le> length (np_accounts np)"
    and "unat (np_next np) + k < 2 ^ 64"
  shows "\<exists>rs np'. draws nonce_take k np = Some (rs, np') \<and> length rs = k \<and> distinct rs
    \<and> (\<forall>r \<in> set rs. r \<noteq> None)"
proof (cases "k = 0")
  case False
  then have ne: "np_accounts np \<noteq> []" "pool_inv np"
    using assms by (auto simp: pool_inv_def)
  let ?n = "length (np_accounts np)" and ?s = "unat (np_next np)"
  let ?f = "\<lambda>j. let i = (?s + j) mod ?n in Some (np_accounts np ! i, np_values np ! i)"
  have "inj_on ?f {0 ..< k}"
  proof (rule inj_onI)
    fix x y assume "x \<in> {0 ..< k}" "y \<in> {0 ..< k}" "?f x = ?f y"
    then have xy: "x < ?n" "y < ?n" "(?s + x) mod ?n = (?s + y) mod ?n"
      using assms(2,4) ne(1) by (auto simp: Let_def nth_eq_iff_index_eq)
    then have "x mod ?n = y mod ?n"
      by (simp only: nat_mod_eq_iff add.assoc add_left_cancel)
    with xy show "x = y"
      by simp
  qed
  then show ?thesis
    using draws_full [OF ne(2) assms(3) ne(1) assms(5)]
    by (auto simp: distinct_map Let_def)
qed auto

theorem nonce_round_robin_witness:
  "\<exists>rs np'. draws nonce_take 3 sample_pool = Some (rs, np') \<and> length rs = 3 \<and> distinct rs"
  using nonce_round_robin [of sample_pool 3]
  by (auto simp: sample_pool_def zero_key_def replicate_eq_replicate)

text \<open>
  Where the value at the counter has not been read yet, two consecutive takes hand out the
  same nonce account: the first skips forward to the next readable account, and the second starts
  exactly there. The pool then does not give each launch its own nonce.
\<close>

theorem nonce_gap_repeats:
  assumes "length (np_values np) = length (np_accounts np)" "2 \<le> length (np_accounts np)"
    and "unat (np_next np) + 2 < 2 ^ 64"
    and "np_values np ! (unat (np_next np) mod length (np_accounts np)) = zero_key"
    and "np_values np ! ((unat (np_next np) + 1) mod length (np_accounts np)) \<noteq> zero_key"
  shows "\<exists>a v np'. draws nonce_take 2 np = Some ([Some (a, v), Some (a, v)], np')"
proof -
  let ?n = "length (np_accounts np)" and ?s = "unat (np_next np)"
  have inv: "pool_inv np" and ne: "np_accounts np \<noteq> []"
    using assms(1,2) by (auto simp: pool_inv_def)
  have up: "[0 ..< ?n] = 0 # 1 # [2 ..< ?n]"
    using assms(2) ne upt_conv_Cons [of 0 ?n] upt_conv_Cons [of 1 ?n] by (simp add: numeral_2_eq_2)
  have s0: "slot_of np (np_next np) 0 = ?s mod ?n" "slot_of np (np_next np) 1 = (?s + 1) mod ?n"
    using assms(3) by (simp_all add: slot_of_plain)
  let ?np = "np\<lparr>np_next := np_next np + 1\<rparr>"
  have next': "unat (np_next np + 1) = ?s + 1"
    using assms(3) by (simp add: unat_word_ariths)
  then have s1: "slot_of ?np (np_next ?np) 0 = (?s + 1) mod ?n"
    using assms(3) by (simp add: slot_of_plain)
  let ?i = "(?s + 1) mod ?n"
  have "nonce_take np = Some (Some (np_accounts np ! ?i, np_values np ! ?i), ?np)"
    using ne assms(4,5) by (simp add: nonce_take_eq [OF inv] up s0 s0(2) [simplified])
  moreover have "nonce_take ?np = Some (Some (np_accounts np ! ?i, np_values np ! ?i), ?np\<lparr>np_next := np_next ?np + 1\<rparr>)"
    using ne assms(5) inv s1 by (subst nonce_take_eq) (simp_all add: pool_inv_def up)
  ultimately show ?thesis
    by (simp add: numeral_2_eq_2)
qed

theorem nonce_gap_repeats_witness:
  "\<exists>a v np'. draws nonce_take 2 (sample_pool\<lparr>np_values := [replicate 32 11, zero_key, replicate 32 13]\<rparr>)
     = Some ([Some (a, v), Some (a, v)], np')"
  using nonce_gap_repeats [of "sample_pool\<lparr>np_values := [replicate 32 11, zero_key, replicate 32 13]\<rparr>"]
  by (simp add: sample_pool_def zero_key_def replicate_eq_replicate)

text \<open>
  The sniper arms only on nonces it controls: when \<open>load_once\<close> succeeds, every fetched account
  is an initialized nonce whose authority is the buying wallet, and the pool holds exactly its
  value; when it reports an error the pool is unchanged.
\<close>

theorem load_once_validates:
  assumes "load_once expected (Some accounts) np = Some (e, np')"
  shows "(e \<noteq> None \<longrightarrow> np' = np) \<and> (e = None \<longrightarrow>
    (\<forall>j < length accounts. j < length (np_accounts np) \<and> (\<exists>data. accounts ! j = Some data
       \<and> 80 \<le> length data \<and> u32_from_le (slice data 4 8) = 1 \<and> slice data 8 40 = expected
       \<and> np_values np' ! j = slice data 40 72)))"
proof -
  obtain r where r: "load_loop expected 0 accounts (replicate (length (np_accounts np)) zero_key) = Some r"
    and c: "(case r of Inl e \<Rightarrow> Some (Some e, np) | Inr vs \<Rightarrow> Some (None, np\<lparr>np_values := vs\<rparr>)) = Some (e, np')"
    using assms by (auto simp: load_once_def)
  show ?thesis
  proof (cases r)
    case (Inr vs)
    then have "e = None" "np' = np\<lparr>np_values := vs\<rparr>"
      using c by auto
    moreover note load_loop_ok [OF r [unfolded Inr]]
    ultimately show ?thesis
      by (fastforce simp: parse_nonce_def not_less split: if_splits)
  qed (use c in auto)
qed

theorem load_once_validates_witness:
  "\<exists>np'. load_once (replicate 32 5) (Some [Some ([0, 0, 0, 0, 1, 0, 0, 0] @ replicate 32 5 @ replicate 32 6
      @ replicate 8 0)]) (NoncePool_new [replicate 32 1]) = Some (None, np')
     \<and> np_values np' ! 0 = slice ([0, 0, 0, 0, 1, 0, 0, 0] @ replicate 32 5 @ replicate 32 6 @ replicate 8 0) 40 72"
proof -
  let ?d = "[0, 0, 0, 0, 1, 0, 0, 0] @ replicate 32 5 @ replicate 32 6 @ replicate 8 0 :: bytes"
  have "parse_nonce ?d = Some \<lparr>authority = replicate 32 5, nonce_state_value = replicate 32 6\<rparr>"
    by (simp add: parse_nonce_def slice_def u32_from_le_def)
  then obtain np' where l: "load_once (replicate 32 5) (Some [Some ?d]) (NoncePool_new [replicate 32 1]) = Some (None, np')"
    by (simp add: load_once_def NoncePool_new_def del: append.simps)
  from load_once_validates [OF l] l show ?thesis
    by auto
qed

end
