(* ===== verification/Hot.thy ===== *)
theory Hot
  imports Sender Position Confirm Chain Tip
begin

text \<open>
  \<open>sniper/src/lib.rs\<close>: the hot path. \<open>HotSniper\<close> is the state the detect thread owns together with
  the shared state it reads and updates; every operation returns the launch it fired, if any, and
  the new state, under an outer option whose \<open>None\<close> is a panic.

  What the other threads do to the gate between \<open>may_fire\<close> and \<open>claim\<close> is the argument
  \<open>he_others\<close>. The tables of the confirmation trigger and the published tip floor, statics of the
  program, are fields of the shared state.
\<close>

section \<open>Data\<close>

record SniperMetrics =
  mt_creates_seen :: u64
  mt_creates_whitelisted :: u64
  mt_duplicates :: u64
  mt_skipped_dev_buy :: u64
  mt_skipped_no_nonce :: u64
  mt_fired :: u64
  mt_jobs_queued :: u64
  mt_confirm_pending :: u64
  mt_confirm_not_fresh :: u64
  mt_confirm_elite_ahead :: u64
  mt_confirm_curve_capped :: u64
  mt_skipped_no_seller :: u64
  mt_confirm_mayhem_skipped :: u64
  mt_confirm_rug_skipped :: u64
  mt_confirm_min_dev_buy_skipped :: u64
  mt_confirm_not_botlauncher_skipped :: u64

record Shared =
  sh_whitelist :: Whitelist
  sh_nonces :: NoncePool
  sh_fee_recipients :: FeeRecipientCache
  sh_curve :: CurveParams
  sh_metrics :: SniperMetrics
  sh_providers :: "ProviderHandle list"
  sh_buy_lamports :: u64
  sh_max_dev_buy_lamports :: u64
  sh_haircut_bps :: u64
  sh_slippage_bps :: u64
  sh_buyer :: pubkey
  sh_gate :: PositionGate
  sh_ghost_mode :: bool
  sh_seller_listening :: bool
  sh_require_seller :: bool
  sh_skip_mayhem :: bool
  sh_max_rug :: f64
  sh_min_dev_buy_lamports :: u64
  sh_require_botlauncher :: bool
  sh_skip_botlauncher :: bool
  sh_fire_on_create :: bool
  sh_buy_exact_sol_in :: bool
  sh_seed_table :: SeedTable
  sh_confirm :: "Params option"
  sh_tip :: "TipParams option"
  sh_tables :: tables
  sh_tip_floor :: "TipFloor option"

record PendingLaunch =
  pl_info :: PumpCreateInfo
  pl_slot :: u64
  pl_watch :: LaunchWatch

record HotSniper =
  hs_shared :: Shared
  hs_template :: Template
  hs_seen :: "pubkey set"
  hs_tx_ring :: "nat list"
  hs_ring_cursor :: nat
  hs_seed_index :: nat
  hs_launch_counter :: u64
  hs_vault_cache :: "(pubkey \<times> pubkey) list"
  hs_session :: Session
  hs_pending :: "pubkey \<rightharpoonup> PendingLaunch"
  hs_cur_slot :: u64
  hs_seen_buys :: "bytes set"
  hs_bodies :: bodies

record FiredLaunch =
  fl_mint :: pubkey
  fl_token_account :: pubkey
  fl_seed :: bytes
  fl_amount :: u64
  fl_max_sol_cost :: u64
  fl_cost_lamports :: u64
  fl_expected_tokens :: u64
  fl_bonding_curve :: pubkey
  fl_associated_bonding_curve :: pubkey
  fl_creator :: pubkey
  fl_token_program :: pubkey
  fl_is_cashback :: bool

definition VAULT_CACHE_SLOTS :: nat where "VAULT_CACHE_SLOTS = 1024"

definition SEED_TABLE_LEN :: nat where "SEED_TABLE_LEN = 65536"

definition TX_RING :: nat where "TX_RING = 8"

text \<open>What an operation takes from outside: address derivation, the UTC day, the other threads, and
  the \<open>f64\<close> quotient of a stored rug coefficient by 1000.\<close>

record hot_env =
  he_find_pda :: find_pda
  he_today :: u64
  he_others :: "PositionGate \<Rightarrow> PositionGate"
  he_rug_of :: "u16 \<Rightarrow> f64"

type_synonym hot_result = "(FiredLaunch option \<times> HotSniper) option"

section \<open>Start\<close>

text \<open>The body ring is filled with the first addresses of an empty store.\<close>

definition into_hot :: "u64 \<Rightarrow> Shared \<Rightarrow> Template \<Rightarrow> HotSniper" where
  "into_hot today sh t = \<lparr>hs_shared = sh, hs_template = t, hs_seen = {}, hs_tx_ring = [0 ..< TX_RING],
     hs_ring_cursor = 0, hs_seed_index = 0, hs_launch_counter = 0,
     hs_vault_cache = replicate VAULT_CACHE_SLOTS (zero_key, zero_key),
     hs_session = \<lparr>seen_devs = {}, day = today\<rparr>, hs_pending = Map.empty, hs_cur_slot = 0, hs_seen_buys = {},
     hs_bodies = \<lparr>bd_buf = \<lambda>_. TxBuf_default, bd_refs = \<lambda>a. if a < TX_RING then 1 else 0, bd_next = TX_RING\<rparr>\<rparr>"

section \<open>Helpers\<close>

text \<open>A counter of the shared metrics, named by its update function, goes up by one.\<close>

definition bump :: "((u64 \<Rightarrow> u64) \<Rightarrow> SniperMetrics \<Rightarrow> SniperMetrics) \<Rightarrow> HotSniper \<Rightarrow> HotSniper" where
  "bump counter h =
     h\<lparr>hs_shared := (hs_shared h)\<lparr>sh_metrics := counter (\<lambda>x. x + 1) (sh_metrics (hs_shared h))\<rparr>\<rparr>"

definition set_gate :: "PositionGate \<Rightarrow> HotSniper \<Rightarrow> HotSniper" where
  "set_gate g h = h\<lparr>hs_shared := (hs_shared h)\<lparr>sh_gate := g\<rparr>\<rparr>"

definition set_seller_listening :: "bool \<Rightarrow> HotSniper \<Rightarrow> HotSniper" where
  "set_seller_listening yes h = h\<lparr>hs_shared := (hs_shared h)\<lparr>sh_seller_listening := yes\<rparr>\<rparr>"

definition vault_slot :: "pubkey \<Rightarrow> nat option" where
  "vault_slot creator = do {
     b0 \<leftarrow> get_at creator 0;
     b1 \<leftarrow> get_at creator 1;
     Some (le_nat [b0, b1] mod VAULT_CACHE_SLOTS)
   }"

definition priced_plan :: "Shared \<Rightarrow> u64 \<Rightarrow> u64 \<Rightarrow> BuyPlan option" where
  "priced_plan sh prior_flow budget =
     (if sh_buy_exact_sol_in sh then plan_exact_sol_in (sh_curve sh) prior_flow budget (sh_slippage_bps sh)
      else plan_buy (sh_curve sh) prior_flow budget (sh_haircut_bps sh) (sh_slippage_bps sh))"

text \<open>\<open>fill_body\<close>: the address of the filled body, the ring, the cursor and the store.\<close>

definition fill_body :: "nat list \<Rightarrow> nat \<Rightarrow> bytes \<Rightarrow> bodies \<Rightarrow> (nat \<times> nat list \<times> nat \<times> bodies) option" where
  "fill_body ring cursor template h = do {
     let len = length template;
     let cursor' = (if cursor + 1 = length ring then 0 else cursor + 1);
     slot \<leftarrow> get_at ring cursor;
     if bd_refs h slot = 1 then do {
       tx \<leftarrow> patch_at (tb_tx (bd_buf h slot)) 0 template;
       let h = h\<lparr>bd_buf := (bd_buf h)(slot := \<lparr>tb_len = of_nat len, tb_tx = tx\<rparr>)\<rparr>;
       Some (slot, ring, cursor', arc_clone slot h)
     }
     else do {
       tx \<leftarrow> patch_at (tb_tx TxBuf_default) 0 template;
       let (fresh, h) = arc_new \<lparr>tb_len = of_nat len, tb_tx = tx\<rparr> h;
       Some (fresh, ring[cursor := fresh], cursor', arc_drop slot (arc_clone fresh h))
     }
   }"

text \<open>The fourteen patches of a launch.\<close>

definition patch_launch ::
  "PumpCreateInfo \<Rightarrow> BuyPlan \<Rightarrow> pubkey \<Rightarrow> pubkey \<Rightarrow> pubkey \<Rightarrow> pubkey \<Rightarrow> pubkey \<Rightarrow> bytes \<Rightarrow> pubkey \<Rightarrow> bytes \<Rightarrow>
     Template \<Rightarrow> Template option" where
  "patch_launch info plan fee_recipient buyback_recipient bcv2 vault token_account seed nonce_account nonce_value t = do {
     let o' = tp_offsets t;
     t \<leftarrow> patch_key (of_fee_recipient o') fee_recipient t;
     t \<leftarrow> patch_key (of_buyback_fee_recipient o') buyback_recipient t;
     t \<leftarrow> patch_key (of_mint o') (pci_mint info) t;
     t \<leftarrow> patch_key (of_bonding_curve o') (pci_bonding_curve info) t;
     t \<leftarrow> patch_key (of_associated_bonding_curve o') (pci_associated_bonding_curve info) t;
     t \<leftarrow> patch_key (of_bonding_curve_v2 o') bcv2 t;
     t \<leftarrow> patch_key (of_creator_vault o') vault t;
     t \<leftarrow> patch_key (of_token_account o') token_account t;
     t \<leftarrow> patch_token_program (pci_token_program info) t;
     t \<leftarrow> patch_seed (of_seed o') seed t;
     t \<leftarrow> patch_u64 (of_amount o') (bp_amount plan) t;
     t \<leftarrow> patch_u64 (of_max_sol_cost o') (bp_max_sol_cost plan) t;
     t \<leftarrow> patch_key (of_nonce_account o') nonce_account t;
     patch_key (of_nonce_value o') nonce_value t
   }"

text \<open>The fan-out loop over the providers: every one is handed a job, queued or dropped.\<close>

fun queue_jobs ::
  "nat \<Rightarrow> u64 \<Rightarrow> u64 option \<Rightarrow> ProviderHandle list \<Rightarrow> bodies \<Rightarrow> u64 \<Rightarrow>
     (ProviderHandle list \<times> bodies \<times> u64) option" where
  "queue_jobs base counter dyn_tip [] h queued = Some ([], h, queued)"
| "queue_jobs base counter dyn_tip (p # ps) h queued = do {
     tip_account \<leftarrow> (if ph_tip_accounts p = [] then None
       else Some (ph_tip_accounts p ! (unat counter mod length (ph_tip_accounts p))));
     let job = \<lparr>job_base = base, job_tip_account = tip_account,
       job_tip_lamports = (case dyn_tip of None \<Rightarrow> ph_tip_lamports p | Some t \<Rightarrow> max t (ph_tip_lamports p)),
       job_cu_price = ph_cu_price p\<rparr>;
     let (p, h) = try_send job p (arc_clone base h);
     (ps, h, queued) \<leftarrow> queue_jobs base counter dyn_tip ps h (queued + 1);
     Some (p # ps, h, queued)
   }"

definition position_of ::
  "PumpCreateInfo \<Rightarrow> u64 \<Rightarrow> BuyPlan \<Rightarrow> pubkey \<Rightarrow> pubkey \<Rightarrow> bool \<Rightarrow> OpenPosition" where
  "position_of info slot plan token_account nonce_account ghost =
     \<lparr>op_mint = pci_mint info, op_create_slot = slot, op_bonding_curve = pci_bonding_curve info,
      op_token_account = token_account, op_amount = bp_expected_tokens plan,
      op_cost = bp_budget_lamports plan, op_nonce_account = nonce_account,
      op_prior_flow_at_fire = bp_prior_flow_lamports plan, op_ghost = ghost\<rparr>"

definition fired_of :: "PumpCreateInfo \<Rightarrow> BuyPlan \<Rightarrow> pubkey \<Rightarrow> bytes \<Rightarrow> FiredLaunch" where
  "fired_of info plan token_account seed =
     \<lparr>fl_mint = pci_mint info, fl_token_account = token_account, fl_seed = seed,
      fl_amount = bp_amount plan, fl_max_sol_cost = bp_max_sol_cost plan,
      fl_cost_lamports = bp_budget_lamports plan, fl_expected_tokens = bp_expected_tokens plan,
      fl_bonding_curve = pci_bonding_curve info,
      fl_associated_bonding_curve = pci_associated_bonding_curve info,
      fl_creator = pci_creator info, fl_token_program = pci_token_program info,
      fl_is_cashback = pci_is_cashback info\<rparr>"

section \<open>Firing\<close>

text \<open>The creator vault, from the direct-mapped cache or derived into it.\<close>

definition cached_vault :: "find_pda \<Rightarrow> pubkey \<Rightarrow> (pubkey \<times> pubkey) list \<Rightarrow> (pubkey \<times> (pubkey \<times> pubkey) list) option" where
  "cached_vault pda creator cache = do {
     slot \<leftarrow> vault_slot creator;
     (c, v) \<leftarrow> get_at cache slot;
     if c = creator then Some (v, cache)
     else let v = creator_vault pda creator in Some (v, cache[slot := (creator, v)])
   }"

text \<open>From the won claim of a live launch to the position handed to the tracker.\<close>

definition fan_out_launch ::
  "PumpCreateInfo \<Rightarrow> u64 \<Rightarrow> BuyPlan \<Rightarrow> u32 \<Rightarrow> pubkey \<Rightarrow> bytes \<Rightarrow> pubkey \<Rightarrow> HotSniper \<Rightarrow> hot_result" where
  "fan_out_launch info slot plan competition token_account seed nonce_account h = do {
     (base, ring, cursor, bodies) \<leftarrow>
       fill_body (hs_tx_ring h) (hs_ring_cursor h) (tp_tx (hs_template h)) (hs_bodies h);
     dyn_tip \<leftarrow> (case sh_tip (hs_shared h) of
         None \<Rightarrow> Some None
       | Some tp \<Rightarrow> map_option Some (dynamic_tip tp (sh_tip_floor (hs_shared h)) (bp_budget_lamports plan) competition));
     (providers, bodies, queued) \<leftarrow>
       queue_jobs base (hs_launch_counter h) dyn_tip (sh_providers (hs_shared h)) bodies 0;
     let m = sh_metrics (hs_shared h);
     let h = h\<lparr>hs_tx_ring := ring, hs_ring_cursor := cursor, hs_bodies := arc_drop base bodies,
       hs_shared := (hs_shared h)\<lparr>sh_providers := providers,
         sh_metrics := m\<lparr>mt_jobs_queued := mt_jobs_queued m + queued\<rparr>\<rparr>\<rparr>;
     if queued = 0 then Some (None, h)
     else
       let h = bump mt_fired_update h;
           h = set_gate (opened (position_of info slot plan token_account nonce_account False) (sh_gate (hs_shared h))) h
       in Some (Some (fired_of info plan token_account seed), h)
   }"

text \<open>The claim, and what follows it on paper or on the wire.\<close>

definition commit_launch ::
  "hot_env \<Rightarrow> PumpCreateInfo \<Rightarrow> u64 \<Rightarrow> BuyPlan \<Rightarrow> u32 \<Rightarrow> pubkey \<Rightarrow> bytes \<Rightarrow> pubkey \<Rightarrow> HotSniper \<Rightarrow> hot_result" where
  "commit_launch env info slot plan competition token_account seed nonce_account h =
     (let (won, g) = claim (he_others env (sh_gate (hs_shared h)));
          h = set_gate g h
      in if \<not> won then Some (None, h\<lparr>hs_seen := hs_seen h - {pci_mint info}\<rparr>)
         else if sh_ghost_mode (hs_shared h) then
           let h = set_gate (opened (position_of info slot plan token_account nonce_account True) (sh_gate (hs_shared h))) h
           in Some (Some (fired_of info plan token_account seed), bump mt_fired_update h)
         else fan_out_launch info slot plan competition token_account seed nonce_account h)"

text \<open>With a nonce in hand: the token account, the creator vault and the patched template.\<close>

definition prepare_launch ::
  "hot_env \<Rightarrow> PumpCreateInfo \<Rightarrow> u64 \<Rightarrow> BuyPlan \<Rightarrow> u32 \<Rightarrow> pubkey \<Rightarrow> bytes \<Rightarrow> HotSniper \<Rightarrow> hot_result" where
  "prepare_launch env info slot plan competition nonce_account nonce_value h = do {
     let sh = hs_shared h;
     let index = (if hs_seed_index h + 1 = length (st_seeds (sh_seed_table sh)) then 0 else hs_seed_index h + 1);
     (seed, token_account) \<leftarrow> SeedTable_get (sh_seed_table sh) index (pci_token_program info);
     (vault, cache) \<leftarrow> cached_vault (he_find_pda env) (pci_creator info) (hs_vault_cache h);
     let counter = hs_launch_counter h + 1;
     t \<leftarrow> patch_launch info plan (frc_fee_recipient (sh_fee_recipients sh))
       (buyback (sh_fee_recipients sh) (unat counter))
       (bonding_curve_v2 (he_find_pda env) (pci_mint info)) vault token_account seed
       nonce_account nonce_value (hs_template h);
     let h = h\<lparr>hs_seed_index := index, hs_vault_cache := cache, hs_launch_counter := counter, hs_template := t\<rparr>;
     if length (tp_tx t) > MAX_TX then Some (None, h)
     else commit_launch env info slot plan competition token_account seed nonce_account h
   }"

definition fire_launch ::
  "hot_env \<Rightarrow> PumpCreateInfo \<Rightarrow> u64 \<Rightarrow> BuyPlan \<Rightarrow> u32 \<Rightarrow> HotSniper \<Rightarrow> hot_result" where
  "fire_launch env info slot plan competition h =
     (let (free, g) = may_fire (sh_gate (hs_shared h));
          h = set_gate g h;
          sh = hs_shared h
      in if \<not> free then Some (None, h)
         else if \<not> sh_ghost_mode sh \<and> sh_require_seller sh \<and> \<not> sh_seller_listening sh
         then Some (None, bump mt_skipped_no_seller_update h)
         else do {
           (nonce, nonces) \<leftarrow> nonce_take (sh_nonces sh);
           let h = h\<lparr>hs_shared := sh\<lparr>sh_nonces := nonces\<rparr>\<rparr>;
           case nonce of
             None \<Rightarrow> Some (None, bump mt_skipped_no_nonce_update h)
           | Some (nonce_account, nonce_value) \<Rightarrow>
               prepare_launch env info slot plan competition nonce_account nonce_value h
         })"

section \<open>Creates and buys\<close>

definition retain :: "('v \<Rightarrow> bool) \<Rightarrow> ('k \<rightharpoonup> 'v) \<Rightarrow> ('k \<rightharpoonup> 'v)" where
  "retain P m = (\<lambda>k. case m k of None \<Rightarrow> None | Some v \<Rightarrow> if P v then Some v else None)"

definition seal_old_slots :: "u64 \<Rightarrow> HotSniper \<Rightarrow> HotSniper" where
  "seal_old_slots slot h =
     (if slot > hs_cur_slot h then
        h\<lparr>hs_pending := retain (\<lambda>p. pl_slot p + 1 \<ge> slot) (hs_pending h),
          hs_seen_buys := (if card (hs_seen_buys h) > 4096 then {} else hs_seen_buys h),
          hs_cur_slot := slot\<rparr>
      else h)"

text \<open>\<open>seen.insert\<close> with the reset that follows it: whether the mint was new, and the new set.\<close>

definition remember :: "pubkey \<Rightarrow> HotSniper \<Rightarrow> bool \<times> HotSniper" where
  "remember mint h =
     (if mint \<in> hs_seen h then (False, bump mt_duplicates_update h)
      else let seen = insert mint (hs_seen h)
           in (True, h\<lparr>hs_seen := (if card seen > 50000 then {} else seen)\<rparr>))"

definition too_big :: "Shared \<Rightarrow> PumpCreateInfo \<Rightarrow> bool" where
  "too_big sh info \<longleftrightarrow> sh_max_dev_buy_lamports sh > 0 \<and> pci_dev_buy_lamports info \<ge> sh_max_dev_buy_lamports sh"

text \<open>Pricing a launch against the flow ahead and firing it unless the plan buys nothing.\<close>

definition plan_and_fire ::
  "hot_env \<Rightarrow> PumpCreateInfo \<Rightarrow> u64 \<Rightarrow> u64 \<Rightarrow> u64 \<Rightarrow> u32 \<Rightarrow> HotSniper \<Rightarrow> hot_result" where
  "plan_and_fire env info slot prior_flow budget competition h = do {
     plan \<leftarrow> priced_plan (hs_shared h) prior_flow budget;
     if bp_amount plan = 0 then Some (None, h)
     else fire_launch env info slot plan competition h
   }"

text \<open>The selection gates of the confirm mode: the counter a create is skipped under, if it is.\<close>

definition skip_counter ::
  "hot_env \<Rightarrow> PumpCreateInfo \<Rightarrow> bool \<Rightarrow> Shared \<Rightarrow> ((u64 \<Rightarrow> u64) \<Rightarrow> SniperMetrics \<Rightarrow> SniperMetrics) option" where
  "skip_counter env info fresh sh =
     (if \<not> fresh then Some mt_confirm_not_fresh_update
      else if pci_is_mayhem info \<and> sh_skip_mayhem sh then Some mt_confirm_mayhem_skipped_update
      else if f64_less (sh_max_rug sh) (Fin 1)
              \<and> f64_ge (he_rug_of env (creator_rug_milli (sh_tables sh) (pci_creator info))) (sh_max_rug sh)
      then Some mt_confirm_rug_skipped_update
      else if pci_dev_buy_lamports info < sh_min_dev_buy_lamports sh then Some mt_confirm_min_dev_buy_skipped_update
      else if too_big sh info then Some mt_skipped_dev_buy_update
      else if sh_require_botlauncher sh \<and> \<not> pci_is_botlauncher info
      then Some mt_confirm_not_botlauncher_skipped_update
      else if sh_skip_botlauncher sh \<and> pci_is_botlauncher info
      then Some mt_confirm_not_botlauncher_skipped_update
      else None)"

definition watch_launch :: "PumpCreateInfo \<Rightarrow> u64 \<Rightarrow> HotSniper \<Rightarrow> HotSniper" where
  "watch_launch info slot h =
     (let pending = (if card (dom (hs_pending h)) > 4096
                     then retain (\<lambda>p. pl_slot p \<ge> slot) (hs_pending h) else hs_pending h);
          launch = \<lparr>pl_info = info, pl_slot = slot, pl_watch = LaunchWatch_new (pci_dev_buy_lamports info)\<rparr>
      in (bump mt_confirm_pending_update h)\<lparr>hs_pending := pending(pci_mint info \<mapsto> launch)\<rparr>)"

definition confirm_register :: "hot_env \<Rightarrow> PumpCreateInfo \<Rightarrow> u64 \<Rightarrow> HotSniper \<Rightarrow> hot_result" where
  "confirm_register env info slot h =
     (let (new, h) = remember (pci_mint info) (seal_old_slots slot h); sh = hs_shared h
      in if \<not> new then Some (None, h)
         else
           let (fresh, session) = dev_is_fresh (sh_tables sh) (he_today env) (pci_creator info) (hs_session h);
               h = h\<lparr>hs_session := session\<rparr>
           in case skip_counter env info fresh sh of
                Some counter \<Rightarrow> Some (None, bump counter h)
              | None \<Rightarrow>
                  if sh_fire_on_create sh
                  then plan_and_fire env info slot (pci_dev_buy_lamports info) (sh_buy_lamports sh) 0 h
                  else Some (None, watch_launch info slot h))"

definition on_create :: "hot_env \<Rightarrow> PumpCreateInfo \<Rightarrow> u64 \<Rightarrow> HotSniper \<Rightarrow> hot_result" where
  "on_create env info slot h =
     (let h = bump mt_creates_seen_update h
      in if sh_confirm (hs_shared h) \<noteq> None then confirm_register env info slot h
         else if \<not> whitelist_contains (sh_whitelist (hs_shared h)) (pci_user info) then Some (None, h)
         else
           let (new, h) = remember (pci_mint info) (bump mt_creates_whitelisted_update h)
           in if \<not> new then Some (None, h)
              else if too_big (hs_shared h) info then Some (None, bump mt_skipped_dev_buy_update h)
              else plan_and_fire env info slot (pci_dev_buy_lamports info) (sh_buy_lamports (hs_shared h)) 0 h)"

definition hot_on_buy :: "hot_env \<Rightarrow> PumpBuyInfo \<Rightarrow> u64 \<Rightarrow> HotSniper \<Rightarrow> hot_result" where
  "hot_on_buy env buy slot h =
     (case sh_confirm (hs_shared h) of
        None \<Rightarrow> Some (None, h)
      | Some params \<Rightarrow>
          let h = seal_old_slots slot h
          in case hs_pending h (pbi_mint buy) of
               None \<Rightarrow> Some (None, h)
             | Some p \<Rightarrow>
                 if pl_slot p \<noteq> slot then Some (None, h)
                 else if pbi_sig8 buy \<in> hs_seen_buys h then Some (None, h)
                 else do {
                   let h = h\<lparr>hs_seen_buys := insert (pbi_sig8 buy) (hs_seen_buys h)\<rparr>;
                   (watch, result) \<leftarrow> Confirm.on_buy (sh_tables (hs_shared h)) params (pbi_buyer buy)
                     (pbi_sol_lamports buy) (pbi_token_amount buy) (pbi_exact_sol buy) (pl_watch p);
                   let removed = h\<lparr>hs_pending := (hs_pending h)(pbi_mint buy := None)\<rparr>;
                   case result of
                     Inr fire \<Rightarrow> plan_and_fire env (pl_info p) slot (fire_prior_flow_lamports fire)
                       (fire_budget_lamports fire) (fire_n_conf fire) removed
                   | Inl EliteAhead \<Rightarrow> Some (None, bump mt_confirm_elite_ahead_update removed)
                   | Inl CurveCapped \<Rightarrow> Some (None, bump mt_confirm_curve_capped_update removed)
                   | Inl Dead \<Rightarrow> Some (None, removed)
                   | Inl Watching \<Rightarrow>
                       Some (None, h\<lparr>hs_pending := (hs_pending h)(pbi_mint buy \<mapsto> p\<lparr>pl_watch := watch\<rparr>)\<rparr>)
                 })"

section \<open>Frames\<close>

lemma bump_keeps [simp]:
  "hs_template (bump c h) = hs_template h" "hs_seen (bump c h) = hs_seen h" "hs_tx_ring (bump c h) = hs_tx_ring h"
  "hs_ring_cursor (bump c h) = hs_ring_cursor h" "hs_seed_index (bump c h) = hs_seed_index h"
  "hs_launch_counter (bump c h) = hs_launch_counter h" "hs_vault_cache (bump c h) = hs_vault_cache h"
  "hs_session (bump c h) = hs_session h" "hs_pending (bump c h) = hs_pending h" "hs_cur_slot (bump c h) = hs_cur_slot h"
  "hs_seen_buys (bump c h) = hs_seen_buys h" "hs_bodies (bump c h) = hs_bodies h"
  "hs_shared (bump c h) = (hs_shared h)\<lparr>sh_metrics := c (\<lambda>x. x + 1) (sh_metrics (hs_shared h))\<rparr>"
  by (simp_all add: bump_def)

lemma set_gate_keeps [simp]:
  "hs_template (set_gate g h) = hs_template h" "hs_seen (set_gate g h) = hs_seen h" "hs_tx_ring (set_gate g h) = hs_tx_ring h"
  "hs_ring_cursor (set_gate g h) = hs_ring_cursor h" "hs_seed_index (set_gate g h) = hs_seed_index h"
  "hs_launch_counter (set_gate g h) = hs_launch_counter h" "hs_vault_cache (set_gate g h) = hs_vault_cache h"
  "hs_session (set_gate g h) = hs_session h" "hs_pending (set_gate g h) = hs_pending h" "hs_cur_slot (set_gate g h) = hs_cur_slot h"
  "hs_seen_buys (set_gate g h) = hs_seen_buys h" "hs_bodies (set_gate g h) = hs_bodies h"
  "hs_shared (set_gate g h) = (hs_shared h)\<lparr>sh_gate := g\<rparr>"
  by (simp_all add: set_gate_def)

text \<open>The configuration is everything in the shared state that no operation writes.\<close>

definition same_config :: "Shared \<Rightarrow> Shared \<Rightarrow> bool" where
  "same_config a b \<longleftrightarrow> a\<lparr>sh_metrics := sh_metrics b, sh_gate := sh_gate b, sh_nonces := sh_nonces b,
     sh_providers := sh_providers b\<rparr> = b"

lemma same_config_refl [simp]: "same_config a a"
  by (simp add: same_config_def)

lemma same_config_trans [trans]: "same_config a b \<Longrightarrow> same_config b c \<Longrightarrow> same_config a c"
  unfolding same_config_def by (cases a; cases b; cases c) simp

lemma same_config_updates [simp]:
  "same_config a (b\<lparr>sh_metrics := m\<rparr>) = same_config a b" "same_config a (b\<lparr>sh_gate := g\<rparr>) = same_config a b"
  "same_config a (b\<lparr>sh_nonces := n\<rparr>) = same_config a b" "same_config a (b\<lparr>sh_providers := ps\<rparr>) = same_config a b"
  "same_config (a\<lparr>sh_metrics := m\<rparr>) b = same_config a b" "same_config (a\<lparr>sh_gate := g\<rparr>) b = same_config a b"
  "same_config (a\<lparr>sh_nonces := n\<rparr>) b = same_config a b" "same_config (a\<lparr>sh_providers := ps\<rparr>) b = same_config a b"
  unfolding same_config_def by (cases a; cases b; simp)+

text \<open>What firing touches outside the shared state.\<close>

definition fire_frame :: "PumpCreateInfo \<Rightarrow> HotSniper \<Rightarrow> FiredLaunch option \<Rightarrow> HotSniper \<Rightarrow> bool" where
  "fire_frame info h r h' \<longleftrightarrow>
     same_config (hs_shared h) (hs_shared h') \<and> hs_pending h' = hs_pending h \<and> hs_session h' = hs_session h
     \<and> hs_cur_slot h' = hs_cur_slot h \<and> hs_seen_buys h' = hs_seen_buys h
     \<and> (hs_seen h' = hs_seen h \<or> r = None \<and> hs_seen h' = hs_seen h - {pci_mint info})
     \<and> (\<forall>f. r = Some f \<longrightarrow> fl_mint f = pci_mint info)"

lemma fan_out_launch_frame:
  "fan_out_launch info slot plan buys ta seed na h = Some (r, h') \<Longrightarrow> fire_frame info h r h'"
  by (auto simp: fan_out_launch_def fire_frame_def fired_of_def Let_def split: if_splits)

lemma commit_launch_frame:
  "commit_launch env info slot plan buys ta seed na h = Some (r, h') \<Longrightarrow> fire_frame info h r h'"
proof -
  obtain won g where c: "claim (he_others env (sh_gate (hs_shared h))) = (won, g)"
    by fastforce
  assume "commit_launch env info slot plan buys ta seed na h = Some (r, h')"
  with c fan_out_launch_frame [of info slot plan buys ta seed na "set_gate g h" r h'] show ?thesis
    by (auto simp: commit_launch_def Let_def fire_frame_def fired_of_def split: if_splits)
qed

lemma prepare_launch_frame:
  "prepare_launch env info slot plan buys na nv h = Some (r, h') \<Longrightarrow> fire_frame info h r h'"
  unfolding prepare_launch_def Let_def
  by (auto simp: fire_frame_def split: if_splits dest!: commit_launch_frame [unfolded fire_frame_def])

lemma fire_launch_frame:
  "fire_launch env info slot plan buys h = Some (r, h') \<Longrightarrow> fire_frame info h r h'"
proof -
  obtain free g where m: "may_fire (sh_gate (hs_shared h)) = (free, g)"
    by fastforce
  assume "fire_launch env info slot plan buys h = Some (r, h')"
  with m show ?thesis
    by (auto simp: fire_launch_def Let_def fire_frame_def split: if_splits option.splits
        dest!: prepare_launch_frame [unfolded fire_frame_def])
qed

lemma plan_and_fire_frame:
  "plan_and_fire env info slot prior budget buys h = Some (r, h') \<Longrightarrow> fire_frame info h r h'"
  by (auto simp: plan_and_fire_def Let_def fire_frame_def split: if_splits
      dest!: fire_launch_frame [unfolded fire_frame_def])

section \<open>Each mint at most once\<close>

lemma retain_Some_iff [simp]: "retain P m k = Some v \<longleftrightarrow> m k = Some v \<and> P v"
  by (auto simp: retain_def split: option.splits)

lemma seal_old_slots_keeps [simp]:
  "hs_seen (seal_old_slots slot h) = hs_seen h" "hs_shared (seal_old_slots slot h) = hs_shared h"
  "hs_session (seal_old_slots slot h) = hs_session h"
  by (simp_all add: seal_old_slots_def)

lemma seal_old_slots_pending: "hs_pending (seal_old_slots slot h) k = Some p \<Longrightarrow> hs_pending h k = Some p"
  by (auto simp: seal_old_slots_def split: if_splits)

text \<open>The launches watched are remembered and stored under their own mint.\<close>

definition pending_ok :: "HotSniper \<Rightarrow> bool" where
  "pending_ok h \<longleftrightarrow> (\<forall>k p. hs_pending h k = Some p \<longrightarrow> k \<in> hs_seen h \<and> pci_mint (pl_info p) = k)"

text \<open>The effect of a step on what is remembered and watched, when the set is not reset.\<close>

definition launch_step :: "pubkey \<Rightarrow> HotSniper \<Rightarrow> FiredLaunch option \<Rightarrow> HotSniper \<Rightarrow> bool" where
  "launch_step mint h r h' \<longleftrightarrow> pending_ok h'
     \<and> hs_seen h' \<subseteq> insert mint (hs_seen h) \<and> hs_seen h \<subseteq> insert mint (hs_seen h')
     \<and> (\<forall>k. k \<noteq> mint \<longrightarrow> k \<in> dom (hs_pending h') \<longrightarrow> k \<in> dom (hs_pending h))
     \<and> (mint \<in> hs_seen h \<and> mint \<notin> dom (hs_pending h) \<longrightarrow> mint \<in> hs_seen h' \<and> mint \<notin> dom (hs_pending h') \<and> r = None)
     \<and> (\<forall>f. r = Some f \<longrightarrow> fl_mint f = mint \<and> mint \<in> hs_seen h' \<and> mint \<notin> dom (hs_pending h'))"

lemma launch_step_fire:
  assumes "fire_frame info h1 r h'" "pending_ok h1" "mint = pci_mint info" "mint \<in> hs_seen h1" "mint \<notin> dom (hs_pending h1)"
    and "\<forall>k p. hs_pending h1 k = Some p \<longrightarrow> hs_pending h k = Some p" "hs_seen h1 = insert mint (hs_seen h)"
    and "mint \<notin> hs_seen h \<or> mint \<in> dom (hs_pending h)"
  shows "launch_step mint h r h'"
proof -
  have in1: "k \<noteq> mint \<and> k \<in> hs_seen h \<and> pci_mint (pl_info p) = k" if "hs_pending h1 k = Some p" for k p
    using that assms(2,5,7) by (auto simp: pending_ok_def)
  have p': "hs_pending h' = hs_pending h1"
    and seen: "hs_seen h' = insert mint (hs_seen h) \<or> r = None \<and> hs_seen h' = hs_seen h - {mint}"
    using assms(1,3,7) by (auto simp: fire_frame_def)
  have "pending_ok h'"
    using in1 p' seen by (auto simp: pending_ok_def)
  moreover have "\<forall>k. k \<noteq> mint \<longrightarrow> k \<in> dom (hs_pending h') \<longrightarrow> k \<in> dom (hs_pending h)"
    using p' assms(6) by (auto simp: dom_def)
  moreover have "\<forall>f. r = Some f \<longrightarrow> fl_mint f = mint"
    using assms(1,3) by (simp add: fire_frame_def)
  ultimately show ?thesis
    unfolding launch_step_def using p' seen assms(5,8) by auto
qed

lemma launch_step_quiet:
  assumes "pending_ok h" "hs_seen h' = insert mint (hs_seen h) \<or> hs_seen h' = hs_seen h"
    and "\<And>k p. hs_pending h' k = Some p \<Longrightarrow> \<exists>q. hs_pending h k = Some q \<and> pl_info p = pl_info q"
  shows "launch_step mint h None h'"
proof -
  have "pending_ok h'"
    using assms unfolding pending_ok_def by (metis insert_iff)
  moreover have "dom (hs_pending h') \<subseteq> dom (hs_pending h)"
    using assms(3) by (auto simp: dom_def)
  ultimately show ?thesis
    unfolding launch_step_def using assms(2) by auto
qed

lemma launch_step_skip:
  assumes "pending_ok h" "hs_seen h' = insert mint (hs_seen h) \<or> hs_seen h' = hs_seen h"
    and "\<forall>k p. hs_pending h' k = Some p \<longrightarrow> hs_pending h k = Some p"
  shows "launch_step mint h None h'"
  using assms(1,2) by (rule launch_step_quiet) (use assms(3) in blast)

lemma launch_step_watch:
  assumes "pending_ok h" "mint \<notin> hs_seen h" "hs_seen h' = insert mint (hs_seen h)"
    and "\<forall>k p. hs_pending h' k = Some p \<longrightarrow> (if k = mint then pci_mint (pl_info p) = mint else hs_pending h k = Some p)"
  shows "launch_step mint h None h'"
proof -
  have "pending_ok h'"
    using assms(1,3,4) unfolding pending_ok_def by (metis insert_iff)
  moreover have "\<forall>k. k \<noteq> mint \<longrightarrow> k \<in> dom (hs_pending h') \<longrightarrow> k \<in> dom (hs_pending h)"
    using assms(4) unfolding dom_def by (metis (mono_tags, lifting) mem_Collect_eq not_None_eq)
  ultimately show ?thesis
    unfolding launch_step_def using assms(2,3) by auto
qed

lemma remember_cases:
  assumes "remember mint h = (new, h1)" "finite (hs_seen h)" "card (insert mint (hs_seen h)) \<le> 50000"
  shows "new = (mint \<notin> hs_seen h)" "hs_seen h1 = insert mint (hs_seen h)" "hs_pending h1 = hs_pending h"
    "hs_session h1 = hs_session h" "same_config (hs_shared h) (hs_shared h1)"
  using assms by (auto simp: remember_def Let_def split: if_splits)

text \<open>The gates of \<open>confirm_register\<close> end in a skip, a fire or a new watch.\<close>

lemma confirm_register_cases:
  assumes "confirm_register env info slot h = Some (r, h')" "remember (pci_mint info) (seal_old_slots slot h) = (new, h1)"
  shows "r = None \<and> hs_seen h' = hs_seen h1 \<and> hs_pending h' = hs_pending h1
    \<or> new \<and> (\<exists>s prior budget. plan_and_fire env info slot prior budget 0 (h1\<lparr>hs_session := s\<rparr>) = Some (r, h'))
    \<or> new \<and> r = None \<and> hs_seen h' = hs_seen h1
      \<and> (\<forall>k p. hs_pending h' k = Some p \<longrightarrow>
           (if k = pci_mint info then pci_mint (pl_info p) = k else hs_pending h1 k = Some p))"
proof -
  obtain fresh s where "dev_is_fresh (sh_tables (hs_shared h1)) (he_today env) (pci_creator info) (hs_session h1) = (fresh, s)"
    by fastforce
  then have "confirm_register env info slot h =
      (if \<not> new then Some (None, h1)
       else case skip_counter env info fresh (hs_shared h1) of
         Some counter \<Rightarrow> Some (None, bump counter (h1\<lparr>hs_session := s\<rparr>))
       | None \<Rightarrow> if sh_fire_on_create (hs_shared h1)
           then plan_and_fire env info slot (pci_dev_buy_lamports info) (sh_buy_lamports (hs_shared h1)) 0 (h1\<lparr>hs_session := s\<rparr>)
           else Some (None, watch_launch info slot (h1\<lparr>hs_session := s\<rparr>)))"
    using assms(2) by (simp add: confirm_register_def Let_def)
  with assms(1) have "\<not> new \<and> r = None \<and> h' = h1
    \<or> new \<and> (\<exists>counter. r = None \<and> h' = bump counter (h1\<lparr>hs_session := s\<rparr>))
    \<or> new \<and> plan_and_fire env info slot (pci_dev_buy_lamports info) (sh_buy_lamports (hs_shared h1)) 0
        (h1\<lparr>hs_session := s\<rparr>) = Some (r, h')
    \<or> new \<and> r = None \<and> h' = watch_launch info slot (h1\<lparr>hs_session := s\<rparr>)"
    by (cases new; cases "skip_counter env info fresh (hs_shared h1)"; cases "sh_fire_on_create (hs_shared h1)") auto
  moreover have "hs_seen (watch_launch info slot (h1\<lparr>hs_session := s\<rparr>)) = hs_seen h1"
    "\<forall>k p. hs_pending (watch_launch info slot (h1\<lparr>hs_session := s\<rparr>)) k = Some p \<longrightarrow>
           (if k = pci_mint info then pci_mint (pl_info p) = k else hs_pending h1 k = Some p)"
    by (auto simp: watch_launch_def Let_def)
  ultimately show ?thesis
    by (elim disjE exE conjE) (simp, simp, blast, simp)
qed

lemma confirm_register_step:
  assumes "confirm_register env info slot h = Some (r, h')" "pending_ok h" "finite (hs_seen h)"
    and "card (insert (pci_mint info) (hs_seen h)) \<le> 50000"
  shows "launch_step (pci_mint info) h r h'"
proof -
  let ?mint = "pci_mint info"
  obtain new h1 where rm: "remember ?mint (seal_old_slots slot h) = (new, h1)"
    by fastforce
  note h1 = remember_cases [OF rm, simplified, OF assms(3,4)]
  have sub: "\<forall>k p. hs_pending h1 k = Some p \<longrightarrow> hs_pending h k = Some p"
    unfolding h1(3) by (blast dest: seal_old_slots_pending)
  from confirm_register_cases [OF assms(1) rm] show ?thesis
  proof (elim disjE conjE exE)
    assume "r = None" "hs_seen h' = hs_seen h1" "hs_pending h' = hs_pending h1"
    with assms(2) h1(2) sub show ?thesis
      by (auto intro: launch_step_skip)
  next
    fix s prior budget
    assume new: new and f: "plan_and_fire env info slot prior budget 0 (h1\<lparr>hs_session := s\<rparr>) = Some (r, h')"
    have "hs_pending h1 ?mint = None"
      using sub assms(2) new h1(1) unfolding pending_ok_def by (metis not_None_eq)
    moreover have "pending_ok (h1\<lparr>hs_session := s\<rparr>)"
      using sub assms(2) h1(2) by (auto simp: pending_ok_def)
    ultimately show ?thesis
      using new h1(1,2) sub by (intro launch_step_fire [OF plan_and_fire_frame [OF f]]) (simp_all add: domIff)
  next
    assume "new" "r = None" "hs_seen h' = hs_seen h1" and p: "\<forall>k p. hs_pending h' k = Some p \<longrightarrow>
      (if k = ?mint then pci_mint (pl_info p) = k else hs_pending h1 k = Some p)"
    moreover have "\<forall>k p. hs_pending h' k = Some p \<longrightarrow>
      (if k = ?mint then pci_mint (pl_info p) = ?mint else hs_pending h k = Some p)"
      using p sub by metis
    ultimately show ?thesis
      using assms(2) h1(1,2) by (auto intro: launch_step_watch)
  qed
qed

lemma guarded_result:
  "(if a then Some x else if b then Some y else if c then Some z else w) = Some v \<Longrightarrow>
     a \<and> v = x \<or> b \<and> v = y \<or> c \<and> v = z \<or> \<not> a \<and> \<not> b \<and> \<not> c \<and> w = Some v"
  by (auto split: if_split_asm)

lemma on_create_step:
  assumes "on_create env info slot h = Some (r, h')" "pending_ok h" "finite (hs_seen h)"
    and "card (insert (pci_mint info) (hs_seen h)) \<le> 50000"
  shows "launch_step (pci_mint info) h r h'"
proof (cases "sh_confirm (hs_shared h)")
  case (Some p)
  let ?h = "bump mt_creates_seen_update h"
  have "launch_step (pci_mint info) ?h r h'"
    using assms Some by (intro confirm_register_step [of env info slot ?h]) (auto simp: on_create_def pending_ok_def)
  then show ?thesis
    by (simp add: launch_step_def)
next
  case None
  let ?mint = "pci_mint info" and ?h = "bump mt_creates_whitelisted_update (bump mt_creates_seen_update h)"
  obtain new h1 where rm: "remember ?mint ?h = (new, h1)"
    by fastforce
  note h1 = remember_cases [OF rm, simplified, OF assms(3,4)]
  have eq: "on_create env info slot h =
      (if \<not> whitelist_contains (sh_whitelist (hs_shared h)) (pci_user info) then Some (None, bump mt_creates_seen_update h)
       else if \<not> new then Some (None, h1)
       else if too_big (hs_shared h1) info then Some (None, bump mt_skipped_dev_buy_update h1)
       else plan_and_fire env info slot (pci_dev_buy_lamports info) (sh_buy_lamports (hs_shared h1)) 0 h1)"
    using None rm by (simp add: on_create_def Let_def)
  from guarded_result [OF assms(1) [unfolded eq]]
  have "r = None \<and> hs_seen h' = hs_seen h \<and> hs_pending h' = hs_pending h
    \<or> r = None \<and> hs_seen h' = insert ?mint (hs_seen h) \<and> hs_pending h' = hs_pending h
    \<or> new \<and> plan_and_fire env info slot (pci_dev_buy_lamports info) (sh_buy_lamports (hs_shared h1)) 0 h1 = Some (r, h')"
  proof (elim disjE conjE)
    assume "(r, h') = (None, bump mt_creates_seen_update h)"
    then show ?thesis by simp
  next
    assume "(r, h') = (None, h1)"
    with h1(2,3) show ?thesis by simp
  next
    assume "(r, h') = (None, bump mt_skipped_dev_buy_update h1)"
    with h1(2,3) show ?thesis by simp
  next
    assume "\<not> \<not> new" and f: "plan_and_fire env info slot (pci_dev_buy_lamports info) (sh_buy_lamports (hs_shared h1)) 0 h1 = Some (r, h')"
    then show ?thesis by blast
  qed
  then show ?thesis
  proof (elim disjE conjE)
    assume f: "plan_and_fire env info slot (pci_dev_buy_lamports info) (sh_buy_lamports (hs_shared h1)) 0 h1 = Some (r, h')"
      and new
    have "hs_pending h ?mint = None"
      using assms(2) \<open>new\<close> h1(1) unfolding pending_ok_def by (metis not_None_eq)
    moreover have "pending_ok h1"
      using assms(2) h1(2,3) by (auto simp: pending_ok_def)
    ultimately show ?thesis
      using \<open>new\<close> h1(1,2,3) by (intro launch_step_fire [OF plan_and_fire_frame [OF f]]) (simp_all add: domIff)
  next
    assume r: "r = None" and "hs_seen h' = hs_seen h" "hs_pending h' = hs_pending h"
    then show ?thesis
      unfolding r using assms(2) by (intro launch_step_skip) simp_all
  next
    assume r: "r = None" and "hs_seen h' = insert ?mint (hs_seen h)" "hs_pending h' = hs_pending h"
    then show ?thesis
      unfolding r using assms(2) by (intro launch_step_skip) simp_all
  qed
qed

lemma hot_on_buy_cases:
  assumes "hot_on_buy env buy slot h = Some (r, h')"
  shows "r = None \<and> hs_seen h' = hs_seen h \<and> (\<forall>k p. hs_pending h' k = Some p \<longrightarrow> 
            (\<exists>q. hs_pending h k = Some q \<and> pl_info p = pl_info q))
    \<or> (\<exists>p h1 prior budget buys. plan_and_fire env (pl_info p) slot prior budget buys h1 = Some (r, h')
        \<and> hs_pending h (pbi_mint buy) = Some p \<and> pl_slot p = slot \<and> pbi_sig8 buy \<notin> hs_seen_buys (seal_old_slots slot h)
        \<and> hs_seen h1 = hs_seen h \<and> hs_pending h1 = (hs_pending (seal_old_slots slot h))(pbi_mint buy := None))"
proof (cases "sh_confirm (hs_shared h)")
  case None
  with assms show ?thesis
    by (auto simp: hot_on_buy_def)
next
  case (Some params)
  let ?h = "seal_old_slots slot h"
  have sealed: "\<forall>k p. hs_pending ?h k = Some p \<longrightarrow> (\<exists>q. hs_pending h k = Some q \<and> pl_info p = pl_info q)"
    by (blast dest: seal_old_slots_pending)
  show ?thesis
  proof (cases "hs_pending ?h (pbi_mint buy)")
    case None
    then have "r = None" "h' = ?h"
      using assms Some by (simp_all add: hot_on_buy_def Let_def)
    with sealed show ?thesis
      by simp
  next
    case p: (Some p)
    show ?thesis
    proof (cases "pl_slot p \<noteq> slot \<or> pbi_sig8 buy \<in> hs_seen_buys ?h")
      case True
      then have "r = None" "h' = ?h"
        using assms Some p by (auto simp: hot_on_buy_def Let_def split: if_splits)
      with sealed show ?thesis
        by simp
    next
      case False
      then obtain watch result where "Confirm.on_buy (sh_tables (hs_shared ?h)) params (pbi_buyer buy)
          (pbi_sol_lamports buy) (pbi_token_amount buy) (pbi_exact_sol buy) (pl_watch p) = Some (watch, result)"
        using assms Some p by (auto simp: hot_on_buy_def Let_def)
      note res = this
      let ?h1 = "?h\<lparr>hs_seen_buys := insert (pbi_sig8 buy) (hs_seen_buys ?h)\<rparr>"
      let ?removed = "?h1\<lparr>hs_pending := (hs_pending ?h1)(pbi_mint buy := None)\<rparr>"
      consider fire where "result = Inr fire" "plan_and_fire env (pl_info p) slot (fire_prior_flow_lamports fire)
            (fire_budget_lamports fire) (fire_n_conf fire) ?removed = Some (r, h')"
        | counter where "r = None" "h' = bump counter ?removed \<or> h' = ?removed"
        | "r = None" "h' = ?h1\<lparr>hs_pending := (hs_pending ?h1)(pbi_mint buy \<mapsto> p\<lparr>pl_watch := watch\<rparr>)\<rparr>"
        using assms Some p False res by (auto simp: hot_on_buy_def Let_def split: sum.splits Pass.splits)
      then show ?thesis
      proof cases
        case 1
        have "hs_seen ?removed = hs_seen h" "hs_pending ?removed = (hs_pending ?h)(pbi_mint buy := None)"
          by simp_all
        with 1(2) False seal_old_slots_pending [OF p] show ?thesis
          by blast
      next
        case 2
        then have "hs_pending h' = (hs_pending ?h)(pbi_mint buy := None)" "hs_seen h' = hs_seen h"
          by auto
        with 2(1) sealed show ?thesis
          by (metis fun_upd_apply option.distinct(1))
      next
        case 3
        then have "hs_pending h' = (hs_pending ?h)(pbi_mint buy \<mapsto> p\<lparr>pl_watch := watch\<rparr>)" "hs_seen h' = hs_seen h"
          "pl_info (p\<lparr>pl_watch := watch\<rparr>) = pl_info p"
          by simp_all
        with 3(1) sealed p show ?thesis
          by (metis fun_upd_apply option.inject)
      qed
    qed
  qed
qed

lemma hot_on_buy_step:
  assumes "hot_on_buy env buy slot h = Some (r, h')" "pending_ok h"
  shows "launch_step (pbi_mint buy) h r h'" "hs_seen h' \<subseteq> hs_seen h"
proof -
  have "launch_step (pbi_mint buy) h r h' \<and> hs_seen h' \<subseteq> hs_seen h"
    using hot_on_buy_cases [OF assms(1)]
  proof (elim disjE conjE exE)
    assume r: "r = None" and s: "hs_seen h' = hs_seen h"
      and p: "\<forall>k p. hs_pending h' k = Some p \<longrightarrow> (\<exists>q. hs_pending h k = Some q \<and> pl_info p = pl_info q)"
    have "launch_step (pbi_mint buy) h None h'"
      by (rule launch_step_quiet) (use assms(2) s p in blast)+
    with r s show ?thesis
      by simp
  next
    fix p h1 prior budget buys
    assume f: "plan_and_fire env (pl_info p) slot prior budget buys h1 = Some (r, h')"
      and p: "hs_pending h (pbi_mint buy) = Some p" and seen: "hs_seen h1 = hs_seen h"
      and pend: "hs_pending h1 = (hs_pending (seal_old_slots slot h))(pbi_mint buy := None)"
    have mint: "pbi_mint buy = pci_mint (pl_info p)" "pbi_mint buy \<in> hs_seen h"
      using assms(2) p by (auto simp: pending_ok_def)
    have sub: "hs_pending h k = Some q \<and> k \<noteq> pbi_mint buy" if "hs_pending h1 k = Some q" for k q
      using that seal_old_slots_pending [of slot h k q] unfolding pend by (simp split: if_split_asm)
    have "launch_step (pbi_mint buy) h r h'"
    proof (rule launch_step_fire [OF plan_and_fire_frame [OF f]])
      show "pending_ok h1"
        using assms(2) sub seen unfolding pending_ok_def by metis
      show "pbi_mint buy \<notin> dom (hs_pending h1)"
        by (simp add: pend)
      show "\<forall>k p. hs_pending h1 k = Some p \<longrightarrow> hs_pending h k = Some p"
        using sub by blast
    qed (use mint seen p in auto)
    moreover have "hs_seen h' \<subseteq> hs_seen h"
      using plan_and_fire_frame [OF f] seen by (auto simp: fire_frame_def)
    ultimately show ?thesis
      by blast
  qed
  then show "launch_step (pbi_mint buy) h r h'" "hs_seen h' \<subseteq> hs_seen h"
    by blast+
qed

text \<open>A run of the detect thread: the launches fired, in order.\<close>

datatype hot_event = CreateEvent hot_env PumpCreateInfo u64 | BuyEvent hot_env PumpBuyInfo u64

fun hot_step :: "hot_event \<Rightarrow> HotSniper \<Rightarrow> hot_result" where
  "hot_step (CreateEvent env info slot) h = on_create env info slot h"
| "hot_step (BuyEvent env buy slot) h = hot_on_buy env buy slot h"

fun hot_run :: "hot_event list \<Rightarrow> HotSniper \<Rightarrow> (FiredLaunch list \<times> HotSniper) option" where
  "hot_run [] h = Some ([], h)"
| "hot_run (e # es) h = do {
     (r, h) \<leftarrow> hot_step e h;
     (fs, h) \<leftarrow> hot_run es h;
     Some ((case r of None \<Rightarrow> fs | Some f \<Rightarrow> f # fs), h)
   }"

fun created_mint :: "hot_event \<Rightarrow> pubkey set" where
  "created_mint (CreateEvent env info slot) = {pci_mint info}"
| "created_mint (BuyEvent env buy slot) = {}"

definition once_inv :: "pubkey set \<Rightarrow> pubkey set \<Rightarrow> HotSniper \<Rightarrow> bool" where
  "once_inv M bought h \<longleftrightarrow> pending_ok h \<and> hs_seen h \<subseteq> M \<and> bought \<subseteq> hs_seen h \<and> bought \<inter> dom (hs_pending h) = {}"

lemma launch_step_once:
  assumes "launch_step mint h r h'" "once_inv M bought h" "hs_seen h' \<subseteq> M"
  shows "(case r of None \<Rightarrow> once_inv M bought h' | Some f \<Rightarrow> fl_mint f \<notin> bought \<and> once_inv M (insert (fl_mint f) bought) h')"
proof -
  have st: "hs_seen h \<subseteq> insert mint (hs_seen h')" "\<And>k. k \<noteq> mint \<Longrightarrow> k \<in> dom (hs_pending h') \<Longrightarrow> k \<in> dom (hs_pending h)"
    "mint \<in> hs_seen h \<Longrightarrow> mint \<notin> dom (hs_pending h) \<Longrightarrow> mint \<in> hs_seen h' \<and> mint \<notin> dom (hs_pending h') \<and> r = None"
    "pending_ok h'"
    using assms(1) by (simp_all only: launch_step_def simp_thms)
  have bought: "k \<in> hs_seen h" "k \<notin> dom (hs_pending h)" if "k \<in> bought" for k
    using assms(2) that unfolding once_inv_def by blast+
  have no: "r = None" if "mint \<in> bought"
    using bought [OF that] st(3) by simp
  have kept: "k \<in> hs_seen h' \<and> k \<notin> dom (hs_pending h')" if "k \<in> bought" for k
  proof (cases "k = mint")
    case True
    with bought [OF that] st(3) show ?thesis
      by simp
  next
    case False
    with bought [OF that] st(1) st(2) [of k] show ?thesis
      by blast
  qed
  then have inv: "once_inv M bought h'"
    using st(4) assms(3) unfolding once_inv_def by blast
  show ?thesis
  proof (cases r)
    case (Some f)
    then have f: "fl_mint f = mint" "mint \<in> hs_seen h'" "mint \<notin> dom (hs_pending h')"
      using assms(1) by (auto simp: launch_step_def)
    with no Some have "mint \<notin> bought"
      by auto
    with f inv Some show ?thesis
      unfolding once_inv_def by simp
  qed (use inv in simp)
qed

lemma hot_step_once:
  assumes "hot_step e h = Some (r, h1)" "once_inv M bought h" "finite M" "card M \<le> 50000" "created_mint e \<subseteq> M"
  shows "(case r of None \<Rightarrow> once_inv M bought h1
      | Some f \<Rightarrow> fl_mint f \<notin> bought \<and> once_inv M (insert (fl_mint f) bought) h1)"
proof -
  have "\<exists>mint. launch_step mint h r h1 \<and> hs_seen h1 \<subseteq> M"
  proof (cases e)
    case (CreateEvent env info slot)
    then have M: "insert (pci_mint info) (hs_seen h) \<subseteq> M"
      using assms(2,5) by (auto simp: once_inv_def)
    then have "card (insert (pci_mint info) (hs_seen h)) \<le> 50000" "finite (hs_seen h)"
      using card_mono [OF assms(3) M] assms(3,4) finite_subset by (auto dest: finite_subset)
    then have "launch_step (pci_mint info) h r h1"
      using assms(1) CreateEvent assms(2) by (intro on_create_step) (auto simp: once_inv_def)
    moreover have "hs_seen h1 \<subseteq> insert (pci_mint info) (hs_seen h)"
      using calculation unfolding launch_step_def by blast
    ultimately show ?thesis
      using M by blast
  next
    case (BuyEvent env buy slot)
    then show ?thesis
      using assms(1) hot_on_buy_step [of env buy slot h r h1] assms(2) by (auto simp: once_inv_def)
  qed
  then show ?thesis
    using launch_step_once assms(2) by blast
qed

lemma hot_run_once:
  "hot_run es h = Some (fs, h') \<Longrightarrow> once_inv M bought h \<Longrightarrow> finite M \<Longrightarrow> card M \<le> 50000 \<Longrightarrow>
     \<Union> (created_mint ` set es) \<subseteq> M \<Longrightarrow>
     distinct (map fl_mint fs) \<and> set (map fl_mint fs) \<inter> bought = {}"
proof (induction es arbitrary: h bought fs)
  case (Cons e es)
  then obtain r h1 fs1 where step: "hot_step e h = Some (r, h1)" and rest: "hot_run es h1 = Some (fs1, h')"
    and fs: "fs = (case r of None \<Rightarrow> fs1 | Some f \<Rightarrow> f # fs1)"
    by auto
  have es: "created_mint e \<subseteq> M" "\<Union> (created_mint ` set es) \<subseteq> M"
    using Cons.prems(5) by auto
  note inv = hot_step_once [OF step Cons.prems(2-4) es(1)] and IH = Cons.IH [OF rest _ Cons.prems(3,4) es(2)]
  show ?case
  proof (cases r)
    case None
    with inv IH [of bought] fs show ?thesis
      by simp
  next
    case (Some f)
    with inv IH [of "insert (fl_mint f) bought"] fs show ?thesis
      by auto
  qed
qed simp

end
