(* ===== verification/Launch.thy ===== *)
theory Launch
  imports Hot
begin

text \<open>
  What a launch does end to end, over the model of \<open>sniper/src/lib.rs\<close> in the theory Hot: when the
  hot path cannot panic, what the bytes handed to the senders are, who may still be reading a
  body that is filled again, and that a mint is bought once.
\<close>

section \<open>Well-formed states\<close>

definition slots_apart :: "nat \<times> nat \<Rightarrow> nat \<times> nat \<Rightarrow> bool" where
  "slots_apart = (\<lambda>(p, m) (q, n). p + m \<le> q \<or> q + n \<le> p)"

text \<open>The fields a launch patches, in patch order, with their sizes.\<close>

definition launch_slots :: "Offsets \<Rightarrow> (nat \<times> nat) list" where
  "launch_slots o' =
     [(of_fee_recipient o', 32), (of_buyback_fee_recipient o', 32), (of_mint o', 32), (of_bonding_curve o', 32),
      (of_associated_bonding_curve o', 32), (of_bonding_curve_v2 o', 32), (of_creator_vault o', 32),
      (of_token_account o', 32), (fst (of_token_program o'), 32), (snd (of_token_program o'), 32), (of_seed o', 6),
      (of_amount o', 8), (of_max_sol_cost o', 8), (of_nonce_account o', 32), (of_nonce_value o', 32)]"

definition template_ok :: "Template \<Rightarrow> bool" where
  "template_ok t \<longleftrightarrow> (\<forall>(p, n) \<in> set (launch_slots (tp_offsets t)). p + n \<le> length (tp_tx t))
     \<and> sorted_wrt slots_apart (launch_slots (tp_offsets t)) \<and> length (tp_tx t) \<le> MAX_TX"

text \<open>A template that was built from a message in the wire format is one.\<close>

lemma sorted_wrt_reorder:
  assumes "sorted_wrt P xs" "symp P" "distinct is" "\<forall>i \<in> set is. i < length xs"
  shows "sorted_wrt P (map ((!) xs) is)"
proof -
  have "P (xs ! i) (xs ! j)" if "i \<noteq> j" "i < length xs" "j < length xs" for i j
    using assms(1,2) that by (metis linorder_neqE_nat sorted_wrt_nth_less sympD)
  then show ?thesis
    using assms(3,4)
  proof (induction "is")
    case (Cons i "is")
    have "P (xs ! i) (xs ! j)" if "j \<in> set is" for j
      using Cons.prems that by (intro \<open>\<And>j i. i \<noteq> j \<Longrightarrow> i < length xs \<Longrightarrow> j < length xs \<Longrightarrow> P (xs ! i) (xs ! j)\<close>) auto
    with Cons show ?case
      by auto
  qed simp
qed

lemma launch_slots_fields:
  "launch_slots o' = map (\<lambda>(p, u). (p, length u)) (map ((!) (Template.fields o')) [2, 3, 4, 5, 6, 7, 8, 9, 0, 1, 10, 11, 12, 13, 14])"
  by (simp add: launch_slots_def Template.fields_def single_fields_def u64_dummies) (simp add: dummies)

lemma built_template_ok:
  assumes "build_template compile sa cu ex = Some t" "compiles_v0 compile" "wf_key (sa_user sa)" "wf_key (sa_user_volume_accumulator sa)"
  shows "template_ok t"
proof -
  let ?fs = "Template.fields (tp_offsets t)" and ?is = "[2, 3, 4, 5, 6, 7, 8, 9, 0, 1, 10, 11, 12, 13, 14] :: nat list"
  note built = build_template_fields [OF assms]
  have len: "length ?fs = 18"
    by (simp add: Template.fields_def single_fields_def)
  then have "sorted_wrt apart (map ((!) ?fs) ?is)"
    using built(2) by (intro sorted_wrt_reorder) (auto simp: symp_def apart_def)
  then have "sorted_wrt slots_apart (launch_slots (tp_offsets t))"
    unfolding launch_slots_fields by (simp only: sorted_wrt_map) (erule sorted_wrt_mono_rel [rotated], simp add: apart_def slots_apart_def split_def)
  moreover have "set (map ((!) ?fs) ?is) \<subseteq> set ?fs"
    using len by (simp only: set_map) (auto intro!: nth_mem)
  then have "\<forall>(p, n) \<in> set (launch_slots (tp_offsets t)). p + n \<le> length (tp_tx t)"
    using built(1) unfolding launch_slots_fields set_map by fast
  ultimately show ?thesis
    using built(3) by (simp add: template_ok_def MAX_TX_def)
qed

definition launch_values ::
  "PumpCreateInfo \<Rightarrow> BuyPlan \<Rightarrow> pubkey \<Rightarrow> pubkey \<Rightarrow> pubkey \<Rightarrow> pubkey \<Rightarrow> pubkey \<Rightarrow> bytes \<Rightarrow> pubkey \<Rightarrow> bytes \<Rightarrow> bytes list" where
  "launch_values info plan fr bb bcv2 vault ta seed na nv =
     [fr, bb, pci_mint info, pci_bonding_curve info, pci_associated_bonding_curve info, bcv2, vault, ta,
      pci_token_program info, pci_token_program info, seed, u64_to_le (bp_amount plan), u64_to_le (bp_max_sol_cost plan), na, nv]"

definition launch_fields :: "Offsets \<Rightarrow> bytes list \<Rightarrow> (nat \<times> bytes) list" where
  "launch_fields o' vals = zip (map fst (launch_slots o')) vals"

lemma bind_map_option: "Option.bind (map_option f x) g = Option.bind x (\<lambda>a. g (f a))"
  by (cases x) simp_all

lemma patch_launch_all:
  "patch_launch info plan fr bb bcv2 vault ta seed na nv t =
     map_option (\<lambda>tx. t\<lparr>tp_tx := tx\<rparr>)
       (patch_all (tp_tx t) (launch_fields (tp_offsets t) (launch_values info plan fr bb bcv2 vault ta seed na nv)))"
proof -
  have last: "map_option f x = Option.bind x (\<lambda>a. Some (f a))" for f :: "bytes \<Rightarrow> Template" and x
    by (cases x) simp_all
  show ?thesis
    by (simp add: patch_launch_def patch_key_def patch_u64_def patch_seed_def patch_token_program_def launch_fields_def
        launch_slots_def launch_values_def Let_def split_def last)
qed

definition values_fit :: "bytes list \<Rightarrow> bool" where
  "values_fit vals \<longleftrightarrow> map length vals = [32, 32, 32, 32, 32, 32, 32, 32, 32, 32, 6, 8, 8, 32, 32]"

lemma patch_launch_ok:
  assumes "template_ok t" "values_fit vals" "vals = launch_values info plan fr bb bcv2 vault ta seed na nv"
  shows "\<exists>t'. patch_launch info plan fr bb bcv2 vault ta seed na nv t = Some t' \<and> template_ok t'
    \<and> tp_offsets t' = tp_offsets t \<and> length (tp_tx t') = length (tp_tx t)
    \<and> (\<forall>(p, u) \<in> set (launch_fields (tp_offsets t) vals). at_pos (tp_tx t') p u)"
proof -
  let ?fs = "launch_fields (tp_offsets t) vals" and ?ss = "launch_slots (tp_offsets t)"
  have len: "map length vals = map snd ?ss"
    using assms(2) by (simp add: values_fit_def launch_slots_def)
  then have l: "length vals = length ?ss" "length ?fs = length ?ss"
    by (metis length_map, metis launch_fields_def length_map len length_zip min.idem)
  have nth: "?fs ! i = (fst (?ss ! i), vals ! i) \<and> length (vals ! i) = snd (?ss ! i)" if "i < length ?ss" for i
    using that l(1) nth_map [of i vals length] nth_map [of i ?ss snd] len by (simp add: launch_fields_def)
  have "\<forall>(p, u) \<in> set ?fs. p + length u \<le> length (tp_tx t)"
  proof clarify
    fix p u assume "(p, u) \<in> set ?fs"
    then obtain i where i: "i < length ?ss" "?fs ! i = (p, u)"
      using l(2) by (auto simp: in_set_conv_nth)
    then have "?ss ! i \<in> set ?ss" "p = fst (?ss ! i)" "length u = snd (?ss ! i)"
      using nth [of i] by auto
    then show "p + length u \<le> length (tp_tx t)"
      using assms(1) unfolding template_ok_def by (metis (mono_tags, lifting) case_prodE fst_conv snd_conv)
  qed
  moreover have "sorted_wrt apart ?fs"
    unfolding sorted_wrt_iff_nth_less
  proof clarify
    fix i j assume "i < j" "j < length ?fs"
    moreover from this have "slots_apart (?ss ! i) (?ss ! j)"
      using assms(1) l(2) by (simp add: template_ok_def sorted_wrt_iff_nth_less)
    ultimately show "apart (?fs ! i) (?fs ! j)"
      using nth [of i] nth [of j] l(2) by (auto simp: slots_apart_def apart_def split_def)
  qed
  ultimately obtain tx where tx: "patch_all (tp_tx t) ?fs = Some tx" "length tx = length (tp_tx t)"
    "\<forall>(p, u) \<in> set ?fs. at_pos tx p u"
    using patch_all_reads_back by metis
  then show ?thesis
    using assms(1,3) by (intro exI [of _ "t\<lparr>tp_tx := tx\<rparr>"]) (simp add: patch_launch_all template_ok_def)
qed

text \<open>The lengths of the keys and tables an operation reads, and the bounds it divides or clamps by.\<close>

definition nonces_ok :: "NoncePool \<Rightarrow> bool" where
  "nonces_ok np \<longleftrightarrow> pool_inv np \<and> (\<forall>a \<in> set (np_accounts np). wf_key a) \<and> (\<forall>v \<in> set (np_values np). wf_key v)"

definition fees_known :: "FeeRecipientCache \<Rightarrow> bool" where
  "fees_known c \<longleftrightarrow> wf_key (frc_fee_recipient c) \<and> (\<forall>k \<in> set (frc_buyback c). wf_key k)"

definition seeds_ok :: "SeedTable \<Rightarrow> bool" where
  "seeds_ok st \<longleftrightarrow> length (st_token_2022 st) = length (st_seeds st) \<and> length (st_token_classic st) = length (st_seeds st)
     \<and> (\<forall>s \<in> set (st_seeds st). length s = 6) \<and> (\<forall>a \<in> set (st_token_2022 st) \<union> set (st_token_classic st). wf_key a)"

definition config_ok :: "Shared \<Rightarrow> bool" where
  "config_ok sh \<longleftrightarrow> nonces_ok (sh_nonces sh) \<and> fees_known (sh_fee_recipients sh) \<and> seeds_ok (sh_seed_table sh)
     \<and> as_u128 (10000 + total_fee_bps (sh_curve sh)) \<noteq> 0
     \<and> (\<forall>p \<in> set (sh_providers sh). ph_tip_accounts p \<noteq> [])
     \<and> (\<forall>p. sh_tip sh = Some p \<longrightarrow> min_lamports p \<le> max_lamports p)
     \<and> (\<forall>p. sh_confirm sh = Some p \<longrightarrow> size_lo_lamports p \<le> size_hi_lamports p)"

text \<open>An entry of the vault cache is unused or pairs a creator with its derived vault.\<close>

definition cache_ok :: "find_pda \<Rightarrow> (pubkey \<times> pubkey) list \<Rightarrow> bool" where
  "cache_ok pda cache \<longleftrightarrow> length cache = VAULT_CACHE_SLOTS
     \<and> (\<forall>(c, v) \<in> set cache. (c, v) = (zero_key, zero_key) \<or> v = creator_vault pda c)"

definition ring_ok :: "nat list \<Rightarrow> nat \<Rightarrow> bodies \<Rightarrow> bool" where
  "ring_ok ring cursor h \<longleftrightarrow> cursor < length ring \<and> (\<forall>a \<in> set ring. length (tb_tx (bd_buf h a)) = MAX_TX)"

definition hot_ok :: "find_pda \<Rightarrow> HotSniper \<Rightarrow> bool" where
  "hot_ok pda h \<longleftrightarrow> config_ok (hs_shared h) \<and> template_ok (hs_template h)
     \<and> hs_seed_index h < length (st_seeds (sh_seed_table (hs_shared h)))
     \<and> cache_ok pda (hs_vault_cache h) \<and> ring_ok (hs_tx_ring h) (hs_ring_cursor h) (hs_bodies h)
     \<and> (\<forall>p \<in> ran (hs_pending h). wf_create (pl_info p))"

definition pda_ok :: "find_pda \<Rightarrow> bool" where
  "pda_ok pda \<longleftrightarrow> (\<forall>seeds program. wf_key (pda seeds program))"

section \<open>The hot path does not panic\<close>

text \<open>An operation that returns, in a state that is again well-formed.\<close>

definition returns :: "find_pda \<Rightarrow> hot_result \<Rightarrow> bool" where
  "returns pda x \<longleftrightarrow> (\<exists>r h. x = Some (r, h) \<and> hot_ok pda h)"

lemma returns_Some [simp]: "returns pda (Some (r, h)) \<longleftrightarrow> hot_ok pda h"
  by (auto simp: returns_def)

lemma returns_if [simp]: "returns pda (if c then x else y) \<longleftrightarrow> (if c then returns pda x else returns pda y)"
  by simp

lemma config_ok_updates [simp]:
  "config_ok (sh\<lparr>sh_metrics := m\<rparr>) = config_ok sh" "config_ok (sh\<lparr>sh_gate := g\<rparr>) = config_ok sh"
  by (simp_all add: config_ok_def)

lemma hot_ok_updates [simp]:
  "hot_ok pda (bump c h) = hot_ok pda h" "hot_ok pda (set_gate g h) = hot_ok pda h"
  "hot_ok pda (h\<lparr>hs_seen := s\<rparr>) = hot_ok pda h" "hot_ok pda (h\<lparr>hs_session := se\<rparr>) = hot_ok pda h"
  "hot_ok pda (h\<lparr>hs_seen_buys := s\<rparr>) = hot_ok pda h" "hot_ok pda (h\<lparr>hs_launch_counter := n\<rparr>) = hot_ok pda h"
  by (simp_all add: hot_ok_def)

lemma arc_buf [simp]: "bd_buf (arc_clone a h) = bd_buf h" "bd_buf (arc_drop a h) = bd_buf h"
  "bd_next (arc_clone a h) = bd_next h" "bd_next (arc_drop a h) = bd_next h"
  by (simp_all add: arc_clone_def arc_drop_def)

lemma ring_ok_arc [simp]:
  "ring_ok r c (arc_clone a h) = ring_ok r c h" "ring_ok r c (arc_drop a h) = ring_ok r c h"
  by (simp_all add: ring_ok_def)

text \<open>The body a launch is copied into.\<close>

lemma fill_body_ok:
  assumes "ring_ok ring cursor h" "length template \<le> MAX_TX"
  shows "\<exists>base ring' cursor' h'. fill_body ring cursor template h = Some (base, ring', cursor', h') \<and> ring_ok ring' cursor' h'
    \<and> take (length template) (tb_tx (bd_buf h' base)) = template
    \<and> (\<forall>a. a \<noteq> base \<longrightarrow> bd_buf h' a = bd_buf h a)"
proof -
  let ?slot = "ring ! cursor"
  have slot: "get_at ring cursor = Some ?slot" "?slot \<in> set ring"
    using assms(1) by (simp_all add: ring_ok_def get_at_def)
  have cur: "(if cursor + 1 = length ring then 0 else cursor + 1) < length ring"
    using assms(1) by (auto simp: ring_ok_def)
  have p: "patch_at xs 0 template = Some (template @ drop (length template) xs)" if "length xs = MAX_TX" for xs
    using that assms(2) by (simp add: patch_at_def)
  have d: "length (tb_tx TxBuf_default) = MAX_TX"
    by (simp add: TxBuf_default_def)
  show ?thesis
  proof (cases "bd_refs h ?slot = 1")
    case True
    then show ?thesis
      using assms slot cur p [of "tb_tx (bd_buf h ?slot)"]
      by (simp add: fill_body_def Let_def ring_ok_def)
  next
    case False
    have "length (tb_tx (bd_buf h a)) = MAX_TX" if "a \<in> set (ring[cursor := f])" "a \<noteq> f" for a f
      using that assms(1) set_update_subset_insert [of ring cursor f] by (auto simp: ring_ok_def)
    then show ?thesis
      using False assms slot cur p [OF d] d
      by (auto simp: fill_body_def Let_def ring_ok_def arc_new_def)
  qed
qed

text \<open>The fan-out: one job per provider, queued or counted as dropped, the rest of the handle kept.\<close>

definition job_for :: "nat \<Rightarrow> u64 \<Rightarrow> u64 option \<Rightarrow> ProviderHandle \<Rightarrow> Job" where
  "job_for base counter dyn_tip p = \<lparr>job_base = base,
     job_tip_account = ph_tip_accounts p ! (unat counter mod length (ph_tip_accounts p)),
     job_tip_lamports = (case dyn_tip of None \<Rightarrow> ph_tip_lamports p | Some t \<Rightarrow> max t (ph_tip_lamports p)),
     job_cu_price = ph_cu_price p\<rparr>"

definition handed :: "Job \<Rightarrow> ProviderHandle \<Rightarrow> ProviderHandle" where
  "handed job p = fst (try_send job p undefined)"

lemma handed_eq: "handed job p =
   (if ph_open p \<and> length (ph_queue p) < ph_depth p then p\<lparr>ph_queue := ph_queue p @ [job]\<rparr>
    else p\<lparr>ph_dropped_full := ph_dropped_full p + 1\<rparr>)"
  by (simp add: handed_def try_send_def)

lemma fst_try_send [simp]: "fst (try_send job p h) = handed job p"
  by (simp add: handed_eq try_send_def)

lemma try_send_buf [simp]: "bd_buf (snd (try_send job p h)) = bd_buf h"
  by (simp add: try_send_def)

lemma handed_keeps [simp]:
  "ph_tip_accounts (handed job p) = ph_tip_accounts p" "ph_tip_lamports (handed job p) = ph_tip_lamports p"
  "ph_cu_price (handed job p) = ph_cu_price p"
  by (simp_all add: handed_eq)

lemma queue_jobs_ok:
  assumes "\<forall>p \<in> set ps. ph_tip_accounts p \<noteq> []"
  shows "\<exists>h'. queue_jobs base counter dyn_tip ps h queued =
      Some (map (\<lambda>p. handed (job_for base counter dyn_tip p) p) ps, h', queued + of_nat (length ps))
    \<and> bd_buf h' = bd_buf h"
  using assms
proof (induction ps arbitrary: h queued)
  case (Cons p ps)
  let ?job = "job_for base counter dyn_tip p" and ?h = "arc_clone base h"
  obtain h' where "queue_jobs base counter dyn_tip ps (snd (try_send ?job p ?h)) (queued + 1) =
      Some (map (\<lambda>p. handed (job_for base counter dyn_tip p) p) ps, h', queued + 1 + of_nat (length ps))"
    "bd_buf h' = bd_buf h"
    using Cons.IH [of "snd (try_send ?job p ?h)" "queued + 1"] Cons.prems by auto
  then show ?case
    using Cons.prems by (simp add: Let_def job_for_def [symmetric] split_def)
qed simp

definition launch_tip :: "Shared \<Rightarrow> BuyPlan \<Rightarrow> u32 \<Rightarrow> u64 option option" where
  "launch_tip sh plan competition = (case sh_tip sh of None \<Rightarrow> Some None
     | Some tp \<Rightarrow> map_option Some (dynamic_tip tp (sh_tip_floor sh) (bp_budget_lamports plan) competition))"

lemma launch_tip_defined: "config_ok sh \<Longrightarrow> \<exists>t. launch_tip sh plan competition = Some t"
  by (auto simp: launch_tip_def config_ok_def dynamic_tip_def Let_def not_less clamp_word_def split: option.splits)

lemma ring_ok_buf: "ring_ok r c h \<Longrightarrow> bd_buf h' = bd_buf h \<Longrightarrow> ring_ok r c h'"
  by (simp add: ring_ok_def)

text \<open>The whole fan-out in one equation.\<close>

lemma fan_out_launch_eq:
  assumes "config_ok (hs_shared h)" "template_ok (hs_template h)" "ring_ok (hs_tx_ring h) (hs_ring_cursor h) (hs_bodies h)"
  shows "\<exists>base ring cursor bodies dyn_tip. let
      ps = map (\<lambda>p. handed (job_for base (hs_launch_counter h) dyn_tip p) p) (sh_providers (hs_shared h));
      m = sh_metrics (hs_shared h);
      h1 = h\<lparr>hs_tx_ring := ring, hs_ring_cursor := cursor, hs_bodies := bodies,
        hs_shared := (hs_shared h)\<lparr>sh_providers := ps,
          sh_metrics := m\<lparr>mt_jobs_queued := mt_jobs_queued m + of_nat (length ps)\<rparr>\<rparr>\<rparr>;
      h2 = bump mt_fired_update h1
    in fan_out_launch info slot plan competition ta seed na h =
      (if of_nat (length ps) = (0 :: u64) then Some (None, h1)
       else Some (Some (fired_of info plan ta seed),
         set_gate (opened (position_of info slot plan ta na False) (sh_gate (hs_shared h2))) h2))
    \<and> launch_tip (hs_shared h) plan competition = Some dyn_tip \<and> ring_ok ring cursor bodies
    \<and> take (length (tp_tx (hs_template h))) (tb_tx (bd_buf bodies base)) = tp_tx (hs_template h)
    \<and> (\<forall>a. a \<noteq> base \<longrightarrow> bd_buf bodies a = bd_buf (hs_bodies h) a)"
proof -
  have len: "length (tp_tx (hs_template h)) \<le> MAX_TX"
    using assms(2) by (simp add: template_ok_def)
  obtain base ring cursor b1 where fill: "fill_body (hs_tx_ring h) (hs_ring_cursor h) (tp_tx (hs_template h)) (hs_bodies h)
      = Some (base, ring, cursor, b1)" and ring: "ring_ok ring cursor b1"
    and body: "take (length (tp_tx (hs_template h))) (tb_tx (bd_buf b1 base)) = tp_tx (hs_template h)"
    and others: "\<And>a. a \<noteq> base \<Longrightarrow> bd_buf b1 a = bd_buf (hs_bodies h) a"
    using fill_body_ok [OF assms(3) len] by blast
  obtain dt where dt: "launch_tip (hs_shared h) plan competition = Some dt"
    using launch_tip_defined [OF assms(1)] by blast
  have "\<forall>p \<in> set (sh_providers (hs_shared h)). ph_tip_accounts p \<noteq> []"
    using assms(1) by (simp add: config_ok_def)
  then obtain b2 where q: "queue_jobs base (hs_launch_counter h) dt (sh_providers (hs_shared h)) b1 0 =
      Some (map (\<lambda>p. handed (job_for base (hs_launch_counter h) dt p) p) (sh_providers (hs_shared h)), b2,
        0 + of_nat (length (sh_providers (hs_shared h))))" and b2: "bd_buf b2 = bd_buf b1"
    using queue_jobs_ok [of "sh_providers (hs_shared h)" base "hs_launch_counter h" dt b1 0] by blast
  show ?thesis
    using ring_ok_buf [OF ring, of "arc_drop base b2"] body others b2 dt
    by (intro exI [of _ base] exI [of _ ring] exI [of _ cursor] exI [of _ "arc_drop base b2"] exI [of _ dt])
      (simp add: fan_out_launch_def fill launch_tip_def [symmetric] q Let_def)
qed

lemma config_ok_providers: "config_ok sh \<Longrightarrow> config_ok (sh\<lparr>sh_providers := map (\<lambda>p. handed (job p) p) (sh_providers sh)\<rparr>)"
  by (auto simp: config_ok_def)

lemma fan_out_launch_returns:
  assumes "hot_ok pda h"
  shows "returns pda (fan_out_launch info slot plan competition ta seed na h)"
proof -
  have ok: "config_ok (hs_shared h)" "template_ok (hs_template h)" "ring_ok (hs_tx_ring h) (hs_ring_cursor h) (hs_bodies h)"
    using assms by (simp_all add: hot_ok_def)
  have "hot_ok pda (h\<lparr>hs_tx_ring := ring, hs_ring_cursor := cursor, hs_bodies := bodies, hs_shared := sh'\<rparr>)"
    if "ring_ok ring cursor bodies" "config_ok sh'" "sh_seed_table sh' = sh_seed_table (hs_shared h)" for ring cursor bodies sh'
    using that assms by (simp add: hot_ok_def)
  with config_ok_providers [OF ok(1)] show ?thesis
    using fan_out_launch_eq [OF ok, of info slot plan competition ta seed na] by (auto simp: Let_def)
qed

lemma commit_launch_returns:
  "hot_ok pda h \<Longrightarrow> returns pda (commit_launch env info slot plan competition ta seed na h)"
  by (simp add: commit_launch_def Let_def fan_out_launch_returns split: prod.split)

lemma vault_slot_some: "wf_key creator \<Longrightarrow> \<exists>s. vault_slot creator = Some s \<and> s < VAULT_CACHE_SLOTS"
  by (simp add: vault_slot_def wf_key_def get_at_def VAULT_CACHE_SLOTS_def)

lemma cached_vault_ok:
  assumes "cache_ok pda cache" "wf_key creator" "pda_ok pda"
  shows "\<exists>v cache'. cached_vault pda creator cache = Some (v, cache') \<and> cache_ok pda cache' \<and> wf_key v
    \<and> (v = creator_vault pda creator \<or> creator = zero_key \<and> v = zero_key)"
proof -
  obtain s where s: "vault_slot creator = Some s" "s < length cache"
    using vault_slot_some [OF assms(2)] assms(1) by (auto simp: cache_ok_def)
  then have e: "cache ! s \<in> set cache" "get_at cache s = Some (cache ! s)"
    by (simp_all add: get_at_def)
  have wf: "wf_key (creator_vault pda c)" "wf_key zero_key" for c
    using assms(3) by (simp_all add: pda_ok_def creator_vault_def) (simp add: wf_key_def zero_key_def)
  have "cache_ok pda (cache[s := (creator, creator_vault pda creator)])"
    using assms(1) set_update_subset_insert [of cache s "(creator, creator_vault pda creator)"]
    unfolding cache_ok_def by auto
  obtain c v where cv: "cache ! s = (c, v)"
    by fastforce
  with e(1) assms(1) have v: "c = zero_key \<and> v = zero_key \<or> v = creator_vault pda c"
    unfolding cache_ok_def by fastforce
  show ?thesis
  proof (cases "c = creator")
    case True
    with s e cv have "cached_vault pda creator cache = Some (v, cache)"
      by (simp add: cached_vault_def)
    with True v wf assms(1) show ?thesis
      by auto
  next
    case False
    with s e cv have "cached_vault pda creator cache =
        Some (creator_vault pda creator, cache[s := (creator, creator_vault pda creator)])"
      by (simp add: cached_vault_def Let_def)
    with \<open>cache_ok pda (cache[s := _])\<close> wf show ?thesis
      by blast
  qed
qed

lemma SeedTable_get_ok:
  assumes "seeds_ok st" "i < length (st_seeds st)"
  shows "\<exists>seed a. SeedTable_get st i program = Some (seed, a) \<and> length seed = 6 \<and> wf_key a"
  using assms by (auto simp: SeedTable_get_def seeds_ok_def get_at_def Let_def)

lemma buyback_wf: "fees_known c \<Longrightarrow> wf_key (buyback c n)"
  by (auto simp: buyback_def fees_known_def wf_key_def zero_key_def)

lemma launch_values_fit:
  assumes "wf_create info" "fees_known c" "wf_key bcv2" "wf_key vault" "wf_key ta" "length seed = 6" "wf_key na" "wf_key nv"
  shows "values_fit (launch_values info plan (frc_fee_recipient c) (buyback c n) bcv2 vault ta seed na nv)"
  using assms buyback_wf [OF assms(2)]
  by (simp add: values_fit_def launch_values_def wf_key_def wf_create_def fees_known_def)

text \<open>A launch with a nonce in hand, up to the commit: what the template then reads.\<close>

lemma prepare_launch_eq:
  assumes "hot_ok (he_find_pda env) h" "pda_ok (he_find_pda env)" "wf_create info" "wf_key na" "wf_key nv"
  shows "\<exists>seed ta vault cache t index vals. let
      h1 = h\<lparr>hs_seed_index := index, hs_vault_cache := cache, hs_launch_counter := hs_launch_counter h + 1, hs_template := t\<rparr>;
      c = sh_fee_recipients (hs_shared h)
    in prepare_launch env info slot plan competition na nv h = commit_launch env info slot plan competition ta seed na h1
    \<and> hot_ok (he_find_pda env) h1 \<and> SeedTable_get (sh_seed_table (hs_shared h)) index (pci_token_program info) = Some (seed, ta)
    \<and> (vault = creator_vault (he_find_pda env) (pci_creator info) \<or> pci_creator info = zero_key \<and> vault = zero_key)
    \<and> vals = launch_values info plan (frc_fee_recipient c) (buyback c (unat (hs_launch_counter h1)))
        (bonding_curve_v2 (he_find_pda env) (pci_mint info)) vault ta seed na nv
    \<and> (\<forall>(p, u) \<in> set (launch_fields (tp_offsets t) vals). at_pos (tp_tx t) p u)
    \<and> tp_offsets t = tp_offsets (hs_template h)"
proof -
  let ?pda = "he_find_pda env" and ?sh = "hs_shared h"
  let ?n = "length (st_seeds (sh_seed_table ?sh))" and ?c = "sh_fee_recipients ?sh"
  define index where "index = (if hs_seed_index h + 1 = ?n then 0 else hs_seed_index h + 1)"
  have index: "index < ?n"
    using assms(1) by (auto simp: index_def hot_ok_def)
  have ok: "seeds_ok (sh_seed_table ?sh)" "cache_ok ?pda (hs_vault_cache h)" "fees_known ?c" "template_ok (hs_template h)"
    using assms(1) by (simp_all add: hot_ok_def config_ok_def)
  obtain seed ta where seed: "SeedTable_get (sh_seed_table ?sh) index (pci_token_program info) = Some (seed, ta)"
    "length seed = 6" "wf_key ta"
    using SeedTable_get_ok [OF ok(1) index] by blast
  have "wf_key (pci_creator info)"
    using assms(3) by (simp add: wf_create_def)
  then obtain vault cache where vault: "cached_vault ?pda (pci_creator info) (hs_vault_cache h) = Some (vault, cache)"
    "cache_ok ?pda cache" "wf_key vault" "vault = creator_vault ?pda (pci_creator info) \<or> pci_creator info = zero_key \<and> vault = zero_key"
    using cached_vault_ok [OF ok(2) _ assms(2)] by blast
  have "wf_key (bonding_curve_v2 ?pda (pci_mint info))"
    using assms(2) by (simp add: pda_ok_def bonding_curve_v2_def)
  note fit = launch_values_fit [OF assms(3) ok(3) this vault(3) seed(3,2) assms(4,5)]
  obtain t where t: "patch_launch info plan (frc_fee_recipient ?c) (buyback ?c (unat (hs_launch_counter h + 1)))
        (bonding_curve_v2 ?pda (pci_mint info)) vault ta seed na nv (hs_template h) = Some t"
    "template_ok t" "tp_offsets t = tp_offsets (hs_template h)"
    "\<forall>(p, u) \<in> set (launch_fields (tp_offsets (hs_template h)) (launch_values info plan (frc_fee_recipient ?c)
       (buyback ?c (unat (hs_launch_counter h + 1))) (bonding_curve_v2 ?pda (pci_mint info)) vault ta seed na nv)).
       at_pos (tp_tx t) p u"
    using patch_launch_ok [OF ok(4) fit [of plan "unat (hs_launch_counter h + 1)"] refl] by blast
  have "\<not> length (tp_tx t) > MAX_TX"
    using t(2) by (simp add: template_ok_def)
  then have "prepare_launch env info slot plan competition na nv h = commit_launch env info slot plan competition ta seed na
      (h\<lparr>hs_seed_index := index, hs_vault_cache := cache, hs_launch_counter := hs_launch_counter h + 1, hs_template := t\<rparr>)"
    unfolding prepare_launch_def Let_def index_def [symmetric] by (simp add: seed(1) vault(1) t(1))
  moreover have "hot_ok ?pda (h\<lparr>hs_seed_index := index, hs_vault_cache := cache,
      hs_launch_counter := hs_launch_counter h + 1, hs_template := t\<rparr>)"
    using assms(1) index vault(2) t(2) by (simp add: hot_ok_def)
  ultimately show ?thesis
    unfolding Let_def using seed(1) vault(4) t(3,4)
    by (intro exI [of _ seed] exI [of _ ta] exI [of _ vault] exI [of _ cache] exI [of _ t] exI [of _ index] exI) simp
qed

lemma prepare_launch_returns:
  assumes "hot_ok (he_find_pda env) h" "pda_ok (he_find_pda env)" "wf_create info" "wf_key na" "wf_key nv"
  shows "returns (he_find_pda env) (prepare_launch env info slot plan competition na nv h)"
proof -
  obtain h1 ta seed where "prepare_launch env info slot plan competition na nv h = commit_launch env info slot plan competition ta seed na h1"
    "hot_ok (he_find_pda env) h1"
    using prepare_launch_eq [OF assms, of slot plan competition] by (auto simp: Let_def)
  then show ?thesis
    by (simp add: commit_launch_returns)
qed

lemma nonce_take_ok:
  assumes "nonces_ok np"
  shows "\<exists>r np'. nonce_take np = Some (r, np') \<and> nonces_ok np'
    \<and> (\<forall>a v. r = Some (a, v) \<longrightarrow> wf_key a \<and> wf_key v \<and> pool_holds np a v \<and> v \<noteq> zero_key)"
proof -
  have inv: "pool_inv np"
    using assms by (simp add: nonces_ok_def)
  then obtain r np' where d: "nonce_take np = Some (r, np')"
    using nonces.draw_defined by fastforce
  then have np': "np_accounts np' = np_accounts np" "np_values np' = np_values np"
    using inv by (auto simp: nonce_take_eq split: if_splits)
  have "pool_inv np'"
    using nonces.draw_inv [OF inv d] .
  with assms np' have ok: "nonces_ok np'"
    by (simp add: nonces_ok_def)
  have "wf_key a \<and> wf_key v \<and> pool_holds np a v \<and> v \<noteq> zero_key" if "r = Some (a, v)" for a v
  proof -
    have h: "pool_holds np a v" "v \<noteq> zero_key"
      using nonces.draw_pair [OF inv, of a v np'] d that by auto
    then have "a \<in> set (np_accounts np)" "v \<in> set (np_values np)"
      by (auto simp: pool_holds_def dest: set_zip_leftD set_zip_rightD)
    with h assms show ?thesis
      by (simp add: nonces_ok_def)
  qed
  with d ok show ?thesis
    by blast
qed

lemma fire_launch_returns:
  assumes "hot_ok (he_find_pda env) h" "pda_ok (he_find_pda env)" "wf_create info"
  shows "returns (he_find_pda env) (fire_launch env info slot plan competition h)"
proof -
  obtain free g where m: "may_fire (sh_gate (hs_shared h)) = (free, g)"
    by fastforce
  obtain r np where np: "nonce_take (sh_nonces (hs_shared h)) = Some (r, np)" "nonces_ok np"
    "\<And>a v. r = Some (a, v) \<Longrightarrow> wf_key a \<and> wf_key v"
    using nonce_take_ok [of "sh_nonces (hs_shared h)"] assms(1) by (fastforce simp: hot_ok_def config_ok_def)
  let ?h = "set_gate g h"
  have h: "hot_ok (he_find_pda env) (?h\<lparr>hs_shared := (hs_shared ?h)\<lparr>sh_nonces := np\<rparr>\<rparr>)"
    using assms(1) np(2) by (simp add: hot_ok_def config_ok_def)
  have "returns (he_find_pda env) (case r of None \<Rightarrow> Some (None, bump mt_skipped_no_nonce_update (?h\<lparr>hs_shared := (hs_shared ?h)\<lparr>sh_nonces := np\<rparr>\<rparr>))
    | Some (na, nv) \<Rightarrow> prepare_launch env info slot plan competition na nv (?h\<lparr>hs_shared := (hs_shared ?h)\<lparr>sh_nonces := np\<rparr>\<rparr>))"
    using prepare_launch_returns [OF h assms(2,3)] np(3) h by (auto split: option.split)
  then show ?thesis
    using assms(1) by (cases r) (auto simp: fire_launch_def Let_def m np(1))
qed

lemma priced_plan_defined: "config_ok sh \<Longrightarrow> \<exists>plan. priced_plan sh prior budget = Some plan"
  by (simp add: priced_plan_def plan_exact_sol_in_def plan_buy_def Let_def config_ok_def)

lemma plan_and_fire_returns:
  assumes "hot_ok (he_find_pda env) h" "pda_ok (he_find_pda env)" "wf_create info"
  shows "returns (he_find_pda env) (plan_and_fire env info slot prior budget competition h)"
proof -
  obtain plan where "priced_plan (hs_shared h) prior budget = Some plan"
    using priced_plan_defined [of "hs_shared h" prior budget] assms(1) by (auto simp: hot_ok_def)
  then show ?thesis
    using assms fire_launch_returns by (simp add: plan_and_fire_def)
qed

lemma hot_ok_pending:
  assumes "hot_ok pda h" "ran m \<subseteq> ran (hs_pending h) \<union> {p. wf_create (pl_info p)}"
  shows "hot_ok pda (h\<lparr>hs_pending := m\<rparr>)"
  using assms by (auto simp: hot_ok_def)

lemma seal_old_slots_ok: "hot_ok pda h \<Longrightarrow> hot_ok pda (seal_old_slots slot h)"
  by (auto simp: seal_old_slots_def hot_ok_def ran_def)

lemma remember_ok: "hot_ok pda h \<Longrightarrow> hot_ok pda (snd (remember mint h))"
  by (simp add: remember_def Let_def)

lemma watch_launch_ok: "hot_ok pda h \<Longrightarrow> wf_create info \<Longrightarrow> hot_ok pda (watch_launch info slot h)"
  unfolding watch_launch_def Let_def
  by (rule hot_ok_pending) (auto simp: ran_def)

lemma confirm_register_returns:
  assumes "hot_ok (he_find_pda env) h" "pda_ok (he_find_pda env)" "wf_create info"
  shows "returns (he_find_pda env) (confirm_register env info slot h)"
proof -
  obtain new h1 where r: "remember (pci_mint info) (seal_old_slots slot h) = (new, h1)"
    by fastforce
  have h1: "hot_ok (he_find_pda env) h1"
    using remember_ok [OF seal_old_slots_ok [OF assms(1)], of "pci_mint info" slot] r by simp
  obtain fresh s where s: "dev_is_fresh (sh_tables (hs_shared h1)) (he_today env) (pci_creator info) (hs_session h1) = (fresh, s)"
    by fastforce
  have "hot_ok (he_find_pda env) (h1\<lparr>hs_session := s\<rparr>)"
    using h1 by simp
  note h2 = this plan_and_fire_returns [OF this assms(2,3)] watch_launch_ok [OF this assms(3)]
  show ?thesis
    using h1 h2 by (simp add: confirm_register_def Let_def r s split: option.split)
qed

lemma on_create_returns:
  assumes "hot_ok (he_find_pda env) h" "pda_ok (he_find_pda env)" "wf_create info"
  shows "returns (he_find_pda env) (on_create env info slot h)"
proof -
  let ?h = "bump mt_creates_seen_update h"
  obtain new h1 where r: "remember (pci_mint info) (bump mt_creates_whitelisted_update ?h) = (new, h1)"
    by fastforce
  have h1: "hot_ok (he_find_pda env) h1"
    using remember_ok [of "he_find_pda env" "bump mt_creates_whitelisted_update ?h" "pci_mint info"] r assms(1) by simp
  have "hot_ok (he_find_pda env) ?h"
    using assms(1) by simp
  with h1 show ?thesis
    using confirm_register_returns [OF _ assms(2,3), of ?h] plan_and_fire_returns [OF h1 assms(2,3)]
    by (simp add: on_create_def Let_def r del: bump_keeps)
qed

text \<open>The two ways a buy is answered in confirm mode: ignored, or counted by the watch of its launch.\<close>

definition counted_buy :: "PumpBuyInfo \<Rightarrow> u64 \<Rightarrow> HotSniper \<Rightarrow> PendingLaunch \<Rightarrow> bool" where
  "counted_buy buy slot h p \<longleftrightarrow> hs_pending h (pbi_mint buy) = Some p \<and> pl_slot p = slot \<and> pbi_sig8 buy \<notin> hs_seen_buys h"

lemma hot_on_buy_ignored:
  assumes "sh_confirm (hs_shared h) = Some params" "\<nexists>p. counted_buy buy slot (seal_old_slots slot h) p"
  shows "hot_on_buy env buy slot h = Some (None, seal_old_slots slot h)"
  using assms by (auto simp: hot_on_buy_def Let_def counted_buy_def split: option.split)

lemma hot_on_buy_counted:
  assumes "sh_confirm (hs_shared h) = Some params" "counted_buy buy slot (seal_old_slots slot h) p"
    and "Confirm.on_buy (sh_tables (hs_shared h)) params (pbi_buyer buy)
          (pbi_sol_lamports buy) (pbi_token_amount buy) (pbi_exact_sol buy) (pl_watch p) = Some (watch, result)"
  defines "h1 \<equiv> (seal_old_slots slot h)\<lparr>hs_seen_buys := insert (pbi_sig8 buy) (hs_seen_buys (seal_old_slots slot h))\<rparr>"
  defines "removed \<equiv> h1\<lparr>hs_pending := (hs_pending h1)(pbi_mint buy := None)\<rparr>"
  shows "hot_on_buy env buy slot h = (case result of
          Inr fire \<Rightarrow> plan_and_fire env (pl_info p) slot (fire_prior_flow_lamports fire) (fire_budget_lamports fire) (fire_n_conf fire) removed
        | Inl EliteAhead \<Rightarrow> Some (None, bump mt_confirm_elite_ahead_update removed)
        | Inl CurveCapped \<Rightarrow> Some (None, bump mt_confirm_curve_capped_update removed)
        | Inl Dead \<Rightarrow> Some (None, removed)
        | Inl Watching \<Rightarrow> Some (None, h1\<lparr>hs_pending := (hs_pending h1)(pbi_mint buy \<mapsto> p\<lparr>pl_watch := watch\<rparr>)\<rparr>))"
  using assms(1-3) by (simp add: hot_on_buy_def Let_def h1_def removed_def counted_buy_def split: sum.split Pass.split)

lemma hot_on_buy_returns:
  assumes "hot_ok (he_find_pda env) h" "pda_ok (he_find_pda env)"
  shows "returns (he_find_pda env) (hot_on_buy env buy slot h)"
proof (cases "sh_confirm (hs_shared h)")
  case None
  with assms(1) show ?thesis
    by (simp add: hot_on_buy_def)
next
  case (Some params)
  let ?pda = "he_find_pda env" and ?h = "seal_old_slots slot h"
  have h: "hot_ok ?pda ?h"
    using assms(1) by (rule seal_old_slots_ok)
  show ?thesis
  proof (cases "\<exists>p. counted_buy buy slot ?h p")
    case False
    with h hot_on_buy_ignored [OF Some] show ?thesis
      by simp
  next
    case True
    then obtain p where p: "counted_buy buy slot ?h p"
      by blast
    then have info: "wf_create (pl_info p)"
      using h by (auto simp: hot_ok_def ran_def counted_buy_def)
    have "size_lo_lamports params \<le> size_hi_lamports params"
      using assms(1) Some by (simp add: hot_ok_def config_ok_def)
    then obtain watch result where res: "Confirm.on_buy (sh_tables (hs_shared h)) params (pbi_buyer buy)
          (pbi_sol_lamports buy) (pbi_token_amount buy) (pbi_exact_sol buy) (pl_watch p) = Some (watch, result)"
      by (metis Confirm.on_buy_defined not_None_eq surj_pair)
    define h1 where "h1 = ?h\<lparr>hs_seen_buys := insert (pbi_sig8 buy) (hs_seen_buys ?h)\<rparr>"
    define removed where "removed = h1\<lparr>hs_pending := (hs_pending h1)(pbi_mint buy := None)\<rparr>"
    have h1: "hot_ok ?pda h1"
      using h by (simp add: h1_def)
    then have removed: "hot_ok ?pda removed"
      unfolding removed_def by (rule hot_ok_pending) (auto simp: ran_def)
    have kept: "hot_ok ?pda (h1\<lparr>hs_pending := (hs_pending h1)(pbi_mint buy \<mapsto> p\<lparr>pl_watch := watch\<rparr>)\<rparr>)"
      using h1 info by (intro hot_ok_pending) (auto simp: ran_def)
    show ?thesis
      using plan_and_fire_returns [OF removed assms(2) info] removed kept
      unfolding hot_on_buy_counted [OF Some p res, folded h1_def, folded removed_def]
      by (auto split: sum.split Pass.split)
  qed
qed

fun event_ok :: "find_pda \<Rightarrow> hot_event \<Rightarrow> bool" where
  "event_ok pda (CreateEvent env info slot) \<longleftrightarrow> he_find_pda env = pda \<and> wf_create info"
| "event_ok pda (BuyEvent env buy slot) \<longleftrightarrow> he_find_pda env = pda"

lemma hot_step_returns: "hot_ok pda h \<Longrightarrow> pda_ok pda \<Longrightarrow> event_ok pda e \<Longrightarrow> returns pda (hot_step e h)"
  using on_create_returns hot_on_buy_returns by (cases e) auto

lemma hot_run_returns:
  "hot_ok pda h \<Longrightarrow> pda_ok pda \<Longrightarrow> \<forall>e \<in> set es. event_ok pda e \<Longrightarrow>
     \<exists>fs h'. hot_run es h = Some (fs, h') \<and> hot_ok pda h'"
proof (induction es arbitrary: h)
  case (Cons e es)
  then obtain r h1 where "hot_step e h = Some (r, h1)" "hot_ok pda h1"
    using hot_step_returns [of pda h e] by (auto simp: returns_def)
  with Cons show ?case
    using Cons.IH [of h1] by fastforce
qed simp

text \<open>The state \<open>into_hot\<close> hands over.\<close>

lemma cache_ok_empty: "cache_ok pda (replicate VAULT_CACHE_SLOTS (zero_key, zero_key))"
  by (simp add: cache_ok_def)

lemma into_hot_ok:
  assumes "config_ok sh" "template_ok t" "st_seeds (sh_seed_table sh) \<noteq> []"
  shows "hot_ok pda (into_hot today sh t)"
  using assms cache_ok_empty [of pda]
  by (simp add: hot_ok_def into_hot_def ring_ok_def TX_RING_def TxBuf_default_def)

lemma into_hot_once: "once_inv M {} (into_hot today sh t)"
  by (simp add: once_inv_def into_hot_def pending_ok_def)

section \<open>An example launch\<close>

text \<open>A state with one nonce, one seed and two providers, the fields laid out one after the other.\<close>

definition ex_offsets :: Offsets where
  "ex_offsets = \<lparr>of_fee_recipient = 65, of_buyback_fee_recipient = 97, of_mint = 129, of_bonding_curve = 161,
     of_associated_bonding_curve = 193, of_bonding_curve_v2 = 225, of_creator_vault = 257, of_token_account = 289,
     of_token_program = (321, 353), of_seed = 385, of_amount = 391, of_max_sol_cost = 399, of_nonce_account = 407,
     of_nonce_value = 439, of_tip_account = 471, of_tip_lamports = 503, of_cu_price = 511\<rparr>"

definition ex_template :: Template where
  "ex_template = \<lparr>tp_tx = replicate 600 0, tp_offsets = ex_offsets\<rparr>"

definition ex_key :: "byte \<Rightarrow> pubkey" where
  "ex_key b = replicate 32 b"

definition ex_gate :: PositionGate where
  "ex_gate = \<lparr>busy = False, armed = True, pg_sync_mode = True, pg_metrics = zero_metrics, pg_queue = [], pg_open = True\<rparr>"

definition ex_metrics :: SniperMetrics where
  "ex_metrics = \<lparr>mt_creates_seen = 0, mt_creates_whitelisted = 0, mt_duplicates = 0, mt_skipped_dev_buy = 0,
     mt_skipped_no_nonce = 0, mt_fired = 0, mt_jobs_queued = 0, mt_confirm_pending = 0, mt_confirm_not_fresh = 0,
     mt_confirm_elite_ahead = 0, mt_confirm_curve_capped = 0, mt_skipped_no_seller = 0, mt_confirm_mayhem_skipped = 0,
     mt_confirm_rug_skipped = 0, mt_confirm_min_dev_buy_skipped = 0, mt_confirm_not_botlauncher_skipped = 0\<rparr>"

definition ex_provider :: ProviderHandle where
  "ex_provider = \<lparr>ph_queue = [], ph_depth = 64, ph_open = True, ph_dropped_full = 0, ph_tip_accounts = [ex_key 70],
     ph_tip_lamports = 1000000, ph_cu_price = 500, ph_endpoint_count = 1\<rparr>"

definition ex_shared :: "bool \<Rightarrow> Shared" where
  "ex_shared ghost = \<lparr>sh_whitelist = \<lparr>wl_set = {}, wl_disabled = True\<rparr>,
     sh_nonces = \<lparr>np_accounts = [ex_key 80], np_values = [ex_key 81], np_next = 0\<rparr>,
     sh_fee_recipients = \<lparr>frc_fee_recipient = ex_key 82, frc_buyback = [ex_key 83]\<rparr>,
     sh_curve = mainnet_curve, sh_metrics = ex_metrics, sh_providers = [ex_provider, ex_provider],
     sh_buy_lamports = 1500000000, sh_max_dev_buy_lamports = 0, sh_haircut_bps = 0, sh_slippage_bps = 640,
     sh_buyer = ex_key 84, sh_gate = ex_gate, sh_ghost_mode = ghost, sh_seller_listening = True,
     sh_require_seller = True, sh_skip_mayhem = True, sh_max_rug = Fin 1, sh_min_dev_buy_lamports = 0,
     sh_require_botlauncher = False, sh_skip_botlauncher = True, sh_fire_on_create = False,
     sh_buy_exact_sol_in = True,
     sh_seed_table = \<lparr>st_seeds = [replicate 6 48], st_token_2022 = [ex_key 85], st_token_classic = [ex_key 86]\<rparr>,
     sh_confirm = None, sh_tip = None, sh_tables = \<lparr>DEVS = None, WATCH = None, RUG = None\<rparr>, sh_tip_floor = None\<rparr>"

definition ex_info :: PumpCreateInfo where
  "ex_info = \<lparr>pci_mint = ex_key 1, pci_bonding_curve = ex_key 2, pci_associated_bonding_curve = ex_key 3,
     pci_creator = ex_key 4, pci_user = ex_key 4, pci_token_program = TOKEN_2022_PROGRAM, pci_dev_buy_lamports = 2000000000,
     pci_is_v2 = True, pci_is_mayhem = False, pci_is_cashback = False, pci_is_botlauncher = False\<rparr>"

definition ex_env :: hot_env where
  "ex_env = \<lparr>he_find_pda = (\<lambda>seeds program. replicate 32 (hd (hd seeds))), he_today = 20000,
     he_others = id, he_rug_of = (\<lambda>r. Fin 0)\<rparr>"

lemma ex_config_ok: "config_ok (ex_shared ghost)"
  by (simp add: config_ok_def ex_shared_def nonces_ok_def pool_inv_def wf_key_def ex_key_def fees_known_def
      seeds_ok_def mainnet_curve_def total_fee_bps_def ex_provider_def as_u128_def)

lemma ex_template_ok: "template_ok ex_template"
  by (simp add: template_ok_def ex_template_def launch_slots_def ex_offsets_def slots_apart_def MAX_TX_def)

lemma ex_hot_ok: "hot_ok pda (into_hot today (ex_shared ghost) ex_template)"
  by (rule into_hot_ok [OF ex_config_ok ex_template_ok]) (simp add: ex_shared_def)

lemma ex_event_ok: "event_ok (he_find_pda ex_env) (CreateEvent ex_env ex_info slot)" "pda_ok (he_find_pda ex_env)"
  by (simp_all add: ex_info_def wf_create_def wf_key_def ex_key_def TOKEN_2022_PROGRAM_def pda_ok_def ex_env_def)

section \<open>What is sent\<close>

lemma commit_launch_fired:
  assumes "hot_ok pda h" "\<not> sh_ghost_mode (hs_shared h)"
    and "commit_launch env info slot plan competition ta seed na h = Some (Some f, h')"
  shows "\<exists>base dyn_tip. f = fired_of info plan ta seed
    \<and> launch_tip (hs_shared h) plan competition = Some dyn_tip
    \<and> sh_providers (hs_shared h') =
        map (\<lambda>p. handed (job_for base (hs_launch_counter h) dyn_tip p) p) (sh_providers (hs_shared h))
    \<and> take (length (tp_tx (hs_template h))) (tb_tx (bd_buf (hs_bodies h') base)) = tp_tx (hs_template h)
    \<and> hs_template h' = hs_template h \<and> hs_launch_counter h' = hs_launch_counter h \<and> hs_seed_index h' = hs_seed_index h
    \<and> fst (claim (he_others env (sh_gate (hs_shared h))))
    \<and> sh_gate (hs_shared h') = opened (position_of info slot plan ta na False) (snd (claim (he_others env (sh_gate (hs_shared h)))))"
proof -
  obtain won g where c: "claim (he_others env (sh_gate (hs_shared h))) = (won, g)"
    by fastforce
  let ?h = "set_gate g h"
  have won: won and fan: "fan_out_launch info slot plan competition ta seed na ?h = Some (Some f, h')"
    using assms(2,3) c by (auto simp: commit_launch_def Let_def split: if_splits)
  have ok: "config_ok (hs_shared ?h)" "template_ok (hs_template ?h)" "ring_ok (hs_tx_ring ?h) (hs_ring_cursor ?h) (hs_bodies ?h)"
    using assms(1) by (simp_all add: hot_ok_def)
  obtain base ring cursor bodies dt where
    eq: "fan_out_launch info slot plan competition ta seed na ?h = (let
      ps = map (\<lambda>p. handed (job_for base (hs_launch_counter ?h) dt p) p) (sh_providers (hs_shared ?h));
      m = sh_metrics (hs_shared ?h);
      h1 = ?h\<lparr>hs_tx_ring := ring, hs_ring_cursor := cursor, hs_bodies := bodies,
        hs_shared := (hs_shared ?h)\<lparr>sh_providers := ps, sh_metrics := m\<lparr>mt_jobs_queued := mt_jobs_queued m + of_nat (length ps)\<rparr>\<rparr>\<rparr>;
      h2 = bump mt_fired_update h1
      in (if of_nat (length ps) = (0 :: u64) then Some (None, h1)
       else Some (Some (fired_of info plan ta seed),
         set_gate (opened (position_of info slot plan ta na False) (sh_gate (hs_shared h2))) h2)))"
    and dt: "launch_tip (hs_shared ?h) plan competition = Some dt"
    and body: "take (length (tp_tx (hs_template ?h))) (tb_tx (bd_buf bodies base)) = tp_tx (hs_template ?h)"
    using fan_out_launch_eq [OF ok, of info slot plan competition ta seed na] unfolding Let_def by blast
  have "launch_tip (hs_shared h) plan competition = Some dt"
    using dt by (simp add: launch_tip_def cong: option.case_cong)
  then show ?thesis
    using fan body c won unfolding eq
    by (intro exI [of _ base] exI [of _ dt]) (auto simp: Let_def split: if_splits)
qed

lemma fire_launch_nonce:
  assumes "fire_launch env info slot plan competition h = Some (Some f, h')"
  obtains na nv np where "nonce_take (sh_nonces (hs_shared h)) = Some (Some (na, nv), np)"
    "prepare_launch env info slot plan competition na nv
      ((set_gate (snd (may_fire (sh_gate (hs_shared h)))) h)\<lparr>hs_shared := (hs_shared h)
         \<lparr>sh_gate := snd (may_fire (sh_gate (hs_shared h))), sh_nonces := np\<rparr>\<rparr>) = Some (Some f, h')"
proof -
  obtain free g where m: "may_fire (sh_gate (hs_shared h)) = (free, g)"
    by fastforce
  with assms that show ?thesis
    by (auto simp: fire_launch_def Let_def split: if_splits option.splits)
qed

text \<open>A fired launch went through the commit, in a state whose template reads back what was patched.\<close>

definition prepared :: "hot_env \<Rightarrow> PumpCreateInfo \<Rightarrow> BuyPlan \<Rightarrow> HotSniper \<Rightarrow> HotSniper \<Rightarrow> pubkey \<Rightarrow> bytes \<Rightarrow> bytes \<Rightarrow> pubkey \<Rightarrow> pubkey \<Rightarrow> bool" where
  "prepared env info plan h h1 na nv seed ta vault \<longleftrightarrow>
     (let sh = hs_shared h; t = hs_template h1;
          vals = launch_values info plan (frc_fee_recipient (sh_fee_recipients sh))
            (buyback (sh_fee_recipients sh) (unat (hs_launch_counter h1)))
            (bonding_curve_v2 (he_find_pda env) (pci_mint info)) vault ta seed na nv
      in pool_holds (sh_nonces sh) na nv \<and> nv \<noteq> zero_key
       \<and> SeedTable_get (sh_seed_table sh) (hs_seed_index h1) (pci_token_program info) = Some (seed, ta)
       \<and> (vault = creator_vault (he_find_pda env) (pci_creator info) \<or> pci_creator info = zero_key \<and> vault = zero_key)
       \<and> hs_launch_counter h1 = hs_launch_counter h + 1 \<and> tp_offsets t = tp_offsets (hs_template h)
       \<and> (\<forall>(p, u) \<in> set (launch_fields (tp_offsets t) vals). at_pos (tp_tx t) p u))"

lemma fire_launch_commit:
  assumes "hot_ok (he_find_pda env) h" "pda_ok (he_find_pda env)" "wf_create info"
    and "fire_launch env info slot plan competition h = Some (Some f, h')"
  defines "g \<equiv> snd (may_fire (sh_gate (hs_shared h)))"
  obtains na nv np seed ta vault h1 where
    "commit_launch env info slot plan competition ta seed na h1 = Some (Some f, h')"
    "hot_ok (he_find_pda env) h1" "hs_shared h1 = (hs_shared h)\<lparr>sh_gate := g, sh_nonces := np\<rparr>"
    "prepared env info plan h h1 na nv seed ta vault"
proof -
  obtain na nv np where n: "nonce_take (sh_nonces (hs_shared h)) = Some (Some (na, nv), np)"
    and prep: "prepare_launch env info slot plan competition na nv
      ((set_gate g h)\<lparr>hs_shared := (hs_shared h)\<lparr>sh_gate := g, sh_nonces := np\<rparr>\<rparr>) = Some (Some f, h')"
    using assms(4) unfolding g_def by (rule fire_launch_nonce)
  define h0 where "h0 = (set_gate g h)\<lparr>hs_shared := (hs_shared h)\<lparr>sh_gate := g, sh_nonces := np\<rparr>\<rparr>"
  have h0: "hs_shared h0 = (hs_shared h)\<lparr>sh_gate := g, sh_nonces := np\<rparr>" "hs_template h0 = hs_template h"
    "hs_launch_counter h0 = hs_launch_counter h"
    by (simp_all add: h0_def)
  have np: "nonces_ok np" "wf_key na" "wf_key nv" "pool_holds (sh_nonces (hs_shared h)) na nv" "nv \<noteq> zero_key"
    using nonce_take_ok [of "sh_nonces (hs_shared h)"] assms(1) n by (auto simp: hot_ok_def config_ok_def)
  have "hot_ok (he_find_pda env) h0"
    using assms(1) np(1) by (simp add: h0_def hot_ok_def config_ok_def)
  from prepare_launch_eq [OF this assms(2,3) np(2,3), of slot plan competition]
  obtain seed ta vault h1 vals where
    commit: "prepare_launch env info slot plan competition na nv h0 = commit_launch env info slot plan competition ta seed na h1"
      "hot_ok (he_find_pda env) h1" "hs_shared h1 = hs_shared h0"
    and "SeedTable_get (sh_seed_table (hs_shared h)) (hs_seed_index h1) (pci_token_program info) = Some (seed, ta)"
      "vault = creator_vault (he_find_pda env) (pci_creator info) \<or> pci_creator info = zero_key \<and> vault = zero_key"
      "vals = launch_values info plan (frc_fee_recipient (sh_fee_recipients (hs_shared h)))
        (buyback (sh_fee_recipients (hs_shared h)) (unat (hs_launch_counter h1)))
        (bonding_curve_v2 (he_find_pda env) (pci_mint info)) vault ta seed na nv"
      "\<forall>(p, u) \<in> set (launch_fields (tp_offsets (hs_template h1)) vals). at_pos (tp_tx (hs_template h1)) p u"
      "tp_offsets (hs_template h1) = tp_offsets (hs_template h)" "hs_launch_counter h1 = hs_launch_counter h + 1"
    unfolding Let_def by (elim exE conjE) (simp add: h0)
  then have "prepared env info plan h h1 na nv seed ta vault"
    using np(4,5) by (simp add: prepared_def)
  with prep that h0(1) commit show thesis
    by (simp add: h0_def)
qed

text \<open>
  C1: What a fired live launch hands to the senders is what was decided for it. In a well-formed state
  (\<open>hot_ok\<close>: what start hands over and every operation keeps, with a template whose fields lie apart) that
  is not in ghost mode, every provider is given one job, queued or counted as dropped, whose tip is the
  larger of the tip of the launch and that provider's own; the shared body holds the patched template; in
  the template every field of the launch reads back, with a nonce the pool holds for the nonce account, the
  token account the seed table has under that seed, and the vault derived for the creator; and the
  position given to the tracker is booked at the cost basis and the token count that the launch reports.
  The one exception of the vault is a creator of thirty-two zero bytes, which an unused cache entry
  answers with zeros.
\<close>

theorem fired_launch_is_sent:
  assumes "hot_ok (he_find_pda env) h" "pda_ok (he_find_pda env)" "wf_create info"
    and "\<not> sh_ghost_mode (hs_shared h)" "fire_launch env info slot plan competition h = Some (Some f, h')"
  shows "\<exists>na nv seed ta vault base tip. let sh = hs_shared h; t = hs_template h'
     in prepared env info plan h h' na nv seed ta vault
      \<and> take (length (tp_tx t)) (tb_tx (bd_buf (hs_bodies h') base)) = tp_tx t
      \<and> launch_tip sh plan competition = Some tip
      \<and> sh_providers (hs_shared h') = map (\<lambda>p. handed (job_for base (hs_launch_counter h') tip p) p) (sh_providers sh)
      \<and> f = fired_of info plan ta seed
      \<and> sh_gate (hs_shared h') = opened (position_of info slot plan ta na False)
          (snd (claim (he_others env (snd (may_fire (sh_gate sh))))))"
proof -
  let ?g = "snd (may_fire (sh_gate (hs_shared h)))"
  obtain na nv np seed ta vault h1 where
    commit: "commit_launch env info slot plan competition ta seed na h1 = Some (Some f, h')"
    and ok1: "hot_ok (he_find_pda env) h1" and sh1: "hs_shared h1 = (hs_shared h)\<lparr>sh_gate := ?g, sh_nonces := np\<rparr>"
    and prep: "prepared env info plan h h1 na nv seed ta vault"
    using assms(1-3,5) by (rule fire_launch_commit)
  have "\<not> sh_ghost_mode (hs_shared h1)"
    using assms(4) sh1 by simp
  from commit_launch_fired [OF ok1 this commit] obtain base tip where *: "f = fired_of info plan ta seed"
    "launch_tip (hs_shared h1) plan competition = Some tip"
    "sh_providers (hs_shared h') =
        map (\<lambda>p. handed (job_for base (hs_launch_counter h1) tip p) p) (sh_providers (hs_shared h1))"
    "take (length (tp_tx (hs_template h1))) (tb_tx (bd_buf (hs_bodies h') base)) = tp_tx (hs_template h1)"
    "hs_template h' = hs_template h1" "hs_launch_counter h' = hs_launch_counter h1" "hs_seed_index h' = hs_seed_index h1"
    "sh_gate (hs_shared h') = opened (position_of info slot plan ta na False) (snd (claim (he_others env (sh_gate (hs_shared h1)))))"
    by blast
  moreover have "prepared env info plan h h' na nv seed ta vault"
    using prep *(5-7) by (simp add: prepared_def)
  moreover have "launch_tip (hs_shared h1) plan competition = launch_tip (hs_shared h) plan competition"
    by (simp add: sh1 launch_tip_def cong: option.case_cong)
  ultimately show ?thesis
    unfolding Let_def sh1
    by (intro exI [of _ na] exI [of _ nv] exI [of _ seed] exI [of _ ta] exI [of _ vault] exI [of _ base] exI [of _ tip]) simp
qed

text \<open>When a launch fires: the five gates of \<open>fire_launch\<close>.\<close>

lemma commit_launch_some:
  assumes "hot_ok pda h"
  shows "\<exists>r h'. commit_launch env info slot plan competition ta seed na h = Some (r, h')
    \<and> (r \<noteq> None \<longleftrightarrow> fst (claim (he_others env (sh_gate (hs_shared h))))
        \<and> (sh_ghost_mode (hs_shared h) \<or> of_nat (length (sh_providers (hs_shared h))) \<noteq> (0 :: u64)))"
proof -
  obtain won g where c: "claim (he_others env (sh_gate (hs_shared h))) = (won, g)"
    by fastforce
  have ok: "config_ok (hs_shared (set_gate g h))" "template_ok (hs_template (set_gate g h))"
    "ring_ok (hs_tx_ring (set_gate g h)) (hs_ring_cursor (set_gate g h)) (hs_bodies (set_gate g h))"
    using assms by (simp_all add: hot_ok_def)
  have "\<exists>r h'. fan_out_launch info slot plan competition ta seed na (set_gate g h) = Some (r, h')
      \<and> (r \<noteq> None \<longleftrightarrow> of_nat (length (sh_providers (hs_shared h))) \<noteq> (0 :: u64))"
    using fan_out_launch_eq [OF ok, of info slot plan competition ta seed na] by (auto simp: Let_def)
  with c show ?thesis
    by (auto simp: commit_launch_def Let_def)
qed

lemma fire_launch_some:
  assumes "hot_ok (he_find_pda env) h" "pda_ok (he_find_pda env)" "wf_create info"
  defines "sh \<equiv> hs_shared h"
  shows "\<exists>r h'. fire_launch env info slot plan competition h = Some (r, h')
    \<and> (r \<noteq> None \<longleftrightarrow> fst (may_fire (sh_gate sh)) \<and> (sh_ghost_mode sh \<or> \<not> sh_require_seller sh \<or> sh_seller_listening sh)
        \<and> (\<exists>nonce np. nonce_take (sh_nonces sh) = Some (Some nonce, np))
        \<and> fst (claim (he_others env (snd (may_fire (sh_gate sh)))))
        \<and> (sh_ghost_mode sh \<or> of_nat (length (sh_providers sh)) \<noteq> (0 :: u64)))"
proof -
  obtain free g where m: "may_fire (sh_gate sh) = (free, g)"
    by fastforce
  have nonces: "nonces_ok (sh_nonces sh)"
    using assms(1) by (simp add: hot_ok_def config_ok_def sh_def)
  then obtain nonce np where n: "nonce_take (sh_nonces sh) = Some (nonce, np)" "nonces_ok np"
    "\<forall>a v. nonce = Some (a, v) \<longrightarrow> wf_key a \<and> wf_key v"
    using nonce_take_ok by blast
  let ?h = "set_gate g h\<lparr>hs_shared := sh\<lparr>sh_gate := g, sh_nonces := np\<rparr>\<rparr>"
  have ok: "hot_ok (he_find_pda env) ?h"
    using assms(1) n(2) by (simp add: hot_ok_def config_ok_def sh_def)
  have "\<exists>r h'. prepare_launch env info slot plan competition na nv ?h = Some (r, h')
      \<and> (r \<noteq> None \<longleftrightarrow> fst (claim (he_others env g)) \<and> (sh_ghost_mode sh \<or> of_nat (length (sh_providers sh)) \<noteq> (0 :: u64)))"
    if "nonce = Some (na, nv)" for na nv
  proof -
    have "wf_key na" "wf_key nv"
      using n(3) that by auto
    then obtain h1 ta seed where "prepare_launch env info slot plan competition na nv ?h =
        commit_launch env info slot plan competition ta seed na h1" "hot_ok (he_find_pda env) h1"
      "hs_shared h1 = sh\<lparr>sh_gate := g, sh_nonces := np\<rparr>"
      using prepare_launch_eq [OF ok assms(2,3), of na nv slot plan competition] by (auto simp: Let_def)
    then show ?thesis
      using commit_launch_some [of "he_find_pda env" h1 env info slot plan competition ta seed na] by simp
  qed
  moreover have "fire_launch env info slot plan competition h =
      (if \<not> free then Some (None, set_gate g h)
       else if \<not> sh_ghost_mode sh \<and> sh_require_seller sh \<and> \<not> sh_seller_listening sh
       then Some (None, bump mt_skipped_no_seller_update (set_gate g h))
       else case nonce of None \<Rightarrow> Some (None, bump mt_skipped_no_nonce_update ?h)
         | Some (na, nv) \<Rightarrow> prepare_launch env info slot plan competition na nv ?h)"
    using m n(1) by (simp add: fire_launch_def Let_def sh_def split: option.split)
  ultimately show ?thesis
    using m n(1) by (cases nonce) (auto split: if_splits)
qed

definition ex_hot :: "bool \<Rightarrow> HotSniper" where
  "ex_hot ghost = into_hot 20000 (ex_shared ghost) ex_template"

lemma ex_key_nonzero: "b \<noteq> 0 \<Longrightarrow> ex_key b \<noteq> zero_key"
  by (auto simp: ex_key_def zero_key_def dest: arg_cong [of _ _ hd])

lemma ex_hot_fields: "hs_shared (ex_hot ghost) = ex_shared ghost" "hs_launch_counter (ex_hot ghost) = 0"
  "sh_providers (ex_shared ghost) = [ex_provider, ex_provider]"
  by (simp_all add: ex_hot_def into_hot_def ex_shared_def)

lemma ex_nonce: "nonce_take (sh_nonces (ex_shared ghost)) = Some (Some (ex_key 80, ex_key 81),
   \<lparr>np_accounts = [ex_key 80], np_values = [ex_key 81], np_next = 1\<rparr>)"
  using ex_key_nonzero [of 81] by (simp add: ex_shared_def nonce_take_def get_at_def)

lemma ex_fires:
  assumes "hot_ok (he_find_pda ex_env) h" "sh_gate (hs_shared h) = ex_gate" "sh_nonces (hs_shared h) = sh_nonces (ex_shared ghost)"
    and "sh_seller_listening (hs_shared h)" "length (sh_providers (hs_shared h)) = 2"
  shows "\<exists>f h'. fire_launch ex_env ex_info slot plan competition h = Some (Some f, h')"
proof -
  have "fst (may_fire ex_gate)" "fst (claim (he_others ex_env (snd (may_fire ex_gate))))"
    by (simp_all add: ex_gate_def may_fire_def claim_def ex_env_def)
  then obtain r h' where "fire_launch ex_env ex_info slot plan competition h = Some (r, h')" "r \<noteq> None"
    using fire_launch_some [of ex_env h ex_info slot plan competition] ex_event_ok ex_nonce [of ghost] assms by auto
  then show ?thesis
    by blast
qed

lemma ex_hot_ok': "hot_ok (he_find_pda ex_env) (ex_hot ghost)"
  unfolding ex_hot_def by (rule ex_hot_ok)

lemma ex_wf: "wf_create ex_info"
  using ex_event_ok(1) by simp

definition ex_plan :: BuyPlan where
  "ex_plan = \<lparr>bp_amount = 1500000000, bp_max_sol_cost = 40000000000000, bp_budget_lamports = 1500000000,
     bp_expected_tokens = 45000000000000, bp_prior_flow_lamports = 2000000000\<rparr>"

theorem fired_launch_is_sent_witness:
  "\<exists>f h' base tip. fire_launch ex_env ex_info 7 ex_plan 2 (ex_hot False) = Some (Some f, h')
     \<and> sh_providers (hs_shared h') = map (\<lambda>p. handed (job_for base 1 tip p) p) [ex_provider, ex_provider]"
proof -
  obtain f h' where f: "fire_launch ex_env ex_info 7 ex_plan 2 (ex_hot False) = Some (Some f, h')"
    using ex_fires [OF ex_hot_ok', of False False 7 ex_plan 2] ex_hot_fields [of False] by (auto simp: ex_shared_def)
  have h: "\<not> sh_ghost_mode (hs_shared (ex_hot False))"
    by (simp add: ex_hot_fields ex_shared_def)
  show ?thesis
    using fired_launch_is_sent [OF ex_hot_ok' ex_event_ok(2) ex_wf h f] f ex_hot_fields [of False] unfolding Let_def prepared_def
    by (elim exE conjE, intro exI conjI) simp_all
qed

section \<open>What leaves the detect thread\<close>

text \<open>
  The part of the state the senders share with the detect thread: the store of bodies, the ring
  and the queues. Only a live fan-out changes it, so a predicate on it that the fan-out keeps is
  an invariant of every operation.
\<close>

definition same_outbound :: "HotSniper \<Rightarrow> HotSniper \<Rightarrow> bool" where
  "same_outbound h h' \<longleftrightarrow> hs_bodies h' = hs_bodies h \<and> hs_tx_ring h' = hs_tx_ring h
     \<and> sh_providers (hs_shared h') = sh_providers (hs_shared h)
     \<and> sh_ghost_mode (hs_shared h') = sh_ghost_mode (hs_shared h)"

locale outbound =
  fixes Q :: "HotSniper \<Rightarrow> bool"
  assumes frame: "same_outbound h h' \<Longrightarrow> Q h \<Longrightarrow> Q h'"
    and fan_out: "fan_out_launch info slot plan competition ta seed na h = Some (r, h') \<Longrightarrow> Q h \<Longrightarrow>
      \<not> sh_ghost_mode (hs_shared h) \<Longrightarrow> Q h'"
begin

lemma commit_Q:
  assumes "commit_launch env info slot plan competition ta seed na h = Some (r, h')" "Q h"
  shows "Q h'"
proof -
  obtain won g where c: "claim (he_others env (sh_gate (hs_shared h))) = (won, g)"
    by fastforce
  have "Q (set_gate g h)"
    using assms(2) by (rule frame [rotated]) (simp add: same_outbound_def)
  then have "Q h'" if "same_outbound (set_gate g h) h' \<or>
      \<not> sh_ghost_mode (hs_shared h) \<and> fan_out_launch info slot plan competition ta seed na (set_gate g h) = Some (r, h')"
    using that frame [of "set_gate g h" h'] fan_out [of info slot plan competition ta seed na "set_gate g h" r h'] by auto
  then show ?thesis
    using assms(1) c by (auto simp: commit_launch_def Let_def same_outbound_def split: if_splits)
qed

lemma prepare_Q:
  assumes "prepare_launch env info slot plan competition na nv h = Some (r, h')" "Q h"
  shows "Q h'"
proof -
  have "Q (h\<lparr>hs_seed_index := i, hs_vault_cache := c, hs_launch_counter := n, hs_template := t\<rparr>)" for i c n t
    using assms(2) by (rule frame [rotated]) (simp add: same_outbound_def)
  with assms(1) show ?thesis
    unfolding prepare_launch_def Let_def by (auto dest: commit_Q split: if_splits)
qed

lemma fire_Q:
  assumes "fire_launch env info slot plan competition h = Some (r, h')" "Q h"
  shows "Q h'"
proof -
  obtain free g where m: "may_fire (sh_gate (hs_shared h)) = (free, g)"
    by fastforce
  have "Q (set_gate g h\<lparr>hs_shared := hs_shared h\<lparr>sh_gate := g, sh_nonces := np\<rparr>\<rparr>)" "Q (set_gate g h)"
    "Q (bump c (set_gate g h))" "Q (bump c (set_gate g h\<lparr>hs_shared := hs_shared h\<lparr>sh_gate := g, sh_nonces := np\<rparr>\<rparr>))" for np c
    using assms(2) by (rule frame [rotated], simp add: same_outbound_def)+
  note Q = this prepare_Q [OF _ this(1)]
  show ?thesis
    using assms(1) m Q(2-4) by (auto simp: fire_launch_def Let_def dest: Q(5) split: if_splits option.splits)
qed

lemma plan_Q: "plan_and_fire env info slot prior budget competition h = Some (r, h') \<Longrightarrow> Q h \<Longrightarrow> Q h'"
  by (auto simp: plan_and_fire_def dest: fire_Q split: if_splits)

lemma remember_same: "same_outbound h (snd (remember mint h))"
  by (simp add: remember_def Let_def same_outbound_def)

lemma seal_same: "same_outbound h (seal_old_slots slot h)"
  by (simp add: seal_old_slots_def same_outbound_def)

lemma confirm_register_Q:
  assumes "confirm_register env info slot h = Some (r, h')" "Q h"
  shows "Q h'"
proof -
  obtain new h1 where rm: "remember (pci_mint info) (seal_old_slots slot h) = (new, h1)"
    by fastforce
  then have Q1: "Q h1"
    using frame [OF remember_same frame [OF seal_same assms(2)], of "pci_mint info" slot] by simp
  obtain fresh s where "dev_is_fresh (sh_tables (hs_shared h1)) (he_today env) (pci_creator info) (hs_session h1) = (fresh, s)"
    by fastforce
  moreover have "Q (h1\<lparr>hs_session := s\<rparr>)" "Q (bump c (h1\<lparr>hs_session := s\<rparr>))" "Q (watch_launch info slot (h1\<lparr>hs_session := s\<rparr>))" for c
    using Q1 by (rule frame [rotated], simp add: same_outbound_def watch_launch_def Let_def)+
  ultimately show ?thesis
    using assms(1) rm Q1 by (auto simp: confirm_register_def Let_def dest: plan_Q split: if_splits option.splits)
qed

lemma on_create_Q:
  assumes "on_create env info slot h = Some (r, h')" "Q h"
  shows "Q h'"
proof -
  let ?h = "bump mt_creates_seen_update h"
  obtain new h1 where rm: "remember (pci_mint info) (bump mt_creates_whitelisted_update ?h) = (new, h1)"
    by fastforce
  have Q: "Q ?h" "Q (bump mt_creates_whitelisted_update ?h)"
    using assms(2) by (rule frame [rotated], simp add: same_outbound_def)+
  then have Q1: "Q h1"
    using frame [OF remember_same Q(2), of "pci_mint info"] rm by simp
  have Q2: "Q (bump c h1)" for c
    using Q1 by (rule frame [rotated]) (simp add: same_outbound_def)
  have "on_create env info slot h = (if sh_confirm (hs_shared h) \<noteq> None then confirm_register env info slot ?h
      else if \<not> whitelist_contains (sh_whitelist (hs_shared h)) (pci_user info) then Some (None, ?h)
      else if \<not> new then Some (None, h1)
      else if too_big (hs_shared h1) info then Some (None, bump mt_skipped_dev_buy_update h1)
      else plan_and_fire env info slot (pci_dev_buy_lamports info) (sh_buy_lamports (hs_shared h1)) 0 h1)"
    using rm by (simp add: on_create_def Let_def)
  with assms(1) show ?thesis
    using Q Q1 Q2 plan_Q confirm_register_Q by (auto split: if_splits simp del: bump_keeps)
qed

lemma hot_on_buy_Q:
  assumes "hot_on_buy env buy slot h = Some (r, h')" "Q h"
  shows "Q h'"
proof (cases "sh_confirm (hs_shared h)")
  case None
  with assms show ?thesis
    by (simp add: hot_on_buy_def)
next
  case (Some params)
  let ?h = "seal_old_slots slot h"
  have Q: "Q ?h"
    using frame [OF seal_same assms(2)] .
  then have Q': "Q (?h\<lparr>hs_seen_buys := s, hs_pending := m\<rparr>)" "Q (bump c (?h\<lparr>hs_seen_buys := s, hs_pending := m\<rparr>))" for s m c
    by (rule frame [rotated], simp add: same_outbound_def)+
  show ?thesis
  proof (cases "\<exists>p. counted_buy buy slot ?h p")
    case False
    with hot_on_buy_ignored [OF Some] assms(1) Q show ?thesis
      by simp
  next
    case True
    then obtain p where p: "counted_buy buy slot ?h p"
      by blast
    with Some assms(1) obtain watch result where res: "Confirm.on_buy (sh_tables (hs_shared h)) params (pbi_buyer buy)
          (pbi_sol_lamports buy) (pbi_token_amount buy) (pbi_exact_sol buy) (pl_watch p) = Some (watch, result)"
      by (auto simp: hot_on_buy_def Let_def counted_buy_def)
    show ?thesis
      using assms(1) Q' plan_Q [OF _ Q'(1)] unfolding hot_on_buy_counted [OF Some p res]
      by (auto split: sum.splits Pass.splits)
  qed
qed

lemma hot_step_Q: "hot_step e h = Some (r, h') \<Longrightarrow> Q h \<Longrightarrow> Q h'"
  using on_create_Q hot_on_buy_Q by (cases e) auto

lemma hot_run_Q: "hot_run es h = Some (fs, h') \<Longrightarrow> Q h \<Longrightarrow> Q h'"
  by (induction es arbitrary: h fs) (auto dest: hot_step_Q)

end

definition on_paper :: "bodies \<Rightarrow> nat list \<Rightarrow> ProviderHandle list \<Rightarrow> HotSniper \<Rightarrow> bool" where
  "on_paper b ring ps h \<longleftrightarrow> sh_ghost_mode (hs_shared h) \<and> hs_bodies h = b \<and> hs_tx_ring h = ring \<and> sh_providers (hs_shared h) = ps"

interpretation paper: outbound "on_paper b ring ps" for b ring ps
  by unfold_locales (auto simp: on_paper_def same_outbound_def)

section \<open>Bodies in flight\<close>

text \<open>
  The holders of a body: the ring, the jobs in the queues, and \<open>hand\<close>, the bodies of jobs a
  sender has taken and not let go of yet.
\<close>

definition queued_bodies :: "ProviderHandle list \<Rightarrow> nat list" where
  "queued_bodies ps = concat (map (\<lambda>p. map job_base (ph_queue p)) ps)"

definition counted_holders :: "nat list \<Rightarrow> ProviderHandle list \<Rightarrow> nat list \<Rightarrow> bodies \<Rightarrow> bool" where
  "counted_holders ring ps hand h \<longleftrightarrow>
     (\<forall>a. count_list (ring @ queued_bodies ps @ hand) a \<le> bd_refs h a)
     \<and> (\<forall>a \<in> set (ring @ queued_bodies ps @ hand). a < bd_next h)"

lemma count_list_update:
  "i < length xs \<Longrightarrow> count_list (xs[i := x]) a + (if xs ! i = a then 1 else 0) = count_list xs a + (if x = a then 1 else 0)"
proof (induction xs arbitrary: i)
  case (Cons y ys)
  then show ?case
    by (cases i) (simp_all, (use Cons.IH in fastforce)?)
qed simp

lemma count_list_pos: "0 < count_list xs a \<longleftrightarrow> a \<in> set xs"
  by (metis count_list_0_iff gr0I less_numeral_extra(3))

lemma counted_holders_cong:
  assumes "\<And>a. count_list (ring' @ queued_bodies ps' @ hand') a = count_list (ring @ queued_bodies ps @ hand) a"
  shows "counted_holders ring' ps' hand' h = counted_holders ring ps hand h"
proof -
  have "set (ring' @ queued_bodies ps' @ hand') = set (ring @ queued_bodies ps @ hand)"
    by (intro set_eqI) (metis assms count_list_pos)
  with assms show ?thesis
    unfolding counted_holders_def by simp
qed

lemma fill_body_holders:
  assumes "fill_body ring cursor template h = Some (base, ring', cursor', h')" "counted_holders ring ps hand h"
  shows "counted_holders ring' ps (base # hand) h'"
    and "a \<in> set (queued_bodies ps @ hand) \<Longrightarrow> bd_buf h' a = bd_buf h a"
proof -
  let ?slot = "ring ! cursor" and ?xs = "queued_bodies ps @ hand"
  have cnt: "count_list ring a + count_list ?xs a \<le> bd_refs h a" and lt: "a \<in> set ring \<union> set ?xs \<Longrightarrow> a < bd_next h" for a
    using assms(2) by (auto simp: counted_holders_def add.assoc dest: spec [of _ a])
  have slot: "cursor < length ring"
    using assms(1) by (auto simp: fill_body_def Let_def get_at_def split: if_splits)
  then have "?slot \<in> set ring"
    by simp
  then have pos: "0 < count_list ring ?slot" "?slot < bd_next h"
    using lt by (auto simp: count_list_pos)
  show "counted_holders ring' ps (base # hand) h'"
    and "a \<in> set (queued_bodies ps @ hand) \<Longrightarrow> bd_buf h' a = bd_buf h a"
  proof -
    consider (reuse) tx where "bd_refs h ?slot = 1" "base = ?slot" "ring' = ring"
        "h' = arc_clone ?slot (h\<lparr>bd_buf := (bd_buf h)(?slot := tx)\<rparr>)"
      | (fresh) tx where "base = bd_next h" "ring' = ring[cursor := base]"
        "h' = arc_drop ?slot (arc_clone base (snd (arc_new tx h)))"
      using assms(1) slot by (auto simp: fill_body_def Let_def get_at_def arc_new_def split: if_splits)
    then have "counted_holders ring' ps (base # hand) h' \<and> (a \<in> set ?xs \<longrightarrow> bd_buf h' a = bd_buf h a)"
    proof cases
      case reuse
      have "?slot \<notin> set ?xs"
        using cnt [of ?slot] pos(1) reuse(1) count_list_pos [of ?xs ?slot] by linarith
      moreover have "count_list ring b + (count_list (queued_bodies ps) b + count_list hand b) \<le> bd_refs h b" for b
        using cnt [of b] by simp
      note this this [of ?slot]
      ultimately show ?thesis
        using reuse lt pos by (auto simp: counted_holders_def arc_clone_def)
    next
      case fresh
      have new: "bd_next h \<notin> set ring \<union> set ?xs"
        using lt by blast
      have "count_list (ring[cursor := bd_next h] @ queued_bodies ps @ bd_next h # hand) b \<le> bd_refs h' b" for b
        using cnt [of b] count_list_update [OF slot, of "bd_next h" b] new pos fresh
        by (auto simp: arc_clone_def arc_drop_def arc_new_def split: if_splits)
      moreover have "b < bd_next h'" if "b \<in> set (ring[cursor := bd_next h] @ queued_bodies ps @ bd_next h # hand)" for b
        using that lt [of b] set_update_subset_insert [of ring cursor "bd_next h"] fresh by (auto simp: arc_new_def)
      ultimately show ?thesis
        using fresh new by (auto simp: counted_holders_def arc_new_def)
    qed
    then show "counted_holders ring' ps (base # hand) h'" and "a \<in> set ?xs \<Longrightarrow> bd_buf h' a = bd_buf h a"
      by blast+
  qed
qed

lemma queued_bodies_simps [simp]:
  "queued_bodies [] = []" "queued_bodies (p # ps) = map job_base (ph_queue p) @ queued_bodies ps"
  "queued_bodies (ps @ qs) = queued_bodies ps @ queued_bodies qs"
  by (simp_all add: queued_bodies_def)

lemma try_send_holders:
  assumes "counted_holders ring (ps @ p # qs) (base # hand) h" "job_base job = base"
    and "try_send job p (arc_clone base h) = (p', h')"
  shows "counted_holders ring (ps @ p' # qs) (base # hand) h'"
proof (cases "ph_open p \<and> length (ph_queue p) < ph_depth p")
  case True
  then have "p' = p\<lparr>ph_queue := ph_queue p @ [job]\<rparr>" "h' = arc_clone base h"
    using assms(3) by (auto simp: try_send_def)
  then have "count_list (ring @ queued_bodies (ps @ p' # qs) @ base # hand) a =
      count_list (ring @ queued_bodies (ps @ p # qs) @ base # hand) a + (if a = base then 1 else 0)"
    "bd_refs h' a = bd_refs h a + (if a = base then 1 else 0)"
    "set (queued_bodies (ps @ p' # qs) @ base # hand) = set (queued_bodies (ps @ p # qs) @ base # hand)"
    "bd_next h' = bd_next h" for a
    using assms(2) by (auto simp: arc_clone_def)
  then show ?thesis
    using assms(1) unfolding counted_holders_def by (auto simp del: count_list.simps queued_bodies_simps)
next
  case False
  then have "p' = p\<lparr>ph_dropped_full := ph_dropped_full p + 1\<rparr>" "h' = h"
    using assms(2,3) by (auto simp: try_send_def arc_clone_def arc_drop_def)
  with assms(1) show ?thesis
    by (simp add: counted_holders_def)
qed

lemma queue_jobs_holders:
  "queue_jobs base counter dyn_tip ps h queued = Some (ps', h', queued') \<Longrightarrow>
     counted_holders ring (ps0 @ ps) (base # hand) h \<Longrightarrow>
     counted_holders ring (ps0 @ ps') (base # hand) h' \<and> set (queued_bodies ps) \<subseteq> set (queued_bodies ps')
     \<and> bd_buf h' = bd_buf h"
proof (induction ps arbitrary: ps0 h queued ps' queued')
  case (Cons p ps)
  let ?job = "job_for base counter dyn_tip p"
  have job: "job_base ?job = base"
    by (simp add: job_for_def)
  obtain p1 h1 where ts: "try_send ?job p (arc_clone base h) = (p1, h1)"
    by fastforce
  obtain ps1 where rest: "queue_jobs base counter dyn_tip ps h1 (queued + 1) = Some (ps1, h', queued')" and ps': "ps' = p1 # ps1"
    using Cons.prems(1) ts by (auto simp: Let_def job_for_def split: if_splits)
  have "counted_holders ring (ps0 @ [p1] @ ps) (base # hand) h1"
    using try_send_holders [OF Cons.prems(2) job ts] by simp
  moreover have "set (map job_base (ph_queue p)) \<subseteq> set (map job_base (ph_queue p1))" "bd_buf h1 = bd_buf h"
    using ts by (auto simp: try_send_def split: if_splits)
  ultimately show ?case
    using Cons.IH [OF rest, of "ps0 @ [p1]"] ps' by auto
qed simp

lemma arc_drop_holders: "counted_holders ring ps (base # hand) h \<Longrightarrow> counted_holders ring ps hand (arc_drop base h)"
  by (auto simp: counted_holders_def arc_drop_def split: if_splits dest: spec [of _ base])

text \<open>\<open>in_flight hand H b\<close>: the counts cover the holders, and the bodies of \<open>H\<close> are held and have the contents \<open>b\<close>.\<close>

definition in_flight :: "nat list \<Rightarrow> nat set \<Rightarrow> (nat \<Rightarrow> TxBuf) \<Rightarrow> HotSniper \<Rightarrow> bool" where
  "in_flight hand H b h \<longleftrightarrow>
     counted_holders (hs_tx_ring h) (sh_providers (hs_shared h)) hand (hs_bodies h)
     \<and> H \<subseteq> set (queued_bodies (sh_providers (hs_shared h)) @ hand) \<and> (\<forall>a \<in> H. bd_buf (hs_bodies h) a = b a)"

lemma fan_out_launch_in_flight:
  assumes "fan_out_launch info slot plan competition ta seed na h = Some (r, h')" "in_flight hand H b h"
  shows "in_flight hand H b h'"
proof -
  let ?ps = "sh_providers (hs_shared h)"
  obtain base ring cursor b1 dt ps b2 queued where
    fill: "fill_body (hs_tx_ring h) (hs_ring_cursor h) (tp_tx (hs_template h)) (hs_bodies h) = Some (base, ring, cursor, b1)"
    and q: "queue_jobs base (hs_launch_counter h) dt ?ps b1 0 = Some (ps, b2, queued)"
    and h': "hs_tx_ring h' = ring" "sh_providers (hs_shared h') = ps" "hs_bodies h' = arc_drop base b2"
    using assms(1) by (auto simp: fan_out_launch_def Let_def split: if_splits)
  have own: "counted_holders (hs_tx_ring h) ?ps hand (hs_bodies h)" and H: "H \<subseteq> set (queued_bodies ?ps @ hand)"
    and b: "\<forall>a \<in> H. bd_buf (hs_bodies h) a = b a"
    using assms(2) by (simp_all add: in_flight_def)
  have own1: "counted_holders ring ([] @ ?ps) (base # hand) b1"
    using fill_body_holders(1) [OF fill own] by simp
  have own2: "counted_holders ring ps (base # hand) b2" "set (queued_bodies ?ps) \<subseteq> set (queued_bodies ps)" "bd_buf b2 = bd_buf b1"
    using queue_jobs_holders [OF q own1] by simp_all
  have "bd_buf (hs_bodies h') a = b a" if "a \<in> H" for a
    using that H b own2(3) h'(3) fill_body_holders(2) [OF fill own, of a] by auto
  moreover have "H \<subseteq> set (queued_bodies ps @ hand)"
    using H own2(2) by auto
  ultimately show ?thesis
    unfolding in_flight_def h' using arc_drop_holders [OF own2(1)] h'(3) by simp
qed

interpretation flight: outbound "in_flight hand H b" for hand H b
proof
  show "in_flight hand H b h'" if "same_outbound h h'" "in_flight hand H b h" for h h'
    using that by (simp add: same_outbound_def in_flight_def)
qed (rule fan_out_launch_in_flight)

text \<open>
  The detect thread and the senders side by side. A sender takes the job at the head of its queue, and
  later lets go of its body; everything else that other threads do to the shared state (refreshed
  caches, the gate, the fill stream) keeps the queues.
\<close>

type_synonym system = "HotSniper \<times> nat list"

inductive sys_step :: "system \<Rightarrow> system \<Rightarrow> bool" where
  detect: "hot_step e h = Some (r, h') \<Longrightarrow> sys_step (h, hand) (h', hand)"
| receive: "sh_providers (hs_shared h) = ps @ p # qs \<Longrightarrow> ph_queue p = job # jobs \<Longrightarrow>
    sys_step (h, hand) (h\<lparr>hs_shared := (hs_shared h)\<lparr>sh_providers := ps @ p\<lparr>ph_queue := jobs\<rparr> # qs\<rparr>\<rparr>, job_base job # hand)"
| release: "a \<in> set hand \<Longrightarrow> sys_step (h, hand) (h\<lparr>hs_bodies := arc_drop a (hs_bodies h)\<rparr>, remove1 a hand)"
| refresh: "sh_providers sh = sh_providers (hs_shared h) \<Longrightarrow> sys_step (h, hand) (h\<lparr>hs_shared := sh\<rparr>, hand)"

inductive_cases sys_stepE: "sys_step (h, hand) s"

definition holders_ok :: "system \<Rightarrow> bool" where
  "holders_ok = (\<lambda>(h, hand). counted_holders (hs_tx_ring h) (sh_providers (hs_shared h)) hand (hs_bodies h))"

definition being_read :: "system \<Rightarrow> nat set" where
  "being_read = (\<lambda>(h, hand). set (queued_bodies (sh_providers (hs_shared h)) @ hand))"

lemma counted_holders_release:
  "a \<in> set hand \<Longrightarrow> counted_holders ring ps hand h \<Longrightarrow> counted_holders ring ps (remove1 a hand) (arc_drop a h)"
proof -
  assume a: "a \<in> set hand" and own: "counted_holders ring ps hand h"
  have "count_list (a # remove1 a hand) b = count_list hand b" for b
    using a by (induction hand) auto
  with own have "counted_holders ring ps (a # remove1 a hand) h"
    by (subst counted_holders_cong [of ring ps "a # remove1 a hand" ring ps hand]) simp_all
  then show ?thesis
    by (rule arc_drop_holders)
qed

lemma sys_step_holders:
  assumes "sys_step s s'" "holders_ok s"
  shows "holders_ok s'" and "a \<in> being_read s \<Longrightarrow> bd_buf (hs_bodies (fst s')) a = bd_buf (hs_bodies (fst s)) a"
proof -
  have "holders_ok s' \<and> (\<forall>a \<in> being_read s. bd_buf (hs_bodies (fst s')) a = bd_buf (hs_bodies (fst s)) a)"
    using assms
  proof (cases rule: sys_step.cases)
    case (detect e h r h' hand)
    have "in_flight hand (being_read s) (bd_buf (hs_bodies h)) h"
      using assms(2) detect by (simp add: in_flight_def holders_ok_def being_read_def)
    then have "in_flight hand (being_read s) (bd_buf (hs_bodies h)) h'"
      using flight.hot_step_Q [OF detect(3)] by blast
    then show ?thesis
      using detect by (simp add: in_flight_def holders_ok_def)
  next
    case (receive h ps p qs job jobs hand)
    have "counted_holders (hs_tx_ring h) (ps @ p\<lparr>ph_queue := jobs\<rparr> # qs) (job_base job # hand) (hs_bodies h)
        = counted_holders (hs_tx_ring h) (ps @ p # qs) hand (hs_bodies h)"
      by (rule counted_holders_cong) (simp add: receive(4))
    with receive show ?thesis
      using assms(2) by (simp add: holders_ok_def)
  next
    case (release a hand h)
    then show ?thesis
      using assms(2) counted_holders_release by (simp add: holders_ok_def)
  next
    case (refresh sh h hand)
    then show ?thesis
      using assms(2) by (simp add: holders_ok_def)
  qed
  then show "holders_ok s'" and "a \<in> being_read s \<Longrightarrow> bd_buf (hs_bodies (fst s')) a = bd_buf (hs_bodies (fst s)) a"
    by blast+
qed

lemma into_hot_holders:
  assumes "queued_bodies (sh_providers sh) = []"
  shows "holders_ok (into_hot today sh t, [])"
proof -
  have "count_list [0 ..< n] a = (if a < n then 1 else 0)" for n a
    by (induction n) auto
  with assms show ?thesis
    by (simp add: holders_ok_def counted_holders_def into_hot_def)
qed

lemma reachable_holders:
  "sys_step\<^sup>*\<^sup>* (into_hot today sh t, []) s \<Longrightarrow> queued_bodies (sh_providers sh) = [] \<Longrightarrow> holders_ok s"
  by (induction rule: rtranclp_induct) (auto dest: sys_step_holders(1) into_hot_holders)

section \<open>Properties of a run\<close>

lemma priced_plan_metrics [simp]: "priced_plan (sh\<lparr>sh_metrics := m\<rparr>) = priced_plan sh"
  by (intro ext) (simp add: priced_plan_def cong: if_cong)

lemma too_big_metrics [simp]: "too_big (sh\<lparr>sh_metrics := m\<rparr>) = too_big sh"
  by (intro ext) (simp add: too_big_def)

lemma fire_launch_providers:
  assumes "hot_ok (he_find_pda env) h" "pda_ok (he_find_pda env)" "wf_create info" "\<not> sh_ghost_mode (hs_shared h)"
    and "fire_launch env info slot plan competition h = Some (Some f, h')"
  shows "\<exists>base tip. sh_providers (hs_shared h') =
    map (\<lambda>p. handed (job_for base (hs_launch_counter h + 1) tip p) p) (sh_providers (hs_shared h))"
proof -
  obtain na nv np seed ta vault h1 where "commit_launch env info slot plan competition ta seed na h1 = Some (Some f, h')"
    "hot_ok (he_find_pda env) h1" "hs_shared h1 = (hs_shared h)\<lparr>sh_gate := snd (may_fire (sh_gate (hs_shared h))), sh_nonces := np\<rparr>"
    "prepared env info plan h h1 na nv seed ta vault"
    using assms(1-3,5) by (rule fire_launch_commit)
  then show ?thesis
    using commit_launch_fired [of "he_find_pda env" h1 env info slot plan competition ta seed na f h'] assms(4)
    by (auto simp: prepared_def Let_def)
qed

text \<open>The create of the example, seen for the first time, fires.\<close>

lemma ex_create:
  "\<exists>f h' base tip. on_create ex_env ex_info slot (ex_hot ghost) = Some (Some f, h')
     \<and> (\<not> ghost \<longrightarrow> sh_providers (hs_shared h') = map (\<lambda>p. handed (job_for base 1 tip p) p) [ex_provider, ex_provider])"
proof -
  let ?h = "(bump mt_creates_whitelisted_update (bump mt_creates_seen_update (ex_hot ghost)))\<lparr>hs_seen := {ex_key 1}\<rparr>"
  obtain plan where plan: "priced_plan (ex_shared ghost) 2000000000 1500000000 = Some plan" "bp_amount plan = 1500000000"
    using fee_divisor_nonzero [OF mainnet_fees_ok] by (simp add: priced_plan_def ex_shared_def plan_exact_sol_in_def Let_def)
  have "hs_seen (ex_hot ghost) = {}" "sh_confirm (ex_shared ghost) = None" "pci_mint ex_info = ex_key 1"
    "whitelist_contains (sh_whitelist (ex_shared ghost)) k" "\<not> too_big (ex_shared ghost) ex_info"
    "pci_dev_buy_lamports ex_info = 2000000000" "sh_buy_lamports (ex_shared ghost) = 1500000000" for k
    by (simp_all add: ex_hot_def into_hot_def ex_shared_def ex_info_def whitelist_contains_def too_big_def)
  then have "on_create ex_env ex_info slot (ex_hot ghost) = fire_launch ex_env ex_info slot plan 0 ?h"
    using plan by (simp add: on_create_def Let_def ex_hot_fields remember_def plan_and_fire_def)
  moreover have ok: "hot_ok (he_find_pda ex_env) ?h"
    using ex_hot_ok' by simp
  then obtain f h' where f: "fire_launch ex_env ex_info slot plan 0 ?h = Some (Some f, h')"
    using ex_fires [OF ok, where ghost = ghost and slot = slot and plan = plan and competition = 0]
    by (auto simp: ex_hot_fields) (auto simp: ex_shared_def)
  moreover have "sh_ghost_mode (hs_shared ?h) = ghost"
    by (simp add: ex_hot_fields ex_shared_def)
  ultimately show ?thesis
    using fire_launch_providers [OF ok ex_event_ok(2) ex_wf _ f] by (auto simp: ex_hot_fields)
qed

text \<open>
  C2: Over any run of creates and buys with at most fifty thousand different mints, whichever mode
  is configured, no mint is bought twice, although the same create is decoded again from later
  shreds and a lost claim forgets the mint.
\<close>

theorem mint_bought_once:
  assumes "hot_run es (into_hot today sh t) = Some (fs, h)" "card (\<Union> (created_mint ` set es)) \<le> 50000"
  shows "distinct (map fl_mint fs)"
proof -
  have "finite (created_mint e)" for e
    by (cases e) auto
  then have "finite (\<Union> (created_mint ` set es))"
    by simp
  then show ?thesis
    using hot_run_once [OF assms(1) into_hot_once _ assms(2)] by simp
qed

theorem mint_bought_once_witness:
  "\<exists>fs h. hot_run [CreateEvent ex_env ex_info 7, CreateEvent ex_env ex_info 8] (ex_hot False) = Some (fs, h)
     \<and> fs \<noteq> [] \<and> distinct (map fl_mint fs)"
proof -
  let ?es = "[CreateEvent ex_env ex_info 7, CreateEvent ex_env ex_info 8]"
  obtain fs h where run: "hot_run ?es (ex_hot False) = Some (fs, h)"
    using hot_run_returns [OF ex_hot_ok' ex_event_ok(2), of ?es False] ex_event_ok(1) by auto
  moreover have "fs \<noteq> []"
    using run ex_create [of 7 False] by (auto split: option.splits)
  moreover have "distinct (map fl_mint fs)"
    using run unfolding ex_hot_def by (rule mint_bought_once) simp
  ultimately show ?thesis
    by blast
qed

text \<open>
  C31: Paper trading sends nothing: in ghost mode no run of creates and buys, whatever fires in it,
  queues a job with a provider, drops one, or touches a body.
\<close>

theorem ghost_sends_nothing:
  assumes "hot_run es h = Some (fs, h')" "sh_ghost_mode (hs_shared h)"
  shows "sh_providers (hs_shared h') = sh_providers (hs_shared h) \<and> hs_bodies h' = hs_bodies h
    \<and> hs_tx_ring h' = hs_tx_ring h"
  using paper.hot_run_Q [OF assms(1), of "hs_bodies h" "hs_tx_ring h" "sh_providers (hs_shared h)"] assms(2)
  by (simp add: on_paper_def)

theorem ghost_sends_nothing_witness:
  "\<exists>f fs h. hot_run [CreateEvent ex_env ex_info 7] (ex_hot True) = Some (f # fs, h)
     \<and> sh_providers (hs_shared h) = [ex_provider, ex_provider]"
proof -
  obtain f h where "on_create ex_env ex_info 7 (ex_hot True) = Some (Some f, h)"
    using ex_create [of 7 True] by blast
  then have run: "hot_run [CreateEvent ex_env ex_info 7] (ex_hot True) = Some ([f], h)"
    by simp
  moreover have "sh_ghost_mode (hs_shared (ex_hot True))"
    by (simp add: ex_hot_fields ex_shared_def)
  ultimately show ?thesis
    using ghost_sends_nothing [OF run] by (intro exI [of _ f] exI [of _ "[]"] exI [of _ h]) (simp add: ex_hot_fields)
qed

text \<open>
  C6: A body is not overwritten while it is read. In every interleaving of launches, senders
  taking jobs and letting go of bodies, and refreshes, the contents of a body that a queued job or
  a sender still refers to do not change, although the bodies of the ring are used again and
  again.
\<close>

theorem body_kept_while_read:
  assumes "sys_step\<^sup>*\<^sup>* (into_hot today sh t, []) s" "queued_bodies (sh_providers sh) = []"
    and "sys_step s s'" "a \<in> being_read s"
  shows "bd_buf (hs_bodies (fst s')) a = bd_buf (hs_bodies (fst s)) a"
  using reachable_holders [OF assms(1,2)] assms(3,4) sys_step_holders(2) by blast

theorem body_kept_while_read_witness:
  "\<exists>h h' a. sys_step\<^sup>*\<^sup>* (ex_hot False, []) (h, []) \<and> sys_step (h, []) (h', [a])
     \<and> a \<in> being_read (h, []) \<and> bd_buf (hs_bodies h') a = bd_buf (hs_bodies h) a"
proof -
  obtain f h base tip where on: "on_create ex_env ex_info 7 (ex_hot False) = Some (Some f, h)"
    and ps: "sh_providers (hs_shared h) = map (\<lambda>p. handed (job_for base 1 tip p) p) [ex_provider, ex_provider]"
    using ex_create [of 7 False] by auto
  define job where "job = job_for base 1 tip ex_provider"
  have ps': "sh_providers (hs_shared h) = [] @ ex_provider\<lparr>ph_queue := [job]\<rparr> # [handed job ex_provider]"
    using ps by (simp add: job_def handed_eq) (simp add: ex_provider_def)
  have "sys_step (ex_hot False, []) (h, [])"
    by (rule detect [of "CreateEvent ex_env ex_info 7"]) (simp add: on)
  then have reach: "sys_step\<^sup>*\<^sup>* (into_hot 20000 (ex_shared False) ex_template, []) (h, [])"
    by (simp add: ex_hot_def)
  have step: "sys_step (h, []) (h\<lparr>hs_shared := (hs_shared h)\<lparr>sh_providers := [] @ ex_provider\<lparr>ph_queue := []\<rparr> # [handed job ex_provider]\<rparr>\<rparr>, [job_base job])"
    using receive [OF ps', of job "[]" "[]"] by simp
  have "job_base job \<in> being_read (h, [])" "queued_bodies (sh_providers (ex_shared False)) = []"
    using ps' by (simp_all add: being_read_def ex_shared_def ex_provider_def)
  note kept = this(1) body_kept_while_read [OF reach this(2) step this(1)]
  show ?thesis
    unfolding ex_hot_def using reach step kept unfolding fst_conv by blast
qed

lemma nonce_take_some_iff:
  assumes "pool_inv np" "unat (np_next np) + length (np_accounts np) \<le> 2 ^ 64"
  shows "(\<exists>nonce np'. nonce_take np = Some (Some nonce, np')) \<longleftrightarrow> (\<exists>v \<in> set (np_values np). v \<noteq> zero_key)"
proof -
  obtain r np' where r: "nonce_take np = Some (r, np')"
    using nonces.draw_defined [OF assms(1)] by fastforce
  show ?thesis
  proof (cases r)
    case None
    with r nonce_take_none [OF assms] show ?thesis
      by auto
  next
    case (Some nonce)
    obtain a v where "nonce = (a, v)"
      by fastforce
    with r Some nonce_take_pair [OF assms(1), of a v np'] have "v \<in> set (np_values np) \<and> v \<noteq> zero_key"
      by (auto simp: pool_holds_def dest: set_zip_rightD)
    with r Some show ?thesis
      by auto
  qed
qed

text \<open>
  C5: When a launch fires. In a well-formed state \<open>fire_launch\<close> returns, and it fires exactly when the
  gate lets it through and the claim is won, a seller listens unless ghost mode or the
  configuration waives it, some nonce of the pool is known, and, outside ghost mode, there is a
  provider.
\<close>

theorem launch_fires_iff:
  assumes "hot_ok (he_find_pda env) h" "pda_ok (he_find_pda env)" "wf_create info"
  defines "sh \<equiv> hs_shared h"
  assumes "unat (np_next (sh_nonces sh)) + length (np_accounts (sh_nonces sh)) \<le> 2 ^ 64" "length (sh_providers sh) < 2 ^ 64"
  shows "\<exists>r h'. fire_launch env info slot plan competition h = Some (r, h')
    \<and> (r \<noteq> None \<longleftrightarrow> fst (may_fire (sh_gate sh)) \<and> fst (claim (he_others env (snd (may_fire (sh_gate sh)))))
        \<and> (sh_ghost_mode sh \<or> \<not> sh_require_seller sh \<or> sh_seller_listening sh)
        \<and> (\<exists>v \<in> set (np_values (sh_nonces sh)). v \<noteq> zero_key)
        \<and> (sh_ghost_mode sh \<or> sh_providers sh \<noteq> []))"
proof -
  have "pool_inv (sh_nonces sh)"
    using assms(1) by (simp add: sh_def hot_ok_def config_ok_def nonces_ok_def)
  then have n: "(\<exists>nonce np. nonce_take (sh_nonces sh) = Some (Some nonce, np)) \<longleftrightarrow> (\<exists>v \<in> set (np_values (sh_nonces sh)). v \<noteq> zero_key)"
    using assms(5) by (rule nonce_take_some_iff)
  have "of_nat (length (sh_providers sh)) = (0 :: u64) \<longleftrightarrow> sh_providers sh = []"
    using assms(6) dvd_imp_le [of "2 ^ 64" "length (sh_providers sh)"] by (auto simp: word_of_nat_eq_0_iff)
  then show ?thesis
    using fire_launch_some [OF assms(1-3), of slot plan competition] n unfolding sh_def by metis
qed


text \<open>A lost claim forgets the mint and nothing else that the deduplication reads.\<close>

lemma lost_claim:
  assumes "hot_ok (he_find_pda env) h" "pda_ok (he_find_pda env)" "wf_create info"
    and "fst (may_fire (sh_gate (hs_shared h)))" "sh_seller_listening (hs_shared h)"
    and "nonce_take (sh_nonces (hs_shared h)) = Some (Some nonce, np)"
    and "\<not> fst (claim (he_others env (snd (may_fire (sh_gate (hs_shared h))))))"
  shows "\<exists>h'. fire_launch env info slot plan competition h = Some (None, h') \<and> hs_seen h' = hs_seen h - {pci_mint info}"
proof -
  obtain g where m: "may_fire (sh_gate (hs_shared h)) = (True, g)"
    using assms(4) by (cases "may_fire (sh_gate (hs_shared h))") auto
  obtain na nv where n: "nonce = (na, nv)"
    by fastforce
  let ?h = "set_gate g h\<lparr>hs_shared := hs_shared h\<lparr>sh_gate := g, sh_nonces := np\<rparr>\<rparr>"
  have ok: "nonces_ok np" "wf_key na" "wf_key nv"
    using nonce_take_ok [of "sh_nonces (hs_shared h)"] assms(1,6) n by (auto simp: hot_ok_def config_ok_def)
  then have "hot_ok (he_find_pda env) ?h"
    using assms(1) by (simp add: hot_ok_def config_ok_def)
  from prepare_launch_eq [OF this assms(2,3) ok(2,3), of slot plan competition]
  obtain ta seed h1 where "prepare_launch env info slot plan competition na nv ?h = commit_launch env info slot plan competition ta seed na h1"
    "hs_seen h1 = hs_seen h" "sh_gate (hs_shared h1) = g"
    by (auto simp: Let_def)
  then show ?thesis
    using assms(5-7) m n by (auto simp: fire_launch_def Let_def commit_launch_def split: prod.split)
qed

text \<open>The creators registered today are not fresh again.\<close>

lemma dev_is_fresh_remembers:
  "dev_is_fresh tb today dev s = (fresh, s') \<Longrightarrow> dev \<in> seen_devs s' \<and> day s' = today"
  by (auto simp: dev_is_fresh_def Let_def split: if_splits)

lemma dev_is_fresh_again: "dev \<in> seen_devs s \<Longrightarrow> day s = today \<Longrightarrow> fst (dev_is_fresh tb today dev s) = False"
  by (simp add: dev_is_fresh_def Let_def)

lemma remember_new: "remember mint h = (True, h1) \<Longrightarrow> hs_session h1 = hs_session h \<and> hs_pending h1 = hs_pending h"
  by (auto simp: remember_def Let_def split: if_splits)

lemma remember_old: "remember mint h = (False, h1) \<Longrightarrow> mint \<in> hs_seen h1 \<and> hs_session h1 = hs_session h \<and> hs_pending h1 = hs_pending h"
  by (auto simp: remember_def Let_def split: if_splits)

lemma confirm_register_session:
  assumes "confirm_register env info slot h = Some (r, h')" "remember (pci_mint info) (seal_old_slots slot h) = (True, h1)"
  shows "pci_creator info \<in> seen_devs (hs_session h') \<and> day (hs_session h') = he_today env"
proof -
  obtain fresh s where f: "dev_is_fresh (sh_tables (hs_shared h1)) (he_today env) (pci_creator info) (hs_session h1) = (fresh, s)"
    by fastforce
  have "hs_session h' = s"
    using assms f by (auto simp: confirm_register_def Let_def watch_launch_def split: option.splits if_splits
        dest!: plan_and_fire_frame [unfolded fire_frame_def])
  with dev_is_fresh_remembers [OF f] show ?thesis
    by simp
qed

lemma same_config_confirm: "same_config a b \<Longrightarrow> sh_confirm b = sh_confirm a"
  unfolding same_config_def by (cases a; cases b) simp

lemma confirm_register_confirm:
  "confirm_register env info slot h = Some (r, h') \<Longrightarrow> sh_confirm (hs_shared h') = sh_confirm (hs_shared h)"
  by (auto simp: confirm_register_def remember_def Let_def watch_launch_def split: option.splits if_splits prod.splits
      dest!: plan_and_fire_frame [unfolded fire_frame_def] same_config_confirm)

text \<open>What the session knows of a deployer, in confirm mode, is kept for the day.\<close>

definition knows :: "pubkey \<Rightarrow> u64 \<Rightarrow> HotSniper \<Rightarrow> bool" where
  "knows dev today h \<longleftrightarrow> dev \<in> seen_devs (hs_session h) \<and> day (hs_session h) = today \<and> sh_confirm (hs_shared h) \<noteq> None"

lemma confirm_register_knows:
  assumes "confirm_register env info slot h = Some (r, h')" "knows dev (he_today env) h"
  shows "knows dev (he_today env) h'"
proof -
  obtain new h1 where rm: "remember (pci_mint info) (seal_old_slots slot h) = (new, h1)"
    by fastforce
  have s1: "hs_session h1 = hs_session h"
    using rm remember_new [of "pci_mint info"] remember_old [of "pci_mint info"] by (cases new; fastforce)
  obtain fresh s where f: "dev_is_fresh (sh_tables (hs_shared h1)) (he_today env) (pci_creator info) (hs_session h1) = (fresh, s)"
    by fastforce
  have "hs_session h' = (if new then s else hs_session h)"
    using assms(1) rm f s1 by (auto simp: confirm_register_def Let_def watch_launch_def split: option.splits if_splits
        dest!: plan_and_fire_frame [unfolded fire_frame_def])
  moreover have "dev \<in> seen_devs s \<and> day s = he_today env"
    using f assms(2) s1 by (auto simp: dev_is_fresh_def Let_def knows_def split: if_splits)
  ultimately show ?thesis
    using assms(2) confirm_register_confirm [OF assms(1)] by (simp add: knows_def)
qed

lemma hot_on_buy_knows:
  assumes "hot_on_buy env buy slot h = Some (r, h')" "knows dev today h"
  shows "knows dev today h'"
proof -
  obtain params where params: "sh_confirm (hs_shared h) = Some params"
    using assms(2) by (auto simp: knows_def)
  let ?h = "seal_old_slots slot h"
  have same: "knows dev today (?h\<lparr>hs_seen_buys := s, hs_pending := m\<rparr>)" "knows dev today (bump c (?h\<lparr>hs_seen_buys := s, hs_pending := m\<rparr>))"
    "knows dev today ?h" for s m c
    using assms(2) by (simp_all add: knows_def)
  have fire: "knows dev today h'" if "plan_and_fire env info slot prior budget n h1 = Some (r, h')" "knows dev today h1" for info prior budget n h1
    using plan_and_fire_frame [OF that(1)] that(2) same_config_confirm unfolding fire_frame_def knows_def by metis
  show ?thesis
  proof (cases "\<exists>p. counted_buy buy slot ?h p")
    case False
    with hot_on_buy_ignored [OF params] assms(1) same(3) show ?thesis
      by simp
  next
    case True
    then obtain p where p: "counted_buy buy slot ?h p"
      by blast
    with params assms(1) obtain watch result where res: "Confirm.on_buy (sh_tables (hs_shared h)) params (pbi_buyer buy)
          (pbi_sol_lamports buy) (pbi_token_amount buy) (pbi_exact_sol buy) (pl_watch p) = Some (watch, result)"
      by (auto simp: hot_on_buy_def Let_def counted_buy_def)
    show ?thesis
      using assms(1) same fire [OF _ same(1)] unfolding hot_on_buy_counted [OF params p res]
      by (auto split: sum.splits Pass.splits)
  qed
qed

fun event_day :: "hot_event \<Rightarrow> u64 option" where
  "event_day (CreateEvent env info slot) = Some (he_today env)"
| "event_day (BuyEvent env buy slot) = None"

lemma on_create_confirm:
  "on_create env info slot h = Some (r, h') \<Longrightarrow> sh_confirm (hs_shared h) \<noteq> None \<Longrightarrow>
     confirm_register env info slot (bump mt_creates_seen_update h) = Some (r, h')"
  by (auto simp: on_create_def Let_def)

lemma hot_run_knows:
  "hot_run es h = Some (fs, h') \<Longrightarrow> \<forall>e \<in> set es. event_day e \<in> {None, Some today} \<Longrightarrow> knows dev today h \<Longrightarrow> knows dev today h'"
proof (induction es arbitrary: h fs)
  case (Cons e es)
  then obtain r h1 fs1 where step: "hot_step e h = Some (r, h1)" and run: "hot_run es h1 = Some (fs1, h')"
    by auto
  have "knows dev today h1"
  proof (cases e)
    case (CreateEvent env info slot)
    then have "confirm_register env info slot (bump mt_creates_seen_update h) = Some (r, h1)" "he_today env = today"
      using step on_create_confirm Cons.prems by (simp_all add: knows_def)
    with Cons.prems(3) show ?thesis
      using confirm_register_knows [of env info slot "bump mt_creates_seen_update h" r h1 dev] by (simp add: knows_def)
  next
    case (BuyEvent env buy slot)
    with step Cons.prems(3) show ?thesis
      using hot_on_buy_knows by simp
  qed
  with Cons.IH [OF run] Cons.prems(2) show ?case
    by simp
qed simp

lemma known_not_registered:
  assumes "confirm_register env info slot h = Some (r, h')" "knows (pci_creator info) (he_today env) h"
  shows "r = None \<and> (\<forall>k p. hs_pending h' k = Some p \<longrightarrow> hs_pending h k = Some p)"
proof -
  obtain new h1 where rm: "remember (pci_mint info) (seal_old_slots slot h) = (new, h1)"
    by fastforce
  have h1: "hs_pending h1 = hs_pending (seal_old_slots slot h)" "hs_session h1 = hs_session h"
    using rm remember_new [of "pci_mint info"] remember_old [of "pci_mint info"] by (cases new; fastforce)+
  then have "\<not> fst (dev_is_fresh (sh_tables (hs_shared h1)) (he_today env) (pci_creator info) (hs_session h1))"
    using assms(2) by (simp add: knows_def dev_is_fresh_again)
  then have "r = None \<and> hs_pending h' = hs_pending h1"
    using assms(1) rm by (auto simp: confirm_register_def Let_def skip_counter_def split: if_splits prod.splits)
  then show ?thesis
    using h1(1) seal_old_slots_pending by metis
qed

text \<open>
  C30: A forgotten launch is not retried in confirm mode. Once a create has been taken up, every later
  create of the same deployer on the same day, and so also the same create seen again, buys nothing and
  puts nothing under watch, whatever creates and buys come in between: also when in between the launch lost
  its claim to another detect thread, at the create or at a confirming buy, and its mint was
  forgotten for a retry. The deployer is no longer fresh.
\<close>

theorem lost_claim_not_retried:
  assumes "on_create env info slot h = Some (r0, h1)" "sh_confirm (hs_shared h) \<noteq> None" "pci_mint info \<notin> hs_seen h"
    and "hot_run es h1 = Some (fs, h2)" "\<forall>e \<in> set es. event_day e \<in> {None, Some (he_today env)}"
    and "on_create env' info' slot' h2 = Some (r, h3)" "he_today env' = he_today env" "pci_creator info' = pci_creator info"
  shows "r = None \<and> (\<forall>mint p. hs_pending h3 mint = Some p \<longrightarrow> hs_pending h2 mint = Some p)"
proof -
  let ?h = "bump mt_creates_seen_update h" and ?h2 = "bump mt_creates_seen_update h2"
  have c: "confirm_register env info slot ?h = Some (r0, h1)"
    by (rule on_create_confirm [OF assms(1,2)])
  obtain new h' where rm: "remember (pci_mint info) (seal_old_slots slot ?h) = (new, h')"
    by fastforce
  have new
    using rm assms(3) by (cases new) (auto simp: remember_def Let_def split: if_splits)
  then have "knows (pci_creator info) (he_today env) h1"
    using confirm_register_session [OF c] rm confirm_register_confirm [OF c] assms(2) by (simp add: knows_def)
  then have k2: "knows (pci_creator info') (he_today env') h2"
    using hot_run_knows [OF assms(4,5)] assms(7,8) by simp
  then have "confirm_register env' info' slot' ?h2 = Some (r, h3)"
    using on_create_confirm [OF assms(6)] by (simp add: knows_def)
  moreover have "knows (pci_creator info') (he_today env') ?h2"
    using k2 by (simp add: knows_def)
  ultimately show ?thesis
    using known_not_registered by fastforce
qed

theorem launch_fires_iff_witness:
  "\<exists>f h'. fire_launch ex_env ex_info 7 ex_plan 0 (ex_hot False) = Some (Some f, h')"
proof -
  have "unat (np_next (sh_nonces (ex_shared False))) + length (np_accounts (sh_nonces (ex_shared False))) \<le> 2 ^ 64"
    "length (sh_providers (ex_shared False)) < 2 ^ 64"
    by (simp_all add: ex_shared_def)
  moreover have "fst (may_fire (sh_gate (ex_shared False)))"
    "fst (claim (he_others ex_env (snd (may_fire (sh_gate (ex_shared False))))))"
    "sh_seller_listening (ex_shared False)" "np_values (sh_nonces (ex_shared False)) = [ex_key 81]"
    by (simp_all add: ex_shared_def ex_gate_def may_fire_def claim_def ex_env_def)
  ultimately show ?thesis
    using launch_fires_iff [OF ex_hot_ok' ex_event_ok(2) ex_wf, of False 7 ex_plan 0] ex_key_nonzero [of 81]
    by (auto simp: ex_hot_fields)
qed

lemma retain_empty [simp]: "retain P (\<lambda>x. None) = (\<lambda>x. None)"
  by (simp add: retain_def)

definition ex_rival :: hot_env where
  "ex_rival = ex_env\<lparr>he_others := (\<lambda>g. g\<lparr>busy := True\<rparr>)\<rparr>"

definition ex_confirm_shared :: Shared where
  "ex_confirm_shared = (ex_shared False)\<lparr>sh_confirm := Some default_params, sh_fire_on_create := True,
     sh_tables := \<lparr>DEVS = Some Map.empty, WATCH = None, RUG = None\<rparr>\<rparr>"

theorem lost_claim_not_retried_witness:
  "\<exists>h1 fs h2 h3. on_create ex_rival ex_info 7 (into_hot 20000 ex_confirm_shared ex_template) = Some (None, h1)
     \<and> pci_mint ex_info \<notin> hs_seen h1 \<and> hot_run [CreateEvent ex_env ex_info 7] h1 = Some (fs, h2)
     \<and> on_create ex_env ex_info 8 h2 = Some (None, h3)"
proof -
  let ?h = "into_hot 20000 ex_confirm_shared ex_template" and ?pda = "he_find_pda ex_rival"
  have env: "?pda = he_find_pda ex_env" "he_today ex_rival = 20000" "he_today ex_env = 20000"
    by (simp_all add: ex_rival_def ex_env_def)
  have sh: "sh_gate ex_confirm_shared = ex_gate" "sh_nonces ex_confirm_shared = sh_nonces (ex_shared False)"
    "sh_seller_listening ex_confirm_shared" "sh_confirm ex_confirm_shared = Some default_params"
    "sh_fire_on_create ex_confirm_shared" "sh_tables ex_confirm_shared = \<lparr>DEVS = Some Map.empty, WATCH = None, RUG = None\<rparr>"
    "sh_buy_lamports ex_confirm_shared = 1500000000"
    by (simp_all add: ex_confirm_shared_def ex_shared_def)
  have "config_ok ex_confirm_shared"
    using ex_config_ok [of False] by (simp add: config_ok_def ex_confirm_shared_def default_params_eq)
  then have ok: "hot_ok ?pda ?h"
    by (rule into_hot_ok [OF _ ex_template_ok]) (simp add: ex_confirm_shared_def ex_shared_def)
  have info: "pci_mint ex_info = ex_key 1" "pci_creator ex_info = ex_key 4" "pci_dev_buy_lamports ex_info = 2000000000"
    by (simp_all add: ex_info_def)
  let ?h1 = "(bump mt_creates_seen_update ?h)\<lparr>hs_pending := Map.empty, hs_seen_buys := {}, hs_cur_slot := 7, hs_seen := {ex_key 1}, hs_session := \<lparr>seen_devs = {ex_key 4}, day = 20000\<rparr>\<rparr>"
  obtain plan where plan: "priced_plan ex_confirm_shared 2000000000 1500000000 = Some plan" "bp_amount plan = 1500000000"
    using fee_divisor_nonzero [OF mainnet_fees_ok]
    by (simp add: priced_plan_def ex_confirm_shared_def ex_shared_def plan_exact_sol_in_def Let_def)
  have skip: "skip_counter env' ex_info True (ex_confirm_shared\<lparr>sh_metrics := m\<rparr>) = None" for env' m
    by (simp add: skip_counter_def ex_confirm_shared_def ex_shared_def ex_info_def too_big_def)
  have h: "hs_seen ?h = {}" "hs_shared ?h = ex_confirm_shared" "hs_session ?h = \<lparr>seen_devs = {}, day = 20000\<rparr>"
    "hs_pending ?h = Map.empty" "hs_cur_slot ?h = 0" "hs_seen_buys ?h = {}"
    by (simp_all add: into_hot_def)
  have "on_create ex_rival ex_info 7 ?h = fire_launch ex_rival ex_info 7 plan 0 ?h1"
    using plan env sh skip by (simp add: on_create_def confirm_register_def Let_def remember_def seal_old_slots_def
        dev_is_fresh_def plan_and_fire_def info h)
  moreover have "hot_ok ?pda ?h1"
    using ok by (simp add: hot_ok_def)
  note lost = lost_claim [OF this _ ex_wf, of _ _ 7 plan 0]
  have "fst (may_fire ex_gate)" "\<not> fst (claim (he_others ex_rival (snd (may_fire ex_gate))))"
    by (simp_all add: ex_gate_def may_fire_def claim_def ex_rival_def)
  then obtain h1 where h1: "fire_launch ex_rival ex_info 7 plan 0 ?h1 = Some (None, h1)" "hs_seen h1 = {}"
    using lost ex_event_ok(2) sh ex_nonce [of False] by (fastforce simp: env h info)
  ultimately have first: "on_create ex_rival ex_info 7 ?h = Some (None, h1)"
    by simp
  have "hot_ok (he_find_pda ex_env) h1"
    using on_create_returns [OF ok _ ex_wf, of 7] ex_event_ok(2) env first by simp
  then obtain fs h2 where run: "hot_run [CreateEvent ex_env ex_info 7] h1 = Some (fs, h2)" "hot_ok (he_find_pda ex_env) h2"
    using hot_run_returns [OF _ ex_event_ok(2), of h1 "[CreateEvent ex_env ex_info 7]"] ex_wf by (auto simp del: hot_run.simps)
  then obtain r h3 where second: "on_create ex_env ex_info 8 h2 = Some (r, h3)"
    using on_create_returns [OF _ ex_event_ok(2) ex_wf, of h2 8] by (auto simp: returns_def)
  have "r = None"
    using lost_claim_not_retried [OF first _ _ run(1) _ second] h sh env by simp
  with first second h1(2) run(1) show ?thesis
    by (auto simp del: hot_run.simps)
qed

end
