(* ===== verification/Forwarder.thy ===== *)
theory Forwarder
  imports Reconstruct Launch
begin

text \<open>
  \<open>proxy/src/forwarder.rs\<close>: the relay threads, which hand every batch to the reconstructor, count
  duplicates and forward the rest, and the reconstructor thread itself, which turns batches into
  entries, runs them past the sniper and feeds the subscribers.

  What other threads and the clock contribute is an argument: before each transaction an
  environment gives the time, the numbers of subscribers and what other threads did to the shared
  state of the sniper. A broadcast feed is the list of the messages sent on it.
\<close>

section \<open>Messages\<close>

record PbEntry =
  pe_slot :: u64
  pe_entries :: bytes

record PbPumpCreate =
  pc_slot :: u64
  pc_mint :: bytes
  pc_bonding_curve :: bytes
  pc_associated_bonding_curve :: bytes
  pc_creator :: bytes
  pc_user :: bytes
  pc_token_program :: bytes
  pc_dev_buy_lamports :: u64
  pc_signature :: bytes
  pc_is_v2 :: bool
  pc_detected_at_micros :: u64

record PbFill =
  pf_slot :: u64
  pf_mint :: bytes
  pf_token_account :: bytes
  pf_seed :: bytes
  pf_token_program :: bytes
  pf_bonding_curve :: bytes
  pf_associated_bonding_curve :: bytes
  pf_creator :: bytes
  pf_amount :: u64
  pf_max_sol_cost :: u64
  pf_fired_at_micros :: u64
  pf_is_cashback :: bool

text \<open>The clock is the microseconds since the epoch, or None before it.\<close>

definition micros_or_default :: "nat option \<Rightarrow> u64" where
  "micros_or_default now = (case now of Some d \<Rightarrow> of_nat d | None \<Rightarrow> 0)"

text \<open>
  \<open>String::from_utf8_lossy\<close> on the bytes of a string: well-formed sequences are kept, and the longest
  start of a sequence that cannot go on becomes one replacement character.
\<close>

definition replacement_char :: bytes where
  "replacement_char = [0xEF, 0xBF, 0xBD]"

definition cont_byte :: "byte \<Rightarrow> bool" where
  "cont_byte b \<longleftrightarrow> 0x80 \<le> b \<and> b \<le> 0xBF"

definition second_ok :: "byte \<Rightarrow> byte \<Rightarrow> bool" where
  "second_ok b c \<longleftrightarrow>
     (if b = 0xE0 then 0xA0 \<le> c \<and> c \<le> 0xBF
      else if b = 0xED then 0x80 \<le> c \<and> c \<le> 0x9F
      else if b = 0xF0 then 0x90 \<le> c \<and> c \<le> 0xBF
      else if b = 0xF4 then 0x80 \<le> c \<and> c \<le> 0x8F
      else cont_byte c)"

definition utf8_width :: "byte \<Rightarrow> nat" where
  "utf8_width b =
     (if b < 0x80 then 1 else if 0xC2 \<le> b \<and> b \<le> 0xDF then 2 else if 0xE0 \<le> b \<and> b \<le> 0xEF then 3
      else if 0xF0 \<le> b \<and> b \<le> 0xF4 then 4 else 0)"

text \<open>How many of the first bytes belong to the first sequence, and whether it is complete.\<close>

definition utf8_first :: "byte \<Rightarrow> bytes \<Rightarrow> nat \<times> bool" where
  "utf8_first b rest =
     (let w = utf8_width b in
      if w \<le> 1 then (1, w = 1)
      else case rest of
          [] \<Rightarrow> (1, False)
        | c # rest' \<Rightarrow>
            if \<not> second_ok b c then (1, False)
            else let more = length (takeWhile cont_byte (take (w - 2) rest'))
                 in (2 + more, more = w - 2))"

function from_utf8_lossy :: "bytes \<Rightarrow> bytes" where
  "from_utf8_lossy [] = []"
| "from_utf8_lossy (b # rest) =
     (let (n, whole) = utf8_first b rest
      in (if whole then take n (b # rest) else replacement_char) @ from_utf8_lossy (drop (n - 1) rest))"
  by pat_completeness auto
termination
  by (relation "measure length") auto

section \<open>The reconstructor\<close>

record tx_env =
  te_hot :: hot_env
  te_shared :: "Shared \<Rightarrow> Shared"
  te_create_now :: "nat option"
  te_fill_now :: "nat option"
  te_create_receivers :: nat
  te_fill_receivers :: nat

text \<open>
  The state of the thread and its three feeds. The last three fields are history: how many
  transactions were looked at, which selects the environment, the launches fired, and the mints
  of the creates seen.
\<close>

record reconstructor =
  rc_deshred :: deshred_state
  rc_hot :: "HotSniper option"
  rc_fills :: "PbFill list"
  rc_creates :: "PbPumpCreate list"
  rc_entries :: "PbEntry list"
  rc_clock :: nat
  rc_fired :: "FiredLaunch list"
  rc_mints :: "pubkey set"

definition rc_init :: "HotSniper option \<Rightarrow> reconstructor" where
  "rc_init hot =
     \<lparr>rc_deshred = deshred_init, rc_hot = hot, rc_fills = [], rc_creates = [], rc_entries = [],
      rc_clock = 0, rc_fired = [], rc_mints = {}\<rparr>"

definition tally :: "(ShredMetrics \<Rightarrow> ShredMetrics) \<Rightarrow> reconstructor \<Rightarrow> reconstructor" where
  "tally f r = r\<lparr>rc_deshred := bump_metrics f (rc_deshred r)\<rparr>"

definition fill_from_fired :: "u64 \<Rightarrow> nat option \<Rightarrow> FiredLaunch \<Rightarrow> PbFill" where
  "fill_from_fired slot now f =
     \<lparr>pf_slot = slot, pf_mint = fl_mint f, pf_token_account = fl_token_account f,
      pf_seed = from_utf8_lossy (fl_seed f), pf_token_program = fl_token_program f,
      pf_bonding_curve = fl_bonding_curve f, pf_associated_bonding_curve = fl_associated_bonding_curve f,
      pf_creator = fl_creator f, pf_amount = fl_expected_tokens f, pf_max_sol_cost = fl_cost_lamports f,
      pf_fired_at_micros = micros_or_default now, pf_is_cashback = fl_is_cashback f\<rparr>"

text \<open>\<open>hot.as_mut().and_then(...)\<close>, with what other threads did before.\<close>

definition with_hot :: "tx_env \<Rightarrow> (HotSniper \<Rightarrow> hot_result) \<Rightarrow> HotSniper option \<Rightarrow> (FiredLaunch option \<times> HotSniper option) option" where
  "with_hot env act hot =
     (case hot of
        None \<Rightarrow> Some (None, None)
      | Some h \<Rightarrow> do {
          (fired, h) \<leftarrow> act (h\<lparr>hs_shared := te_shared env (hs_shared h)\<rparr>);
          Some (fired, Some h)
        })"

definition report_fired :: "tx_env \<Rightarrow> u64 \<Rightarrow> FiredLaunch option \<Rightarrow> reconstructor \<Rightarrow> reconstructor" where
  "report_fired env slot fired r =
     (case fired of
        None \<Rightarrow> r
      | Some f \<Rightarrow>
          let r = tally (\<lambda>m. m\<lparr>sm_snipes_fired := sm_snipes_fired m + 1\<rparr>) (r\<lparr>rc_fired := rc_fired r @ [f]\<rparr>)
          in if te_fill_receivers env > 0
             then r\<lparr>rc_fills := rc_fills r @ [fill_from_fired slot (te_fill_now env) f]\<rparr> else r)"

definition report_create :: "tx_env \<Rightarrow> u64 \<Rightarrow> VersionedTransaction \<Rightarrow> PumpCreateInfo \<Rightarrow> reconstructor \<Rightarrow> reconstructor" where
  "report_create env slot tx info r =
     (if te_create_receivers env = 0 then r
      else tally (\<lambda>m. m\<lparr>sm_pump_creates_emitted := sm_pump_creates_emitted m + 1\<rparr>)
        (r\<lparr>rc_creates := rc_creates r @
           [\<lparr>pc_slot = slot, pc_mint = pci_mint info, pc_bonding_curve = pci_bonding_curve info,
             pc_associated_bonding_curve = pci_associated_bonding_curve info, pc_creator = pci_creator info,
             pc_user = pci_user info, pc_token_program = pci_token_program info,
             pc_dev_buy_lamports = pci_dev_buy_lamports info,
             pc_signature = (case signatures tx of [] \<Rightarrow> [] | s # _ \<Rightarrow> s), pc_is_v2 = pci_is_v2 info,
             pc_detected_at_micros = micros_or_default (te_create_now env)\<rparr>]\<rparr>))"

definition scan_transaction :: "(nat \<Rightarrow> tx_env) \<Rightarrow> u64 \<Rightarrow> VersionedTransaction \<Rightarrow> reconstructor \<Rightarrow> reconstructor option" where
  "scan_transaction E slot tx r =
     (let env = E (rc_clock r);
          (create_info, unresolved) = parse_create tx (ds_unresolved (rc_deshred r));
          r = r\<lparr>rc_clock := rc_clock r + 1, rc_deshred := (rc_deshred r)\<lparr>ds_unresolved := unresolved\<rparr>\<rparr>
      in case create_info of
          Some info \<Rightarrow> do {
            let r = tally (\<lambda>m. m\<lparr>sm_pump_creates_seen := sm_pump_creates_seen m + 1\<rparr>)
                      (r\<lparr>rc_mints := insert (pci_mint info) (rc_mints r)\<rparr>);
            (fired, hot) \<leftarrow> with_hot env (Hot.on_create (te_hot env) info slot) (rc_hot r);
            Some (report_create env slot tx info (report_fired env slot fired (r\<lparr>rc_hot := hot\<rparr>)))
          }
        | None \<Rightarrow>
            (case parse_buy tx of
               Some buy \<Rightarrow> do {
                 (fired, hot) \<leftarrow> with_hot env (hot_on_buy (te_hot env) buy slot) (rc_hot r);
                 Some (report_fired env slot fired (r\<lparr>rc_hot := hot\<rparr>))
               }
             | None \<Rightarrow> Some r))"

definition scan_for_pump_creates :: "(nat \<Rightarrow> tx_env) \<Rightarrow> u64 \<Rightarrow> Entry list \<Rightarrow> reconstructor \<Rightarrow> reconstructor option" where
  "scan_for_pump_creates E slot = fold_opt (\<lambda>entry. fold_opt (scan_transaction E slot) (en_transactions entry))"

definition hand_out :: "(nat \<Rightarrow> tx_env) \<Rightarrow> u64 \<times> Entry list \<times> bytes \<Rightarrow> reconstructor \<Rightarrow> reconstructor option" where
  "hand_out E item r =
     (case item of (slot, entries, entries_bytes) \<Rightarrow> do {
        r \<leftarrow> scan_for_pump_creates E slot entries r;
        Some (if entries_bytes \<noteq> []
              then r\<lparr>rc_entries := rc_entries r @ [\<lparr>pe_slot = slot, pe_entries = entries_bytes\<rparr>]\<rparr> else r)
      })"

definition process_batch ::
  "run_env \<Rightarrow> (nat \<Rightarrow> tx_env) \<Rightarrow> nat \<Rightarrow> bytes list \<Rightarrow> reconstructor \<Rightarrow> reconstructor option" where
  "process_batch L E fill_receivers packets r = do {
     (_, d) \<leftarrow> reconstruct_shreds (L\<lparr>env_pump_only := True\<rparr>) packets (rc_deshred r);
     let hot = map_option (set_seller_listening (fill_receivers > 0)) (rc_hot r);
     fold_opt (hand_out E) (ds_entries d) (r\<lparr>rc_deshred := d\<lparr>ds_entries := []\<rparr>, rc_hot := hot\<rparr>)
   }"

text \<open>
  The loop of the thread over what its channel yields until \<open>exit\<close> is set: a batch with the number
  of subscribers of the fill feed, nothing for a tenth of a second, or the end of the channel.
\<close>

datatype received = Batch nat "bytes list" | Timeout | Disconnected

fun reconstructor_loop :: "run_env \<Rightarrow> (nat \<Rightarrow> tx_env) \<Rightarrow> received list \<Rightarrow> reconstructor \<Rightarrow> reconstructor option" where
  "reconstructor_loop L E [] r = Some r"
| "reconstructor_loop L E (Batch n packets # rest) r = do {
     r \<leftarrow> process_batch L E n packets r;
     reconstructor_loop L E rest r
   }"
| "reconstructor_loop L E (Timeout # rest) r = reconstructor_loop L E rest r"
| "reconstructor_loop L E (Disconnected # rest) r = Some r"

section \<open>The relay\<close>

type_synonym SocketAddr = "IpAddr \<times> u16"

text \<open>A received packet: its data, None when there is none to read, its discard flag and its source.\<close>

record packet =
  pk_data :: "bytes option"
  pk_discard :: bool
  pk_addr :: IpAddr

definition record_source :: "IpAddr \<Rightarrow> u64 \<Rightarrow> u64 \<Rightarrow> ShredMetrics \<Rightarrow> ShredMetrics" where
  "record_source addr discarded kept m =
     (if discarded = 0 \<and> kept = 0 then m
      else m\<lparr>sm_packets_received := (sm_packets_received m)(addr \<mapsto>
        (case sm_packets_received m addr of
           Some (d, nd) \<Rightarrow> (d + discarded, nd + kept)
         | None \<Rightarrow> (discarded, kept)))\<rparr>)"

text \<open>The loop that weeds out duplicates, with the counts of the current run of one source.\<close>

record 'd weeding =
  wd_dedup :: 'd
  wd_metrics :: ShredMetrics
  wd_kept :: "bytes list"
  wd_deduped :: u64
  wd_addr :: "IpAddr option"
  wd_run_discarded :: u64
  wd_run_kept :: u64

definition flush_run :: "'d weeding \<Rightarrow> ShredMetrics" where
  "flush_run w =
     (case wd_addr w of
        None \<Rightarrow> wd_metrics w
      | Some prev \<Rightarrow> record_source prev (wd_run_discarded w) (wd_run_kept w) (wd_metrics w))"

definition verdict :: "(bytes \<Rightarrow> 'd \<Rightarrow> bool \<times> 'd) \<Rightarrow> packet \<Rightarrow> 'd \<Rightarrow> bool \<times> 'd" where
  "verdict dedup p dd =
     (if pk_discard p then (True, dd)
      else case pk_data p of Some d \<Rightarrow> dedup d dd | None \<Rightarrow> (True, dd))"

definition weed_packet :: "(bytes \<Rightarrow> 'd \<Rightarrow> bool \<times> 'd) \<Rightarrow> packet \<Rightarrow> 'd weeding \<Rightarrow> 'd weeding" where
  "weed_packet dedup p w =
     (let (duplicate, dd) = verdict dedup p (wd_dedup w);
          w = w\<lparr>wd_dedup := dd\<rparr>;
          w = (if wd_addr w \<noteq> Some (pk_addr p)
               then w\<lparr>wd_metrics := flush_run w, wd_addr := Some (pk_addr p), wd_run_discarded := 0, wd_run_kept := 0\<rparr>
               else w)
      in if duplicate then w\<lparr>wd_deduped := wd_deduped w + 1, wd_run_discarded := wd_run_discarded w + 1\<rparr>
         else case pk_data p of
             Some d \<Rightarrow> w\<lparr>wd_kept := wd_kept w @ [d], wd_run_kept := wd_run_kept w + 1\<rparr>
           | None \<Rightarrow> w)"

definition RECONSTRUCT_QUEUE :: nat where "RECONSTRUCT_QUEUE = 1024"

record 'd relay =
  rl_dedup :: 'd
  rl_metrics :: ShredMetrics
  rl_queue :: "packet list list"
  rl_sent :: "(bytes \<times> SocketAddr) list"

text \<open>
  One destination: the batch as one call, whose result is an argument. The list of what was sent
  records the calls that succeeded; a call that fails is counted as failed whole, whatever part of
  it may have left.
\<close>

definition forward_to :: "(SocketAddr \<Rightarrow> bool) \<Rightarrow> bytes list \<Rightarrow> SocketAddr \<Rightarrow> 'd relay \<Rightarrow> 'd relay" where
  "forward_to send_ok kept dest r =
     (let n = of_nat (length kept); m = rl_metrics r
      in if send_ok dest
         then r\<lparr>rl_metrics := m\<lparr>sm_success_forward := sm_success_forward m + n\<rparr>,
                rl_sent := rl_sent r @ map (\<lambda>d. (d, dest)) kept\<rparr>
         else r\<lparr>rl_metrics := m\<lparr>sm_fail_forward := sm_fail_forward m + n\<rparr>\<rparr>)"

text \<open>The result is False when the channel has failed and the thread ends.\<close>

definition recv_from_channel_and_send_multiple_dest ::
  "(bytes \<Rightarrow> 'd \<Rightarrow> bool \<times> 'd) \<Rightarrow> (SocketAddr \<Rightarrow> bool) \<Rightarrow> SocketAddr list \<Rightarrow> bool \<Rightarrow> packet list option \<Rightarrow> 'd relay
     \<Rightarrow> bool \<times> 'd relay" where
  "recv_from_channel_and_send_multiple_dest dedup send_ok local_dest_sockets should_reconstruct_shreds maybe_batch r =
     (case maybe_batch of
        None \<Rightarrow> (False, r)
      | Some batch \<Rightarrow>
          let queue = (if should_reconstruct_shreds \<and> length (rl_queue r) < RECONSTRUCT_QUEUE
                       then rl_queue r @ [batch] else rl_queue r);
              m = rl_metrics r;
              m = m\<lparr>sm_received := sm_received m + of_nat (length batch)\<rparr>;
              w = fold (weed_packet dedup) batch
                    \<lparr>wd_dedup = rl_dedup r, wd_metrics = m, wd_kept = [], wd_deduped = 0, wd_addr = None,
                     wd_run_discarded = 0, wd_run_kept = 0\<rparr>;
              m = flush_run w;
              m = m\<lparr>sm_duplicate := sm_duplicate m + wd_deduped w\<rparr>
          in (True, fold (forward_to send_ok (wd_kept w)) local_dest_sockets
                (r\<lparr>rl_dedup := wd_dedup w, rl_metrics := m, rl_queue := queue\<rparr>)))"

section \<open>Destinations\<close>

text \<open>The discovery service, the JSON parser and name resolution are arguments.\<close>

definition unique :: "'a list \<Rightarrow> 'a list" where
  "unique xs = rev (remdups (rev xs))"

definition fetch_unioned_destinations ::
  "bytes option \<Rightarrow> (bytes \<Rightarrow> IpAddr list option) \<Rightarrow> (string \<Rightarrow> SocketAddr option) \<Rightarrow> u16
     \<Rightarrow> (SocketAddr \<times> string) list \<Rightarrow> SocketAddr list option" where
  "fetch_unioned_destinations response parse_ips resolve discovered_endpoints_port static_dest_sockets = do {
     body \<leftarrow> response;
     ips \<leftarrow> parse_ips body;
     let static_dest_sockets = List.map_filter (\<lambda>(_, hostname_port). resolve hostname_port) static_dest_sockets;
     Some (unique (map (\<lambda>ip. (ip, discovered_endpoints_port)) ips @ static_dest_sockets))
   }"

text \<open>One tick of the refresh thread: a failure keeps the destinations there are.\<close>

definition refresh_destinations :: "SocketAddr list option \<Rightarrow> SocketAddr list \<Rightarrow> SocketAddr list" where
  "refresh_destinations fetched current = (case fetched of Some s \<Rightarrow> s | None \<Rightarrow> current)"

section \<open>Metrics\<close>

text \<open>What \<open>report\<close> sends, the metrics it leaves, and the counter of unresolved creates it takes.\<close>

definition ShredMetrics_report ::
  "ShredMetrics \<Rightarrow> u64 \<Rightarrow> (string \<times> u64) list \<times> (IpAddr \<rightharpoonup> u64 \<times> u64) \<times> ShredMetrics \<times> u64" where
  "ShredMetrics_report m unresolved =
     (let connection = [(''received'', sm_received m), (''success_forward'', sm_success_forward m),
            (''fail_forward'', sm_fail_forward m), (''duplicate'', sm_duplicate m)];
          sources = sm_packets_received m
      in if sm_enabled_grpc_service m then
           (connection @
              [(''recovered_count'', sm_recovered_count m), (''entry_count'', sm_entry_count m), (''txn_count'', sm_txn_count m),
               (''unknown_start_position_count'', sm_unknown_start_position_count m),
               (''fec_recovery_error_count'', sm_fec_recovery_error_count m),
               (''bincode_deserialize_error_count'', sm_bincode_deserialize_error_count m),
               (''pump_creates_seen'', sm_pump_creates_seen m), (''pump_creates_emitted'', sm_pump_creates_emitted m),
               (''snipes_fired'', sm_snipes_fired m), (''deserialize_skipped_count'', sm_deserialize_skipped_count m),
               (''early_creates_count'', sm_early_creates_count m), (''unresolved_creates'', unresolved),
               (''unknown_start_position_error_count'', sm_unknown_start_position_error_count m)],
            sources,
            m\<lparr>sm_recovered_count := 0, sm_entry_count := 0, sm_txn_count := 0, sm_unknown_start_position_count := 0,
              sm_fec_recovery_error_count := 0, sm_bincode_deserialize_error_count := 0, sm_pump_creates_seen := 0,
              sm_pump_creates_emitted := 0, sm_snipes_fired := 0, sm_deserialize_skipped_count := 0,
              sm_early_creates_count := 0, sm_unknown_start_position_error_count := 0, sm_packets_received := Map.empty\<rparr>,
            0)
         else (connection, sources, m\<lparr>sm_packets_received := Map.empty\<rparr>, unresolved))"

definition ShredMetrics_reset :: "ShredMetrics \<Rightarrow> ShredMetrics" where
  "ShredMetrics_reset m =
     m\<lparr>sm_agg_received_cumulative := sm_agg_received_cumulative m + sm_received m, sm_received := 0,
       sm_agg_success_forward_cumulative := sm_agg_success_forward_cumulative m + sm_success_forward m, sm_success_forward := 0,
       sm_agg_fail_forward_cumulative := sm_agg_fail_forward_cumulative m + sm_fail_forward m, sm_fail_forward := 0,
       sm_duplicate_cumulative := sm_duplicate_cumulative m + sm_duplicate m, sm_duplicate := 0\<rparr>"

text \<open>One metrics tick of the accessory thread: a report, then a reset.\<close>

definition metrics_tick ::
  "ShredMetrics \<Rightarrow> u64 \<Rightarrow> (string \<times> u64) list \<times> (IpAddr \<rightharpoonup> u64 \<times> u64) \<times> ShredMetrics \<times> u64" where
  "metrics_tick m unresolved =
     (let (points, sources, m, unresolved) = ShredMetrics_report m unresolved
      in (points, sources, ShredMetrics_reset m, unresolved))"

section \<open>The relay's books\<close>

text \<open>Reference: every packet of a batch with its verdict, one by one.\<close>

fun judged :: "(bytes \<Rightarrow> 'd \<Rightarrow> bool \<times> 'd) \<Rightarrow> packet list \<Rightarrow> 'd \<Rightarrow> (packet \<times> bool) list" where
  "judged dedup [] dd = []"
| "judged dedup (p # ps) dd = (let (dup, dd) = verdict dedup p dd in (p, dup) # judged dedup ps dd)"

definition duplicates :: "(packet \<times> bool) list \<Rightarrow> nat" where
  "duplicates vs = length (filter snd vs)"

definition survivors :: "(packet \<times> bool) list \<Rightarrow> bytes list" where
  "survivors vs = map (the \<circ> pk_data \<circ> fst) (filter (Not \<circ> snd) vs)"

text \<open>What the receive statistics say of a source, and what a batch adds to it.\<close>

definition source_stats :: "ShredMetrics \<Rightarrow> IpAddr \<Rightarrow> u64 \<times> u64" where
  "source_stats m a = (case sm_packets_received m a of None \<Rightarrow> (0, 0) | Some x \<Rightarrow> x)"

definition from_source :: "IpAddr \<Rightarrow> (packet \<times> bool) list \<Rightarrow> (packet \<times> bool) list" where
  "from_source a = filter (\<lambda>v. pk_addr (fst v) = a)"

definition source_counts :: "IpAddr \<Rightarrow> (packet \<times> bool) list \<Rightarrow> u64 \<times> u64" where
  "source_counts a vs = (of_nat (duplicates (from_source a vs)), of_nat (length (survivors (from_source a vs))))"

definition add2 :: "u64 \<times> u64 \<Rightarrow> u64 \<times> u64 \<Rightarrow> u64 \<times> u64" where
  "add2 x y = (fst x + fst y, snd x + snd y)"

lemma record_source_stats:
  "source_stats (record_source b x y m) a = (if a = b then add2 (source_stats m a) (x, y) else source_stats m a)"
  by (auto simp: record_source_def source_stats_def add2_def split: option.splits)

lemma record_source_frame:
  "\<exists>x. record_source b u v m = m\<lparr>sm_packets_received := x\<rparr>"
  by (cases m) (auto simp: record_source_def split: option.splits)

lemma flush_run_frame: "\<exists>x. flush_run w = (wd_metrics w)\<lparr>sm_packets_received := x\<rparr>"
  using record_source_frame [of _ "wd_run_discarded w" "wd_run_kept w" "wd_metrics w"]
  by (cases "wd_metrics w") (auto simp: flush_run_def split: option.split)

definition same_counters :: "ShredMetrics \<Rightarrow> ShredMetrics \<Rightarrow> bool" where
  "same_counters m m' \<longleftrightarrow> (\<exists>x. m' = m\<lparr>sm_packets_received := x\<rparr>)"

lemma same_counters_trans: "same_counters a b \<Longrightarrow> same_counters b c \<Longrightarrow> same_counters a c"
  by (auto simp: same_counters_def)

lemma verdict_data: "verdict dedup p dd = (False, dd') \<Longrightarrow> \<exists>d. pk_data p = Some d"
  by (auto simp: verdict_def split: if_splits option.splits)

lemma flush_run_dedup [simp]: "flush_run (w\<lparr>wd_dedup := dd\<rparr>) = flush_run w"
  by (simp add: flush_run_def split: option.split)

lemma weed_packet_step:
  assumes "verdict dedup p (wd_dedup w) = (dup, dd)"
  defines "w' \<equiv> weed_packet dedup p w"
  shows "wd_dedup w' = dd" "wd_kept w' = wd_kept w @ survivors [(p, dup)]" "wd_deduped w' = wd_deduped w + of_bool dup"
    "same_counters (wd_metrics w) (wd_metrics w')"
    "source_stats (flush_run w') a = add2 (source_stats (flush_run w) a) (source_counts a [(p, dup)])"
proof -
  have "w' = (if dup then w'' \<lparr>wd_deduped := wd_deduped w + 1, wd_run_discarded := wd_run_discarded w'' + 1\<rparr>
      else w''\<lparr>wd_kept := wd_kept w @ [the (pk_data p)], wd_run_kept := wd_run_kept w'' + 1\<rparr>)"
    if "w'' = (if wd_addr w \<noteq> Some (pk_addr p)
       then w\<lparr>wd_dedup := dd, wd_metrics := flush_run w, wd_addr := Some (pk_addr p), wd_run_discarded := 0, wd_run_kept := 0\<rparr>
       else w\<lparr>wd_dedup := dd\<rparr>)" for w''
    using assms(1) verdict_data [of dedup p "wd_dedup w" dd] that
    by (cases dup) (auto simp: w'_def weed_packet_def Let_def)
  note w' = this [OF refl]
  show "wd_dedup w' = dd" "wd_kept w' = wd_kept w @ survivors [(p, dup)]" "wd_deduped w' = wd_deduped w + of_bool dup"
    by (simp_all add: w' survivors_def)
  show "same_counters (wd_metrics w) (wd_metrics w')"
    using flush_run_frame [of w] by (cases "wd_metrics w") (auto simp: w' same_counters_def)
  show "source_stats (flush_run w') a = add2 (source_stats (flush_run w) a) (source_counts a [(p, dup)])"
    by (cases dup; cases "wd_addr w = Some (pk_addr p)"; cases "a = pk_addr p")
      (auto simp: w' flush_run_def record_source_stats add2_def source_counts_def from_source_def duplicates_def survivors_def
        split: option.split)
qed

lemma source_counts_Cons: "source_counts a (v # vs) = add2 (source_counts a [v]) (source_counts a vs)"
  by (cases "pk_addr (fst v) = a"; cases "snd v")
    (simp_all add: source_counts_def add2_def from_source_def duplicates_def survivors_def)

lemma length_judged: "length (judged dedup ps dd) = length ps"
  by (induction ps arbitrary: dd) (simp_all split: prod.split)

lemma weed_all:
  "let w' = fold (weed_packet dedup) ps w; vs = judged dedup ps (wd_dedup w)
   in wd_kept w' = wd_kept w @ survivors vs \<and> wd_deduped w' = wd_deduped w + of_nat (duplicates vs)
    \<and> same_counters (wd_metrics w) (wd_metrics w')
    \<and> (\<forall>a. source_stats (flush_run w') a = add2 (source_stats (flush_run w) a) (source_counts a vs))"
proof (induction ps arbitrary: w)
  case Nil
  have "same_counters m m" for m
    by (cases m) (auto simp: same_counters_def)
  then show ?case
    by (simp add: survivors_def duplicates_def source_counts_def from_source_def add2_def)
next
  case (Cons p ps)
  obtain dup dd where v: "verdict dedup p (wd_dedup w) = (dup, dd)"
    by fastforce
  note step = weed_packet_step [OF v]
  define vs where "vs = judged dedup ps dd"
  have vs: "judged dedup (p # ps) (wd_dedup w) = (p, dup) # vs" "survivors ((p, dup) # vs) = survivors [(p, dup)] @ survivors vs"
    "of_nat (duplicates ((p, dup) # vs)) = of_bool dup + (of_nat (duplicates vs) :: u64)"
    by (simp_all add: survivors_def duplicates_def v vs_def)
  define w' where "w' = fold (weed_packet dedup) ps (weed_packet dedup p w)"
  have IH: "wd_kept w' = wd_kept (weed_packet dedup p w) @ survivors vs"
    "wd_deduped w' = wd_deduped (weed_packet dedup p w) + of_nat (duplicates vs)"
    "same_counters (wd_metrics (weed_packet dedup p w)) (wd_metrics w')"
    "\<forall>a. source_stats (flush_run w') a = add2 (source_stats (flush_run (weed_packet dedup p w)) a) (source_counts a vs)"
    using Cons.IH [of "weed_packet dedup p w"] by (simp_all add: Let_def step(1) vs_def w'_def)
  have assoc: "add2 (add2 x y) z = add2 x (add2 y z)" for x y z
    by (simp add: add2_def add.assoc)
  show ?case
    unfolding Let_def vs fold_simps w'_def [symmetric]
    using IH(1,2) same_counters_trans [OF step(4) IH(3)] IH(4)
    by (simp add: step assoc source_counts_Cons [of _ "(p, dup)" vs] add.assoc)
qed

lemma forward_all:
  "let r' = fold (forward_to send_ok kept) dests r; n = of_nat (length kept)
   in rl_sent r' = rl_sent r @ concat (map (\<lambda>dest. map (\<lambda>d. (d, dest)) kept) (filter send_ok dests))
    \<and> sm_success_forward (rl_metrics r') = sm_success_forward (rl_metrics r) + n * of_nat (length (filter send_ok dests))
    \<and> sm_fail_forward (rl_metrics r') = sm_fail_forward (rl_metrics r) + n * of_nat (length (filter (Not \<circ> send_ok) dests))
    \<and> rl_queue r' = rl_queue r \<and> sm_received (rl_metrics r') = sm_received (rl_metrics r)
    \<and> sm_duplicate (rl_metrics r') = sm_duplicate (rl_metrics r) \<and> source_stats (rl_metrics r') = source_stats (rl_metrics r)"
proof (induction dests arbitrary: r)
  case (Cons dest dests)
  then show ?case
    using Cons.IH [of "forward_to send_ok kept dest r"]
    by (simp add: forward_to_def Let_def algebra_simps source_stats_def [abs_def])
qed simp

section \<open>Properties\<close>

text \<open>
  C15: The relay's books are right. For every batch, the duplicates counted are those a packet by packet
  check finds, the statistics of every source grow by exactly its packets although they are
  written once per run of packets from one source, every other packet goes to every destination
  and is counted there as sent or failed, and the whole batch is queued for reconstruction unless the
  queue is full.
\<close>

theorem relay_accounts:
  assumes "recv_from_channel_and_send_multiple_dest dedup send_ok dests True (Some batch) r = (going, r')"
  defines "vs \<equiv> judged dedup batch (rl_dedup r)"
  shows "going
    \<and> sm_received (rl_metrics r') = sm_received (rl_metrics r) + of_nat (length batch)
    \<and> sm_duplicate (rl_metrics r') = sm_duplicate (rl_metrics r) + of_nat (duplicates vs)
    \<and> (\<forall>a. source_stats (rl_metrics r') a = add2 (source_stats (rl_metrics r) a) (source_counts a vs))
    \<and> rl_sent r' = rl_sent r @ concat (map (\<lambda>dest. map (\<lambda>d. (d, dest)) (survivors vs)) (filter send_ok dests))
    \<and> sm_success_forward (rl_metrics r') + sm_fail_forward (rl_metrics r')
        = sm_success_forward (rl_metrics r) + sm_fail_forward (rl_metrics r) + of_nat (length (survivors vs) * length dests)
    \<and> duplicates vs + length (survivors vs) = length batch
    \<and> rl_queue r' = (if length (rl_queue r) < 1024 then rl_queue r @ [batch] else rl_queue r)"
proof -
  define m where "m = (rl_metrics r)\<lparr>sm_received := sm_received (rl_metrics r) + of_nat (length batch)\<rparr>"
  define w0 where "w0 = \<lparr>wd_dedup = rl_dedup r, wd_metrics = m, wd_kept = [], wd_deduped = 0, wd_addr = None,
     wd_run_discarded = 0, wd_run_kept = 0\<rparr>"
  define w where "w = fold (weed_packet dedup) batch w0"
  define q where "q = (if length (rl_queue r) < RECONSTRUCT_QUEUE then rl_queue r @ [batch] else rl_queue r)"
  define m1 where "m1 = (flush_run w)\<lparr>sm_duplicate := sm_duplicate (flush_run w) + wd_deduped w\<rparr>"
  have r': "going" "r' = fold (forward_to send_ok (wd_kept w)) dests (r\<lparr>rl_dedup := wd_dedup w, rl_metrics := m1, rl_queue := q\<rparr>)"
    using assms(1) unfolding recv_from_channel_and_send_multiple_dest_def
    by (simp_all add: Let_def m_def [symmetric] w0_def [symmetric] w_def [symmetric] q_def [symmetric] m1_def [symmetric])
  have w: "wd_kept w = survivors vs" "wd_deduped w = of_nat (duplicates vs)" "same_counters m (wd_metrics w)"
    "\<forall>a. source_stats (flush_run w) a = add2 (source_stats (flush_run w0) a) (source_counts a vs)"
    using weed_all [of dedup batch w0] by (simp_all add: Let_def w_def [symmetric] vs_def) (simp_all add: w0_def)
  have "same_counters m (flush_run w)"
    using w(3) flush_run_frame [of w] by (auto simp: same_counters_def)
  then have c: "sm_received m1 = sm_received m" "sm_duplicate m1 = sm_duplicate m + of_nat (duplicates vs)"
    "sm_success_forward m1 = sm_success_forward m" "sm_fail_forward m1 = sm_fail_forward m"
    "source_stats m1 = source_stats (flush_run w)"
    by (auto simp: m1_def same_counters_def w(2) source_stats_def [abs_def])
  have len: "length dests = length (filter send_ok dests) + length (filter (Not \<circ> send_ok) dests)"
    by (induction dests) simp_all
  have "duplicates xs + length (survivors xs) = length xs" for xs
    by (induction xs) (auto simp: duplicates_def survivors_def)
  moreover have "length vs = length batch"
    by (simp add: vs_def length_judged)
  ultimately have n: "duplicates vs + length (survivors vs) = length batch"
    by simp
  have stats: "source_stats m1 a = add2 (source_stats (rl_metrics r) a) (source_counts a vs)" for a
    using c(5) w(4) by (simp add: w0_def flush_run_def m_def source_stats_def)
  have f: "rl_sent r' = rl_sent r @ concat (map (\<lambda>dest. map (\<lambda>d. (d, dest)) (survivors vs)) (filter send_ok dests))"
    "sm_success_forward (rl_metrics r') = sm_success_forward m1 + of_nat (length (survivors vs)) * of_nat (length (filter send_ok dests))"
    "sm_fail_forward (rl_metrics r') = sm_fail_forward m1 + of_nat (length (survivors vs)) * of_nat (length (filter (Not \<circ> send_ok) dests))"
    "rl_queue r' = q" "sm_received (rl_metrics r') = sm_received m1" "sm_duplicate (rl_metrics r') = sm_duplicate m1"
    "source_stats (rl_metrics r') = source_stats m1"
    using forward_all [of send_ok "survivors vs" dests "r\<lparr>rl_dedup := wd_dedup w, rl_metrics := m1, rl_queue := q\<rparr>"]
    by (simp_all add: r'(2) w(1) Let_def)
  have "sm_success_forward (rl_metrics r') + sm_fail_forward (rl_metrics r')
      = sm_success_forward (rl_metrics r) + sm_fail_forward (rl_metrics r) + of_nat (length (survivors vs) * length dests)"
    by (simp add: f(2,3) c(3,4) len m_def algebra_simps)
  then show ?thesis
    using r'(1) n by (simp add: f(1,4-7) stats c(1,2) m_def q_def RECONSTRUCT_QUEUE_def)
qed

definition toy_relay :: "bytes list relay" where
  "toy_relay = \<lparr>rl_dedup = [], rl_metrics = ds_metrics deshred_init, rl_queue = [], rl_sent = []\<rparr>"

definition toy_arrivals :: "packet list" where
  "toy_arrivals = [\<lparr>pk_data = Some [1], pk_discard = False, pk_addr = [10, 0, 0, 1]\<rparr>,
     \<lparr>pk_data = Some [1], pk_discard = False, pk_addr = [10, 0, 0, 2]\<rparr>,
     \<lparr>pk_data = Some [2], pk_discard = False, pk_addr = [10, 0, 0, 1]\<rparr>]"

theorem relay_accounts_witness:
  "\<exists>r. recv_from_channel_and_send_multiple_dest (\<lambda>d seen. (d \<in> set seen, d # seen)) (\<lambda>dest. snd dest = 1) [([127, 0, 0, 1], 1), ([127, 0, 0, 2], 2)] True
      (Some toy_arrivals) toy_relay = (True, r)
    \<and> rl_sent r = [([1], ([127, 0, 0, 1], 1)), ([2], ([127, 0, 0, 1], 1))] \<and> sm_duplicate (rl_metrics r) = 1
    \<and> source_stats (rl_metrics r) [10, 0, 0, 1] = (0, 2) \<and> rl_queue r = [toy_arrivals]"
proof -
  let ?dedup = "\<lambda>d seen. (d \<in> set seen, d # seen)"
  obtain going r where r: "recv_from_channel_and_send_multiple_dest ?dedup (\<lambda>dest. snd dest = 1) [([127, 0, 0, 1], 1), ([127, 0, 0, 2], 2)] True
      (Some toy_arrivals) toy_relay = (going, r)"
    by fastforce
  have "judged ?dedup toy_arrivals (rl_dedup toy_relay) = zip toy_arrivals [False, True, False]"
    by (simp add: toy_arrivals_def toy_relay_def verdict_def)
  then show ?thesis
    using relay_accounts [OF r] r
    by (simp add: duplicates_def survivors_def source_counts_def from_source_def add2_def toy_arrivals_def toy_relay_def source_stats_def
      deshred_init_def ShredMetrics_new_def)
qed

end
