(* ===== verification/Segments.thy ===== *)
theory Segments
  imports Reconstruct
begin

text \<open>
  What the reconstruction of \<open>proxy/src/deshred.rs\<close> guarantees over any run of batches: no index is out
  of range, no data is handed over twice, the search in arriving segments misses nothing, and a
  create that was found early is the create of the whole segment. The last part of the file states two
  behaviours that lose segments.
\<close>

lemma entry_loop_past [simp]: "L < p \<Longrightarrow> entry_loop d payload hits L n p found = Some found"
  by (cases n) simp_all

section \<open>Properties\<close>

text \<open>
  C36: Where a segment is found, and that the search ends. For every tracker and every starting index,
  \<open>get_indexes\<close> returns exactly the bounds of the segment around that index: the shreds in
  between are all held, none was handed over before, the last one and no other completes a
  segment, and on the left lies the start of the slot or the end of the segment before; the start
  is flagged as a guess exactly when on the left there is a gap instead.
\<close>

theorem get_indexes_exact:
  "get_indexes t i = Some (a, b, guess) \<longleftrightarrow>
     a \<le> i \<and> i \<le> b \<and> b < length (data_status t) \<and> data_status t ! b = DataComplete
     \<and> (\<forall>j \<in> {a..<b}. data_status t ! j = NotDataComplete) \<and> (\<forall>j \<in> {a..b}. \<not> already_deshredded t ! j)
     \<and> (if guess then 0 < a \<and> data_status t ! (a - 1) = Unknown else a = 0 \<or> data_status t ! (a - 1) = DataComplete)"
  using get_indexes_segment [of t i a b guess] by (simp only: is_segment_def)

definition toy_tracker :: ShredsStateTracker where
  "toy_tracker = tracker_default\<lparr>data_status :=
     [Unknown, NotDataComplete, DataComplete, NotDataComplete, DataComplete] @ replicate 3 Unknown,
     already_deshredded := replicate 8 False\<rparr>"

theorem get_indexes_exact_witness:
  "get_indexes toy_tracker 1 = Some (1, 2, True) \<and> get_indexes toy_tracker 3 = Some (3, 4, False)"
proof -
  have "{1..<2} = {Suc 0}" "{1..2} = {Suc 0, 2}" "{3..<4} = {3 :: nat}" "{3..4} = {3, 4 :: nat}"
    by auto
  then show ?thesis
    using get_indexes_exact [of toy_tracker 1 1 2 True] get_indexes_exact [of toy_tracker 3 3 4 False]
    by (auto simp: toy_tracker_def numeral_eq_Suc)
qed

text \<open>
  C12: The reconstruction never fails and stays bounded. From the start of the thread, whatever
  packets arrive in whatever batches, every batch is processed to its end: no index is out of
  range and no missing shred is unwrapped, given that parsed and recovered shreds carry indices
  within a slot. The number of slots kept stays within the eviction limit, at most eight trackers
  are pooled, and a recycled tracker equals a fresh one, so nothing of an old slot leaks into a
  new one.
\<close>

theorem reconstruct_total:
  assumes "library_ok L"
  shows "\<exists>s. run_batches L batches deshred_init = Some s
    \<and> length (ds_all_shreds s) \<le> max (max_processing_age L) 51
    \<and> length (ds_pool s) \<le> MAX_POOLED_TRACKERS \<and> fst (pool_take (ds_pool s)) = tracker_default"
proof -
  obtain s where s: "run_batches L batches deshred_init = Some s" "settled L s"
    using run_settled [OF assms settled_init] by blast
  then have "set (ds_pool s) \<subseteq> {tracker_default}" "length (ds_pool s) \<le> MAX_POOLED_TRACKERS"
    by (simp_all add: settled_def ds_ok_def)
  then show ?thesis
    using s pool_take_default by (simp add: settled_def)
qed

theorem reconstruct_total_witness:
  "\<exists>s. run_batches (toy_env True) [[[0, 0, 0, 9], [2, 1, 0]], [[], [1, 0, 7, 8], [255]]] deshred_init = Some s
     \<and> length (ds_all_shreds s) \<le> 150"
  using reconstruct_total [OF toy_library [of True], of "[[[0, 0, 0, 9], [2, 1, 0]], [[], [1, 0, 7, 8], [255]]]"]
  by (auto simp: toy_env_def)

text \<open>
  C4: No data is handed over twice. Over any run of batches, the shred ranges of any two segments
  that were handed over whole for the same slot are disjoint, also across the eviction of the
  slot: once evicted, a slot is never tracked again.
\<close>

theorem segments_published_once:
  assumes "library_ok L" "run_batches L batches deshred_init = Some s"
    and "i < j" "j < length (ds_published s)"
    and "ds_published s ! i = (slot, a, b)" "ds_published s ! j = (slot, c, d)"
  shows "{a..b} \<inter> {c..d} = {}"
proof -
  have "sorted_wrt disjoint_ranges (ds_published s)"
    using run_ok [OF assms(1,2)] by (simp add: ds_ok_def)
  from sorted_wrt_nth_less [OF this assms(3,4)] show ?thesis
    by (auto simp: assms(5,6) disjoint_ranges_def)
qed

lemmas toy_run = reconstruct_shreds_def ingest_def known_packet_def toy_env_def toy_shred_def ingest_shred_def too_old_def
  deshred_init_def ShredMetrics_new_def EarlyDetect_default_def slot_entry_def update_state_tracker_def tracker_default_def
  get_at_def set_slot_def set_insert_def peek_fec_set_index_def sat_sub_def SLOT_LOOKBACK_def is_data_def touch_def
  FEC_SET_INDEX_OFFSET_def Let_def  recover_fec_set_def get_data_shred_info_def count_shred_def
  deshred_fec_set_def get_indexes_def right_bound.simps [of _ 0] slice_Suc hand_over_def decode_segment_def publish_def
  mark_shred_def bump_metrics_def count_unknown_start_def set_at_def evict_def

lemma MAX_one [simp]: "Suc 0 < MAX_DATA_SHREDS_PER_SLOT" "\<not> MAX_DATA_SHREDS_PER_SLOT \<le> Suc 0"
  "2 < MAX_DATA_SHREDS_PER_SLOT" "\<not> MAX_DATA_SHREDS_PER_SLOT \<le> 2"
  by (simp_all add: MAX_DATA_SHREDS_PER_SLOT_def)

text \<open>One shred that is a whole segment, and the state after it.\<close>

definition toy_state :: deshred_state where
  "toy_state = snd (the (reconstruct_shreds (toy_env False) [[0, 1, 0, 9]] deshred_init))"

definition toy_held :: Shred where
  "toy_held = ShredData \<lparr>ch_variant = OtherVariant 0, ch_slot = 0, ch_index = 0, ch_fec_set_index = 0, ch_rest = []\<rparr>
     \<lparr>dh_data_complete = True, dh_last_in_slot = False, dh_rest = []\<rparr> [9]"

definition toy_done :: ShredsStateTracker where
  "toy_done =
     \<lparr>data_status = (replicate MAX_DATA_SHREDS_PER_SLOT Unknown)[0 := DataComplete],
      data_shreds = (replicate MAX_DATA_SHREDS_PER_SLOT None)[0 := Some toy_held],
      already_recovered_fec_sets = (replicate MAX_DATA_SHREDS_PER_SLOT False)[0 := True],
      already_deshredded = (replicate MAX_DATA_SHREDS_PER_SLOT False)[0 := True],
      high_water = 0\<rparr>"

lemma toy_one_batch:
  "reconstruct_shreds (toy_env False) [[0, 1, 0, 9]] deshred_init = Some (0, toy_state)"
  "ds_published toy_state = [(0, 0, 0)]" "ds_all_shreds toy_state = [(0, ([(0, [toy_held])], toy_done))]"
  by (simp_all add: toy_state_def toy_done_def toy_held_def toy_run detect_pass_def del: bind_Some_iff get_at_Some_iff get_range_Some_iff)

text \<open>
  C26: A second segment in the same FEC set is lost. Handing over a segment marks the whole FEC set of
  each of its shreds as recovered; from then on, every further shred of such a set is dropped
  without a trace, on the wire path and on the recovery path alike. The comments of the file
  note that several segments fit inside one FEC set; the data of the later ones never reaches the
  tracker.
\<close>

theorem fec_mates_dropped:
  assumes "library_ok L" "run_batches L batches deshred_init = Some s"
    and "(slot, a, b) \<in> set (ds_published s)" "trackers s slot = Some t"
    and "j \<in> {a..b}" "data_shreds t ! j = Some h"
    and "shred_ok x" "shred_slot x = slot" "fec_set_index x = fec_set_index h"
  shows "ingest_shred L x s = Some s \<and> update_state_tracker x t = Some (None, t)"
proof -
  have ok: "ds_ok L s"
    using run_ok [OF assms(1,2)] .
  have t: "wf_tracker t"
    using ds_ok_tracker [OF ok assms(4)] .
  obtain fecs where e: "slot_entry slot s = ((fecs, t), s)"
    using slot_entry_known [OF ok assms(4)] by blast
  have "case trackers s slot of Some t \<Rightarrow> range_done t a b | None \<Rightarrow> too_old slot s"
    using ok assms(3) by (simp add: ds_ok_def)
  then have "\<forall>j \<in> {a..b}. already_deshredded t ! j
      \<and> (\<exists>x. data_shreds t ! j = Some x \<and> already_recovered_fec_sets t ! unat (fec_set_index x))"
    unfolding assms(4) option.case range_done_def by (elim conjE)
  from bspec [OF this assms(5)] have "already_recovered_fec_sets t ! unat (fec_set_index x)"
    using assms(6,9) by simp
  then show ?thesis
    using ingest_shred_eq [OF t assms(7) _ e [folded assms(8)], of L] update_state_tracker_eq [OF t assms(7)]
    by (cases "too_old (shred_slot x) s") (simp_all add: insertable_def ingest_shred_def)
qed

theorem fec_mates_dropped_witness:
  "ingest_shred (toy_env False) (the (toy_shred [1, 1, 0, 8])) toy_state = Some toy_state"
proof -
  have run: "run_batches (toy_env False) [[[0, 1, 0, 9]]] deshred_init = Some toy_state"
    using toy_one_batch(1) by simp
  have t: "trackers toy_state 0 = Some toy_done"
    by (simp add: trackers_def toy_one_batch)
  show ?thesis
    using fec_mates_dropped [OF toy_library run, of 0 0 0 toy_done 0 toy_held "the (toy_shred [1, 1, 0, 8])"] t
    by (simp add: toy_one_batch toy_done_def toy_held_def toy_shred_def shred_ok_def)
qed

theorem segments_published_once_witness:
  "\<exists>s. run_batches (toy_env False) [[[0, 1, 0, 9]], [[1, 1, 1, 8]]] deshred_init = Some s
     \<and> ds_published s = [(0, 0, 0), (0, 1, 1)] \<and> {0..0} \<inter> {1..1 :: nat} = {}"
proof -
  have "\<exists>s. reconstruct_shreds (toy_env False) [[1, 1, 1, 8]] toy_state = Some (0, s) \<and> ds_published s = [(0, 0, 0), (0, 1, 1)]"
    by (simp add: toy_state_def toy_run detect_pass_def right_bound.simps [of _ "Suc 0"] left_bound.simps [of _ _ 0]
        del: bind_Some_iff get_at_Some_iff get_range_Some_iff)
  then obtain s where s: "run_batches (toy_env False) [[[0, 1, 0, 9]], [[1, 1, 1, 8]]] deshred_init = Some s"
    "ds_published s = [(0, 0, 0), (0, 1, 1)]"
    using toy_one_batch(1) by auto
  have "{0..0} \<inter> {1..1 :: nat} = {}"
    by (rule segments_published_once [OF toy_library s(1), of 0 1 0 0 0 1 1]) (simp_all add: s(2))
  with s show ?thesis
    by blast
qed

text \<open>
  C8: The incremental search is complete. Between batches, every segment that is still arriving holds
  exactly the data of the shreds from its start to the next one expected, and its list of hits is
  what one search through all of that data would find: looking only at what is new, and seven
  bytes before, misses no discriminator across shred boundaries and reports none twice.
\<close>

theorem early_scan_complete:
  assumes "library_ok L" "find_iter_ok L" "run_batches L batches deshred_init = Some s"
    and "segments (ds_early s) (slot, start) = Some seg" "\<not> es_complete seg"
  shows "\<exists>t. trackers s slot = Some t \<and> unat start \<le> unat (es_next seg)
    \<and> es_buf seg = concat (map (\<lambda>i. the (data_at L t i)) [unat start..<unat (es_next seg)])
    \<and> (\<forall>i \<in> {unat start..<unat (es_next seg)}. data_at L t i \<noteq> None)
    \<and> es_hits seg = create_offsets L (env_confirm L) (es_buf seg)"
proof -
  have "segs_ok L (env_confirm L) (trackers s) (segments (ds_early s))"
    using run_ok [OF assms(1,3)] by (simp add: ds_ok_def)
  then obtain t where "trackers s slot = Some t" "seg_ok L (env_confirm L) t (unat start) seg"
    using assms(4) unfolding segs_ok_def by blast
  then show ?thesis
    using assms(2,5) by (auto simp: seg_ok_def data_range_def)
qed

text \<open>Two shreds with a discriminator across their border, still arriving.\<close>

definition toy_halves :: "bytes list" where
  "toy_halves = [[0, 0, 0, 1, 24, 30, 200], [1, 0, 0, 40, 5, 28, 7, 119, 2]]"


definition toy_part :: "u8 \<Rightarrow> bytes \<Rightarrow> Shred" where
  "toy_part i d = ShredData \<lparr>ch_variant = OtherVariant 0, ch_slot = 0, ch_index = ucast i, ch_fec_set_index = 0, ch_rest = []\<rparr>
     \<lparr>dh_data_complete = False, dh_last_in_slot = False, dh_rest = []\<rparr> d"

definition toy_arriving :: ShredsStateTracker where
  "toy_arriving =
     \<lparr>data_status = (replicate MAX_DATA_SHREDS_PER_SLOT Unknown)[0 := NotDataComplete, 1 := NotDataComplete],
      data_shreds = (replicate MAX_DATA_SHREDS_PER_SLOT None)
        [0 := Some (toy_part 0 [1, 24, 30, 200]), 1 := Some (toy_part 1 [40, 5, 28, 7, 119, 2])],
      already_recovered_fec_sets = replicate MAX_DATA_SHREDS_PER_SLOT False,
      already_deshredded = replicate MAX_DATA_SHREDS_PER_SLOT False, high_water = 1\<rparr>"

definition toy_seg :: EarlySegment where
  "toy_seg = \<lparr>es_next = 2, es_buf = [1, 24, 30, 200, 40, 5, 28, 7, 119, 2], es_scanned = 10, es_hits = [1], es_complete = False\<rparr>"

lemma toy_walk: "transactions_at d [1, 24, 30, 200, 40, 5, 28, 7, 119, 2] [1] = Some []"
  by (simp add: transactions_at_def read_u64_def get_range_def Let_def del: bind_Some_iff get_range_Some_iff)

lemma toy_matches:
  "matches_from 0 [1, 24, 30, 200, 40, 5, 28, 7, 119, 2] DISC_CREATE_V2 = []"
  "matches_from 0 [1, 24, 30, 200, 40, 5, 28, 7, 119, 2] DISC_CREATE = [1]"
  by (simp_all add: matches_from.simps at_pos_def slice_def DISC_CREATE_def DISC_CREATE_V2_def)

lemma toy_detect:
  assumes "tr 0 = Some toy_arriving"
  shows "detect_in_partial_segments (toy_env True) False tr \<lparr>segments = Map.empty, arrived = [(0, 0), (0, 1)]\<rparr> [] 0
    = (0, \<lparr>segments = [(0, 0) \<mapsto> toy_seg], arrived = []\<rparr>, [], 0)"
proof -
  have g: "grow (toy_env True) toy_arriving (EarlySegment_new 0) = (toy_seg\<lparr>es_scanned := 0, es_hits := []\<rparr>, False)"
    by (simp add: grow_unfold toy_arriving_def EarlySegment_new_def toy_env_def toy_part_def toy_seg_def)
  have g2: "grow (toy_env True) toy_arriving toy_seg = (toy_seg, False)"
    by (simp add: grow_unfold toy_arriving_def toy_env_def toy_part_def toy_seg_def)
  have st: "segment_start toy_arriving 0 = Some 0" "segment_start toy_arriving 1 = Some 0"
    by (simp_all add: segment_start_def toy_arriving_def)
  have sc: "scan_segment (toy_env True) False (toy_seg\<lparr>es_scanned := 0, es_hits := []\<rparr>) 0 = (toy_seg, [], 0)"
  proof -
    have "create_offsets_into (toy_env True) False (es_buf toy_seg) 0 [] = [1]"
      by (simp add: create_offsets_into_def toy_seg_def toy_matches toy_env_def)
    moreover have "creates_in_payload (toy_env True) False (es_buf toy_seg) [1] 0 = (Some [], 0)"
      using toy_walk [of "decode_tx (toy_env True)"] by (simp add: creates_in_payload_def toy_seg_def)
    ultimately show ?thesis
      by (simp add: scan_segment_def toy_seg_def Let_def)
  qed
  have sc2: "scan_segment (toy_env True) False toy_seg 0 = (toy_seg, [], 0)"
    by (simp add: scan_segment_def toy_seg_def)
  let ?r = "\<lparr>er_segments = Map.empty, er_entries = [], er_unresolved = 0, er_found = 0\<rparr>"
  let ?r' = "\<lparr>er_segments = [(0, 0) \<mapsto> toy_seg], er_entries = [], er_unresolved = 0, er_found = 0\<rparr>"
  have [simp]: "\<not> es_complete toy_seg" "\<not> es_complete (EarlySegment_new 0)"
    by (simp_all add: toy_seg_def EarlySegment_new_def)
  have "detect_one (toy_env True) False tr (0, 0) ?r = ?r'" "detect_one (toy_env True) False tr (0, 1) ?r' = ?r'"
    using assms g g2 st sc sc2 by (simp_all add: detect_one_def Let_def)
  then show ?thesis
    by (simp add: detect_in_partial_segments_def Let_def)
qed

definition toy_ingested :: deshred_state where
  "toy_ingested = deshred_init\<lparr>
     ds_all_shreds := [(0, ([(0, [toy_part 0 [1, 24, 30, 200], toy_part 1 [40, 5, 28, 7, 119, 2]])], toy_arriving))],
     ds_iterate := [(0, 0), (0, 0)], ds_early := \<lparr>segments = Map.empty, arrived = [(0, 0), (0, 1)]\<rparr>\<rparr>"

lemma toy_half_batch:
  "reconstruct_shreds (toy_env True) toy_halves deshred_init
    = Some (0, toy_ingested\<lparr>ds_iterate := [(0, 0)], ds_early := \<lparr>segments = [(0, 0) \<mapsto> toy_seg], arrived = []\<rparr>\<rparr>)"
proof -
  let ?E = "toy_env True" and ?s = "toy_ingested\<lparr>ds_iterate := [(0, 0)], ds_early := \<lparr>segments = [(0, 0) \<mapsto> toy_seg], arrived = []\<rparr>\<rparr>"
  have 0: "deshred_init\<lparr>ds_entries := [], ds_iterate := []\<rparr> = deshred_init"
    by (simp add: deshred_init_def)
  have 1: "fold_opt (ingest ?E) toy_halves deshred_init = Some toy_ingested"
    by (simp add: toy_halves_def toy_run note_arrival_def comparable_eq_def toy_ingested_def toy_arriving_def toy_part_def
      del: bind_Some_iff get_at_Some_iff get_range_Some_iff)
  have E: "env_pump_only ?E" "env_confirm ?E = False" "max_processing_age ?E = 150" "iter_set ?E = (\<lambda>x. x)"
    by (simp_all add: toy_env_def)
  have 2: "detect_pass ?E (toy_ingested\<lparr>ds_iterate := [(0, 0)]\<rparr>) = ?s"
    by (simp add: detect_pass_def E toy_ingested_def toy_detect deshred_init_def Let_def)
  have 3: "recover_fec_set ?E (0, 0) (?s, 0) = Some (?s, 0)"
    by (simp add: recover_fec_set_def slot_entry_def set_slot_def toy_ingested_def Let_def get_data_shred_info_def E
      count_shred_def toy_part_def)
  have 4: "detect_pass ?E ?s = ?s"
    by (simp add: detect_pass_def E detect_in_partial_segments_def Let_def)
  have "get_indexes toy_arriving 0 = None"
    by (simp add: get_indexes_def right_bound.simps [of _ 0] right_bound.simps [of _ "Suc 0"] right_bound.simps [of _ "Suc (Suc 0)"] toy_arriving_def)
  then have 5: "deshred_fec_set ?E (0, 0) ?s = Some ?s"
    by (simp add: deshred_fec_set_def slot_entry_def toy_ingested_def)
  have 6: "evict ?E ?s = Some ?s"
    by (simp add: evict_def E toy_ingested_def)
  have "remdups_adj (sort (ds_iterate toy_ingested)) = [(0, 0)]"
    by (simp add: toy_ingested_def)
  then show ?thesis
    using 0 1 2 3 4 5 6 by (simp add: reconstruct_shreds_def Let_def del: bind_Some_iff)
qed


lemma toy_find_ok: "find_iter_ok (toy_env pump_only)"
  by (simp add: find_iter_ok_def toy_env_def)


theorem early_scan_complete_witness:
  "\<exists>s seg. run_batches (toy_env True) [toy_halves] deshred_init = Some s \<and> segments (ds_early s) (0, 0) = Some seg
     \<and> es_buf seg = [1, 24, 30, 200, 40, 5, 28, 7, 119, 2]
     \<and> [1] = create_offsets (toy_env True) False [1, 24, 30, 200, 40, 5, 28, 7, 119, 2]"
proof -
  obtain s where s: "run_batches (toy_env True) [toy_halves] deshred_init = Some s" "segments (ds_early s) (0, 0) = Some toy_seg"
    using toy_half_batch by auto
  show ?thesis
    using early_scan_complete [OF toy_library toy_find_ok s] s by (auto simp: toy_seg_def toy_env_def)
qed

text \<open>
  A guessed start is handed over like a known one. When only launches matter and the segment found
  has a guessed start and no discriminator in its payload, the segment is handed over with no
  entries and marked for good, although the comment says a failing deserialize is how a
  mis-bounded segment is left for a later retry: the deserializer is not asked. With the
  ordinary path and a failing deserializer the same segment is kept back.
\<close>

theorem guessed_start_handed_over:
  assumes "library_ok L" "find_iter_ok L" "run_batches L batches deshred_init = Some s" "env_pump_only L"
    and "trackers s slot = Some t" "get_indexes t (unat fec) = Some (a, b, True)"
    and "those (slice (data_shreds t) a (Suc b)) = Some shreds" "deshred_data L (map shred_payload shreds) = Some payload"
    and "\<forall>p. \<not> disc_at (env_confirm L) payload p"
  shows "(\<exists>s' t'. deshred_fec_set L (slot, fec) s = Some s' \<and> ds_entries s' = ds_entries s @ [(slot, [], payload)]
      \<and> trackers s' slot = Some t' \<and> (\<forall>j \<in> {a..b}. already_deshredded t' ! j))
    \<and> (\<exists>s'. deshred_fec_set (L\<lparr>env_pump_only := False, decode_entries := \<lambda>_. None\<rparr>) (slot, fec) s = Some s'
      \<and> ds_entries s' = ds_entries s \<and> ds_all_shreds s' = ds_all_shreds s)"
proof -
  have s: "settled L s"
    using run_settled [OF assms(1) settled_init, of batches] assms(3) by simp
  have seg: "is_segment t (unat fec) a b True"
    using assms(6) by (simp add: get_indexes_segment)
  have t: "wf_tracker t"
    using ds_ok_tracker [OF _ assms(5)] s by (auto simp: settled_def)
  have "batch_ok L [(slot, fec)] (bump_metrics (count_unknown_start True) s)"
    using s assms(5) seg wf_trackerD(1) [OF t] by (auto simp: batch_ok_def settled_def keys_ok_def is_segment_def)
  from publish_ok [OF this _ seg, of slot "[]" payload] obtain s' where
    p: "publish slot a b [] payload (bump_metrics (count_unknown_start True) s) = Some s'"
      "handed_over slot a b [] payload (bump_metrics (count_unknown_start True) s) s'"
    using assms(5) by auto
  obtain fecs where e: "slot_entry slot s = ((fecs, t), s)"
    using slot_entry_known [OF _ assms(5)] s by (auto simp: settled_def)
  have "create_offsets L (env_confirm L) payload = []"
    using create_offsets_set [OF assms(2)] assms(9) by (metis Collect_empty_eq set_empty)
  then have "deshred_fec_set L (slot, fec) s = Some s'"
    using e assms(4,6,7,8) p(1)
    by (simp add: deshred_fec_set_def hand_over_def creates_in_payload_def bump_metrics_def del: bind_Some_iff)
  moreover obtain t' where t': "trackers s' slot = Some t'" "range_done t' a b"
    using p(2) by (auto simp: handed_over_def)
  moreover have "\<forall>j \<in> {a..b}. already_deshredded t' ! j"
    using t'(2) unfolding range_done_def by blast
  moreover have "\<exists>s'. deshred_fec_set (L\<lparr>env_pump_only := False, decode_entries := \<lambda>_. None\<rparr>) (slot, fec) s = Some s'
      \<and> ds_entries s' = ds_entries s \<and> ds_all_shreds s' = ds_all_shreds s"
    using e assms(6,7,8) by (simp add: deshred_fec_set_def hand_over_def decode_segment_def del: bind_Some_iff)
  ultimately show ?thesis
    using p(2) by (auto simp: handed_over_def)
qed

text \<open>One shred that completes a segment, behind a gap.\<close>

definition toy_gap_held :: Shred where
  "toy_gap_held = ShredData \<lparr>ch_variant = OtherVariant 0, ch_slot = 0, ch_index = 2, ch_fec_set_index = 0, ch_rest = []\<rparr>
     \<lparr>dh_data_complete = True, dh_last_in_slot = False, dh_rest = []\<rparr> [8]"

definition toy_gap :: ShredsStateTracker where
  "toy_gap =
     \<lparr>data_status = (replicate MAX_DATA_SHREDS_PER_SLOT Unknown)[2 := DataComplete],
      data_shreds = (replicate MAX_DATA_SHREDS_PER_SLOT None)[2 := Some toy_gap_held],
      already_recovered_fec_sets = replicate MAX_DATA_SHREDS_PER_SLOT False,
      already_deshredded = replicate MAX_DATA_SHREDS_PER_SLOT False, high_water = 2\<rparr>"

definition toy_gap_state :: deshred_state where
  "toy_gap_state = deshred_init\<lparr>ds_all_shreds := [(0, ([(0, [toy_gap_held])], toy_gap))], ds_iterate := [(0, 0)]\<rparr>"

lemma toy_gap_batch: "reconstruct_shreds (toy_env True) [[2, 1, 0, 8]] deshred_init = Some (0, toy_gap_state)"
proof -
  let ?E = "toy_env True" and ?s = "toy_gap_state"
  have 0: "deshred_init\<lparr>ds_entries := [], ds_iterate := []\<rparr> = deshred_init"
    by (simp add: deshred_init_def)
  have 1: "ingest ?E [2, 1, 0, 8] deshred_init = Some (toy_gap_state\<lparr>ds_early := \<lparr>segments = Map.empty, arrived = [(0, 2)]\<rparr>\<rparr>)"
    by (simp add: toy_run note_arrival_def toy_gap_state_def toy_gap_def toy_gap_held_def
      del: bind_Some_iff get_at_Some_iff get_range_Some_iff)
  have E: "env_pump_only ?E" "env_confirm ?E = False" "max_processing_age ?E = 150" "iter_set ?E = (\<lambda>x. x)"
    by (simp_all add: toy_env_def)
  have st: "segment_start toy_gap 2 = None"
    by (simp add: segment_start_def toy_gap_def numeral_2_eq_2)
  have 2: "detect_pass ?E (toy_gap_state\<lparr>ds_early := \<lparr>segments = Map.empty, arrived = [(0, 2)]\<rparr>, ds_iterate := [(0, 0)]\<rparr>) = ?s"
    by (simp add: detect_pass_def E toy_gap_state_def detect_in_partial_segments_def detect_one_def st Let_def deshred_init_def
      EarlyDetect_default_def)
  have 3: "recover_fec_set ?E (0, 0) (?s, 0) = Some (?s, 0)"
    by (simp add: recover_fec_set_def slot_entry_def set_slot_def toy_gap_state_def Let_def get_data_shred_info_def E
      count_shred_def toy_gap_held_def)
  have 4: "detect_pass ?E ?s = ?s"
    by (simp add: detect_pass_def E detect_in_partial_segments_def Let_def toy_gap_state_def deshred_init_def EarlyDetect_default_def)
  have "get_indexes toy_gap 0 = None"
    by (simp add: get_indexes_def right_bound.simps [of _ 0] toy_gap_def)
  then have 5: "deshred_fec_set ?E (0, 0) ?s = Some ?s"
    by (simp add: deshred_fec_set_def slot_entry_def toy_gap_state_def)
  have 6: "evict ?E ?s = Some ?s"
    by (simp add: evict_def E toy_gap_state_def)
  have 7: "remdups_adj (sort (ds_iterate (toy_gap_state\<lparr>ds_early := \<lparr>segments = Map.empty, arrived = [(0, 2)]\<rparr>\<rparr>))) = [(0, 0)]"
    "ds_iterate toy_gap_state = [(0, 0)]"
    by (simp_all add: toy_gap_state_def)
  show ?thesis
    using 0 1 2 3 4 5 6 7 by (simp add: reconstruct_shreds_def Let_def del: bind_Some_iff)
qed

lemma toy_gap_facts:
  "trackers toy_gap_state 0 = Some toy_gap" "get_indexes toy_gap (unat (2 :: u32)) = Some (2, 2, True)"
  "those (slice (data_shreds toy_gap) 2 (Suc 2)) = Some [toy_gap_held]"
  "deshred_data (toy_env True) (map shred_payload [toy_gap_held]) = Some [8]"
  "\<forall>p. \<not> disc_at (env_confirm (toy_env True)) [8] p" "ds_entries toy_gap_state = []"
proof -
  show "get_indexes toy_gap (unat (2 :: u32)) = Some (2, 2, True)"
    by (simp add: get_indexes_def right_bound.simps [of _ 2] left_bound.simps [of _ _ "Suc 0"] toy_gap_def)
  show "\<forall>p. \<not> disc_at (env_confirm (toy_env True)) [8] p"
    by (auto simp: disc_at_def at_pos_def discriminators_def DISC_CREATE_def DISC_CREATE_V2_def toy_env_def
       dest!: arg_cong [of _ _ length])
qed (simp_all add: trackers_def toy_gap_state_def deshred_init_def toy_gap_def toy_env_def toy_gap_held_def slice_Suc [of 2, simplified])

theorem guessed_start_handed_over_witness:
  "\<exists>s'. deshred_fec_set (toy_env True) (0, 2) toy_gap_state = Some s' \<and> ds_entries s' = [(0, [], [8])]"
proof -
  have run: "run_batches (toy_env True) [[[2, 1, 0, 8]]] deshred_init = Some toy_gap_state"
    using toy_gap_batch by simp
  have "env_pump_only (toy_env True)"
    by (simp add: toy_env_def)
  from guessed_start_handed_over [OF toy_library toy_find_ok run this toy_gap_facts(1-5)] show ?thesis
    by (auto simp: toy_gap_facts(6))
qed

end
