(* ===== verification/Partial.thy ===== *)
theory Partial
  imports Reconstruct
begin

text \<open>
  What early detection hands over, against what the whole segment holds: the creates found in the
  bytes that have arrived are creates of the segment, and a create whose transaction has arrived
  is found without the rest of the segment.
\<close>

section \<open>Walking a segment that is cut off\<close>

text \<open>The walk needs no byte behind the transaction that holds the last hit.\<close>

lemma at_pos_cut: "at_pos buf p w \<Longrightarrow> p + length w \<le> m \<Longrightarrow> at_pos (take m buf) p w"
  using at_pos_take [of buf p w m "[]"] by simp

lemma spans_at: "at_pos buf p (concat ws) \<Longrightarrow> (q, w) \<in> set (spans p ws) \<Longrightarrow> at_pos buf q w"
  by (induction ws arbitrary: p) auto

lemma spans_end: "(q, w) \<in> set (spans p ws) \<Longrightarrow> q + length w \<le> p + length (concat ws)"
proof (induction ws arbitrary: p)
  case (Cons v ws)
  show ?case
  proof (cases "(q, w) = (p, v)")
    case False
    with Cons.prems have "(q, w) \<in> set (spans (p + length v) ws)"
      by auto
    from Cons.IH [OF this] show ?thesis
      by simp
  qed simp
qed simp

lemma fits_take: "fits buf \<Longrightarrow> fits (take m buf)"
  by (simp add: fits_def)

lemma tx_loop_cut:
  assumes "\<forall>w \<in> set ws. tx_word w" "at_pos payload p (concat ws)" "fits payload" "\<forall>h \<in> set hits. h \<le> L"
    "(q0, w0) \<in> set (spans p ws)" "q0 \<le> L" "L < q0 + length w0" "q0 + length w0 \<le> m"
  shows "tx_loop d (take m payload) hits L (length ws) p found =
    do { ys \<leftarrow> decode_hits d hits (spans p ws); Some (Inl (found @ ys)) }"
  using assms(1,2,5)
proof (induction ws arbitrary: p found)
  case (Cons w ws)
  let ?e = "p + length w"
  have w: "at_pos payload p w" and ws: "at_pos payload ?e (concat ws)"
    using Cons.prems(2) by simp_all
  have le: "?e \<le> q0" if "(q0, w0) \<noteq> (p, w)"
    using Cons.prems(3) that spans_start [of "(q0, w0)" ?e ws] by auto
  then have "?e \<le> m"
    using assms(8) by (cases "(q0, w0) = (p, w)") auto
  then have w': "at_pos (take m payload) p w"
    using w by (simp add: at_pos_cut)
  have e: "transaction_end (take m payload) p = Some ?e"
    using transaction.complete [OF _ w' fits_take [OF assms(3)]] Cons.prems(1) by simp
  have "get_range (take m payload) p ?e = Some w"
    using w' by (auto simp: at_pos_def)
  then have step: "tx_loop d (take m payload) hits L (length (w # ws)) p found = do {
      found \<leftarrow> (if hit_in hits (p, w) then do { x \<leftarrow> d w; Some (found @ [x]) } else Some found);
      if ?e > L then Some (Inl found) else tx_loop d (take m payload) hits L (length ws) ?e found
    }"
    using e by (auto simp add: hit_in_def simp del: get_range_Some_iff)
  show ?case
  proof (cases "?e > L")
    case True
    then have "decode_hits d hits (spans ?e ws) = Some []"
      using assms(4) by (intro decode_hits_beyond [of hits L]) (auto dest: spans_start)
    with True show ?thesis
      unfolding step by (simp add: decode_hits_Cons split: bind_splits)
  next
    case False
    then have "(q0, w0) \<in> set (spans ?e ws)"
      using Cons.prems(3) assms(7) by auto
    with False show ?thesis
      unfolding step using Cons.IH [OF _ ws] Cons.prems(1)
      by (auto simp: decode_hits_Cons split: bind_splits)
  qed
qed simp

lemma entry_loop_cut:
  assumes "\<forall>e \<in> set es. wf_entry e" "at_pos payload p (concat (map enc_entry es))" "fits payload"
    "\<forall>h \<in> set hits. h \<le> L"
    "(q0, w0) \<in> set (payload_spans p es)" "q0 \<le> L" "L < q0 + length w0" "q0 + length w0 \<le> m"
  shows "entry_loop d (take m payload) hits L (length es) p found =
    do { ys \<leftarrow> decode_hits d hits (payload_spans p es); Some (found @ ys) }"
  using assms(1,2,5)
proof (induction es arbitrary: p found)
  case (Cons e es)
  let ?n = "of_nat (length (we_txs e)) :: u64" and ?q = "p + length (enc_entry e)" and ?buf = "take m payload"
  have wf: "length (we_hash e) = 32" "unat ?n = length (we_txs e)" "\<forall>w \<in> set (we_txs e). tx_word w"
    using Cons.prems(1) by (simp_all add: wf_entry_def unat_of_nat)
  have q: "?q = p + 48 + length (concat (we_txs e))"
    using wf(1) by (simp add: enc_entry_def)
  have start: "p + 48 \<le> q0"
    using Cons.prems(3) q by (auto dest: spans_start payload_spans_start)
  have full: "at_pos payload p (enc_entry e)" "at_pos payload ?q (concat (map enc_entry es))"
    using Cons.prems(2) by simp_all
  moreover have "40 + p = p + 40" "48 + p = p + 48"
    by simp_all
  ultimately have a: "at_pos payload p (u64_to_le (we_num_hashes e))" "at_pos payload (p + 8) (we_hash e)"
    "at_pos payload (p + 40) (u64_to_le ?n)" and txs: "at_pos payload (p + 48) (concat (we_txs e))"
    using wf(1) by (simp_all add: enc_entry_def)
  have "p + 48 \<le> m"
    using start assms(8) by simp
  then have a': "at_pos ?buf p (u64_to_le (we_num_hashes e))" "at_pos ?buf (p + 8) (we_hash e)"
    "at_pos ?buf (p + 40) (u64_to_le ?n)"
    using a wf(1) by (simp_all add: at_pos_cut)
  have rd: "read_u64 ?buf p = Some (we_num_hashes e, p + 8)" "skip_bytes ?buf (p + 8) 32 = Some (p + 40)"
    "read_u64 ?buf (p + 40) = Some (?n, p + 48)"
    using le_u64.rd_complete [OF a'(1) fits_take [OF assms(3)]] le_u64.rd_complete [OF a'(3) fits_take [OF assms(3)]]
      skip_over [OF a'(2) fits_take [OF assms(3)] wf(1)] by simp_all
  have "p \<le> L"
    using start assms(6) by simp
  then have step: "entry_loop d ?buf hits L (length (e # es)) p found = do {
      r \<leftarrow> tx_loop d ?buf hits L (length (we_txs e)) (p + 48) found;
      (case r of Inl found \<Rightarrow> Some found | Inr (p, found) \<Rightarrow> entry_loop d ?buf hits L (length es) p found)
    }"
    using rd wf(2) by simp
  show ?case
  proof (cases "(q0, w0) \<in> set (spans (p + 48) (we_txs e))")
    case True
    have "L < ?q"
      using spans_end [OF True] assms(7) q by simp
    then have "decode_hits d hits (payload_spans ?q es) = Some []"
      using assms(4) by (intro decode_hits_beyond [of hits L]) (auto dest: payload_spans_start)
    then show ?thesis
      unfolding step tx_loop_cut [OF wf(3) txs assms(3,4) True assms(6-8)]
      by (cases "decode_hits d hits (spans (p + 48) (we_txs e))") (simp_all add: decode_hits_append)
  next
    case False
    then have es: "(q0, w0) \<in> set (payload_spans ?q es)"
      using Cons.prems(3) by simp
    then have "?q \<le> L" "?q \<le> m"
      using assms(6,8) by (auto dest: payload_spans_start)
    then have "at_pos ?buf (p + 48) (concat (we_txs e))"
      using txs q by (simp add: at_pos_cut)
    from tx_loop_eq [OF wf(3) this fits_take [OF assms(3)] assms(4), of d found] \<open>?q \<le> L\<close>
    have "tx_loop d ?buf hits L (length (we_txs e)) (p + 48) found
        = do { ys \<leftarrow> decode_hits d hits (spans (p + 48) (we_txs e)); Some (Inr (?q, found @ ys)) }"
      using q by (simp add: add.assoc)
    then show ?thesis
      unfolding step using Cons.IH [OF _ full(2) es] Cons.prems(1)
      by (cases "decode_hits d hits (spans (p + 48) (we_txs e))") (simp_all add: decode_hits_append)
  qed
qed simp

lemma transactions_at_cut:
  assumes "\<forall>e \<in> set es. wf_entry e" "length es < 2 ^ 64" "fits (enc_payload es)"
    and "hits \<noteq> []" "\<forall>h \<in> set hits. h \<le> last hits"
    and "(q0, w0) \<in> set (payload_spans 8 es)" "q0 \<le> last hits" "last hits < q0 + length w0" "q0 + length w0 \<le> m"
  shows "transactions_at d (take m (enc_payload es)) hits = decode_hits d hits (payload_spans 8 es)"
proof -
  let ?n = "of_nat (length es) :: u64"
  have a: "at_pos (enc_payload es) 0 (u64_to_le ?n)" "at_pos (enc_payload es) 8 (concat (map enc_entry es))"
    using at_pos_mid [of "[]" "u64_to_le ?n" "concat (map enc_entry es)"]
      at_pos_mid [of "u64_to_le ?n" "concat (map enc_entry es)" "[]"]
    by (simp_all add: enc_payload_def)
  have "8 \<le> m"
    using payload_spans_start [OF assms(6)] assms(9) by simp
  then have "at_pos (take m (enc_payload es)) 0 (u64_to_le ?n)"
    using a(1) by (simp add: at_pos_cut)
  then have "read_u64 (take m (enc_payload es)) 0 = Some (?n, 8)" "unat ?n = length es"
    using le_u64.rd_complete [OF _ fits_take [OF assms(3)], of m 0 ?n] assms(2) by (simp_all add: unat_of_nat)
  then show ?thesis
    using assms(4) entry_loop_cut [OF assms(1) a(2) assms(3,5-9), of d "[]"]
    by (simp add: transactions_at_def)
qed

section \<open>Early creates\<close>

lemma create_offsets_last: "\<forall>h \<in> set (create_offsets L confirm buf). h \<le> last (create_offsets L confirm buf)"
  using sorted_le_last [OF create_offsets_sorted] by blast

lemma disc_at_prefix: "disc_at confirm buf p \<Longrightarrow> disc_at confirm (buf @ rest) p"
  using at_pos_take [of buf p _ "length buf" rest] at_pos_bound [of buf p] by (auto simp: disc_at_def)

lemma sole_disc:
  assumes "w \<in> set (discriminators confirm)" "length w = DISC_LEN"
    and "\<forall>d \<in> set (discriminators confirm). hd d \<notin> set pre \<union> set (tl w) \<union> set post"
  shows "disc_at confirm (pre @ w @ post) p \<longleftrightarrow> p = length pre"
proof
  assume "disc_at confirm (pre @ w @ post) p"
  then obtain d where d: "d \<in> set (discriminators confirm)" "at_pos (pre @ w @ post) p d"
    by (auto simp: disc_at_def)
  then have "d \<noteq> []"
    using discriminators_ok [OF d(1)] by (auto simp: stand_alone_def)
  then have at: "(pre @ w @ post) ! p = hd d" "p < length (pre @ w @ post)"
    using at_pos_nth [OF d(2), of 0] at_pos_bound [OF d(2)] by (cases d; simp)+
  have no: "hd d \<notin> set pre" "hd d \<notin> set (tl w)" "hd d \<notin> set post"
    using assms(3) d(1) by auto
  have w: "w = hd w # tl w"
    using assms(2) by (cases w) (simp_all add: DISC_LEN_def)
  show "p = length pre"
  proof (rule ccontr)
    assume "p \<noteq> length pre"
    then consider "p < length pre" | "length pre < p" by linarith
    then show False
    proof cases
      case 1
      then show ?thesis using at no(1) nth_mem [of p pre] by (simp add: nth_append)
    next
      case 2
      have "pre @ w @ post = (pre @ [hd w]) @ (tl w @ post)"
        using w by (metis append_Cons append_assoc append_Nil)
      moreover have "p - Suc (length pre) < length (tl w @ post)"
        using 2 at(2) assms(2) by (simp add: DISC_LEN_def)
      ultimately have "(pre @ w @ post) ! p \<in> set (tl w @ post)"
        using 2 by (metis length_append_singleton not_less_eq nth_append nth_mem)
      then show ?thesis using at no(2,3) by auto
    qed
  qed
qed (use assms(1) at_pos_mid [of pre w post] in \<open>auto simp: disc_at_def\<close>)

section \<open>Properties\<close>

text \<open>
  C19: A create is found as soon as its transaction is there. Cut the bytes of a well-formed segment
  anywhere behind the transaction that holds the last discriminator: searching the part that has
  arrived gives exactly the wanted transactions among those that hold a discriminator, decoded, in
  order, without any byte of the rest.
\<close>

theorem create_found_when_complete:
  assumes "\<forall>e \<in> set es. wf_entry e" "length es < 2 ^ 64" "fits (enc_payload es)"
    and "hits = create_offsets L confirm (take m (enc_payload es))" "hits \<noteq> []"
    and "(q, w) \<in> set (payload_spans 8 es)" "q \<le> last hits" "last hits < q + length w" "q + length w \<le> m"
  shows "fst (creates_in_payload L confirm (take m (enc_payload es)) hits u)
    = map_option (filter (wanted confirm)) (decode_hits (decode_tx L) hits (payload_spans 8 es))"
proof -
  have "\<forall>h \<in> set hits. h \<le> last hits"
    unfolding assms(4) by (rule create_offsets_last)
  from transactions_at_cut [OF assms(1-3,5) this assms(6-9), of "decode_tx L"] assms(5) show ?thesis
    by (simp add: creates_in_payload_eq)
qed

text \<open>
  C25: What was handed over early is final. If the bytes that have arrived are the beginning of a
  well-formed segment, every create found in them is found again in the whole segment, whenever
  both searches decode: early detection reports nothing that the segment does not hold.
\<close>

theorem early_creates_final:
  assumes "find_iter_ok L" "\<forall>e \<in> set es. wf_entry e" "length es < 2 ^ 64" "fits (enc_payload es)"
    and "enc_payload es = buf @ rest"
    and "fst (creates_in_payload L confirm buf (create_offsets L confirm buf) u) = Some early"
    and "fst (creates_in_payload L confirm (enc_payload es) (create_offsets L confirm (enc_payload es)) v) = Some final"
  shows "set early \<subseteq> set final"
proof (cases "create_offsets L confirm buf = []")
  case False
  let ?h = "create_offsets L confirm buf" and ?h' = "create_offsets L confirm (enc_payload es)"
  have sub: "set ?h \<subseteq> set ?h'"
    using disc_at_prefix by (auto simp: create_offsets_set [OF assms(1)] assms(5))
  then have False': "?h' \<noteq> []"
    using False by auto
  obtain cand where cand: "transactions_at (decode_tx L) buf ?h = Some cand" "early = filter (wanted confirm) cand"
    using assms(6) False by (auto simp: creates_in_payload_eq)
  obtain all where all: "transactions_at (decode_tx L) (enc_payload es) ?h' = Some all" "final = filter (wanted confirm) all"
    using assms(7) False' by (auto simp: creates_in_payload_eq)
  have "decode_hits (decode_tx L) ?h (payload_spans 8 es) = Some cand"
    using transactions_at_stable [OF cand(1), of rest] assms(4)
      transactions_at_decodes [OF assms(2-4) False create_offsets_last, of "decode_tx L"] by (simp add: assms(5))
  moreover have "decode_hits (decode_tx L) ?h' (payload_spans 8 es) = Some all"
    using all(1) transactions_at_decodes [OF assms(2-4) False' create_offsets_last, of "decode_tx L"] by simp
  ultimately show ?thesis
    using decode_hits_mono sub cand(2) all(2) by fastforce
qed (use assms(6) in \<open>simp add: creates_in_payload_eq\<close>)

text \<open>A segment of two transactions, the first a buy; the second has not arrived.\<close>

definition toy_wire :: "bytes \<Rightarrow> wire_tx" where
  "toy_wire d = \<lparr>wt_signatures = [replicate 64 0], wt_header = [0, 0, 0], wt_keys = [], wt_blockhash = replicate 32 0,
     wt_instructions = [\<lparr>wi_program = 0, wi_accounts = [], wi_data = d\<rparr>], wt_version = Legacy_Wire\<rparr>"

definition toy_buy :: bytes where "toy_buy = enc_tx (toy_wire (DISC_BUY @ replicate 4 0))"

definition toy_segment :: "wire_entry list" where
  "toy_segment = [\<lparr>we_num_hashes = 0, we_hash = replicate 32 0, we_txs = [toy_buy, enc_tx (toy_wire [])]\<rparr>]"

definition toy_decoded :: VersionedTransaction where
  "toy_decoded = \<lparr>signatures = [], message = V0 sample_keys [sample_buy_ix]\<rparr>"

definition toy_ledger :: run_env where
  "toy_ledger = toy_env True\<lparr>decode_tx := \<lambda>_. Some toy_decoded\<rparr>"

lemma wf_toy_wire: "short_len d \<Longrightarrow> tx_word (enc_tx (toy_wire d))"
  unfolding tx_word_def by (intro exI [of _ "toy_wire d"]) (simp add: toy_wire_def wf_tx_def wf_ix_def short_len_def)

lemma enc_toy_wire:
  "short_len d \<Longrightarrow> enc_tx (toy_wire d) = [1] @ replicate 64 0 @ replicate 36 0 @ [1, 0, 0] @ enc_short d"
proof -
  have "replicate 36 0 = replicate 4 0 @ replicate 32 (0 :: byte)"
    by (simp flip: replicate_add)
  moreover have "replicate 4 0 = [0, 0, 0, 0 :: byte]"
    by (simp add: numeral_eq_Suc)
  ultimately show ?thesis
    by (simp add: toy_wire_def enc_tx_def enc_vec_def enc_ix_def enc_short_def enc_compact_def byte_of_def)
qed

lemma toy_buy_eq: "toy_buy = ([1] @ replicate 64 0 @ replicate 36 0 @ [1, 0, 0, 12]) @ DISC_BUY @ replicate 4 0"
  by (simp add: toy_buy_def enc_toy_wire short_len_def enc_short_def enc_compact_def byte_of_def DISC_BUY_def)

lemma toy_counts:
  "u64_to_le 0 = [0, 0, 0, 0, 0, 0, 0, 0]" "u64_to_le 1 = [1, 0, 0, 0, 0, 0, 0, 0]" "u64_to_le 2 = [2, 0, 0, 0, 0, 0, 0, 0]"
proof -
  have eight: "(8 :: nat) = Suc (Suc (Suc (Suc (Suc (Suc (Suc (Suc 0)))))))"
    by simp
  show "u64_to_le 0 = [0, 0, 0, 0, 0, 0, 0, 0]" "u64_to_le 1 = [1, 0, 0, 0, 0, 0, 0, 0]" "u64_to_le 2 = [2, 0, 0, 0, 0, 0, 0, 0]"
    unfolding u64_to_le_def eight by (simp_all add: byte_of_def)
qed

text \<open>What precedes the discriminator in the segment.\<close>

definition toy_lead :: bytes where
  "toy_lead = [1, 0, 0, 0, 0, 0, 0, 0] @ [0, 0, 0, 0, 0, 0, 0, 0] @ replicate 32 0 @ [2, 0, 0, 0, 0, 0, 0, 0]
     @ [1] @ replicate 64 0 @ replicate 36 0 @ [1, 0, 0, 12]"

lemma toy_payload_eq: "enc_payload toy_segment = toy_lead @ DISC_BUY @ replicate 4 0 @ enc_tx (toy_wire [])"
  by (simp add: enc_payload_def toy_segment_def enc_entry_def toy_buy_eq toy_counts [simplified] toy_lead_def)

lemma toy_lengths: "length toy_lead = 161" "length toy_buy = 117" "length (enc_tx (toy_wire [])) = 105" "length DISC_BUY = 8"
  by (simp_all add: toy_lead_def toy_buy_eq enc_toy_wire short_len_def enc_short_def enc_compact_def DISC_BUY_def)

lemma toy_no_heads:
  "\<forall>d \<in> set (discriminators True). hd d \<notin> set toy_lead \<union> set (tl DISC_BUY) \<union> set (replicate 4 0 @ enc_tx (toy_wire []))"
  by (simp add: toy_lead_def enc_toy_wire short_len_def enc_short_def enc_compact_def discriminators_def byte_of_def
    DISC_CREATE_def DISC_CREATE_V2_def DISC_BUY_def DISC_BUY_V2_def DISC_BUY_EXACT_SOL_IN_def)

lemma toy_ledger_find: "find_iter_ok toy_ledger"
  by (simp add: find_iter_ok_def toy_ledger_def toy_env_def)

lemma sole_offset:
  assumes "find_iter_ok L" "\<forall>p. disc_at confirm buf p \<longleftrightarrow> p = q"
  shows "create_offsets L confirm buf = [q]"
  by (rule sorted_distinct_eq [OF create_offsets_sorted])
    (use assms create_offsets_set [OF assms(1)] create_offsets_distinct [OF assms(1)] in \<open>auto simp: create_offsets_def\<close>)

lemma toy_offsets:
  "create_offsets toy_ledger True (enc_payload toy_segment) = [161]"
  "create_offsets toy_ledger True (take 173 (enc_payload toy_segment)) = [161]"
proof -
  have w: "DISC_BUY \<in> set (discriminators True)" "length DISC_BUY = DISC_LEN"
    by (simp_all add: discriminators_def DISC_LEN_def toy_lengths)
  show "create_offsets toy_ledger True (enc_payload toy_segment) = [161]"
    using sole_disc [OF w toy_no_heads] by (intro sole_offset toy_ledger_find) (simp add: toy_payload_eq toy_lengths)
  have "\<forall>d \<in> set (discriminators True). hd d \<notin> set toy_lead \<union> set (tl DISC_BUY) \<union> set (replicate 4 0)"
    using toy_no_heads by auto
  from sole_disc [OF w this] show "create_offsets toy_ledger True (take 173 (enc_payload toy_segment)) = [161]"
    by (intro sole_offset toy_ledger_find) (simp add: toy_payload_eq toy_lengths)
qed

lemma toy_segment_ok:
  "\<forall>e \<in> set toy_segment. wf_entry e" "length toy_segment < 2 ^ 64" "fits (enc_payload toy_segment)"
proof -
  show "\<forall>e \<in> set toy_segment. wf_entry e"
    using wf_toy_wire by (auto simp: toy_segment_def wf_entry_def toy_buy_def short_len_def DISC_BUY_def)
  show "fits (enc_payload toy_segment)"
    by (simp add: fits_def toy_payload_eq toy_lengths)
qed (simp add: toy_segment_def)

lemma toy_spans: "payload_spans 8 toy_segment = [(56, toy_buy), (173, enc_tx (toy_wire []))]"
  by (simp add: toy_segment_def toy_lengths)

lemma toy_hits: "map_option (filter (wanted True)) (decode_hits (decode_tx toy_ledger) [161] (payload_spans 8 toy_segment)) = Some [toy_decoded]"
  using sample_buy by (simp add: toy_spans decode_hits_def hit_in_def toy_lengths toy_ledger_def wanted_def toy_decoded_def)

theorem create_found_when_complete_witness:
  "fst (creates_in_payload toy_ledger True (take 173 (enc_payload toy_segment)) [161] 0) = Some [toy_decoded]
   \<and> length (enc_payload toy_segment) = 278"
  using create_found_when_complete [OF toy_segment_ok toy_offsets(2) [symmetric], of 56 toy_buy 0]
  by (simp add: toy_spans toy_lengths toy_hits [unfolded toy_spans] toy_payload_eq)

theorem early_creates_final_witness:
  "\<exists>early final. fst (creates_in_payload toy_ledger True (take 173 (enc_payload toy_segment)) [161] 0) = Some early
     \<and> fst (creates_in_payload toy_ledger True (enc_payload toy_segment) [161] 0) = Some final
     \<and> toy_decoded \<in> set early \<and> set early \<subseteq> set final"
proof -
  let ?all = "enc_payload toy_segment"
  have cut: "transactions_at (decode_tx toy_ledger) (take 173 ?all) [161] = decode_hits (decode_tx toy_ledger) [161] (payload_spans 8 toy_segment)"
    by (rule transactions_at_cut [OF toy_segment_ok, of _ 56 toy_buy]) (simp_all add: toy_spans toy_lengths)
  have whole: "transactions_at (decode_tx toy_ledger) ?all [161] = decode_hits (decode_tx toy_ledger) [161] (payload_spans 8 toy_segment)"
    by (rule transactions_at_decodes [OF toy_segment_ok]) simp_all
  have e: "fst (creates_in_payload toy_ledger True (take 173 ?all) [161] 0) = Some [toy_decoded]"
    "fst (creates_in_payload toy_ledger True ?all [161] 0) = Some [toy_decoded]"
    using toy_hits by (simp_all add: creates_in_payload_eq cut whole)
  then have "set [toy_decoded] \<subseteq> set [toy_decoded]"
    by (intro early_creates_final [OF toy_ledger_find toy_segment_ok append_take_drop_id [of 173, symmetric], of True 0 _ 0])
      (simp_all add: toy_offsets)
  with e show ?thesis
    by auto
qed

end
