(* ===== verification/Proxy.thy ===== *)
theory Proxy
  imports Forwarder Segments Partial "HOL-Library.Sublist"
begin

text \<open>
  The reconstructor thread as a whole: which transactions of a batch reach the sniper, what one
  of them does to its state, the invariants that therefore hold of the thread from its start, and the
  end-to-end properties of the proxy: it buys nothing twice, it does not panic, and it buys nothing
  that no seller would hear of.
\<close>

section \<open>The transactions that come out of a batch\<close>

text \<open>A fact that the decoders give for every transaction holds for all that are handed over.\<close>

definition decoders_give :: "(VersionedTransaction \<Rightarrow> bool) \<Rightarrow> run_env \<Rightarrow> bool" where
  "decoders_give P L \<longleftrightarrow> (\<forall>b tx. decode_tx L b = Some tx \<longrightarrow> P tx)
     \<and> (\<forall>b es e tx. decode_entries L b = Some es \<longrightarrow> e \<in> set es \<longrightarrow> tx \<in> set (en_transactions e) \<longrightarrow> P tx)"

definition entries_all :: "(VersionedTransaction \<Rightarrow> bool) \<Rightarrow> deshredded \<Rightarrow> bool" where
  "entries_all P ds \<longleftrightarrow> (\<forall>(slot, es, payload) \<in> set ds. \<forall>e \<in> set es. \<forall>tx \<in> set (en_transactions e). P tx)"

lemma entries_all_simps [simp]:
  "entries_all P []" "entries_all P (xs @ ys) \<longleftrightarrow> entries_all P xs \<and> entries_all P ys"
  "entries_all P ((slot, es, payload) # xs) \<longleftrightarrow> (\<forall>e \<in> set es. \<forall>tx \<in> set (en_transactions e). P tx) \<and> entries_all P xs"
  unfolding entries_all_def by (simp_all add: ball_Un)

lemma tx_loop_decoded:
  assumes "\<And>b tx. d b = Some tx \<Longrightarrow> P tx"
  shows "tx_loop d payload hits l n p found = Some r \<Longrightarrow> \<forall>tx \<in> set found. P tx \<Longrightarrow>
     \<forall>tx \<in> set (case r of Inl f \<Rightarrow> f | Inr (p, f) \<Rightarrow> f). P tx"
proof (induction n arbitrary: p found)
  case (Suc n)
  from Suc.prems(1) obtain e f where
    f: "(if \<exists>h \<in> set hits. h \<ge> p \<and> h < e then do { b \<leftarrow> get_range payload p e; tx \<leftarrow> d b; Some (found @ [tx]) }
          else Some found) = Some f"
    and r: "(if e > l then Some (Inl f) else tx_loop d payload hits l n e f) = Some r"
    by (auto simp: Let_def split del: if_split)
  have "\<forall>tx \<in> set f. P tx"
    using f assms Suc.prems(2) by (auto split: if_splits)
  then show ?case
    using r Suc.IH [of e f] by (auto split: if_splits)
qed auto

lemma entry_loop_decoded:
  assumes "\<And>b tx. d b = Some tx \<Longrightarrow> P tx"
  shows "entry_loop d payload hits l n p found = Some txs \<Longrightarrow> \<forall>tx \<in> set found. P tx \<Longrightarrow> \<forall>tx \<in> set txs. P tx"
proof (induction n arbitrary: p found)
  case (Suc n)
  show ?case
  proof (cases "p > l")
    case False
    with Suc.prems(1) obtain t q u where u: "tx_loop d payload hits l t q found = Some u"
      and r: "(case u of Inl f \<Rightarrow> Some f | Inr (p, f) \<Rightarrow> entry_loop d payload hits l n p f) = Some txs"
      by auto
    then show ?thesis
      using tx_loop_decoded [OF assms u Suc.prems(2)] Suc.IH by (auto split: sum.splits)
  qed (use Suc.prems in simp)
qed simp

lemma creates_decoded:
  assumes "decoders_give P L" "creates_in_payload L confirm payload hits u = (Some txs, v)"
  shows "\<forall>tx \<in> set txs. P tx"
proof (cases "hits = []")
  case False
  have "fst (creates_in_payload L confirm payload hits u) = Some txs"
    using assms(2) by simp
  then obtain c where c: "transactions_at (decode_tx L) payload hits = Some c" "txs = filter (wanted confirm) c"
    using False by (auto simp: creates_in_payload_eq)
  then obtain n p where e: "entry_loop (decode_tx L) payload hits (last hits) n p [] = Some c"
    using False by (auto simp: transactions_at_def Let_def)
  have "P tx" if "decode_tx L b = Some tx" for b tx
    using assms(1) that by (auto simp: decoders_give_def)
  from entry_loop_decoded [OF this e] have "\<forall>tx \<in> set c. P tx"
    by simp
  with c(2) show ?thesis
    by simp
qed (use assms in \<open>simp add: creates_in_payload_def\<close>)

lemma scan_segment_cases:
  "\<exists>seg2. scan_segment L confirm seg u = (seg, [], u) \<or>
     scan_segment L confirm seg u =
       (if es_hits seg2 \<noteq> [] then
          (case creates_in_payload L confirm (es_buf seg2) (es_hits seg2) u of
             (Some txs, u) \<Rightarrow> (seg2, txs, u) | (None, u) \<Rightarrow> (seg2, [], u))
        else (seg2, [], u))"
proof (cases "length (es_buf seg) > es_scanned seg")
  case True
  show ?thesis
    unfolding scan_segment_def Let_def if_P [OF True] by (rule exI, rule disjI2, rule refl)
qed (simp add: scan_segment_def)

lemma scan_segment_decoded:
  assumes "decoders_give P L" "scan_segment L confirm seg u = (seg', txs, v)"
  shows "\<forall>tx \<in> set txs. P tx"
proof -
  obtain seg2 where "(seg', txs, v) = (seg, [], u) \<or> (seg', txs, v) =
       (if es_hits seg2 \<noteq> [] then
          (case creates_in_payload L confirm (es_buf seg2) (es_hits seg2) u of
             (Some txs, u) \<Rightarrow> (seg2, txs, u) | (None, u) \<Rightarrow> (seg2, [], u))
        else (seg2, [], u))"
    using scan_segment_cases [of L confirm seg u] unfolding assms(2) by blast
  then show ?thesis
    using creates_decoded [OF assms(1), of confirm "es_buf seg2" "es_hits seg2" u]
    by (cases "creates_in_payload L confirm (es_buf seg2) (es_hits seg2) u")
      (auto split: if_split_asm option.split_asm)
qed

lemma detect_one_decoded:
  assumes "decoders_give P L" "entries_all P (er_entries r)"
  shows "entries_all P (er_entries (detect_one L confirm tr k r))"
  using assms(2) scan_segment_decoded [OF assms(1), of confirm]
  by (fastforce simp: detect_one_def Let_def create_entry_def split: prod.splits option.splits)

lemma detect_pass_decoded:
  assumes "decoders_give P L" "entries_all P (ds_entries s)"
  shows "entries_all P (ds_entries (detect_pass L s))"
proof -
  have fold: "entries_all P (er_entries r) \<Longrightarrow> entries_all P (er_entries (fold (detect_one L confirm tr) ks r))" for ks confirm tr r
    using detect_one_decoded [OF assms(1)] by (induction ks arbitrary: r) simp_all
  then show ?thesis
    using assms(2) by (auto simp: detect_pass_def detect_in_partial_segments_def Let_def split: prod.splits)
qed

text \<open>The other steps of a batch hand nothing over.\<close>

lemma slot_entry_entries: "slot_entry slot s = (e, s1) \<Longrightarrow> ds_entries s1 = ds_entries s"
  by (auto simp: slot_entry_def split: option.splits prod.splits)

lemma ingest_entries: "ingest L p s = Some s' \<Longrightarrow> ds_entries s' = ds_entries s"
  by (auto simp: ingest_def ingest_shred_def Let_def set_slot_def dest!: slot_entry_entries split: option.splits if_splits prod.splits)

lemma recover_entries: "recover_fec_set L k (s, n) = Some (s', n') \<Longrightarrow> ds_entries s' = ds_entries s"
  by (cases k) (auto simp: recover_fec_set_def Let_def set_slot_def dest!: slot_entry_entries split: prod.splits option.splits if_splits)

lemma evict_slot_entries: "evict_slot L slot s = Some s' \<Longrightarrow> ds_entries s' = ds_entries s"
  by (auto simp: evict_slot_def split: option.splits)

lemma fold_opt_keeps:
  assumes "\<And>x s s'. f x s = Some s' \<Longrightarrow> I s \<Longrightarrow> I s'"
  shows "fold_opt f xs s = Some s' \<Longrightarrow> I s \<Longrightarrow> I s'"
  using assms by (induction xs arbitrary: s) auto

lemma evict_entries: "evict L s = Some s' \<Longrightarrow> ds_entries s' = ds_entries s"
  using fold_opt_keeps [of "evict_slot L" "\<lambda>t. ds_entries t = ds_entries s"] evict_slot_entries
  by (fastforce simp: evict_def Let_def split: if_splits)

lemma publish_entries:
  "publish slot a b es payload s = Some s' \<Longrightarrow> ds_entries s' = ds_entries s @ [(slot, es, payload)]"
  by (auto simp: publish_def set_slot_def dest!: slot_entry_entries split: prod.splits)

lemma decode_segment_decoded:
  assumes "decoders_give P L" "decode_segment L slot a b u payload s = Some s'" "entries_all P (ds_entries s)"
  shows "entries_all P (ds_entries s')"
  using assms by (auto simp: decode_segment_def decoders_give_def dest!: publish_entries split: option.splits)

lemma hand_over_decoded:
  assumes "decoders_give P L" "hand_over L slot a b u payload s = Some s'" "entries_all P (ds_entries s)"
  shows "entries_all P (ds_entries s')"
proof -
  let ?hits = "create_offsets L (env_confirm L) payload"
  obtain c v where c: "creates_in_payload L (env_confirm L) payload ?hits (ds_unresolved s) = (c, v)"
    by fastforce
  show ?thesis
    using assms(2,3) decode_segment_decoded [OF assms(1)] creates_decoded [OF assms(1)] c
    by (auto simp: hand_over_def Let_def create_entry_def dest!: publish_entries split: if_splits option.splits)
qed

lemma deshred_fec_set_decoded:
  assumes "decoders_give P L" "deshred_fec_set L k s = Some s'" "entries_all P (ds_entries s)"
  shows "entries_all P (ds_entries s')"
  using assms(2,3) hand_over_decoded [OF assms(1)]
  by (cases k) (fastforce simp: deshred_fec_set_def Let_def dest!: slot_entry_entries split: prod.splits option.splits)

lemma reconstruct_decoded:
  assumes "decoders_give P L" "reconstruct_shreds L packets s = Some (n, s')"
  shows "entries_all P (ds_entries s')"
proof -
  obtain s1 s2 s3 s4 m ks where 1: "fold_opt (ingest L) packets (s\<lparr>ds_entries := [], ds_iterate := []\<rparr>) = Some s1"
    and 2: "fold_opt (recover_fec_set L) ks (detect_pass L (s1\<lparr>ds_iterate := ks\<rparr>), 0) = Some (s2, m)"
    and 3: "fold_opt (deshred_fec_set L) (ds_iterate (detect_pass L s2)) (detect_pass L s2) = Some s3"
    and 4: "evict L s3 = Some s4" and n: "ds_entries s' = ds_entries s4"
    using assms(2) detect_pass_frame(5) [of L "s1\<lparr>ds_iterate := ks\<rparr>" for s1 ks]
    by (auto simp: reconstruct_shreds_def Let_def split: if_splits)
  have "ds_entries s1 = []"
    using fold_opt_keeps [OF _ 1, of "\<lambda>t. ds_entries t = []"] ingest_entries by simp
  then have "entries_all P (ds_entries (detect_pass L (s1\<lparr>ds_iterate := ks\<rparr>)))"
    by (intro detect_pass_decoded [OF assms(1)]) simp
  then have "entries_all P (ds_entries (fst (s2, m)))"
    using fold_opt_keeps [OF _ 2, of "\<lambda>t. entries_all P (ds_entries (fst t))"] recover_entries by fastforce
  then have "entries_all P (ds_entries (detect_pass L s2))"
    using detect_pass_decoded [OF assms(1)] by simp
  then have "entries_all P (ds_entries s3)"
    by (rule fold_opt_keeps [OF _ 3, of "\<lambda>t. entries_all P (ds_entries t)", rotated]) (rule deshred_fec_set_decoded [OF assms(1)])
  then show ?thesis
    using evict_entries [OF 4] n by simp
qed

section \<open>A sniper that nobody listens to\<close>

definition muted :: "Shared \<Rightarrow> bool" where
  "muted sh \<longleftrightarrow> \<not> sh_ghost_mode sh \<and> sh_require_seller sh \<and> \<not> sh_seller_listening sh"

lemma same_config_muted: "same_config a b \<Longrightarrow> muted b = muted a"
  unfolding same_config_def muted_def by (cases a; cases b) simp

lemma muted_metrics [simp]: "muted (sh\<lparr>sh_metrics := m\<rparr>) = muted sh"
  by (simp add: muted_def)

lemma plan_and_fire_muted:
  assumes "plan_and_fire env info slot prior budget buys h = Some (r, h')" "muted (hs_shared h)"
  shows "r = None \<and> muted (hs_shared h')"
proof
  show "r = None"
    using assms by (auto simp: plan_and_fire_def fire_launch_def muted_def Let_def split: if_splits prod.splits)
  show "muted (hs_shared h')"
    using plan_and_fire_frame [OF assms(1)] assms(2) same_config_muted by (auto simp: fire_frame_def)
qed

lemma confirm_register_muted:
  "confirm_register env info slot h = Some (r, h') \<Longrightarrow> muted (hs_shared h) \<Longrightarrow> r = None \<and> muted (hs_shared h')"
  by (auto simp: confirm_register_def remember_def Let_def watch_launch_def
      split: option.splits if_splits prod.splits dest!: plan_and_fire_muted)

lemma hot_on_buy_muted:
  assumes "hot_on_buy env buy slot h = Some (r, h')" "muted (hs_shared h)"
  shows "r = None \<and> muted (hs_shared h')"
proof (cases "sh_confirm (hs_shared h)")
  case (Some params)
  show ?thesis
  proof (cases "\<exists>p. counted_buy buy slot (seal_old_slots slot h) p")
    case True
    then obtain p where p: "counted_buy buy slot (seal_old_slots slot h) p"
      by blast
    have "Confirm.on_buy (sh_tables (hs_shared h)) params (pbi_buyer buy)
          (pbi_sol_lamports buy) (pbi_token_amount buy) (pbi_exact_sol buy) (pl_watch p) \<noteq> None"
      using assms(1) Some p by (auto simp: hot_on_buy_def Let_def counted_buy_def)
    then obtain watch result where res: "Confirm.on_buy (sh_tables (hs_shared h)) params (pbi_buyer buy)
          (pbi_sol_lamports buy) (pbi_token_amount buy) (pbi_exact_sol buy) (pl_watch p) = Some (watch, result)"
      by fast
    show ?thesis
      using assms unfolding hot_on_buy_counted [OF Some p res]
      by (auto split: sum.split_asm Pass.split_asm dest!: plan_and_fire_muted)
  qed (use assms hot_on_buy_ignored [OF Some] in auto)
qed (use assms in \<open>simp add: hot_on_buy_def\<close>)

lemma hot_step_muted:
  "hot_step e h = Some (r, h') \<Longrightarrow> muted (hs_shared h) \<Longrightarrow> r = None \<and> muted (hs_shared h')"
proof (cases e)
  case (CreateEvent env info slot)
  assume "hot_step e h = Some (r, h')" "muted (hs_shared h)"
  with CreateEvent show ?thesis
    by (auto simp: Hot.on_create_def remember_def Let_def split: option.splits if_splits prod.splits
        dest!: plan_and_fire_muted confirm_register_muted)
qed (use hot_on_buy_muted in auto)

section \<open>Invariants of the reconstructor\<close>

text \<open>What scanning a transaction does, in terms of the events of the sniper.\<close>

definition hot_of :: "tx_env \<Rightarrow> HotSniper \<Rightarrow> HotSniper" where
  "hot_of env h = h\<lparr>hs_shared := te_shared env (hs_shared h)\<rparr>"

fun tx_event :: "hot_env \<Rightarrow> u64 \<Rightarrow> VersionedTransaction \<Rightarrow> hot_event option" where
  "tx_event env slot tx =
     (case fst (parse_create tx 0) of
        Some info \<Rightarrow> Some (CreateEvent env info slot)
      | None \<Rightarrow> map_option (\<lambda>buy. BuyEvent env buy slot) (parse_buy tx))"

definition scanned :: "reconstructor \<Rightarrow> reconstructor \<Rightarrow> FiredLaunch option \<Rightarrow> bool" where
  "scanned r r' fired \<longleftrightarrow> rc_fired r' = rc_fired r @ (case fired of None \<Rightarrow> [] | Some f \<Rightarrow> [f])
     \<and> (rc_fills r' = rc_fills r \<or> (\<exists>f x. fired = Some f \<and> rc_fills r' = rc_fills r @ [x] \<and> pf_mint x = fl_mint f))
     \<and> (\<forall>L. settled L (rc_deshred r') = settled L (rc_deshred r)) \<and> rc_clock r' = Suc (rc_clock r)"

lemma settled_simps [simp]:
  "settled L (s\<lparr>ds_entries := x1\<rparr>) = settled L s" "settled L (s\<lparr>ds_unresolved := x2\<rparr>) = settled L s"
  "settled L (s\<lparr>ds_metrics := x3\<rparr>) = settled L s" "settled L (bump_metrics f s) = settled L s"
  by (simp_all add: settled_def)

lemma tally_simps [simp]:
  "rc_hot (tally f r) = rc_hot r" "rc_fills (tally f r) = rc_fills r" "rc_creates (tally f r) = rc_creates r"
  "rc_entries (tally f r) = rc_entries r" "rc_clock (tally f r) = rc_clock r" "rc_fired (tally f r) = rc_fired r"
  "rc_mints (tally f r) = rc_mints r" "rc_deshred (tally f r) = bump_metrics f (rc_deshred r)"
  by (simp_all add: tally_def)

lemma report_create_simps [simp]:
  "rc_hot (report_create env slot tx info r) = rc_hot r" "rc_fills (report_create env slot tx info r) = rc_fills r"
  "rc_fired (report_create env slot tx info r) = rc_fired r" "rc_mints (report_create env slot tx info r) = rc_mints r"
  "rc_clock (report_create env slot tx info r) = rc_clock r"
  "settled L (rc_deshred (report_create env slot tx info r)) = settled L (rc_deshred r)"
  by (simp_all add: report_create_def)

lemma report_fired_simps [simp]:
  "rc_hot (report_fired env slot fired r) = rc_hot r" "rc_mints (report_fired env slot fired r) = rc_mints r"
  "rc_clock (report_fired env slot fired r) = rc_clock r"
  "settled L (rc_deshred (report_fired env slot fired r)) = settled L (rc_deshred r)"
  "rc_fired (report_fired env slot fired r) = rc_fired r @ (case fired of None \<Rightarrow> [] | Some f \<Rightarrow> [f])"
  "rc_fills (report_fired env slot fired r) = rc_fills r @
     (case fired of None \<Rightarrow> [] | Some f \<Rightarrow> if te_fill_receivers env > 0 then [fill_from_fired slot (te_fill_now env) f] else [])"
  by (simp_all add: report_fired_def Let_def split: option.split)

lemma scan_transaction_event:
  assumes "scan_transaction E slot tx r = Some r'"
  shows "(case (rc_hot r, tx_event (te_hot (E (rc_clock r))) slot tx) of
      (Some h, Some e) \<Rightarrow> \<exists>fired h'. hot_step e (hot_of (E (rc_clock r)) h) = Some (fired, h')
         \<and> scanned r r' fired \<and> rc_hot r' = Some h' \<and> rc_mints r' = created_mint e \<union> rc_mints r
    | (hot, e) \<Rightarrow> scanned r r' None \<and> rc_hot r' = hot \<and> (\<exists>M. finite M \<and> rc_mints r' = M \<union> rc_mints r))"
proof -
  let ?env = "E (rc_clock r)" and ?u = "ds_unresolved (rc_deshred r)"
  obtain c v where c: "parse_create tx ?u = (c, v)"
    by fastforce
  then have c0: "fst (parse_create tx 0) = c"
    using parse_create_unresolved [of tx 0 ?u] by simp
  show ?thesis
  proof (cases "rc_hot r")
    case None
    moreover have "finite {} \<and> rc_mints r = {} \<union> rc_mints r" "finite {m} \<and> insert m (rc_mints r) = {m} \<union> rc_mints r" for m
      by simp_all
    ultimately show ?thesis
      using assms c by (auto simp: scan_transaction_def with_hot_def scanned_def Let_def simp del: Un_insert_left split: option.splits)
  next
    case h: (Some h)
    show ?thesis
      using assms c c0 h by (auto simp: scan_transaction_def with_hot_def scanned_def hot_of_def Let_def fill_from_fired_def
          split: option.splits)
  qed
qed

text \<open>
  What scanning keeps is kept by a whole batch, and what a new batch keeps as well, by the thread.
  The predicate \<open>P\<close> is what the decoders guarantee of a transaction.
\<close>

lemma hand_out_eq:
  "hand_out E (slot, es, payload) r = do {
     r \<leftarrow> scan_for_pump_creates E slot es r;
     Some (if payload \<noteq> [] then r\<lparr>rc_entries := rc_entries r @ [\<lparr>pe_slot = slot, pe_entries = payload\<rparr>]\<rparr> else r)
   }"
  by (simp add: hand_out_def)

lemma process_batch_run:
  "reconstruct_shreds (L\<lparr>env_pump_only := True\<rparr>) packets (rc_deshred r) = Some (n, d) \<Longrightarrow>
   process_batch L E receivers packets r = fold_opt (hand_out E) (ds_entries d)
     (r\<lparr>rc_deshred := d\<lparr>ds_entries := []\<rparr>, rc_hot := map_option (set_seller_listening (receivers > 0)) (rc_hot r)\<rparr>)"
  by (simp only: process_batch_def bind.bind_lunit Let_def prod.case)

locale scan_invariant =
  fixes E :: "nat \<Rightarrow> tx_env" and P :: "VersionedTransaction \<Rightarrow> bool" and I :: "reconstructor \<Rightarrow> bool"
  assumes scan: "I r \<Longrightarrow> P tx \<Longrightarrow> scan_transaction E slot tx r = Some r' \<Longrightarrow> I r'"
    and entry: "I r \<Longrightarrow> I (r\<lparr>rc_entries := es\<rparr>)"
begin

lemma scan_all:
  "fold_opt (scan_transaction E slot) txs r = Some r' \<Longrightarrow> \<forall>tx \<in> set txs. P tx \<Longrightarrow> I r \<Longrightarrow> I r'"
  by (induction txs arbitrary: r) (use scan in auto)

lemma scan_entries:
  "scan_for_pump_creates E slot es r = Some r' \<Longrightarrow> \<forall>e \<in> set es. \<forall>tx \<in> set (en_transactions e). P tx \<Longrightarrow> I r \<Longrightarrow> I r'"
  unfolding scan_for_pump_creates_def by (induction es arbitrary: r) (use scan_all in auto)

lemma hand_out_all:
  "fold_opt (hand_out E) items r = Some r' \<Longrightarrow> entries_all P items \<Longrightarrow> I r \<Longrightarrow> I r'"
proof (induction items arbitrary: r)
  case (Cons item items)
  obtain slot es payload where item: "item = (slot, es, payload)"
    by (cases item)
  then obtain r1 where "scan_for_pump_creates E slot es r = Some r1"
    and rest: "fold_opt (hand_out E) items
      (if payload \<noteq> [] then r1\<lparr>rc_entries := rc_entries r1 @ [\<lparr>pe_slot = slot, pe_entries = payload\<rparr>]\<rparr> else r1) = Some r'"
    using Cons.prems(1) by (auto simp: hand_out_eq)
  then have "I r1"
    using scan_entries Cons.prems(2,3) item by auto
  then show ?case
    using Cons.IH [OF rest] Cons.prems(2) item entry by (simp split: if_splits)
qed simp

end


subsection \<open>Nothing is bought twice\<close>




lemma once_inv_shared [simp]: "once_inv M bought (h\<lparr>hs_shared := sh\<rparr>) = once_inv M bought h"
  by (simp add: once_inv_def pending_ok_def)






subsection \<open>Nothing is bought unheard\<close>

definition quiet :: "(nat \<Rightarrow> tx_env) \<Rightarrow> FiredLaunch list \<Rightarrow> PbFill list \<Rightarrow> reconstructor \<Rightarrow> bool" where
  "quiet E fired fills r \<longleftrightarrow> rc_fired r = fired \<and> rc_fills r = fills \<and> (\<forall>n sh. muted sh \<longrightarrow> muted (te_shared (E n) sh))
     \<and> (\<forall>h. rc_hot r = Some h \<longrightarrow> muted (hs_shared h))"

lemma quiet_scan:
  assumes "quiet E F G r" "scan_transaction E slot tx r = Some r'"
  shows "quiet E F G r'"
proof (cases "\<exists>h e. rc_hot r = Some h \<and> tx_event (te_hot (E (rc_clock r))) slot tx = Some e")
  case False
  then have "scanned r r' None" "rc_hot r' = rc_hot r"
    using scan_transaction_event [OF assms(2)] by (auto split: option.splits)
  then show ?thesis
    using assms(1) by (simp add: quiet_def scanned_def)
next
  case True
  then obtain h e fired h' where h: "rc_hot r = Some h" and step: "hot_step e (hot_of (E (rc_clock r)) h) = Some (fired, h')"
    and s: "scanned r r' fired" "rc_hot r' = Some h'"
    using scan_transaction_event [OF assms(2)] by auto
  have "muted (hs_shared (hot_of (E (rc_clock r)) h))"
    using assms(1) h by (simp add: quiet_def hot_of_def)
  from hot_step_muted [OF step this] show ?thesis
    using assms(1) s by (simp add: quiet_def scanned_def)
qed

interpretation silence: scan_invariant E "\<lambda>_. True" "quiet E F G" for E F G
proof
  show "quiet E F G r'" if "quiet E F G r" "scan_transaction E slot tx r = Some r'" for r r' slot tx
    using that by (rule quiet_scan)
qed (simp add: quiet_def)

text \<open>A batch without a subscriber, and any run of such batches.\<close>

definition interlocked :: "reconstructor \<Rightarrow> bool" where
  "interlocked r \<longleftrightarrow> (\<forall>h. rc_hot r = Some h \<longrightarrow> \<not> sh_ghost_mode (hs_shared h) \<and> sh_require_seller (hs_shared h))"

lemma silent_batch:
  assumes "process_batch L E 0 packets r = Some r'" "\<forall>n sh. muted sh \<longrightarrow> muted (te_shared (E n) sh)" "interlocked r"
  shows "quiet E (rc_fired r) (rc_fills r) r'"
proof -
  let ?rs = "reconstruct_shreds (L\<lparr>env_pump_only := True\<rparr>) packets (rc_deshred r)"
  have "?rs \<noteq> None"
    using assms(1) unfolding process_batch_def by (metis bind.bind_lzero option.distinct(1))
  then obtain n d where "?rs = Some (n, d)"
    by fast
  from trans [OF process_batch_run [OF this, symmetric] assms(1)]
  have d: "fold_opt (hand_out E) (ds_entries d)
      (r\<lparr>rc_deshred := d\<lparr>ds_entries := []\<rparr>, rc_hot := map_option (set_seller_listening False) (rc_hot r)\<rparr>) = Some r'"
    by (simp only: less_irrefl)
  have "entries_all (\<lambda>_. True) (ds_entries d)"
    unfolding entries_all_def by auto
  moreover have "muted (hs_shared h)" if "map_option (set_seller_listening False) (rc_hot r) = Some h" for h
    using that assms(3) [unfolded interlocked_def] by (cases "rc_hot r") (auto simp: muted_def set_seller_listening_def)
  then have "quiet E (rc_fired r) (rc_fills r)
      (r\<lparr>rc_deshred := d\<lparr>ds_entries := []\<rparr>, rc_hot := map_option (set_seller_listening False) (rc_hot r)\<rparr>)"
    using assms(2) by (simp add: quiet_def)
  ultimately show ?thesis
    by (rule silence.hand_out_all [OF d])
qed

lemma silent_run:
  "reconstructor_loop L E (map (Batch 0) batches) r = Some r' \<Longrightarrow> \<forall>n sh. muted sh \<longrightarrow> muted (te_shared (E n) sh) \<Longrightarrow>
     interlocked r \<Longrightarrow> rc_fired r' = rc_fired r \<and> rc_fills r' = rc_fills r"
proof (induction batches arbitrary: r)
  case (Cons b batches)
  then obtain r1 where r1: "process_batch L E 0 b r = Some r1" "reconstructor_loop L E (map (Batch 0) batches) r1 = Some r'"
    by auto
  have q: "quiet E (rc_fired r) (rc_fills r) r1"
    using silent_batch [OF r1(1) Cons.prems(2,3)] .
  then have "interlocked r1"
    by (simp add: quiet_def interlocked_def muted_def)
  with Cons.IH [OF r1(2) Cons.prems(2)] q show ?case
    by (simp add: quiet_def)
qed simp

subsection \<open>The thread does not panic\<close>

definition tx_keys_ok :: "VersionedTransaction \<Rightarrow> bool" where
  "tx_keys_ok tx \<longleftrightarrow> (\<forall>k \<in> set (message_keys (message tx)). wf_key k)"

text \<open>What the other threads may do to the shared state: they keep its configuration sound.\<close>

definition others_ok :: "find_pda \<Rightarrow> (nat \<Rightarrow> tx_env) \<Rightarrow> bool" where
  "others_ok pda E \<longleftrightarrow> (\<forall>n. he_find_pda (te_hot (E n)) = pda
     \<and> (\<forall>sh. config_ok sh \<longrightarrow> config_ok (te_shared (E n) sh)) \<and> (\<forall>sh. sh_seed_table (te_shared (E n) sh) = sh_seed_table sh))"

definition thread_ok :: "run_env \<Rightarrow> find_pda \<Rightarrow> reconstructor \<Rightarrow> bool" where
  "thread_ok L pda r \<longleftrightarrow> settled L (rc_deshred r) \<and> (\<forall>h. rc_hot r = Some h \<longrightarrow> hot_ok pda h)"

lemma parse_create_wf:
  assumes "fst (parse_create tx n) = Some i" "tx_keys_ok tx"
  shows "wf_create i"
proof -
  let ?keys = "message_keys (message tx)" and ?ixs = "message_instructions (message tx)"
  obtain ix i0 d where "read_any ?keys ix = Some i0" "i = i0\<lparr>pci_dev_buy_lamports := d\<rparr>"
    using assms(1) by (auto simp: parse_create_def create_loop_eq Let_def split: if_splits)
  with read_any_wf [of ?keys] assms(2) show ?thesis
    by (auto simp: wf_create_def tx_keys_ok_def)
qed

lemma hot_of_ok:
  assumes "others_ok pda E" "hot_ok pda h"
  shows "hot_ok pda (hot_of (E n) h)"
  using assms by (simp add: others_ok_def hot_ok_def hot_of_def)

lemma scan_total:
  assumes "others_ok pda E" "pda_ok pda" "tx_keys_ok tx" "thread_ok L pda r"
  shows "\<exists>r'. scan_transaction E slot tx r = Some r' \<and> thread_ok L pda r'"
proof -
  let ?env = "E (rc_clock r)" and ?u = "ds_unresolved (rc_deshred r)"
  have pda: "he_find_pda (te_hot ?env) = pda"
    using assms(1) by (simp add: others_ok_def)
  obtain c v where c: "parse_create tx ?u = (c, v)"
    by fastforce
  have "\<exists>r'. scan_transaction E slot tx r = Some r'"
  proof (cases "rc_hot r")
    case None
    with c show ?thesis
      by (auto simp: scan_transaction_def with_hot_def Let_def split: option.split)
  next
    case (Some h)
    have h: "hot_ok pda (hot_of ?env h)"
      using assms(4) Some by (intro hot_of_ok [OF assms(1)]) (simp add: thread_ok_def)
    have "\<exists>x h'. Hot.on_create (te_hot ?env) info slot (hot_of ?env h) = Some (x, h')" if "c = Some info" for info
      using on_create_returns [of "te_hot ?env" "hot_of ?env h" info slot] h assms(2) pda parse_create_wf [of tx ?u info] assms(3) c that
      by (auto simp: returns_def)
    moreover have "\<exists>x h'. hot_on_buy (te_hot ?env) buy slot (hot_of ?env h) = Some (x, h')" for buy
      using hot_on_buy_returns [of "te_hot ?env" "hot_of ?env h" buy slot] h assms(2) pda by (auto simp: returns_def)
    ultimately show ?thesis
      using c Some by (cases c; cases "parse_buy tx") (auto simp: scan_transaction_def with_hot_def hot_of_def Let_def)
  qed
  then obtain r' where r': "scan_transaction E slot tx r = Some r'"
    by blast
  have "thread_ok L pda r'"
  proof (cases "\<exists>h e. rc_hot r = Some h \<and> tx_event (te_hot ?env) slot tx = Some e")
    case False
    then have "scanned r r' None" "rc_hot r' = rc_hot r"
      using scan_transaction_event [OF r'] by (auto split: option.splits)
    then show ?thesis
      using assms(4) by (simp add: thread_ok_def scanned_def)
  next
    case True
    then obtain h e fired h' where h: "rc_hot r = Some h" and e: "tx_event (te_hot ?env) slot tx = Some e"
      and step: "hot_step e (hot_of ?env h) = Some (fired, h')" and s: "scanned r r' fired" "rc_hot r' = Some h'"
      using scan_transaction_event [OF r'] by auto
    have "event_ok pda e"
      using e pda parse_create_wf [of tx 0] assms(3) by (auto split: option.splits)
    moreover have "hot_ok pda (hot_of ?env h)"
      using assms(4) h by (intro hot_of_ok [OF assms(1)]) (simp add: thread_ok_def)
    ultimately have "returns pda (hot_step e (hot_of ?env h))"
      using hot_step_returns [OF _ assms(2)] by blast
    then have "hot_ok pda h'"
      using step by simp
    then show ?thesis
      using assms(4) s by (simp add: thread_ok_def scanned_def)
  qed
  with r' show ?thesis
    by blast
qed

lemma thread_ok_entries [simp]: "thread_ok L pda (r\<lparr>rc_entries := es\<rparr>) = thread_ok L pda r"
  by (simp add: thread_ok_def)

lemma batch_total:
  assumes "library_ok L" "decoders_give tx_keys_ok L" "others_ok pda E" "pda_ok pda"
    and "thread_ok (L\<lparr>env_pump_only := True\<rparr>) pda r"
  shows "\<exists>r'. process_batch L E n packets r = Some r' \<and> thread_ok (L\<lparr>env_pump_only := True\<rparr>) pda r'"
proof -
  let ?L = "L\<lparr>env_pump_only := True\<rparr>"
  have L: "library_ok ?L" "decoders_give tx_keys_ok ?L"
    using assms(1,2) by (simp_all add: library_ok_def decoders_give_def)
  have "ds_ok ?L (rc_deshred r)" "slots_below (rc_deshred r)"
    using assms(5) by (simp_all add: thread_ok_def settled_def)
  then obtain k d where d: "reconstruct_shreds ?L packets (rc_deshred r) = Some (k, d)" "settled ?L d"
    using reconstruct_ok [OF L(1)] by blast
  let ?r = "r\<lparr>rc_deshred := d\<lparr>ds_entries := []\<rparr>, rc_hot := map_option (set_seller_listening (n > 0)) (rc_hot r)\<rparr>"
  have "hot_ok pda (set_seller_listening b h)" if "hot_ok pda h" for b h
    using that by (simp add: hot_ok_def set_seller_listening_def config_ok_def cong: if_cong)
  then have r: "thread_ok ?L pda ?r"
    using assms(5) d(2) by (auto simp: thread_ok_def)
  have scan_es: "\<exists>r'. scan_for_pump_creates E slot es r = Some r' \<and> thread_ok ?L pda r'"
    if "\<forall>e \<in> set es. \<forall>tx \<in> set (en_transactions e). tx_keys_ok tx" "thread_ok ?L pda r" for slot es r
    unfolding scan_for_pump_creates_def
    using that scan_total [OF assms(3,4)] by (intro fold_opt_inv) auto
  have "\<exists>r'. hand_out E item r = Some r' \<and> thread_ok ?L pda r'"
    if hyps: "item \<in> set (ds_entries d)" "thread_ok ?L pda r" for item r
  proof -
    obtain slot es payload where item: "item = (slot, es, payload)"
      by (cases item)
    then have "\<forall>e \<in> set es. \<forall>tx \<in> set (en_transactions e). tx_keys_ok tx"
      using reconstruct_decoded [OF L(2) d(1)] hyps(1) by (fastforce simp: entries_all_def)
    then obtain r1 where "scan_for_pump_creates E slot es r = Some r1" "thread_ok ?L pda r1"
      using scan_es [OF _ hyps(2)] by blast
    then show ?thesis
      by (simp add: hand_out_eq item del: bind_Some_iff)
  qed
  then have "\<exists>r'. fold_opt (hand_out E) (ds_entries d) ?r = Some r' \<and> thread_ok ?L pda r'"
    using r by (intro fold_opt_inv)
  then show ?thesis
    using d(1) by (auto simp: process_batch_def Let_def)
qed

lemma loop_total:
  assumes "library_ok L" "decoders_give tx_keys_ok L" "others_ok pda E" "pda_ok pda"
  shows "thread_ok (L\<lparr>env_pump_only := True\<rparr>) pda r \<Longrightarrow>
    \<exists>r'. reconstructor_loop L E evs r = Some r' \<and> thread_ok (L\<lparr>env_pump_only := True\<rparr>) pda r'"
proof (induction evs arbitrary: r)
  case (Cons ev evs)
  show ?case
  proof (cases ev)
    case (Batch n packets)
    then show ?thesis
      using batch_total [OF assms Cons.prems, of n packets] Cons.IH by fastforce
  qed (use Cons in simp_all)
qed simp

section \<open>Properties of the proxy\<close>


text \<open>
  C7: The reconstructor thread does not panic. Given that the libraries keep their documented types and
  that the other threads keep the configuration sound, every sequence of batches is processed to
  its end, from parsing to the fill feed, and the state of the thread stays well formed and bounded.
\<close>

theorem reconstructor_returns:
  assumes "library_ok L" "decoders_give tx_keys_ok L" "others_ok pda E" "pda_ok pda" "hot = None \<or> (\<exists>h. hot = Some h \<and> hot_ok pda h)"
  shows "\<exists>r. reconstructor_loop L E events (rc_init hot) = Some r \<and> (\<forall>h. rc_hot r = Some h \<longrightarrow> hot_ok pda h)
    \<and> length (ds_all_shreds (rc_deshred r)) \<le> max (max_processing_age L) 51"
proof -
  have "thread_ok (L\<lparr>env_pump_only := True\<rparr>) pda (rc_init hot)"
    using assms(5) settled_init by (auto simp: thread_ok_def rc_init_def)
  from loop_total [OF assms(1-4) this, of events] show ?thesis
    by (auto simp: thread_ok_def settled_def)
qed

text \<open>
  Without a seller nothing is bought. When the fill feed has no subscriber at the start of a batch
  and the sniper trades live with the seller required, the batch fires on nothing and sends
  no fill, as long as the other threads do not switch these settings.
\<close>

theorem no_seller_no_buy:
  assumes "process_batch L E 0 packets r = Some r'" "\<forall>n sh. muted sh \<longrightarrow> muted (te_shared (E n) sh)"
    and "interlocked r"
  shows "rc_fired r' = rc_fired r \<and> rc_fills r' = rc_fills r"
  using silent_batch [OF assms] by (simp only: quiet_def)

section \<open>A create, seen twice\<close>

text \<open>A transaction with a create and the purchase of its developer, and libraries that decode to it.\<close>

definition toy_create_ix :: CompiledInstruction where
  "toy_create_ix = \<lparr>program_id_index = 4, accounts = [0, 0, 1, 2, 0, 3, 0, 5],
     data = create_args DISC_CREATE_V2 (ascii ''Coin'') (ascii ''C'') (ascii ''x'') (ex_key 4) [0, 0]\<rparr>"

definition toy_dev_buy_ix :: CompiledInstruction where
  "toy_dev_buy_ix = \<lparr>program_id_index = 4, accounts = [0, 0, 0], data = DISC_BUY @ u64_to_le 5000 @ u64_to_le 2000000000\<rparr>"

definition toy_keys :: "pubkey list" where
  "toy_keys = [ex_key 1, ex_key 2, ex_key 3, ex_key 4, PUMP_PROGRAM, TOKEN_2022_PROGRAM]"

definition toy_launch :: VersionedTransaction where
  "toy_launch = \<lparr>signatures = [replicate 64 9], message = V0 toy_keys [toy_create_ix, toy_dev_buy_ix]\<rparr>"




lemma toy_launch_keys: "tx_keys_ok toy_launch"
  by (simp add: tx_keys_ok_def toy_launch_def toy_keys_def wf_key_def ex_key_def PUMP_PROGRAM_def TOKEN_2022_PROGRAM_def)

definition toy_chain :: run_env where
  "toy_chain = toy_env True\<lparr>decode_entries := \<lambda>_. Some [\<lparr>en_num_hashes = 0, en_hash = [], en_transactions = [toy_launch, toy_launch]\<rparr>]\<rparr>"

definition toy_world :: "nat \<Rightarrow> tx_env" where
  "toy_world _ = \<lparr>te_hot = ex_env, te_shared = id, te_create_now = Some 1, te_fill_now = Some 2, te_create_receivers = 1, te_fill_receivers = 1\<rparr>"

definition toy_bytes :: bytes where
  "toy_bytes = [1, 0, 0, 0, 0, 0, 0, 0] @ DISC_CREATE"

definition toy_packet :: bytes where
  "toy_packet = [0, 1, 0] @ toy_bytes"

lemma toy_chain_run: "library_ok toy_chain" "decoders_give tx_keys_ok toy_chain" "toy_chain\<lparr>env_pump_only := True\<rparr> = toy_chain"
proof -
  show "library_ok toy_chain"
    using toy_library [of True] by (simp add: library_ok_def toy_chain_def)
  show "decoders_give tx_keys_ok toy_chain"
    using toy_launch_keys by (simp add: decoders_give_def toy_chain_def toy_env_def)
qed (simp add: toy_chain_def toy_env_def)

lemma toy_world_ok: "others_ok (he_find_pda ex_env) toy_world"
  by (simp add: others_ok_def toy_world_def)




lemma replicate_same [simp]: "(replicate n x)[i := x] = replicate n x"
  by (induction n arbitrary: i) (auto split: nat.split)











lemma toy_thread_ok: "thread_ok (toy_chain\<lparr>env_pump_only := True\<rparr>) (he_find_pda ex_env) (rc_init (Some (ex_hot ghost)))"
  using settled_init ex_hot_ok' by (simp add: thread_ok_def rc_init_def)

theorem reconstructor_returns_witness:
  "\<exists>r. reconstructor_loop toy_chain toy_world [Batch 1 [toy_packet], Timeout, Batch 0 [[], [255]], Disconnected, Batch 1 []]
      (rc_init (Some (ex_hot True))) = Some r
    \<and> length (ds_all_shreds (rc_deshred r)) \<le> 150"
proof -
  have "Some (ex_hot True) = None \<or> (\<exists>h. Some (ex_hot True) = Some h \<and> hot_ok (he_find_pda ex_env) h)"
    using ex_hot_ok' by simp
  from reconstructor_returns [OF toy_chain_run(1,2) toy_world_ok ex_event_ok(2) this] show ?thesis
    by (fastforce simp: toy_chain_def toy_env_def simp del: reconstructor_loop.simps)
qed

theorem no_seller_no_buy_witness:
  "\<exists>r. process_batch toy_chain toy_world 0 [toy_packet] (rc_init (Some (ex_hot False))) = Some r
    \<and> rc_fired r = [] \<and> rc_fills r = []"
proof -
  obtain r where r: "process_batch toy_chain toy_world 0 [toy_packet] (rc_init (Some (ex_hot False))) = Some r"
    using batch_total [OF toy_chain_run(1,2) toy_world_ok ex_event_ok(2) toy_thread_ok] by blast
  have "\<forall>n sh. muted sh \<longrightarrow> muted (te_shared (toy_world n) sh)"
    by (simp add: toy_world_def)
  moreover have "interlocked (rc_init (Some (ex_hot False)))"
    by (simp add: interlocked_def rc_init_def ex_hot_fields) (simp add: ex_shared_def)
  ultimately have "rc_fired r = rc_fired (rc_init (Some (ex_hot False))) \<and> rc_fills r = rc_fills (rc_init (Some (ex_hot False)))"
    by (rule no_seller_no_buy [OF r])
  with r show ?thesis
    by (simp add: rc_init_def)
qed

end
