(* ===== verification/Service.thy ===== *)
theory Service
  imports Forwarder RustText "HOL-Library.List_Lexorder" "HOL-Library.Product_Lexorder"
begin

text \<open>
  The proxy around the relay: the start of \<open>proxy/src/main.rs\<close>, the heartbeat loop of
  \<open>proxy/src/heartbeat.rs\<close>, the token refresher of \<open>proxy/src/token_authenticator.rs\<close>, the
  subscription streams of \<open>proxy/src/server.rs\<close> and the multicast discovery of
  \<open>proxy/src/multicast_config.rs\<close>.

  Every loop is a step function on its local variables; what the network, the clock and the other
  threads do at a step is its argument.
\<close>

section \<open>Start-up\<close>

record CommonArgs =
  src_bind_addr :: IpAddr
  src_bind_port :: u16
  multicast_bind_ip :: "IpAddr option"
  multicast_device :: string
  multicast_subscribe_port :: u16
  dest_ip_ports :: "(SocketAddr \<times> string) list"
  endpoint_discovery_url :: "string option"
  discovered_endpoints_port :: "u16 option"
  metrics_report_interval_ms :: u64
  debug_trace_shred :: bool
  grpc_service_port :: "u16 option"
  sniper_config :: "string option"
  reconstruct_shreds_arg :: bool
  public_ip :: "IpAddr option"
  num_threads :: "nat option"

record ShredstreamArgs =
  block_engine_url :: string
  auth_url :: "string option"
  auth_keypair :: string
  desired_regions :: "string list"
  common_args :: CommonArgs

datatype ProxySubcommands = Shredstream ShredstreamArgs | ForwardOnly CommonArgs

definition common_of :: "ProxySubcommands \<Rightarrow> CommonArgs" where
  "common_of cmd = (case cmd of Shredstream x \<Rightarrow> common_args x | ForwardOnly x \<Rightarrow> x)"

definition SHREDSTREAM_SHUTDOWN_UNIX_SECONDS :: nat where
  "SHREDSTREAM_SHUTDOWN_UNIX_SECONDS = 1788566400"

text \<open>The argument is the seconds since the epoch, None when the clock is before it.\<close>

definition shutdown_has_passed :: "nat option \<Rightarrow> bool" where
  "shutdown_has_passed now = (case now of Some s \<Rightarrow> s \<ge> SHREDSTREAM_SHUTDOWN_UNIX_SECONDS | None \<Rightarrow> False)"

datatype StartError = Shutdown | HostnameUnreadable | DiscoveryIncomplete | NoDestinations | RuntimeFailed | SniperError string

text \<open>
  What \<open>start_heartbeat\<close> passes on. It panics (None) when the key file cannot be read, and when
  the public address is not given and cannot be looked up.
\<close>

record heartbeat_plan =
  hp_block_engine_url :: string
  hp_auth_url :: string
  hp_regions :: "string list"
  hp_recv_socket :: SocketAddr

definition start_heartbeat :: "(string \<Rightarrow> bool) \<Rightarrow> IpAddr option \<Rightarrow> ShredstreamArgs \<Rightarrow> heartbeat_plan option" where
  "start_heartbeat key_readable looked_up a =
     (if \<not> key_readable (auth_keypair a) then None
      else do {
        ip \<leftarrow> (case public_ip (common_args a) of Some ip \<Rightarrow> Some ip | None \<Rightarrow> looked_up);
        Some \<lparr>hp_block_engine_url = block_engine_url a,
          hp_auth_url = (case auth_url a of Some u \<Rightarrow> u | None \<Rightarrow> block_engine_url a),
          hp_regions = desired_regions a, hp_recv_socket = (ip, src_bind_port (common_args a))\<rparr>
      })"

record started =
  sp_heartbeat :: "heartbeat_plan option"
  sp_metrics :: ShredMetrics
  sp_destinations :: "SocketAddr list"
  sp_sniper :: "HotSniper option"
  sp_should_reconstruct_shreds :: bool
  sp_use_discovery_service :: bool
  sp_grpc_port :: "u16 option"

text \<open>
  What the system answers while \<open>main\<close> starts: the clock, the host name (or no name, or one that is not
  Unicode), whether the signal handler and the runtime can be set up, the key file and the public
  address, and the start of the sniper from the given file: a panic, an error text or the sniper.
\<close>

datatype host_name = HostnameError | NotUnicode | Hostname string

record boot =
  bt_now :: "nat option"
  bt_hostname :: host_name
  bt_signals :: bool
  bt_runtime :: bool
  bt_key_readable :: "string \<Rightarrow> bool"
  bt_public_ip :: "IpAddr option"
  bt_start_sniper :: "string \<Rightarrow> (string + HotSniper) option"

text \<open>
  \<open>main\<close> up to the start of the forwarder, in two parts: what is started, and before it the checks of the
  arguments and the environment. None is a panic.
\<close>

definition start_parts :: "boot \<Rightarrow> ProxySubcommands \<Rightarrow> (StartError + started) option" where
  "start_parts bt cmd =
     (let args = common_of cmd
      in do {
        heartbeat \<leftarrow> (case cmd of
            Shredstream a \<Rightarrow> map_option Some (start_heartbeat (bt_key_readable bt) (bt_public_ip bt) a)
          | ForwardOnly _ \<Rightarrow> Some None);
        let metrics = ShredMetrics_new (grpc_service_port args \<noteq> None);
        sniper \<leftarrow> (case sniper_config args of
            None \<Rightarrow> Some (Inr None)
          | Some path \<Rightarrow> map_option (\<lambda>x. case x of Inl e \<Rightarrow> Inl (SniperError e) | Inr s \<Rightarrow> Inr (Some s)) (bt_start_sniper bt path));
        case sniper of
          Inl e \<Rightarrow> Some (Inl e)
        | Inr s \<Rightarrow> Some (Inr
            \<lparr>sp_heartbeat = heartbeat, sp_metrics = metrics, sp_destinations = map fst (dest_ip_ports args), sp_sniper = s,
             sp_should_reconstruct_shreds = (grpc_service_port args \<noteq> None \<or> reconstruct_shreds_arg args \<or> s \<noteq> None),
             sp_use_discovery_service = (endpoint_discovery_url args \<noteq> None \<and> discovered_endpoints_port args \<noteq> None),
             sp_grpc_port = grpc_service_port args\<rparr>)
      })"

definition proxy_main :: "boot \<Rightarrow> ProxySubcommands \<Rightarrow> (StartError + started) option" where
  "proxy_main bt cmd =
     (let args = common_of cmd;
          discovery = endpoint_discovery_url args; port = discovered_endpoints_port args
      in if (case cmd of Shredstream _ \<Rightarrow> True | ForwardOnly _ \<Rightarrow> False) \<and> shutdown_has_passed (bt_now bt) then Some (Inl Shutdown)
         else if bt_hostname bt = HostnameError then Some (Inl HostnameUnreadable)
         else if bt_hostname bt = NotUnicode then None
         else if (discovery = None \<and> port \<noteq> None) \<or> (discovery \<noteq> None \<and> port = None) then Some (Inl DiscoveryIncomplete)
         else if discovery = None \<and> port = None \<and> dest_ip_ports args = [] then Some (Inl NoDestinations)
         else if \<not> bt_signals bt then None
         else if \<not> bt_runtime bt then Some (Inl RuntimeFailed)
         else start_parts bt cmd)"

lemma accepted_start: "proxy_main bt cmd = Some (Inr p) \<Longrightarrow> start_parts bt cmd = Some (Inr p)"
  by (simp add: proxy_main_def Let_def split: if_split_asm)

lemma parts_started:
  "do { a \<leftarrow> x; s \<leftarrow> y; case s of Inl e \<Rightarrow> Some (Inl e) | Inr t \<Rightarrow> Some (Inr (f a t)) } = Some (Inr p) \<Longrightarrow> \<exists>a t. p = f a t"
  by (cases x; cases y; cases "the y") auto

lemma started_reconstructs:
  assumes "start_parts bt cmd = Some (Inr p)" "sp_sniper p = Some h"
  shows "sp_should_reconstruct_shreds p"
proof -
  have "\<exists>heartbeat s. p =
      \<lparr>sp_heartbeat = heartbeat, sp_metrics = ShredMetrics_new (grpc_service_port (common_of cmd) \<noteq> None),
       sp_destinations = map fst (dest_ip_ports (common_of cmd)), sp_sniper = s,
       sp_should_reconstruct_shreds = (grpc_service_port (common_of cmd) \<noteq> None \<or> reconstruct_shreds_arg (common_of cmd) \<or> s \<noteq> None),
       sp_use_discovery_service = (endpoint_discovery_url (common_of cmd) \<noteq> None \<and> discovered_endpoints_port (common_of cmd) \<noteq> None),
       sp_grpc_port = grpc_service_port (common_of cmd)\<rparr>"
    using assms(1) unfolding start_parts_def Let_def by (rule parts_started)
  with assms(2) show ?thesis
    by auto
qed

section \<open>Heartbeats\<close>

text \<open>The interval is in milliseconds.\<close>

record heartbeat_state =
  hb_interval :: nat
  hb_last_cumulative :: u64
  hb_restarts :: u64
  hb_successful :: u64
  hb_failed :: u64
  hb_restarts_total :: u64
  hb_successful_total :: u64
  hb_failed_total :: u64

definition heartbeat_init :: heartbeat_state where
  "heartbeat_init = \<lparr>hb_interval = 1000, hb_last_cumulative = 0, hb_restarts = 0, hb_successful = 0, hb_failed = 0,
     hb_restarts_total = 0, hb_successful_total = 0, hb_failed_total = 0\<rparr>"

datatype phase = Connecting | Connected | Ended

datatype beat_result = Beat_Ok u32 | InvalidArgument | Beat_Failed

text \<open>
  What one turn of a loop sees: the exit flag, whether the shutdown date has passed, and what
  comes next: the outcome of connecting, a beat that is due, a tick of the metrics with the count
  of shreds received so far, or the shutdown signal.
\<close>

datatype heartbeat_event = Connect bool | Beat beat_result | MetricsTick u64 | ShutdownSignal

record turn =
  tn_exit :: bool
  tn_shutdown_passed :: bool
  tn_event :: heartbeat_event

definition on_beat :: "beat_result \<Rightarrow> heartbeat_state \<Rightarrow> heartbeat_state option" where
  "on_beat res s =
     (case res of
        Beat_Ok ttl_ms \<Rightarrow>
          let new_interval = unat (ttl_ms div 3);
              s = (if hb_interval s \<noteq> new_interval then s\<lparr>hb_interval := new_interval\<rparr> else s)
          in Some (s\<lparr>hb_successful := hb_successful s + 1\<rparr>)
      | InvalidArgument \<Rightarrow> None
      | Beat_Failed \<Rightarrow> Some (s\<lparr>hb_failed := hb_failed s + 1\<rparr>))"

text \<open>The result is False when nothing was received since the last tick and the client restarts.\<close>

definition on_metrics_tick :: "u64 \<Rightarrow> heartbeat_state \<Rightarrow> bool \<times> heartbeat_state" where
  "on_metrics_tick new_received_count s =
     (if new_received_count = hb_last_cumulative s then (False, s)
      else (True, s\<lparr>hb_last_cumulative := new_received_count,
              hb_restarts := 0, hb_successful := 0, hb_failed := 0,
              hb_restarts_total := hb_restarts_total s + hb_restarts s,
              hb_successful_total := hb_successful_total s + hb_successful s,
              hb_failed_total := hb_failed_total s + hb_failed s\<rparr>))"

text \<open>One turn of \<open>heartbeat_loop\<close>; None is the panic on invalid arguments.\<close>

definition heartbeat_step :: "turn \<Rightarrow> phase \<times> heartbeat_state \<Rightarrow> (phase \<times> heartbeat_state) option" where
  "heartbeat_step t ps =
     (case ps of
        (Ended, s) \<Rightarrow> Some (Ended, s)
      | (Connecting, s) \<Rightarrow>
          if tn_exit t \<or> tn_shutdown_passed t then Some (Ended, s)
          else (case tn_event t of
              Connect True \<Rightarrow> Some (Connected, s)
            | Connect False \<Rightarrow> Some (Connecting, s\<lparr>hb_restarts := hb_restarts s + 1\<rparr>)
            | _ \<Rightarrow> Some (Connecting, s))
      | (Connected, s) \<Rightarrow>
          if tn_exit t then Some (Connecting, s)
          else if tn_shutdown_passed t then Some (Ended, s)
          else (case tn_event t of
              Beat res \<Rightarrow> map_option (Pair Connected) (on_beat res s)
            | MetricsTick n \<Rightarrow>
                (let (fresh, s) = on_metrics_tick n s in Some (if fresh then Connected else Connecting, s))
            | ShutdownSignal \<Rightarrow> Some (Connecting, s)
            | Connect _ \<Rightarrow> Some (Connected, s)))"

fun heartbeat_run :: "turn list \<Rightarrow> phase \<times> heartbeat_state \<Rightarrow> (phase \<times> heartbeat_state) option" where
  "heartbeat_run [] ps = Some ps"
| "heartbeat_run (t # ts) ps = do { ps \<leftarrow> heartbeat_step t ps; heartbeat_run ts ps }"

section \<open>Tokens\<close>

text \<open>
  A token with its expiry, when it says one: seconds and nanoseconds since the epoch, as they come in the
  message. Their conversion to system time, in nanoseconds since the epoch, is the parameter
  \<open>system_time\<close>; None when they are out of its range.
\<close>

type_synonym Timestamp = "int \<times> int"

record Token =
  tk_value :: string
  tk_expires :: "Timestamp option"

datatype ConnectionError = Client string | Deserialization

record token_state =
  ts_bearer :: string
  ts_refresh :: Token
  ts_access_expires :: Timestamp

text \<open>\<open>auth\<close>, from the answer of the service: both tokens have to be there.\<close>

definition auth :: "string + Token option \<times> Token option \<Rightarrow> ConnectionError + Token \<times> Token" where
  "auth answer =
     (case answer of
        Inl e \<Rightarrow> Inl (Client e)
      | Inr (Some access, Some refresh) \<Rightarrow> Inr (access, refresh)
      | Inr _ \<Rightarrow> Inl Deserialization)"

definition ClientInterceptor_new :: "string + Token option \<times> Token option \<Rightarrow> ConnectionError + token_state" where
  "ClientInterceptor_new answer =
     (case auth answer of
        Inl e \<Rightarrow> Inl e
      | Inr (access, refresh) \<Rightarrow>
          (case tk_expires access of
             None \<Rightarrow> Inl Deserialization
           | Some e \<Rightarrow> Inr \<lparr>ts_bearer = tk_value access, ts_refresh = refresh, ts_access_expires = e\<rparr>))"

datatype token_action = Full_Auth bool | Access_Token bool | Slept

definition FIVE_MINUTES :: int where
  "FIVE_MINUTES = 5 * 60 * 1000000000"

text \<open>What is left until an expiry, nothing once it has passed; None when the expiry is out of range.\<close>

definition time_left :: "(Timestamp \<Rightarrow> int option) \<Rightarrow> int \<Rightarrow> Timestamp \<Rightarrow> int option" where
  "time_left system_time now e = map_option (\<lambda>t. if now \<le> t then t - now else 0) (system_time e)"

text \<open>
  One turn of the refresher at the time \<open>now\<close>, with the answers the service would give. None is a panic: of
  a missing expiry or of one out of range, or of an answer without a token; it ends the refresher.
\<close>

definition token_step ::
  "(Timestamp \<Rightarrow> int option) \<Rightarrow> int \<Rightarrow> (string + Token option \<times> Token option) \<Rightarrow> (string + Token option) \<Rightarrow> token_state
     \<Rightarrow> (token_action \<times> token_state) option" where
  "token_step system_time now full refreshed s = do {
     refresh_expires \<leftarrow> tk_expires (ts_refresh s);
     refresh_token_ttl \<leftarrow> time_left system_time now refresh_expires;
     if refresh_token_ttl < FIVE_MINUTES then
       (case auth full of
          Inl _ \<Rightarrow> Some (Full_Auth False, s)
        | Inr (access, refresh) \<Rightarrow> do {
            e \<leftarrow> tk_expires access;
            Some (Full_Auth True, \<lparr>ts_bearer = tk_value access, ts_refresh = refresh, ts_access_expires = e\<rparr>)
          })
     else do {
       access_token_ttl \<leftarrow> time_left system_time now (ts_access_expires s);
       if access_token_ttl < FIVE_MINUTES then
         (case refreshed of
            Inl _ \<Rightarrow> Some (Access_Token False, s)
          | Inr answer \<Rightarrow> do {
              access \<leftarrow> answer;
              e \<leftarrow> tk_expires access;
              Some (Access_Token True, s\<lparr>ts_bearer := tk_value access, ts_access_expires := e\<rparr>)
            })
       else Some (Slept, s)
     }
   }"

text \<open>\<open>Interceptor::call\<close>: the header of a request, with the parser of header values as an argument.\<close>

definition authorize :: "(string \<Rightarrow> string option) \<Rightarrow> token_state \<Rightarrow> string option" where
  "authorize parse_header s = (if ts_bearer s = [] then None else parse_header (''Bearer '' @ ts_bearer s))"

section \<open>Subscriptions\<close>

text \<open>
  What a broadcast receiver yields. The number is how many messages the client still takes; a
  stream is the list of what the client gets.
\<close>

datatype 'a recv = Received 'a | Lagged nat | Closed

fun subscribe_entries :: "'a recv list \<Rightarrow> nat \<Rightarrow> 'a list" where
  "subscribe_entries (Received m # rest) (Suc n) = m # subscribe_entries rest n"
| "subscribe_entries _ _ = []"

definition subscribe_pump_creates :: "'a recv list \<Rightarrow> nat \<Rightarrow> 'a list" where
  "subscribe_pump_creates = subscribe_entries"

fun subscribe_fills :: "'a recv list \<Rightarrow> nat \<Rightarrow> 'a list" where
  "subscribe_fills (Received m # rest) (Suc n) = m # subscribe_fills rest n"
| "subscribe_fills (Lagged _ # rest) n = subscribe_fills rest n"
| "subscribe_fills _ _ = []"

section \<open>Multicast groups\<close>

definition is_multicast :: "IpAddr \<Rightarrow> bool" where
  "is_multicast ip = (if length ip = 4 then 224 \<le> hd ip \<and> hd ip \<le> 239 else hd ip = 0xFF)"

text \<open>\<open>split_once('/')\<close>.\<close>

definition split_slash :: "string \<Rightarrow> (string \<times> string) option" where
  "split_slash s =
     (if CHR ''/'' \<in> set s
      then Some (takeWhile (\<lambda>c. c \<noteq> CHR ''/'') s, tl (dropWhile (\<lambda>c. c \<noteq> CHR ''/'') s)) else None)"

definition route_group :: "(string \<Rightarrow> IpAddr option) \<Rightarrow> (string \<Rightarrow> nat option) \<Rightarrow> string \<Rightarrow> IpAddr option" where
  "route_group parse_ip parse_mask dst =
     (case split_slash dst of
        Some (base, mask_str) \<Rightarrow> do {
          ip \<leftarrow> parse_ip base;
          mask \<leftarrow> parse_mask mask_str;
          if is_multicast ip \<and> (if length ip = 4 then mask = 32 else mask = 128) then Some ip else None
        }
      | None \<Rightarrow> do {
          ip \<leftarrow> parse_ip dst;
          if is_multicast ip then Some ip else None
        })"

text \<open>The order of addresses: version 4 first, then by their octets.\<close>

definition ip_key :: "IpAddr \<Rightarrow> nat \<times> u8 list" where
  "ip_key ip = (length ip, ip)"

definition parse_ip_route_for_device ::
  "(string \<Rightarrow> IpAddr option) \<Rightarrow> (string \<Rightarrow> nat option) \<Rightarrow> string list option \<Rightarrow> IpAddr list option" where
  "parse_ip_route_for_device parse_ip parse_mask rows =
     map_option (\<lambda>dsts. remdups_adj (sort_key ip_key (List.map_filter (route_group parse_ip parse_mask) dsts))) rows"

text \<open>Rows of \<open>ip addr show\<close>: their optional address lists, each entry with family and address.\<close>

definition parse_ipv4_addr ::
  "(string \<Rightarrow> IpAddr option) \<Rightarrow> (string option \<times> string option) list option list option \<Rightarrow> IpAddr option option" where
  "parse_ipv4_addr parse_ipv4 rows =
     map_option (\<lambda>rows. do {
       (_, local) \<leftarrow> find (\<lambda>(family, local). family = Some ''inet'' \<and> local \<noteq> None)
         (concat (map (\<lambda>row. case row of None \<Rightarrow> [] | Some infos \<Rightarrow> infos) rows));
       s \<leftarrow> local;
       parse_ipv4 s
     }) rows"

definition parse_ifindex :: "u32 option list option \<Rightarrow> u32 option option" where
  "parse_ifindex rows = map_option (\<lambda>rows. if rows = [] then None else last rows) rows"

text \<open>
  The sockets: for each version with groups one bound socket, with the groups it asks to join. Whether
  a bind succeeds is an argument; a group that cannot be joined is only logged.
\<close>

definition create_multicast_socket_on_device ::
  "IpAddr list option \<Rightarrow> IpAddr option option \<Rightarrow> u32 option option \<Rightarrow> (IpAddr \<Rightarrow> bool) \<Rightarrow> IpAddr option
     \<Rightarrow> (IpAddr \<times> (IpAddr \<times> (IpAddr + u32)) list) list option" where
  "create_multicast_socket_on_device routes ipv4 ifindex bind_ok multicast_ip =
     (let device_ipv4 = (case ipv4 of Some (Some a) \<Rightarrow> a | _ \<Rightarrow> [0, 0, 0, 0]);
          device_ifindex = (case ifindex of Some (Some i) \<Rightarrow> i | _ \<Rightarrow> 0);
          groups = (case multicast_ip of Some g \<Rightarrow> [g] | None \<Rightarrow> (case routes of Some ips \<Rightarrow> ips | None \<Rightarrow> []));
          groups_v4 = filter (\<lambda>ip. length ip = 4) groups;
          groups_v6 = filter (\<lambda>ip. length ip \<noteq> 4) groups;
          v4 = (if groups_v4 \<noteq> [] \<and> bind_ok [0, 0, 0, 0] then [([0, 0, 0, 0], map (\<lambda>g. (g, Inl device_ipv4)) groups_v4)] else []);
          v6 = (if groups_v6 \<noteq> [] \<and> bind_ok (replicate 16 0) then [(replicate 16 0, map (\<lambda>g. (g, Inr device_ifindex)) groups_v6)] else [])
      in if groups_v4 = [] \<and> groups_v6 = [] then None
         else if v4 @ v6 = [] then None else Some (v4 @ v6))"

section \<open>The heartbeat loop\<close>

lemma heartbeat_ended: "heartbeat_run ts (Ended, s) = Some (Ended, s)"
  by (induction ts) (simp_all add: heartbeat_step_def)

lemma heartbeat_run_append: "heartbeat_run (ts @ us) ps = heartbeat_run ts ps \<bind> heartbeat_run us"
  by (induction ts arbitrary: ps) (simp_all split: bind_split)

text \<open>Reference: the outcomes of beats and connections that the loop has acted on.\<close>

fun is_connect :: "heartbeat_event \<Rightarrow> bool" where
  "is_connect (Connect ok) = True"
| "is_connect e = False"

fun handled :: "turn list \<Rightarrow> phase \<times> heartbeat_state \<Rightarrow> heartbeat_event list" where
  "handled [] ps = []"
| "handled (t # ts) ps =
     (case heartbeat_step t ps of
        None \<Rightarrow> []
      | Some ps' \<Rightarrow>
          (if tn_exit t \<or> tn_shutdown_passed t \<or> fst ps = Ended
              \<or> (is_connect (tn_event t) \<longleftrightarrow> fst ps \<noteq> Connecting) then [] else [tn_event t]) @ handled ts ps')"

definition tally_of :: "heartbeat_event \<Rightarrow> heartbeat_event list \<Rightarrow> u64" where
  "tally_of e es = of_nat (length (filter (\<lambda>x. x = e) es))"

definition beats_ok :: "heartbeat_event list \<Rightarrow> u64" where
  "beats_ok es = of_nat (length (filter (\<lambda>x. \<exists>ttl. x = Beat (Beat_Ok ttl)) es))"

definition last_ttl :: "heartbeat_event list \<Rightarrow> nat \<Rightarrow> nat" where
  "last_ttl es d = fold (\<lambda>e d. case e of Beat (Beat_Ok ttl) \<Rightarrow> unat (ttl div 3) | _ \<Rightarrow> d) es d"

lemma heartbeat_counts:
  "heartbeat_run ts ps = Some (ph, s) \<Longrightarrow>
     hb_successful_total s + hb_successful s = hb_successful_total (snd ps) + hb_successful (snd ps) + beats_ok (handled ts ps)
   \<and> hb_failed_total s + hb_failed s = hb_failed_total (snd ps) + hb_failed (snd ps) + tally_of (Beat Beat_Failed) (handled ts ps)
   \<and> hb_restarts_total s + hb_restarts s = hb_restarts_total (snd ps) + hb_restarts (snd ps) + tally_of (Connect False) (handled ts ps)
   \<and> hb_interval s = last_ttl (handled ts ps) (hb_interval (snd ps))"
proof (induction ts arbitrary: ps)
  case (Cons t ts)
  from Cons.prems obtain ps' where step: "heartbeat_step t ps = Some ps'" and run: "heartbeat_run ts ps' = Some (ph, s)"
    by auto
  obtain p s0 where ps: "ps = (p, s0)"
    by fastforce
  show ?case
    using step Cons.IH [OF run]
    by (cases p; cases "tn_event t")
      (auto simp: ps heartbeat_step_def on_beat_def on_metrics_tick_def Let_def beats_ok_def tally_of_def last_ttl_def algebra_simps
        split: if_splits bool.splits beat_result.splits)
qed (auto simp: beats_ok_def tally_of_def last_ttl_def)

text \<open>The relay leaves the cumulative count alone: only a metrics tick of the proxy moves it.\<close>

lemma flush_run_agg: "sm_agg_received_cumulative (flush_run w) = sm_agg_received_cumulative (wd_metrics w)"
  using flush_run_frame [of w] by auto

lemma weed_all_agg:
  "sm_agg_received_cumulative (wd_metrics (fold (weed_packet dedup) ps w)) = sm_agg_received_cumulative (wd_metrics w)"
  by (induction ps arbitrary: w)
    (auto simp: weed_packet_def Let_def flush_run_agg split: prod.splits option.splits)

lemma forward_all_agg:
  "sm_agg_received_cumulative (rl_metrics (fold (forward_to send_ok kept) dests r)) = sm_agg_received_cumulative (rl_metrics r)
   \<and> sm_received (rl_metrics (fold (forward_to send_ok kept) dests r)) = sm_received (rl_metrics r)"
  by (induction dests arbitrary: r) (simp_all add: forward_to_def Let_def)

lemma weed_all_received:
  "sm_received (wd_metrics (fold (weed_packet dedup) ps w)) = sm_received (wd_metrics w)"
proof (induction ps arbitrary: w)
  case (Cons p ps)
  have "sm_received (flush_run w) = sm_received (wd_metrics w)" for w :: "'a weeding"
    using flush_run_frame [of w] by auto
  with Cons show ?case
    by (auto simp: weed_packet_def Let_def split: prod.splits option.splits)
qed simp

lemma relay_agg:
  "sm_agg_received_cumulative (rl_metrics (snd (recv_from_channel_and_send_multiple_dest dedup send_ok dests rec (Some batch) r)))
     = sm_agg_received_cumulative (rl_metrics r)
   \<and> sm_received (rl_metrics (snd (recv_from_channel_and_send_multiple_dest dedup send_ok dests rec (Some batch) r)))
     = sm_received (rl_metrics r) + of_nat (length batch)"
proof -
  have "sm_received (flush_run w) = sm_received (wd_metrics w)" for w :: "'a weeding"
    using flush_run_frame [of w] by auto
  then show ?thesis
    by (simp add: recv_from_channel_and_send_multiple_dest_def Let_def forward_all_agg flush_run_agg weed_all_agg weed_all_received)
qed

text \<open>
  What the relay and the accessory thread do between two ticks of the heartbeat: batches, each with its
  destinations and the results of sending to them, and metrics ticks, each with the number of
  unresolved creates.
\<close>

datatype stream_event = Relayed "SocketAddr \<Rightarrow> bool" "SocketAddr list" "packet list" | Reported u64

fun stream_step :: "(bytes \<Rightarrow> 'd \<Rightarrow> bool \<times> 'd) \<Rightarrow> stream_event \<Rightarrow> 'd relay \<Rightarrow> 'd relay" where
  "stream_step dedup (Relayed send_ok dests batch) r =
     snd (recv_from_channel_and_send_multiple_dest dedup send_ok dests True (Some batch) r)"
| "stream_step dedup (Reported unresolved) r =
     (case metrics_tick (rl_metrics r) unresolved of (_, _, m, _) \<Rightarrow> r\<lparr>rl_metrics := m\<rparr>)"

definition stream_run :: "(bytes \<Rightarrow> 'd \<Rightarrow> bool \<times> 'd) \<Rightarrow> stream_event list \<Rightarrow> 'd relay \<Rightarrow> 'd relay" where
  "stream_run dedup = fold (stream_step dedup)"

text \<open>The packets of some events, and the events up to the last metrics tick.\<close>

fun arrived :: "stream_event \<Rightarrow> nat" where
  "arrived (Relayed send_ok dests batch) = length batch"
| "arrived (Reported unresolved) = 0"

definition packets_in :: "stream_event list \<Rightarrow> u64" where
  "packets_in es = of_nat (sum_list (map arrived es))"

fun is_report :: "stream_event \<Rightarrow> bool" where
  "is_report (Reported unresolved) = True"
| "is_report (Relayed send_ok dests batch) = False"

definition up_to_report :: "stream_event list \<Rightarrow> stream_event list" where
  "up_to_report es = rev (dropWhile (Not \<circ> is_report) (rev es))"

text \<open>What is reported of \<open>waiting\<close> packets and those of the events: all that came before the last metrics tick.\<close>

definition reported :: "u64 \<Rightarrow> stream_event list \<Rightarrow> u64" where
  "reported waiting es = (if up_to_report es = [] then 0 else waiting + packets_in (up_to_report es))"

lemma reported_snoc:
  "reported w (es @ [Relayed send_ok dests batch]) = reported w es"
  "reported w (es @ [Reported u]) = w + packets_in es"
  by (simp_all add: reported_def up_to_report_def packets_in_def)

lemma packets_in_snoc: "packets_in (es @ [e]) = packets_in es + of_nat (arrived e)"
  by (simp add: packets_in_def)

lemma stream_books:
  "sm_agg_received_cumulative (rl_metrics (stream_run dedup es r))
     = sm_agg_received_cumulative (rl_metrics r) + reported (sm_received (rl_metrics r)) es
   \<and> sm_received (rl_metrics (stream_run dedup es r)) + reported (sm_received (rl_metrics r)) es
     = sm_received (rl_metrics r) + packets_in es"
proof (induction es rule: rev_induct)
  case (snoc e es)
  have tick: "case metrics_tick m u of (_, _, m', _) \<Rightarrow>
      sm_agg_received_cumulative m' = sm_agg_received_cumulative m + sm_received m \<and> sm_received m' = 0" for m u
    by (simp add: metrics_tick_def ShredMetrics_report_def ShredMetrics_reset_def Let_def)
  show ?case
  proof (cases e)
    case (Relayed send_ok dests batch)
    with snoc show ?thesis
      by (simp add: stream_run_def relay_agg reported_snoc packets_in_snoc algebra_simps)
  next
    case (Reported u)
    let ?r = "stream_run dedup es r"
    from snoc tick [of "rl_metrics ?r" u] Reported show ?thesis
      by (auto simp: stream_run_def reported_snoc packets_in_snoc algebra_simps split: prod.splits)
  qed
qed (simp add: stream_run_def reported_def up_to_report_def packets_in_def)

text \<open>The loop remembers the count of its last metrics tick.\<close>

lemma heartbeat_remembers:
  "heartbeat_run ts ps = Some ps' \<Longrightarrow> \<forall>t \<in> set ts. \<forall>n. tn_event t \<noteq> MetricsTick n \<Longrightarrow>
     hb_last_cumulative (snd ps') = hb_last_cumulative (snd ps)"
proof (induction ts arbitrary: ps)
  case (Cons t ts)
  then obtain ps1 where step: "heartbeat_step t ps = Some ps1" and run: "heartbeat_run ts ps1 = Some ps'"
    by auto
  obtain p s where ps: "ps = (p, s)"
    by fastforce
  have "hb_last_cumulative (snd ps1) = hb_last_cumulative (snd ps)"
    using step Cons.prems(2) by (cases p; cases "tn_event t")
      (auto simp: ps heartbeat_step_def on_beat_def Let_def split: if_splits bool.splits beat_result.splits)
  with Cons.IH [OF run] Cons.prems(2) show ?case
    by simp
qed simp

section \<open>The token refresher\<close>

type_synonym token_turn = "int \<times> (string + Token option \<times> Token option) \<times> (string + Token option)"

fun token_run :: "(Timestamp \<Rightarrow> int option) \<Rightarrow> token_turn list \<Rightarrow> token_state \<Rightarrow> (token_action list \<times> token_state) option" where
  "token_run system_time [] s = Some ([], s)"
| "token_run system_time ((now, full, refreshed) # turns) s = do {
     (a, s) \<leftarrow> token_step system_time now full refreshed s;
     (as, s) \<leftarrow> token_run system_time turns s;
     Some (a # as, s)
   }"

text \<open>A token is good at a time when it expires no earlier than five minutes later.\<close>

definition good_at :: "(Timestamp \<Rightarrow> int option) \<Rightarrow> int \<Rightarrow> Token \<Rightarrow> bool" where
  "good_at system_time now token =
     (case tk_expires token of
        None \<Rightarrow> False
      | Some e \<Rightarrow> (case system_time e of None \<Rightarrow> False | Some t \<Rightarrow> now + FIVE_MINUTES \<le> t))"

text \<open>The service answers, with good tokens.\<close>

definition answered :: "(Timestamp \<Rightarrow> int option) \<Rightarrow> token_turn \<Rightarrow> bool" where
  "answered system_time turn = (case turn of (now, full, refreshed) \<Rightarrow>
     (\<exists>a r. full = Inr (Some a, Some r) \<and> good_at system_time now a \<and> good_at system_time now r)
     \<and> (\<exists>a. refreshed = Inr (Some a) \<and> good_at system_time now a))"

text \<open>The access tokens among the answers of some turns.\<close>

definition issued :: "token_turn list \<Rightarrow> Token set" where
  "issued turns = {a. \<exists>(now, full, refreshed) \<in> set turns. refreshed = Inr (Some a) \<or> (\<exists>r. full = Inr (Some a, r))}"

text \<open>The state holds a token: its value is the bearer, its expiry the one kept, and the refresh token can be read.\<close>

definition holds :: "(Timestamp \<Rightarrow> int option) \<Rightarrow> Token \<Rightarrow> token_state \<Rightarrow> bool" where
  "holds system_time token s \<longleftrightarrow> ts_bearer s = tk_value token \<and> tk_expires token = Some (ts_access_expires s)
     \<and> system_time (ts_access_expires s) \<noteq> None
     \<and> (\<exists>e. tk_expires (ts_refresh s) = Some e \<and> system_time e \<noteq> None)"

lemma good_at_iff: "good_at st now token \<longleftrightarrow> (\<exists>e t. tk_expires token = Some e \<and> st e = Some t \<and> now + FIVE_MINUTES \<le> t)"
  by (auto simp: good_at_def split: option.splits)

lemma time_left_enough: "st e = Some t \<Longrightarrow> (\<exists>l. time_left st now e = Some l \<and> (l < FIVE_MINUTES \<longleftrightarrow> t < now + FIVE_MINUTES))"
  by (auto simp: time_left_def FIVE_MINUTES_def)

lemma token_step_answered:
  assumes "answered st (now, full, refreshed)" "holds st token s"
  obtains a s' token' where "token_step st now full refreshed s = Some (a, s')" "holds st token' s'" "good_at st now token'"
    "token' \<in> insert token (issued [(now, full, refreshed)])"
proof -
  obtain access refresh again where ans: "full = Inr (Some access, Some refresh)" "refreshed = Inr (Some again)"
    and good: "good_at st now access" "good_at st now refresh" "good_at st now again"
    using assms(1) by (auto simp: answered_def)
  obtain e t where e: "tk_expires (ts_refresh s) = Some e" "st e = Some t"
    using assms(2) by (auto simp: holds_def)
  obtain t' where t': "st (ts_access_expires s) = Some t'"
    using assms(2) by (auto simp: holds_def)
  obtain l where l: "time_left st now e = Some l" "l < FIVE_MINUTES \<longleftrightarrow> t < now + FIVE_MINUTES"
    using time_left_enough [of st e t now] e(2) by blast
  obtain l' where l': "time_left st now (ts_access_expires s) = Some l'" "l' < FIVE_MINUTES \<longleftrightarrow> t' < now + FIVE_MINUTES"
    using time_left_enough [of st "ts_access_expires s" t' now] t' by blast
  note step = token_step_def e(1) l(1) l'(1) ans auth_def
  consider "l < FIVE_MINUTES" | "\<not> l < FIVE_MINUTES" "l' < FIVE_MINUTES" | "\<not> l < FIVE_MINUTES" "\<not> l' < FIVE_MINUTES"
    by blast
  then show thesis
  proof cases
    case 1
    obtain ea ta where "tk_expires access = Some ea" "st ea = Some ta"
      using good(1) by (auto simp: good_at_iff)
    moreover obtain er tr where "tk_expires refresh = Some er" "st er = Some tr"
      using good(2) by (auto simp: good_at_iff)
    ultimately show thesis
      using 1 good(1) by (intro that [of "Full_Auth True" "\<lparr>ts_bearer = tk_value access, ts_refresh = refresh, ts_access_expires = ea\<rparr>" access]) (simp_all add: step holds_def issued_def ans del: bind_Some_iff)
  next
    case 2
    obtain ea ta where "tk_expires again = Some ea" "st ea = Some ta"
      using good(3) by (auto simp: good_at_iff)
    with 2 good(3) show thesis
      using e by (intro that [of "Access_Token True" "s\<lparr>ts_bearer := tk_value again, ts_access_expires := ea\<rparr>" again]) (simp_all add: step holds_def issued_def ans del: bind_Some_iff)
  next
    case 3
    moreover have "good_at st now token"
      using assms(2) 3(2) l'(2) t' by (auto simp: holds_def good_at_iff)
    ultimately show thesis
      using assms(2) by (intro that [of Slept s token]) (simp_all add: step del: bind_Some_iff)
  qed
qed

lemma token_run_answered:
  "\<forall>turn \<in> set turns. answered st turn \<Longrightarrow> holds st token s \<Longrightarrow>
   \<exists>as s' token'. token_run st turns s = Some (as, s') \<and> holds st token' s' \<and> token' \<in> insert token (issued turns)
     \<and> (turns \<noteq> [] \<longrightarrow> good_at st (fst (last turns)) token')"
proof (induction turns arbitrary: s token)
  case (Cons turn turns)
  obtain now full refreshed where turn: "turn = (now, full, refreshed)"
    by (cases turn)
  obtain a s1 token1 where s1: "token_step st now full refreshed s = Some (a, s1)" "holds st token1 s1" "good_at st now token1"
    "token1 \<in> insert token (issued [turn])"
    using token_step_answered [of st now full refreshed token s] Cons.prems turn by auto
  obtain as s' token' where run: "token_run st turns s1 = Some (as, s')" "holds st token' s'" "token' \<in> insert token1 (issued turns)"
    "turns \<noteq> [] \<longrightarrow> good_at st (fst (last turns)) token'"
    using Cons.IH [OF _ s1(2)] Cons.prems(1) by auto
  have "issued (turn # turns) = issued [turn] \<union> issued turns"
    by (auto simp: issued_def)
  then have mem: "token' \<in> insert token (issued (turn # turns))"
    using s1(4) run(3) by auto
  have "token_run st (turn # turns) s = Some (a # as, s')"
    by (simp add: turn s1(1) run(1) del: bind_Some_iff)
  moreover have "\<exists>t. holds st t s' \<and> t \<in> insert token (issued (turn # turns)) \<and> good_at st (fst (last (turn # turns))) t"
  proof (cases "turns = []")
    case True
    then have "s' = s1" "issued [turn] \<subseteq> issued (turn # turns)"
      using run(1) by simp_all
    with True s1 turn show ?thesis
      by auto
  next
    case False
    with run(2,4) mem show ?thesis
      by auto
  qed
  ultimately show ?case
    by blast
qed (auto simp: issued_def)

section \<open>Streams\<close>

lemma subscribe_entries_eq:
  "subscribe_entries rs n = take n (map (\<lambda>r. case r of Received m \<Rightarrow> m) (takeWhile (\<lambda>r. \<exists>m. r = Received m) rs))"
  by (induction rs n rule: subscribe_entries.induct) (auto split: recv.split)

lemma subscribe_fills_eq:
  "subscribe_fills rs n = take n (List.map_filter (\<lambda>r. case r of Received m \<Rightarrow> Some m | _ \<Rightarrow> None) (takeWhile (\<lambda>r. r \<noteq> Closed) rs))"
  by (induction rs n rule: subscribe_fills.induct) (auto simp: map_filter_simps)

section \<open>Multicast routes\<close>

lemma sorted_remdups_adj_distinct: "sorted xs \<Longrightarrow> distinct (remdups_adj xs)"
  by (induction xs rule: remdups_adj.induct) (auto simp: order.antisym)

lemma ip_key_inj: "inj ip_key"
  by (simp add: inj_def ip_key_def)

lemma groups_sorted:
  "sorted (map ip_key (remdups_adj (sort_key ip_key xs))) \<and> distinct (remdups_adj (sort_key ip_key xs))
   \<and> set (remdups_adj (sort_key ip_key xs)) = set xs"
proof -
  have eq: "map ip_key (remdups_adj ys) = remdups_adj (map ip_key ys)" for ys
    using remdups_adj_map_injective [OF ip_key_inj, of ys] by simp
  have s: "sorted (map ip_key (sort_key ip_key xs))"
    by simp
  then have "distinct (map ip_key (remdups_adj (sort_key ip_key xs)))"
    unfolding eq by (rule sorted_remdups_adj_distinct)
  then have "distinct (remdups_adj (sort_key ip_key xs))"
    unfolding distinct_map by (rule conjunct1)
  with s show ?thesis
    by (simp add: eq sorted_remdups_adj)
qed

lemma split_slash_iff: "split_slash s = Some (b, m) \<longleftrightarrow> s = b @ CHR ''/'' # m \<and> CHR ''/'' \<notin> set b"
proof
  assume a: "split_slash s = Some (b, m)"
  then have "dropWhile (\<lambda>c. c \<noteq> CHR ''/'') s \<noteq> []"
    by (auto simp: split_slash_def split: if_splits)
  then have "dropWhile (\<lambda>c. c \<noteq> CHR ''/'') s = CHR ''/'' # m"
    using a hd_dropWhile [of "\<lambda>c. c \<noteq> CHR ''/''" s] by (cases "dropWhile (\<lambda>c. c \<noteq> CHR ''/'') s") (auto simp: split_slash_def split: if_splits)
  moreover have "b = takeWhile (\<lambda>c. c \<noteq> CHR ''/'') s"
    using a by (auto simp: split_slash_def split: if_splits)
  ultimately show "s = b @ CHR ''/'' # m \<and> CHR ''/'' \<notin> set b"
    by (metis (mono_tags, lifting) set_takeWhileD takeWhile_dropWhile_id)
next
  assume a: "s = b @ CHR ''/'' # m \<and> CHR ''/'' \<notin> set b"
  then have "takeWhile (\<lambda>c. c \<noteq> CHR ''/'') s = b" "dropWhile (\<lambda>c. c \<noteq> CHR ''/'') s = CHR ''/'' # m"
    by (auto simp: takeWhile_append dropWhile_append)
  with a show "split_slash s = Some (b, m)"
    by (simp add: split_slash_def)
qed

lemma split_slash_None: "split_slash s = None \<longleftrightarrow> CHR ''/'' \<notin> set s"
  by (simp add: split_slash_def)

lemma route_group_iff:
  "route_group parse_ip parse_mask dst = Some ip \<longleftrightarrow> is_multicast ip
     \<and> ((CHR ''/'' \<notin> set dst \<and> parse_ip dst = Some ip)
       \<or> (\<exists>base mask. dst = base @ CHR ''/'' # mask \<and> CHR ''/'' \<notin> set base \<and> parse_ip base = Some ip
           \<and> parse_mask mask = Some (if length ip = 4 then 32 else 128)))"
proof (cases "split_slash dst")
  case None
  then have "route_group parse_ip parse_mask dst = Some ip \<longleftrightarrow> is_multicast ip \<and> parse_ip dst = Some ip"
    by (auto simp: route_group_def split: if_splits)
  moreover have "CHR ''/'' \<notin> set dst"
    using None split_slash_None [of dst] by blast
  ultimately show ?thesis
    by auto
next
  case (Some bm)
  obtain b m where bm: "bm = (b, m)"
    by fastforce
  have uniq: "base = b \<and> mask = m" if "dst = base @ CHR ''/'' # mask" "CHR ''/'' \<notin> set base" for base mask
    using that split_slash_iff [of dst base mask] Some bm by simp
  have dst: "dst = b @ CHR ''/'' # m" "CHR ''/'' \<notin> set b"
    using split_slash_iff [of dst b m] Some bm by simp_all
  have "CHR ''/'' \<in> set dst"
    using dst(1) by simp
  moreover have "route_group parse_ip parse_mask dst = Some ip \<longleftrightarrow> is_multicast ip \<and> parse_ip b = Some ip
      \<and> parse_mask m = Some (if length ip = 4 then 32 else 128)"
    using Some bm by (auto simp: route_group_def)
  ultimately show ?thesis
    using uniq dst by blast
qed

section \<open>Properties\<close>

text \<open>
  The books of the heartbeat loop are right: over any run that does not panic, whichever
  reconnections happen in between, the totals and the running counts together are the numbers of
  accepted beats, of failed beats and of failed connections, and the interval is a third of the
  last lifetime the server named. A failed beat does not shorten it.
\<close>

theorem heartbeat_books:
  assumes "heartbeat_run turns (Connecting, heartbeat_init) = Some (ph, s)"
  defines "es \<equiv> handled turns (Connecting, heartbeat_init)"
  shows "hb_successful_total s + hb_successful s = beats_ok es
    \<and> hb_failed_total s + hb_failed s = tally_of (Beat Beat_Failed) es
    \<and> hb_restarts_total s + hb_restarts s = tally_of (Connect False) es
    \<and> hb_interval s = last_ttl es 1000"
  using heartbeat_counts [OF assms(1)] by (simp add: es_def heartbeat_init_def)

text \<open>A turn with the exit flag clear, before the shutdown date.\<close>

definition plain_turn :: "heartbeat_event \<Rightarrow> turn" where
  "plain_turn e = \<lparr>tn_exit = False, tn_shutdown_passed = False, tn_event = e\<rparr>"

theorem heartbeat_books_witness:
  "\<exists>s. heartbeat_run (map plain_turn [Connect False, Connect True, Beat (Beat_Ok 9000), Beat Beat_Failed, MetricsTick 5, Beat (Beat_Ok 9000),
       MetricsTick 5]) (Connecting, heartbeat_init) = Some (Connecting, s)
     \<and> hb_successful_total s + hb_successful s = 2 \<and> hb_failed_total s + hb_failed s = 1 \<and> hb_interval s = 3000"
proof -
  let ?turns = "map plain_turn [Connect False, Connect True, Beat (Beat_Ok 9000), Beat Beat_Failed, MetricsTick 5, Beat (Beat_Ok 9000), MetricsTick 5]"
  obtain s where s: "heartbeat_run ?turns (Connecting, heartbeat_init) = Some (Connecting, s)"
    by (simp add: heartbeat_step_def plain_turn_def on_beat_def on_metrics_tick_def heartbeat_init_def Let_def)
  have "handled ?turns (Connecting, heartbeat_init)
      = [Connect False, Connect True, Beat (Beat_Ok 9000), Beat Beat_Failed, MetricsTick 5, Beat (Beat_Ok 9000), MetricsTick 5]"
    by (simp add: heartbeat_step_def plain_turn_def on_beat_def on_metrics_tick_def heartbeat_init_def Let_def)
  then show ?thesis
    using heartbeat_books [OF s] s by (simp add: beats_ok_def tally_of_def last_ttl_def del: heartbeat_run.simps list.map)
qed

text \<open>
  C27: A live stream is taken for a stale one exactly when none of its packets was reported in time. Take
  a metrics tick of the heartbeat loop that keeps its client, any turns of the loop without such a tick, and
  meanwhile any batches and metrics ticks of the relay. The next metrics tick of the loop restarts the
  client if and only if the packets received before the last metrics tick of the relay in between,
  those already waiting included, number zero (in 64 bits): so with no metrics tick of the relay in between, or
  with one that comes before the packets, the client is restarted however many packets have been received
  since. The interval of those ticks is a command line argument that nothing relates to the thirty
  seconds of the heartbeat's.
\<close>

theorem live_stream_restarted:
  assumes "heartbeat_step (plain_turn (MetricsTick (sm_agg_received_cumulative (rl_metrics r)))) (Connected, s) = Some (Connected, s1)"
    and "heartbeat_run turns (Connected, s1) = Some (Connected, s2)" "\<forall>t \<in> set turns. \<forall>n. tn_event t \<noteq> MetricsTick n"
  shows "(\<exists>s3. heartbeat_step (plain_turn (MetricsTick (sm_agg_received_cumulative (rl_metrics (stream_run dedup es r))))) (Connected, s2)
        = Some (if reported (sm_received (rl_metrics r)) es = 0 then Connecting else Connected, s3))
    \<and> sm_received (rl_metrics (stream_run dedup es r)) + reported (sm_received (rl_metrics r)) es
        = sm_received (rl_metrics r) + packets_in es"
proof -
  have "hb_last_cumulative s1 = sm_agg_received_cumulative (rl_metrics r)"
    using assms(1) by (auto simp: heartbeat_step_def plain_turn_def on_metrics_tick_def split: if_splits)
  then have "hb_last_cumulative s2 = sm_agg_received_cumulative (rl_metrics r)"
    using heartbeat_remembers [OF assms(2,3)] by simp
  then show ?thesis
    using stream_books [of dedup es r] by (auto simp: heartbeat_step_def plain_turn_def on_metrics_tick_def)
qed

text \<open>A batch that comes after the metrics tick does not count; one that comes before does.\<close>

theorem live_stream_restarted_witness:
  "\<exists>s1 s2 s3 s4. heartbeat_step (plain_turn (MetricsTick 0)) (Connected, heartbeat_init\<lparr>hb_last_cumulative := 7\<rparr>) = Some (Connected, s1)
     \<and> heartbeat_run [plain_turn (Beat (Beat_Ok 9000))] (Connected, s1) = Some (Connected, s2)
     \<and> heartbeat_step (plain_turn (MetricsTick (sm_agg_received_cumulative (rl_metrics
          (stream_run (\<lambda>d seen. (d \<in> set seen, d # seen)) [Reported 0, Relayed (\<lambda>_. True) [] toy_arrivals] toy_relay))))) (Connected, s2)
        = Some (Connecting, s3)
     \<and> heartbeat_step (plain_turn (MetricsTick (sm_agg_received_cumulative (rl_metrics
          (stream_run (\<lambda>d seen. (d \<in> set seen, d # seen)) [Relayed (\<lambda>_. True) [] toy_arrivals, Reported 0] toy_relay))))) (Connected, s2)
        = Some (Connected, s4)"
proof -
  let ?d = "\<lambda>d seen. (d \<in> set seen, d # seen)" and ?b = "Relayed (\<lambda>_. True) [] toy_arrivals"
  have 0: "sm_agg_received_cumulative (rl_metrics toy_relay) = 0" "sm_received (rl_metrics toy_relay) = 0" "length toy_arrivals = 3"
    by (simp_all add: toy_relay_def toy_arrivals_def deshred_init_def ShredMetrics_new_def)
  obtain s1 where s1: "heartbeat_step (plain_turn (MetricsTick (sm_agg_received_cumulative (rl_metrics toy_relay))))
      (Connected, heartbeat_init\<lparr>hb_last_cumulative := 7\<rparr>) = Some (Connected, s1)"
    by (simp add: 0 heartbeat_step_def plain_turn_def on_metrics_tick_def)
  obtain s2 where s2: "heartbeat_run [plain_turn (Beat (Beat_Ok 9000))] (Connected, s1) = Some (Connected, s2)"
    by (simp add: heartbeat_step_def plain_turn_def on_beat_def Let_def)
  have rep: "reported 0 [Reported 0, ?b] = 0" "reported 0 [?b, Reported 0] = 3"
    by (simp_all add: reported_def up_to_report_def packets_in_def 0)
  note claim = live_stream_restarted [OF s1 s2, where dedup = ?d]
  have three: "((3 :: u64) = 0) = False"
    by simp
  have none: "\<forall>t \<in> set [plain_turn (Beat (Beat_Ok 9000))]. \<forall>n. tn_event t \<noteq> MetricsTick n"
    by (simp add: plain_turn_def)
  have "\<exists>s3. heartbeat_step (plain_turn (MetricsTick (sm_agg_received_cumulative (rl_metrics (stream_run ?d [Reported 0, ?b] toy_relay)))))
      (Connected, s2) = Some (Connecting, s3)"
    using claim [OF none, of "[Reported 0, ?b]"] unfolding 0(2) rep by (elim conjE) (simp only: if_True refl)
  moreover have "\<exists>s4. heartbeat_step (plain_turn (MetricsTick (sm_agg_received_cumulative (rl_metrics (stream_run ?d [?b, Reported 0] toy_relay)))))
      (Connected, s2) = Some (Connected, s4)"
    using claim [OF none, of "[?b, Reported 0]"] unfolding 0(2) rep three by (elim conjE) (simp only: if_False)
  ultimately show ?thesis
    using s1 s2 unfolding 0(1) by blast
qed

text \<open>
  C28: The token a client sends stays good. Take a refresher started on tokens whose expiries can be read,
  and a service that answers every turn with tokens that live at least five minutes. No turn panics, and
  after every turn the bearer token in use is the value of an access token that the service has issued, the
  one of the start or one of the answers so far, and that token expires no earlier than five minutes after
  the turn.
\<close>

theorem bearer_stays_valid:
  assumes "ClientInterceptor_new (Inr (Some access, Some refresh)) = Inr s" "holds system_time access s"
    and "\<forall>turn \<in> set turns. answered system_time turn" "0 < k" "k \<le> length turns"
  shows "\<exists>as s' token e t. token_run system_time (take k turns) s = Some (as, s')
    \<and> token \<in> insert access (issued (take k turns)) \<and> ts_bearer s' = tk_value token
    \<and> tk_expires token = Some e \<and> system_time e = Some t \<and> fst (turns ! (k - 1)) + FIVE_MINUTES \<le> t"
proof -
  have "\<forall>turn \<in> set (take k turns). answered system_time turn" "take k turns \<noteq> []"
    using assms(3,4,5) by (auto dest: in_set_takeD)
  moreover from this(2) have "last (take k turns) = turns ! (k - 1)"
    using assms(4,5) by (simp add: last_conv_nth)
  ultimately obtain as s' token where run: "token_run system_time (take k turns) s = Some (as, s')" "holds system_time token s'"
    "token \<in> insert access (issued (take k turns))" "good_at system_time (fst (turns ! (k - 1))) token"
    using token_run_answered [OF _ assms(2), of "take k turns"] by metis
  moreover obtain e t where "tk_expires token = Some e" "system_time e = Some t" "fst (turns ! (k - 1)) + FIVE_MINUTES \<le> t"
    using run(4) by (auto simp: good_at_iff)
  moreover have "ts_bearer s' = tk_value token"
    using run(2) by (simp add: holds_def)
  ultimately show ?thesis
    by blast
qed

text \<open>Tokens named by their second of expiry, and a conversion for them.\<close>

definition toy_token :: "string \<Rightarrow> int \<Rightarrow> Token" where
  "toy_token v e = \<lparr>tk_value = v, tk_expires = Some (e, 0)\<rparr>"

definition toy_time :: "Timestamp \<Rightarrow> int option" where
  "toy_time e = (if fst e < 1000000 then Some (fst e * 1000000000 + snd e) else None)"

theorem bearer_stays_valid_witness:
  "\<exists>as s'. token_run toy_time (take 2 [(0, Inr (Some (toy_token ''b'' 500), Some (toy_token ''x'' 900)), Inr (Some (toy_token ''b'' 500))),
       (280 * 1000000000, Inr (Some (toy_token ''c'' 600), Some (toy_token ''x'' 900)), Inr (Some (toy_token ''c'' 580)))])
     \<lparr>ts_bearer = ''a'', ts_refresh = toy_token ''x'' 700, ts_access_expires = (400, 0)\<rparr> = Some (as, s') \<and> ts_bearer s' = ''c''"
proof -
  define turns :: "token_turn list" where "turns = [(0, Inr (Some (toy_token ''b'' 500), Some (toy_token ''x'' 900)), Inr (Some (toy_token ''b'' 500))),
       (280 * 1000000000, Inr (Some (toy_token ''c'' 600), Some (toy_token ''x'' 900)), Inr (Some (toy_token ''c'' 580)))]"
  define s where "s = \<lparr>ts_bearer = ''a'', ts_refresh = toy_token ''x'' 700, ts_access_expires = (400, 0)\<rparr>"
  have start: "ClientInterceptor_new (Inr (Some (toy_token ''a'' 400), Some (toy_token ''x'' 700))) = Inr s"
    by (simp add: ClientInterceptor_new_def auth_def toy_token_def s_def)
  have held: "holds toy_time (toy_token ''a'' 400) s"
    by (simp add: holds_def toy_token_def toy_time_def s_def)
  have ok: "\<forall>turn \<in> set turns. answered toy_time turn" and two: "2 \<le> length turns"
    by (simp_all add: answered_def good_at_def toy_token_def toy_time_def FIVE_MINUTES_def turns_def)
  obtain as s' token e t where r: "token_run toy_time (take 2 turns) s = Some (as, s')" "token \<in> insert (toy_token ''a'' 400) (issued (take 2 turns))"
    "ts_bearer s' = tk_value token" "tk_expires token = Some e" "toy_time e = Some t" "fst (turns ! (2 - 1)) + FIVE_MINUTES \<le> t"
    using bearer_stays_valid [OF start held ok zero_less_numeral two] by blast
  have "issued (take 2 turns) \<subseteq> {toy_token ''b'' 500, toy_token ''c'' 600, toy_token ''c'' 580}"
    by (auto simp: issued_def turns_def)
  with r(2) have "token \<in> {toy_token ''a'' 400, toy_token ''b'' 500, toy_token ''c'' 600, toy_token ''c'' 580}"
    by blast
  moreover have "580 * 1000000000 \<le> t"
    using r(6) by (simp add: FIVE_MINUTES_def turns_def)
  ultimately have "ts_bearer s' = ''c''"
    using r(3-5) by (auto simp: toy_token_def toy_time_def)
  with r(1) show ?thesis
    unfolding turns_def s_def by blast
qed

text \<open>
  An outage of the authentication service turns the refresher into a busy loop: once the refresh
  token is due and the service does not answer, no turn waits, whatever the time.
\<close>

theorem token_outage_spins:
  assumes "tk_expires (ts_refresh s) = Some e" "system_time e = Some t"
    and "\<forall>(now, full, _) \<in> set turns. t < now + FIVE_MINUTES \<and> (\<exists>err. full = Inl err)"
  shows "token_run system_time turns s = Some (replicate (length turns) (Full_Auth False), s)"
  using assms(3)
proof (induction turns)
  case (Cons turn turns)
  obtain now full refreshed where turn: "turn = (now, full, refreshed)"
    by (cases turn)
  obtain l where "time_left system_time now e = Some l" "l < FIVE_MINUTES"
    using time_left_enough [of system_time e t now] assms(2) Cons.prems turn by auto
  with Cons assms(1) turn show ?case
    by (auto simp: token_step_def auth_def simp del: bind_Some_iff)
qed simp

theorem token_outage_spins_witness:
  "token_run toy_time [(500 * 1000000000, Inl ''down'', Inl ''down''), (500 * 1000000000, Inl ''down'', Inl ''down'')]
     \<lparr>ts_bearer = ''a'', ts_refresh = toy_token ''x'' 700, ts_access_expires = (900, 0)\<rparr>
   = Some ([Full_Auth False, Full_Auth False], \<lparr>ts_bearer = ''a'', ts_refresh = toy_token ''x'' 700, ts_access_expires = (900, 0)\<rparr>)"
  using token_outage_spins [of "\<lparr>ts_bearer = ''a'', ts_refresh = toy_token ''x'' 700, ts_access_expires = (900, 0)\<rparr>" "(700, 0)" toy_time "700 * 1000000000"
      "[(500 * 1000000000, Inl ''down'', Inl ''down''), (500 * 1000000000, Inl ''down'', Inl ''down'')]"]
  by (simp add: toy_token_def toy_time_def FIVE_MINUTES_def numeral_2_eq_2 del: token_run.simps)

text \<open>
  The groups found for a device are exactly its multicast routes: sorted with version 4 first, without
  repetition, and an address is among them if and only if some route names it, without a mask or with a
  full one.
\<close>

theorem multicast_groups_exact:
  assumes "parse_ip_route_for_device parse_ip parse_mask (Some dsts) = Some groups"
  shows "sorted (map ip_key groups) \<and> distinct groups
    \<and> (\<forall>ip. ip \<in> set groups \<longleftrightarrow> is_multicast ip \<and> (\<exists>dst \<in> set dsts.
         (CHR ''/'' \<notin> set dst \<and> parse_ip dst = Some ip)
         \<or> (\<exists>base mask. dst = base @ CHR ''/'' # mask \<and> CHR ''/'' \<notin> set base \<and> parse_ip base = Some ip
             \<and> parse_mask mask = Some (if length ip = 4 then 32 else 128))))"
proof -
  have "groups = remdups_adj (sort_key ip_key (List.map_filter (route_group parse_ip parse_mask) dsts))"
    using assms by (simp add: parse_ip_route_for_device_def)
  moreover have "set (List.map_filter (route_group parse_ip parse_mask) dsts) = {ip. \<exists>dst \<in> set dsts. route_group parse_ip parse_mask dst = Some ip}"
    by (force simp: List.map_filter_def)
  ultimately show ?thesis
    using groups_sorted [of "List.map_filter (route_group parse_ip parse_mask) dsts"] route_group_iff [of parse_ip parse_mask] by auto
qed

definition toy_ip :: "string \<Rightarrow> IpAddr option" where
  "toy_ip s = (if s = ''m'' then Some [233, 84, 178, 2] else if s = ''u'' then Some [10, 0, 0, 1] else if s = ''n'' then Some [224, 0, 0, 5] else None)"

theorem multicast_groups_exact_witness:
  "\<exists>groups. parse_ip_route_for_device toy_ip (\<lambda>m. if m = ''32'' then Some 32 else Some 31) (Some [''m'', ''u'', ''n/32'', ''m/31'', ''m'']) = Some groups
     \<and> [233, 84, 178, 2] \<in> set groups \<and> [224, 0, 0, 5] \<in> set groups \<and> distinct groups"
proof -
  let ?mask = "\<lambda>m. if m = ''32'' then Some 32 else Some 31" and ?dsts = "[''m'', ''u'', ''n/32'', ''m/31'', ''m'']"
  obtain groups where g: "parse_ip_route_for_device toy_ip ?mask (Some ?dsts) = Some groups"
    by (simp add: parse_ip_route_for_device_def)
  have "''n/32'' = ''n'' @ CHR ''/'' # ''32''"
    by simp
  then have "[224, 0, 0, 5] \<in> set groups"
    using multicast_groups_exact [OF g] by (auto simp: is_multicast_def toy_ip_def)
  moreover have "[233, 84, 178, 2] \<in> set groups"
    using multicast_groups_exact [OF g] by (auto simp: is_multicast_def toy_ip_def)
  ultimately show ?thesis
    using multicast_groups_exact [OF g] g by blast
qed

end
