(* ===== verification/Catalogue.thy ===== *)
theory Catalogue
  imports Config "HOL-Library.Sublist"
begin

text \<open>
  \<open>sniper/src/providers.rs\<close>, the provider catalogue, and \<open>sniper/src/bin/gen_config.rs\<close>, which turns
  the catalogue and a \<open>.env\<close> file into the configuration of the sniper. The last part joins the two
  ends: what the generator writes for a provider, read back by \<open>sniper/src/config.rs\<close>, can be fired at.

  The strings of the catalogue are character lists, what comes from the file is a list of code points.
\<close>

section \<open>The catalogue\<close>

datatype Auth = No_Auth | Query | Header string

record ProviderSpec =
  spec_name :: string
  spec_env_key :: string
  spec_env_regions :: string
  spec_default_regions :: string
  spec_auth :: Auth
  spec_port :: u16
  spec_tls :: bool
  spec_path :: string
  spec_health_path :: string
  spec_body :: string
  spec_min_tip :: u64
  spec_signup :: string
  spec_hosts :: "(string \<times> string) list"
  spec_tips :: "string list"

definition JITO_TIPS :: "string list" where
  "JITO_TIPS = [
     ''96gYZGLnJYVFmbjzopPSU6QiEV5fGqZNyN9nmNhvrZU5'', ''HFqU5x63VTqvQss8hp11i4wVV8bD44PvwucfZ2bU7gRe'',
     ''Cw8CFyM9FkoMi7K7Crf6HNQqf4uEMzpKw6QNghXLvLkY'', ''ADaUMid9yfUytqMBgopwjb2DTLSokTSzL1zt6iGPaS49'',
     ''DfXygSm4jCyNCybVYYK6DwvWqjKee8pbDmJGcLWNDXjh'', ''ADuUkR4vqLUMWXxW9gh6D6L8pMSawimctcNZ5pGwDcEt'',
     ''DttWaMuVvTiduZRnguLF7jNxTgiMBZ1hyAumKUiL2KRL'', ''3AVi9Tg9Uo68tJfuvoKvqKNWKkC5wPdSSdeBnizKZ6jT'']"

definition HELIUS_TIPS :: "string list" where
  "HELIUS_TIPS = [
     ''4ACfpUFoaSD9bfPdeu6DBt89gB6ENTeHBXCAi87NhDEE'', ''D2L6yPZ2FmmmTKPgzaMKdhu6EWZcTpLy1Vhx8uvZe7NZ'',
     ''9bnz4RShgq1hAnLnZbP8kbgBg1kEmcJBYQq3gQbmnSta'', ''5VY91ws6B2hMmBFRsXkoAAdsPHBJwRfBht4DXox3xkwn'',
     ''2nyhqdwKcJZR2vcqCyrYsaPVdAnFoJjiksCXJ7hfEYgD'', ''2q5pghRs6arqVjRvT5gfgWfWcHWmw1ZuCzphgd5KfWGJ'',
     ''wyvPkWjVZz1M8fHQnMMCDTQDbkManefNNhweYk5WkcF'', ''3KCKozbAaF75qEU33jtzozcJ29yJuaLJTy2jFdzUY8bT'',
     ''4vieeGHPYPG2MmyPRcYjdiDmmhN3ww7hsFNap8pVN3Ey'', ''4TQLFNWK8AovT1gFvda5jfw2oJeRMKEmw7aH6MGBJ3or'']"

definition ZEROSLOT_TIPS :: "string list" where
  "ZEROSLOT_TIPS = [
     ''6fQaVhYZA4w3MBSXjJ81Vf6W1EDYeUPXpgVQ6UQyU1Av'', ''4HiwLEP2Bzqj3hM2ENxJuzhcPCdsafwiet3oGkMkuQY4'',
     ''7toBU3inhmrARGngC7z6SjyP85HgGMmCTEwGNRAcYnEK'', ''8mR3wB1nh4D6J9RUCugxUpc6ya8w38LPxZ3ZjcBhgzws'',
     ''6SiVU5WEwqfFapRuYCndomztEwDjvS5xgtEof3PLEGm9'', ''TpdxgNJBWZRL8UXF5mrEsyWxDWx9HQexA9P1eTWQ42p'',
     ''D8f3WkQu6dCF33cZxuAsrKHrGsqGP2yvAHf8mX6RXnwf'', ''GQPFicsy3P3NXxB5piJohoxACqTvWE9fKpLgdsMduoHE'',
     ''Ey2JEr8hDkgN8qKJGrLf2yFjRhW7rab99HVxwi5rcvJE'', ''4iUgjMT8q2hNZnLuhpqZ1QtiV8deFPy2ajvvjEpKKgsS'',
     ''3Rz8uD83QsU8wKvZbgWAPvCNDU6Fy8TSZTMcPm3RB6zt'', ''DiTmWENJsHQdawVUUKnUXkconcpW4Jv52TnMWhkncF6t'',
     ''HRyRhQ86t3H4aAtgvHVpUJmw64BDrb61gRiKcdKUXs5c'', ''J9BMEWFbCBEjtQ1fG5Lo9kouX1HfrKQxeUxetwXrifBw'',
     ''8U1JPQh3mVQ4F5jwRdFTBzvNRQaYFQppHQYoH38DJGSQ'', ''7y4whZmw388w1ggjToDLSBLv47drw5SUXcLk6jtmwixd'',
     ''Eb2KpSC8uMt9GmzyAEm5Eb1AAAgTjRaXWFjKyFXHZxF3'', ''FCjUJZ1qozm1e8romw216qyfQMaaWKxWsuySnumVCCNe'',
     ''ENxTEjSQ1YabmUpXAdCgevnHQ9MHdLv8tzFiuiYJqa13'', ''6rYLG55Q9RpsPGvqdPNJs4z5WTxJVatMB8zV3WJhs5EK'',
     ''Cix2bHfqPcKcM233mzxbLk14kSggUUiz2A87fJtGivXr'']"

definition ASTRALANE_TIPS :: "string list" where
  "ASTRALANE_TIPS = [
     ''astrazznxsGUhWShqgNtAdfrzP2G83DzcWVJDxwV9bF'', ''astra4uejePWneqNaJKuFFA8oonqCE1sqF6b45kDMZm'',
     ''astra9xWY93QyfG6yM8zwsKsRodscjQ2uU2HKNL5prk'', ''astraRVUuTHjpwEVvNBeQEgwYx9w9CFyfxjYoobCZhL'',
     ''astraEJ2fEj8Xmy6KLG7B3VfbKfsHXhHrNdCQx7iGJK'', ''astraubkDw81n4LuutzSQ8uzHCv4BhPVhfvTcYv8SKC'',
     ''astraZW5GLFefxNPAatceHhYjfA1ciq9gvfEg2S47xk'', ''astrawVNP4xDBKT7rAdxrLYiTSTdqtUr63fSMduivXK'',
     ''AstrA1ejL4UeXC2SBP4cpeEmtcFPZVLxx3XGKXyCW6to'', ''AsTra79FET4aCKWspPqeSFvjJNyp96SvAnrmyAxqg5b7'',
     ''AstrABAu8CBTyuPXpV4eSCJ5fePEPnxN8NqBaPKQ9fHR'', ''AsTRADtvb6tTmrsqULQ9Wji9PigDMjhfEMza6zkynEvV'',
     ''AsTRAEoyMofR3vUPpf9k68Gsfb6ymTZttEtsAbv8Bk4d'', ''AStrAJv2RN2hKCHxwUMtqmSxgdcNZbihCwc1mCSnG83W'',
     ''Astran35aiQUF57XZsmkWMtNCtXGLzs8upfiqXxth2bz'', ''AStRAnpi6kFrKypragExgeRoJ1QnKH7pbSjLAKQVWUum'',
     ''ASTRaoF93eYt73TYvwtsv6fMWHWbGmMUZfVZPo3CRU9C'']"

definition NODE1_TIPS :: "string list" where
  "NODE1_TIPS = [
     ''node1PqAa3BWWzUnTHVbw8NJHC874zn9ngAkXjgWEej'', ''node1UzzTxAAeBTpfZkQPJXBAqixsbdth11ba1NXLBG'',
     ''node1Qm1bV4fwYnCurP8otJ9s5yrkPq7SPZ5uhj3Tsv'', ''node1PUber6SFmSQgvf2ECmXsHP5o3boRSGhvJyPMX1'',
     ''node1AyMbeqiVN6eoQzEAwCA6Pk826hrdqdAHR7cdJ3'', ''node1YtWCoTwwVYTFLfS19zquRQzYX332hs1HEuRBjC'']"

definition NEXTBLOCK_TIPS :: "string list" where
  "NEXTBLOCK_TIPS = [
     ''NextbLoCkVtMGcV47JzewQdvBpLqT9TxQFozQkN98pE'', ''NexTbLoCkWykbLuB1NkjXgFWkX9oAtcoagQegygXXA2'',
     ''NeXTBLoCKs9F1y5PJS9CKrFNNLU1keHW71rfh7KgA1X'', ''NexTBLockJYZ7QD7p2byrUa6df8ndV2WSd8GkbWqfbb'',
     ''neXtBLock1LeC67jYd1QdAa32kbVeubsfPNTJC1V5At'', ''nEXTBLockYgngeRmRrjDV31mGSekVPqZoMGhQEZtPVG'',
     ''NEXTbLoCkB51HpLBLojQfpyVAMorm3zzKg7w9NFdqid'', ''nextBLoCkPMgmG8ZgJtABeScP35qLa2AMCNKntAP7Xc'']"

definition NOZOMI_TIPS :: "string list" where
  "NOZOMI_TIPS = [
     ''TEMPaMeCRFAS9EKF53Jd6KpHxgL47uWLcpFArU1Fanq'', ''noz3jAjPiHuBPqiSPkkugaJDkJscPuRhYnSpbi8UvC4'',
     ''noz3str9KXfpKknefHji8L1mPgimezaiUyCHYMDv1GE'', ''noz6uoYCDijhu1V7cutCpwxNiSovEwLdRHPwmgCGDNo'',
     ''noz9EPNcT7WH6Sou3sr3GGjHQYVkN3DNirpbvDkv9YJ'', ''nozc5yT15LazbLTFVZzoNZCwjh3yUtW86LoUyqsBu4L'',
     ''nozFrhfnNGoyqwVuwPAW4aaGqempx4PU6g6D9CJMv7Z'', ''nozievPk7HyK1Rqy1MPJwVQ7qQg2QoJGyP71oeDwbsu'',
     ''noznbgwYnBLDHu8wcQVCEw6kDrXkPdKkydGJGNXGvL7'', ''nozNVWs5N8mgzuD3qigrCG2UoKxZttxzZ85pvAQVrbP'',
     ''nozpEGbwx4BcGp6pvEdAh1JoC2CQGZdU6HbNP1v2p6P'', ''nozrhjhkCr3zXT3BiT4WCodYCUFeQvcdUkM7MqhKqge'',
     ''nozrwQtWhEdrA6W8dkbt9gnUaMs52PdAv5byipnadq3'', ''nozUacTVWub3cL4mJmGCYjKZTnE9RbdY5AP46iQgbPJ'',
     ''nozWCyTPppJjRuw2fpzDhhWbW355fzosWSzrrMYB1Qk'', ''nozWNju6dY353eMkMqURqwQEoM3SFgEKC6psLCSfUne'',
     ''nozxNBgWohjR75vdspfxR5H9ceC7XXH99xpxhVGt3Bb'']"

definition BLOX_TIPS :: "string list" where
  "BLOX_TIPS = [
     ''3UQUKjhMKaY2S6bjcQD6yHB7utcZt5bfarRCmctpRtUd'', ''FogxVNs6Mm2w9rnGL1vkARSwJxvLE8mujTv3LK8RnUhF'',
     ''bLx7MvxGaKdKL7mEbpk9tC79z6MnBSJoJkuaEAPu6Nd'', ''bLx7XBqSg3LUPVf1bRgCnkJmgVZR8QEgDJBPqcRLHvp'',
     ''bLx8KeZxinPwy6kkUgyzMLeqb2ARNsWjADG1dhSsVba'', ''bLxADBknoNj8WAGw2W6GBYeq848Xx6ajhaymV1YvrHm'',
     ''bLxAc88vRBwvcUQJEgcxNfBLvHPikY4csNsUmPeWea2'', ''bLxQ88oCiTsL8Xj4YWekKi1hjrgmbE3J3FFZ2xZHR3h'',
     ''bLxS7NoLuynNRJ4mCnEE2YbtwJFttYsEyp2ME7rp2yt'', ''bLxW6mCov7VEbrKc3S9tcBRcfSzRnLCbNp3Dfn3SJG5'',
     ''bLxXSGXs4mYPTC5okZXed1qzvjNwNJ48QJ82hT2V7w7'', ''bLxYi3vojbbB7hVzVDVTdBLVPhp7GJ3ZB3BwdK5sFXi'',
     ''bLxhLPgBXtUpX4b1bH3HatuMGMSKT9GnwtuCGiMSAqe'', ''bLxpY1mniuFW4PgkNA4JiNxoeKHFszryi6tNgyZAiAA'',
     ''bLxuETxd2tgWxBALNwPzAfHhsik4BzD3nrEBCiPNZQD'', ''bLxuL2gK5FW7xfahvwLrxLyW76vcCpNsKQY2CmnE6kV'',
     ''bLxv4Hnub7nDJWHs8s17o9bGU65Bnx6Yqp2fqtMgHmm'']"

definition FLASHBLOCK_TIPS :: "string list" where
  "FLASHBLOCK_TIPS = [
     ''FLaShB3iXXTWE1vu9wQsChUKq3HFtpMAhb8kAh1pf1wi'', ''FLashhsorBmM9dLpuq6qATawcpqk1Y2aqaZfkd48iT3W'',
     ''FLaSHJNm5dWYzEgnHJWWJP5ccu128Mu61NJLxUf7mUXU'', ''FLaSHR4Vv7sttd6TyDF4yR1bJyAxRwWKbohDytEMu3wL'',
     ''FLASHRzANfcAKDuQ3RXv9hbkBy4WVEKDzoAgxJ56DiE4'', ''FLasHstqx11M8W56zrSEqkCyhMCCpr6ze6Mjdvqope5s'',
     ''FLAShWTjcweNT4NSotpjpxAkwxUr2we3eXQGhpTVzRwy'', ''FLasHXTqrbNvpWFB6grN47HGZfK6pze9HLNTgbukfPSk'',
     ''FLAshyAyBcKb39KPxSzXcepiS8iDYUhDGwJcJDPX4g2B'', ''FLAsHZTRcf3Dy1APaz6j74ebdMC6Xx4g6i9YxjyrDybR'']"

definition FALCON_TIPS :: "string list" where
  "FALCON_TIPS = [
     ''Fa1con11xLjPddfzRwRUB16sbFZggp2JeJkCeWREyR8X'', ''Fa1con11TM1RuAQzbQzYjTy4Ekfap9Lnc9fnEbQYEd6Q'',
     ''Fa1con113Bvi76nS5AzUiRDC2fqjfzkNMUNRLgQybMYt'', ''Fa1con1QGHJK232s8yZpzZZwqPexnAKcoyKj626LNsMv'',
     ''Fa1con1zUzb6qJVFz5tNkPq1Ahm8H1qKW7Q48252QbkQ'', ''Fa1con16d3MSwd3SAiwvr2LwgkpE7ot8zntbpuec8HAx'',
     ''Fa1con1i7mpa7Qc6epYJ6r4P9AbU77DFFz173r59Df1x'', ''Fa1con18nWn8TdAGL7JX8PertfMUGVSc899NawokJ4Bq'',
     ''Fa1con1GKusK2EqsfzrDzGPaYZSxQtFGzJiRMMU9Zm2g'', ''Fa1con1RDwVwM9VrJ53CwVefD3VU9c58EMpDawV7fLMi'']"

definition BLOCKRAZOR_TIPS :: "string list" where
  "BLOCKRAZOR_TIPS = [
     ''FjmZZrFvhnqqb9ThCuMVnENaM3JGVuGWNyCAxRJcFpg9'', ''6No2i3aawzHsjtThw81iq1EXPJN6rh8eSJCLaYZfKDTG'',
     ''A9cWowVAiHe9pJfKAj3TJiN9VpbzMUq6E4kEvf5mUT22'', ''Gywj98ophM7GmkDdaWs4isqZnDdFCW7B46TXmKfvyqSm'',
     ''68Pwb4jS7eZATjDfhmTXgRJjCiZmw1L7Huy4HNpnxJ3o'', ''4ABhJh5rZPjv63RBJBuyWzBK3g9gWMUQdTZP2kiW31V9'',
     ''B2M4NG5eyZp5SBQrSdtemzk5TqVuaWGQnowGaCBt8GyM'', ''5jA59cXMKQqZAVdtopv8q3yyw9SYfiE3vUCbt7p8MfVf'',
     ''5YktoWygr1Bp9wiS1xtMtUki1PeYuuzuCF98tqwYxf61'', ''295Avbam4qGShBYK7E9H5Ldew4B3WyJGmgmXfiWdeeyV'',
     ''EDi4rSy2LZgKJX74mbLTFk4mxoTgT6F7HxxzG2HBAFyK'', ''BnGKHAC386n4Qmv9xtpBVbRaUTKixjBe3oagkPFKtoy6'',
     ''Dd7K2Fp7AtoN8xCghKDRmyqr5U169t48Tw5fEd3wT9mq'', ''AP6qExwrbRgBAVaehg4b5xHENX815sMabtBzUzVB4v8S'']"

definition provider_jito :: ProviderSpec where
  "provider_jito = \<lparr>
     spec_name = ''jito'', spec_env_key = '''', spec_env_regions = ''JITO_REGIONS'',
     spec_default_regions = ''all'', spec_auth = No_Auth, spec_port = 443, spec_tls = True,
     spec_path = ''/api/v1/transactions?bundleOnly=true'', spec_health_path = ''/'', spec_body = ''json_rpc'',
     spec_min_tip = 1000, spec_signup = ''https://docs.jito.wtf/ (no key required)'',
     spec_hosts = [
       (''ny'', ''ny.mainnet.block-engine.jito.wtf''), (''fra'', ''frankfurt.mainnet.block-engine.jito.wtf''),
       (''ams'', ''amsterdam.mainnet.block-engine.jito.wtf''), (''dublin'', ''dublin.mainnet.block-engine.jito.wtf''),
       (''slc'', ''slc.mainnet.block-engine.jito.wtf''), (''tyo'', ''tokyo.mainnet.block-engine.jito.wtf''),
       (''sgp'', ''singapore.mainnet.block-engine.jito.wtf''), (''lon'', ''london.mainnet.block-engine.jito.wtf'')],
     spec_tips = JITO_TIPS\<rparr>"

definition provider_helius_sender :: ProviderSpec where
  "provider_helius_sender = \<lparr>
     spec_name = ''helius-sender'', spec_env_key = '''', spec_env_regions = ''HELIUS_SENDER_REGIONS'',
     spec_default_regions = ''all'', spec_auth = No_Auth, spec_port = 80, spec_tls = False,
     spec_path = ''/fast'', spec_health_path = ''/ping'', spec_body = ''json_rpc'',
     spec_min_tip = 1000000, spec_signup = ''https://www.helius.dev/docs/sending-transactions/sender (key optional)'',
     spec_hosts = [
       (''ny'', ''ewr-sender.helius-rpc.com''), (''fra'', ''fra-sender.helius-rpc.com''),
       (''ams'', ''ams-sender.helius-rpc.com''), (''lon'', ''lon-sender.helius-rpc.com''),
       (''slc'', ''slc-sender.helius-rpc.com''), (''tyo'', ''tyo-sender.helius-rpc.com''),
       (''sgp'', ''sg-sender.helius-rpc.com'')],
     spec_tips = HELIUS_TIPS\<rparr>"

definition provider_zeroslot :: ProviderSpec where
  "provider_zeroslot = \<lparr>
     spec_name = ''0slot'', spec_env_key = ''SLOT_CONNECTION_KEY'', spec_env_regions = ''SLOT_REGIONS'',
     spec_default_regions = ''all'', spec_auth = Query, spec_port = 80, spec_tls = False,
     spec_path = ''/txb?api-key={KEY}'', spec_health_path = ''/health'', spec_body = ''binary'',
     spec_min_tip = 1000000, spec_signup = ''https://0slot.trade/'',
     spec_hosts = [
       (''ny'', ''ny2.0slot.trade''), (''ny'', ''ny.0slot.trade''),
       (''fra'', ''de2.0slot.trade''), (''ams'', ''ams.0slot.trade''),
       (''tyo'', ''jp.0slot.trade''), (''la'', ''la.0slot.trade'')],
     spec_tips = ZEROSLOT_TIPS\<rparr>"

definition provider_astralane :: ProviderSpec where
  "provider_astralane = \<lparr>
     spec_name = ''astralane'', spec_env_key = ''ASTRA_KEY'', spec_env_regions = ''ASTRA_REGIONS'',
     spec_default_regions = ''all'', spec_auth = Query, spec_port = 80, spec_tls = False,
     spec_path = ''/irisb?api-key={KEY}&method=sendTransaction'', spec_health_path = ''/irisb?api-key={KEY}&method=getHealth'', spec_body = ''binary'',
     spec_min_tip = 10000, spec_signup = ''https://astralane.gitbook.io/docs (portal.astralane.io)'',
     spec_hosts = [
       (''ny'', ''ny.gateway.astralane.io''), (''fra'', ''fr.gateway.astralane.io''),
       (''fra'', ''fr2.gateway.astralane.io''), (''ams'', ''ams.gateway.astralane.io''),
       (''ams'', ''ams2.gateway.astralane.io''), (''lim'', ''lim.gateway.astralane.io''),
       (''lit'', ''lit.gateway.astralane.io''), (''tyo'', ''jp.gateway.astralane.io''),
       (''sgp'', ''sg.gateway.astralane.io''), (''la'', ''la.gateway.astralane.io'')],
     spec_tips = ASTRALANE_TIPS\<rparr>"

definition provider_node1 :: ProviderSpec where
  "provider_node1 = \<lparr>
     spec_name = ''node1'', spec_env_key = ''NODE_ONE_KEY'', spec_env_regions = ''NODE1_REGIONS'',
     spec_default_regions = ''all'', spec_auth = Header ''api-key'', spec_port = 80, spec_tls = False,
     spec_path = ''/'', spec_health_path = ''/ping'', spec_body = ''json_rpc'',
     spec_min_tip = 1000000, spec_signup = ''https://node1.me/'',
     spec_hosts = [
       (''ny'', ''ny.node1.me''), (''fra'', ''fra.node1.me''),
       (''ams'', ''ams.node1.me''), (''lon'', ''lon.node1.me''),
       (''tyo'', ''tk.node1.me'')],
     spec_tips = NODE1_TIPS\<rparr>"

definition provider_nextblock :: ProviderSpec where
  "provider_nextblock = \<lparr>
     spec_name = ''nextblock'', spec_env_key = ''NEXTBLOCK_KEY'', spec_env_regions = ''NEXTBLOCK_REGIONS'',
     spec_default_regions = ''all'', spec_auth = Header ''Authorization'', spec_port = 80, spec_tls = False,
     spec_path = ''/api/v2/submit'', spec_health_path = ''/'', spec_body = ''wrapped'',
     spec_min_tip = 1000000, spec_signup = ''https://docs.nextblock.io/ (t.me/nextblock_support)'',
     spec_hosts = [
       (''ny'', ''ny.nextblock.io''), (''fra'', ''fra.nextblock.io''),
       (''ams'', ''ams.nextblock.io''), (''dublin'', ''dublin.nextblock.io''),
       (''slc'', ''slc.nextblock.io''), (''tyo'', ''tokyo.nextblock.io''),
       (''sgp'', ''sgp.nextblock.io''), (''lon'', ''london.nextblock.io''),
       (''vln'', ''vilnius.nextblock.io'')],
     spec_tips = NEXTBLOCK_TIPS\<rparr>"

definition provider_nozomi :: ProviderSpec where
  "provider_nozomi = \<lparr>
     spec_name = ''nozomi'', spec_env_key = ''NOZOMI_KEY'', spec_env_regions = ''NOZOMI_REGIONS'',
     spec_default_regions = ''all'', spec_auth = Query, spec_port = 80, spec_tls = False,
     spec_path = ''/api/sendBatch?c={KEY}'', spec_health_path = ''/ping'', spec_body = ''len_prefixed_binary'',
     spec_min_tip = 1000000, spec_signup = ''https://use.temporal.xyz/ (dashboard issues the key)'',
     spec_hosts = [
       (''ny'', ''ewr1.nozomi.temporal.xyz''), (''fra'', ''fra2.nozomi.temporal.xyz''),
       (''ams'', ''ams1.nozomi.temporal.xyz''), (''lon'', ''lon1.nozomi.temporal.xyz''),
       (''la'', ''lax1.nozomi.temporal.xyz''), (''tyo'', ''tyo1.nozomi.temporal.xyz''),
       (''sgp'', ''sgp1.nozomi.temporal.xyz''), (''pit'', ''pit1.nozomi.temporal.xyz''),
       (''ash'', ''ash1.nozomi.temporal.xyz'')],
     spec_tips = NOZOMI_TIPS\<rparr>"

definition provider_bloxroute :: ProviderSpec where
  "provider_bloxroute = \<lparr>
     spec_name = ''bloxroute'', spec_env_key = ''BLOXROUTE_KEY'', spec_env_regions = ''BLOXROUTE_REGIONS'',
     spec_default_regions = ''all'', spec_auth = Header ''Authorization'', spec_port = 80, spec_tls = False,
     spec_path = ''/api/v2/submit'', spec_health_path = ''/health'', spec_body = ''wrapped_blox'',
     spec_min_tip = 1000000, spec_signup = ''https://bloxroute.com/products/solana-trader-api/'',
     spec_hosts = [
       (''ny'', ''ny.solana.dex.blxrbdn.com''), (''fra'', ''germany.solana.dex.blxrbdn.com''),
       (''ams'', ''amsterdam.solana.dex.blxrbdn.com''), (''lon'', ''uk.solana.dex.blxrbdn.com''),
       (''tyo'', ''tokyo.solana.dex.blxrbdn.com''), (''global'', ''global.solana.dex.blxrbdn.com'')],
     spec_tips = BLOX_TIPS\<rparr>"

definition provider_flashblock :: ProviderSpec where
  "provider_flashblock = \<lparr>
     spec_name = ''flashblock'', spec_env_key = ''FLASHBLOCK_KEY'', spec_env_regions = ''FLASHBLOCK_REGIONS'',
     spec_default_regions = ''all'', spec_auth = Header ''Authorization'', spec_port = 80, spec_tls = False,
     spec_path = ''/api/v2/submit-batch'', spec_health_path = ''/'', spec_body = ''batch'',
     spec_min_tip = 100000, spec_signup = ''https://flashblock.trade/ (doc.flashblock.trade, t.me/FlashBlock_support)'',
     spec_hosts = [
       (''ny'', ''ny.flashblock.trade''), (''fra'', ''fra.flashblock.trade''),
       (''ams'', ''ams.flashblock.trade''), (''lon'', ''london.flashblock.trade''),
       (''slc'', ''slc.flashblock.trade''), (''tyo'', ''tokyo.flashblock.trade''),
       (''sgp'', ''singapore.flashblock.trade'')],
     spec_tips = FLASHBLOCK_TIPS\<rparr>"

definition provider_blockrazor :: ProviderSpec where
  "provider_blockrazor = \<lparr>
     spec_name = ''blockrazor'', spec_env_key = ''BLOCKRAZOR_KEY'', spec_env_regions = ''BLOCKRAZOR_REGIONS'',
     spec_default_regions = ''all'', spec_auth = Header ''apikey'', spec_port = 443, spec_tls = False,
     spec_path = ''/v2/sendBinaryTransaction?auth={KEY}'', spec_health_path = ''/health'', spec_body = ''binary'',
     spec_min_tip = 100000, spec_signup = ''https://blockrazor.io/ (docs.blockrazor.io)'',
     spec_hosts = [
       (''ny'', ''newyork.solana.blockrazor.xyz''), (''fra'', ''frankfurt.solana.blockrazor.xyz''),
       (''fra'', ''frankfurt-allnodes.solana.blockrazor.xyz''), (''fra'', ''frankfurt-cherryservers.solana.blockrazor.xyz''),
       (''ams'', ''amsterdam.solana.blockrazor.xyz''), (''ams'', ''amsterdam-cherryservers.solana.blockrazor.xyz''),
       (''lon'', ''london.solana.blockrazor.xyz''), (''tyo'', ''tokyo.solana.blockrazor.xyz''),
       (''sgp'', ''singapore.solana.blockrazor.xyz''), (''la'', ''losangeles.solana.blockrazor.xyz''),
       (''tor'', ''toronto.solana.blockrazor.xyz'')],
     spec_tips = BLOCKRAZOR_TIPS\<rparr>"

definition provider_falcon :: ProviderSpec where
  "provider_falcon = \<lparr>
     spec_name = ''falcon'', spec_env_key = ''FALCON_KEY'', spec_env_regions = ''FALCON_REGIONS'',
     spec_default_regions = ''all'', spec_auth = Query, spec_port = 80, spec_tls = False,
     spec_path = ''/binary?api-key={KEY}'', spec_health_path = ''/health'', spec_body = ''binary'',
     spec_min_tip = 1000000, spec_signup = ''https://docs.corvus-labs.io/falcon (dashboard issues the UUID)'',
     spec_hosts = [
       (''fra'', ''fra.falcon.wtf''), (''ams'', ''ams.falcon.wtf''),
       (''lon'', ''lon.falcon.wtf''), (''ny'', ''nyc.falcon.wtf''),
       (''tyo'', ''tyo.falcon.wtf''), (''dublin'', ''dub.falcon.wtf''),
       (''sgp'', ''sgp.falcon.wtf''), (''slc'', ''slc.falcon.wtf''),
       (''sqq'', ''sqq.falcon.wtf'')],
     spec_tips = FALCON_TIPS\<rparr>"

definition provider_falcon_udp :: ProviderSpec where
  "provider_falcon_udp = \<lparr>
     spec_name = ''falcon-udp'', spec_env_key = ''FALCON_KEY'', spec_env_regions = ''FALCON_UDP_REGIONS'',
     spec_default_regions = '''', spec_auth = No_Auth, spec_port = 9000, spec_tls = False,
     spec_path = '''', spec_health_path = '''', spec_body = ''udp_raw'',
     spec_min_tip = 1000000, spec_signup = ''https://docs.corvus-labs.io/falcon (same UUID as the HTTP route)'',
     spec_hosts = [
       (''fra'', ''fra.falcon.wtf''), (''ams'', ''ams.falcon.wtf''),
       (''lon'', ''lon.falcon.wtf''), (''ny'', ''nyc.falcon.wtf''),
       (''tyo'', ''tyo.falcon.wtf''), (''dublin'', ''dub.falcon.wtf''),
       (''sgp'', ''sgp.falcon.wtf''), (''slc'', ''slc.falcon.wtf''),
       (''sqq'', ''sqq.falcon.wtf'')],
     spec_tips = FALCON_TIPS\<rparr>"

definition PROVIDERS :: "ProviderSpec list" where
  "PROVIDERS = [
     provider_jito, provider_helius_sender, provider_zeroslot, provider_astralane,
     provider_node1, provider_nextblock, provider_nozomi, provider_bloxroute,
     provider_flashblock, provider_blockrazor, provider_falcon, provider_falcon_udp]"

section \<open>The generator\<close>

type_synonym dotenv = "ustr \<rightharpoonup> ustr"

text \<open>\<open>str::replace\<close> with a non-empty pattern: left to right, without overlaps.\<close>

function replace :: "ustr \<Rightarrow> ustr \<Rightarrow> ustr \<Rightarrow> ustr" where
  "replace pat by s =
     (if s = [] then []
      else if pat \<noteq> [] \<and> prefix pat s then by @ replace pat by (drop (length pat) s)
      else hd s # replace pat by (tl s))"
  by pat_completeness auto
termination
  by (relation "measure (\<lambda>(_, _, s). length s)") (auto simp: prefix_def)

declare replace.simps [simp del]

definition to_lower :: "nat \<Rightarrow> nat" where
  "to_lower c = (if 65 \<le> c \<and> c \<le> 90 then c + 32 else c)"

definition eq_ignore_ascii_case :: "ustr \<Rightarrow> ustr \<Rightarrow> bool" where
  "eq_ignore_ascii_case a b \<longleftrightarrow> map to_lower a = map to_lower b"

text \<open>\<open>to_uppercase\<close> on the names of the catalogue, which are ASCII.\<close>

definition to_upper :: "nat \<Rightarrow> nat" where
  "to_upper c = (if 97 \<le> c \<and> c \<le> 122 then c - 32 else c)"

text \<open>\<open>read_env\<close>: the text of the file, None when it cannot be read.\<close>

definition env_line :: "ustr \<Rightarrow> dotenv \<Rightarrow> dotenv" where
  "env_line line out =
     (let line = trim line in
      if line = [] \<or> hd line = 35 then out
      else case split_once 61 line of None \<Rightarrow> out | Some (k, v) \<Rightarrow> out(trim k \<mapsto> trim v))"

definition read_env :: "ustr option \<Rightarrow> dotenv" where
  "read_env raw = (case raw of None \<Rightarrow> Map.empty | Some text \<Rightarrow> fold env_line (lines text) Map.empty)"

definition get :: "dotenv \<Rightarrow> ustr \<Rightarrow> ustr" where
  "get env k = (case env k of None \<Rightarrow> [] | Some s \<Rightarrow> trim s)"

definition get_or :: "dotenv \<Rightarrow> ustr \<Rightarrow> ustr \<Rightarrow> ustr" where
  "get_or env k d = (let v = get env k in if v = [] then d else v)"

definition num :: "dotenv \<Rightarrow> ustr \<Rightarrow> u64 \<Rightarrow> u64" where
  "num env k d = (case parse_u64 (get env k) of Some n \<Rightarrow> n | None \<Rightarrow> d)"

text \<open>The JSON object of a provider; a field that is left out is None or empty.\<close>

record ProviderJson =
  pj_name :: ustr
  pj_hosts :: "ustr list"
  pj_port :: u16
  pj_path :: ustr
  pj_tls :: bool
  pj_body :: string
  pj_headers :: "(ustr \<times> ustr) list"
  pj_health_path :: ustr
  pj_udp_prefix :: "ustr option"
  pj_tip_lamports :: u64
  pj_cu_price :: u64
  pj_tip_accounts :: "ustr list"

datatype choice = Skipped string string string | No_Endpoint | Enabled ProviderJson

definition KEY_MARK :: ustr where
  "KEY_MARK = str_of ''{KEY}''"

definition provider_var :: "ProviderSpec \<Rightarrow> string \<Rightarrow> ustr" where
  "provider_var spec ending = replace (str_of ''-'') (str_of ''_'') (map to_upper (str_of (spec_name spec))) @ str_of ending"

definition region_selected :: "ustr \<Rightarrow> string \<Rightarrow> bool" where
  "region_selected wanted region \<longleftrightarrow>
     wanted = str_of ''all'' \<or> (\<exists>r \<in> set (split_char 44 [] wanted). trim r = str_of region)"

text \<open>The object written for an enabled provider, once its key and its hosts are known.\<close>

definition provider_json :: "dotenv \<Rightarrow> u64 \<Rightarrow> u64 \<Rightarrow> ProviderSpec \<Rightarrow> ustr \<Rightarrow> ustr list \<Rightarrow> ProviderJson" where
  "provider_json env default_tip default_cu_price spec key hosts =
     \<lparr>pj_name = str_of (spec_name spec), pj_hosts = hosts, pj_port = spec_port spec,
      pj_path = replace KEY_MARK key (str_of (spec_path spec)), pj_tls = spec_tls spec, pj_body = spec_body spec,
      pj_headers = (case spec_auth spec of Header name \<Rightarrow> [(str_of name, key)] | _ \<Rightarrow> []),
      pj_health_path = replace KEY_MARK key (str_of (spec_health_path spec)),
      pj_udp_prefix = (if spec_body spec = ''udp_raw'' then Some (replace (str_of ''-'') [] key) else None),
      pj_tip_lamports = num env (provider_var spec ''_TIP_LAMPORTS'') (max default_tip (spec_min_tip spec)),
      pj_cu_price = num env (provider_var spec ''_CU_PRICE'') default_cu_price,
      pj_tip_accounts = map str_of (spec_tips spec)\<rparr>"

definition choose_provider :: "dotenv \<Rightarrow> u64 \<Rightarrow> u64 \<Rightarrow> ProviderSpec \<Rightarrow> choice" where
  "choose_provider env default_tip default_cu_price spec =
     (let key = (if spec_env_key spec = [] then [] else get env (str_of (spec_env_key spec)))
      in if spec_env_key spec \<noteq> [] \<and> key = [] then Skipped (spec_name spec) (spec_env_key spec) (spec_signup spec)
         else
           (let wanted = get_or env (str_of (spec_env_regions spec)) (str_of (spec_default_regions spec))
            in if wanted = [] \<or> eq_ignore_ascii_case wanted (str_of ''none'') \<or> eq_ignore_ascii_case wanted (str_of ''off'')
               then Skipped (spec_name spec) (spec_env_regions spec) (spec_signup spec)
               else
                 (let hosts = map (str_of \<circ> snd) (filter (region_selected wanted \<circ> fst) (spec_hosts spec))
                  in if hosts = [] then No_Endpoint
                     else Enabled (provider_json env default_tip default_cu_price spec key hosts))))"

text \<open>The file: what it sets of the sniper's configuration, in the order of its fields.\<close>

record SniperJson =
  sj_keypair_path :: ustr
  sj_whitelist_path :: ustr
  sj_whitelist_disabled :: bool
  sj_rpc_url :: ustr
  sj_nonce_accounts :: "ustr list"
  sj_nonce_refresh_ms :: u64
  sj_sender_spin_micros :: u64
  sj_max_endpoint_ms :: u64
  sj_min_endpoints :: u64
  sj_buy_lamports :: u64
  sj_max_dev_buy_lamports :: u64
  sj_haircut_bps :: u64
  sj_slippage_bps :: u64
  sj_cu_limit :: u64
  sj_sync_mode :: bool
  sj_test_mode :: bool
  sj_test_trips :: u64
  sj_ghost_mode :: bool
  sj_hold_ms :: u64
  sj_position_poll_ms :: u64
  sj_buy_timeout_ms :: u64
  sj_dry_run :: bool
  sj_providers :: "ProviderJson list"

definition generated_providers :: "dotenv \<Rightarrow> ProviderJson list" where
  "generated_providers env =
     (let default_tip = num env (str_of ''SNIPER_TIP_LAMPORTS'') 2000000;
          default_cu_price = num env (str_of ''SNIPER_CU_PRICE'') 6000000
      in List.map_filter (\<lambda>spec. case choose_provider env default_tip default_cu_price spec of Enabled p \<Rightarrow> Some p | _ \<Rightarrow> None) PROVIDERS)"

definition generated_nonces :: "dotenv \<Rightarrow> ustr list" where
  "generated_nonces env =
     filter (\<lambda>s. s \<noteq> []) (map trim (split_char 44 [] (get_or env (str_of ''SNIPER_NONCE_ACCOUNTS'') (get env (str_of ''NONCE_PUBLIC_KEY'')))))"

definition gen_config :: "ustr option \<Rightarrow> SniperJson" where
  "gen_config raw =
     (let env = read_env raw; g = (\<lambda>k. get env (str_of k)); n = (\<lambda>k. num env (str_of k));
          o' = (\<lambda>k d. get_or env (str_of k) d)
      in \<lparr>sj_keypair_path = o' ''SNIPER_KEYPAIR'' (str_of ''/etc/sniper/keypair.json''),
          sj_whitelist_path = o' ''SNIPER_WHITELIST'' (str_of ''whitelist.txt''),
          sj_whitelist_disabled = (g ''SNIPER_WHITELIST_DISABLED'' = str_of ''1''),
          sj_rpc_url = o' ''SNIPER_RPC_URL'' (o' ''RPC_ENDPOINT'' (str_of ''http://127.0.0.1:8899'')),
          sj_nonce_accounts = generated_nonces env,
          sj_nonce_refresh_ms = n ''SNIPER_NONCE_REFRESH_MS'' 300,
          sj_sender_spin_micros = n ''SNIPER_SENDER_SPIN_MICROS'' 2000000,
          sj_max_endpoint_ms = n ''SNIPER_MAX_ENDPOINT_MS'' 20,
          sj_min_endpoints = n ''SNIPER_MIN_ENDPOINTS'' 2,
          sj_buy_lamports = n ''SNIPER_BUY_LAMPORTS'' 1000000000,
          sj_max_dev_buy_lamports = n ''SNIPER_MAX_DEV_BUY_LAMPORTS'' 2900000000,
          sj_haircut_bps = n ''SNIPER_HAIRCUT_BPS'' 30,
          sj_slippage_bps = n ''SNIPER_SLIPPAGE_BPS'' 100,
          sj_cu_limit = n ''SNIPER_CU_LIMIT'' 90000,
          sj_sync_mode = (o' ''SNIPER_SYNC_MODE'' (str_of ''1'') \<noteq> str_of ''0''),
          sj_test_mode = (g ''SNIPER_TEST_MODE'' = str_of ''1''),
          sj_test_trips = n ''SNIPER_TEST_TRIPS'' 1,
          sj_ghost_mode = (g ''SNIPER_GHOST_MODE'' = str_of ''1''),
          sj_hold_ms = n ''SNIPER_HOLD_MS'' 1600,
          sj_position_poll_ms = n ''SNIPER_POSITION_POLL_MS'' 200,
          sj_buy_timeout_ms = n ''SNIPER_BUY_TIMEOUT_MS'' 30000,
          sj_dry_run = (g ''SNIPER_DRY_RUN'' = str_of ''1''),
          sj_providers = generated_providers env\<rparr>)"

section \<open>Reading it back\<close>

text \<open>
  What the deserializer of \<open>sniper/src/config.rs\<close> makes of such an object: the names of the formats in
  snake case, strings in UTF-8, and the defaults for what is left out. A number too large for its field
  is an error (None).
\<close>

definition parse_body :: "string \<Rightarrow> BodyFormat option" where
  "parse_body s =
     (if s = ''json_rpc'' then Some JsonRpc else if s = ''wrapped'' then Some Wrapped
      else if s = ''wrapped_blox'' then Some WrappedBlox else if s = ''plain_tx'' then Some PlainTx
      else if s = ''batch'' then Some BodyFormat.Batch else if s = ''binary'' then Some Binary
      else if s = ''len_prefixed_binary'' then Some LenPrefixedBinary else if s = ''udp_raw'' then Some UdpRaw else None)"

definition utf8_char :: "nat \<Rightarrow> bytes" where
  "utf8_char c =
     (if c < 0x80 then [of_nat c]
      else if c < 0x800 then [of_nat (0xC0 + c div 64), of_nat (0x80 + c mod 64)]
      else if c < 0x10000 then [of_nat (0xE0 + c div 4096), of_nat (0x80 + c div 64 mod 64), of_nat (0x80 + c mod 64)]
      else [of_nat (0xF0 + c div 262144), of_nat (0x80 + c div 4096 mod 64), of_nat (0x80 + c div 64 mod 64), of_nat (0x80 + c mod 64)])"

definition utf8 :: "ustr \<Rightarrow> bytes" where
  "utf8 s = concat (map utf8_char s)"

definition load_provider :: "ProviderJson \<Rightarrow> ProviderConfig option" where
  "load_provider j = do {
     body \<leftarrow> parse_body (pj_body j);
     Some \<lparr>pc_name = utf8 (pj_name j), pc_hosts = map utf8 (pj_hosts j), pc_host = [], pc_port = pj_port j,
       pc_path = utf8 (pj_path j), pc_tls = pj_tls j, pc_body = body,
       pc_headers = map (\<lambda>(a, b). (utf8 a, utf8 b)) (pj_headers j),
       pc_tip_accounts = map utf8 (pj_tip_accounts j), pc_tip_account = [],
       pc_tip_lamports = pj_tip_lamports j, pc_cu_price = pj_cu_price j, pc_health_path = utf8 (pj_health_path j),
       pc_udp_prefix = (case pj_udp_prefix j of None \<Rightarrow> [] | Some p \<Rightarrow> utf8 p), pc_enabled = True\<rparr>
   }"

definition load_config :: "SniperJson \<Rightarrow> SniperConfig option" where
  "load_config j = do {
     providers \<leftarrow> those (map load_provider (sj_providers j));
     if sj_cu_limit j < 2 ^ 32 \<and> sj_test_trips j < 2 ^ 32 then
       Some \<lparr>sc_keypair_path = utf8 (sj_keypair_path j), sc_whitelist_path = utf8 (sj_whitelist_path j),
         sc_whitelist_disabled = sj_whitelist_disabled j, sc_rpc_url = utf8 (sj_rpc_url j),
         sc_nonce_accounts = map utf8 (sj_nonce_accounts j), sc_buy_lamports = sj_buy_lamports j,
         sc_max_dev_buy_lamports = sj_max_dev_buy_lamports j, sc_haircut_bps = sj_haircut_bps j,
         sc_slippage_bps = sj_slippage_bps j, sc_cu_limit = ucast (sj_cu_limit j),
         sc_nonce_refresh_ms = sj_nonce_refresh_ms j, sc_sender_spin_micros = sj_sender_spin_micros j,
         sc_max_endpoint_ms = sj_max_endpoint_ms j, sc_min_endpoints = unat (sj_min_endpoints j),
         sc_sync_mode = sj_sync_mode j, sc_test_mode = sj_test_mode j, sc_test_trips = ucast (sj_test_trips j),
         sc_ghost_mode = sj_ghost_mode j, sc_hold_ms = sj_hold_ms j, sc_position_poll_ms = sj_position_poll_ms j,
         sc_buy_timeout_ms = sj_buy_timeout_ms j, sc_dry_run = sj_dry_run j, sc_providers = providers\<rparr>
     else None
   }"

section \<open>Text\<close>

lemma replace_Nil [simp]: "replace pat by [] = []"
  by (simp add: replace.simps)

lemma replace_Cons: "replace pat by (x # s) =
    (if pat \<noteq> [] \<and> prefix pat (x # s) then by @ replace pat by (drop (length pat) (x # s)) else x # replace pat by s)"
  by (subst replace.simps) simp

lemma replace_char: "replace [c] by s = concat (map (\<lambda>x. if x = c then by else [x]) s)"
  by (induction s) (auto simp: replace_Cons)

lemma replace_places: "pat \<noteq> [] \<Longrightarrow> sublist pat s \<Longrightarrow> sublist by (replace pat by s)"
proof (induction s rule: length_induct)
  case (1 s)
  then obtain x t where s: "s = x # t"
    by (cases s) auto
  show ?case
  proof (cases "prefix pat s")
    case True
    then show ?thesis
      using 1(2) by (simp add: s replace_Cons)
  next
    case False
    then have "sublist pat t"
      using 1(3) by (simp add: s sublist_Cons_right)
    with 1 have "sublist by (replace pat by t)"
      by (simp add: s)
    with False 1(2) show ?thesis
      by (simp add: s replace_Cons sublist_Cons_right)
  qed
qed

lemma utf8_append [simp]: "utf8 (xs @ ys) = utf8 xs @ utf8 ys"
  by (simp add: utf8_def)

lemma utf8_sublist: "sublist xs ys \<Longrightarrow> sublist (utf8 xs) (utf8 ys)"
  unfolding sublist_def by (metis utf8_append)

lemma str_of_sublist: "sublist xs ys \<Longrightarrow> sublist (str_of xs) (str_of ys)"
  unfolding sublist_def str_of_def by (metis map_append)

lemma str_of_simps [simp]: "str_of [] = []" "str_of (c # cs) = of_char c # str_of cs" "str_of s = [] \<longleftrightarrow> s = []"
  by (simp_all add: str_of_def)

lemma utf8_no_slash: "47 \<notin> set s \<Longrightarrow> \<forall>c \<in> set s. c < 128 \<Longrightarrow> 47 \<notin> set (utf8 s)"
proof (induction s)
  case (Cons c s)
  have "(of_nat c :: byte) \<noteq> 47" if "c < 128" "c \<noteq> 47"
    using that by (auto simp: word_eq_iff_unsigned unat_of_nat take_bit_eq_mod dest!: arg_cong [of _ _ unat])
  with Cons show ?case
    by (auto simp: utf8_def utf8_char_def)
qed (simp add: utf8_def)

section \<open>The catalogue is sound\<close>

text \<open>
  What holds of every entry: a known format, hosts without a path, tip accounts, and a place for the
  key, if it takes one: the mark in the path, a header, or the datagram prefix.
\<close>

definition spec_ok :: "ProviderSpec \<Rightarrow> bool" where
  "spec_ok spec \<longleftrightarrow> parse_body (spec_body spec) \<noteq> None \<and> spec_tips spec \<noteq> []
     \<and> list_all (\<lambda>(_, h). list_all (\<lambda>c. of_char c \<noteq> (47 :: nat) \<and> of_char c < (128 :: nat)) h) (spec_hosts spec)
     \<and> (spec_env_key spec = [] \<or>
         (case spec_auth spec of Query \<Rightarrow> sublist ''{KEY}'' (spec_path spec) | Header _ \<Rightarrow> True | No_Auth \<Rightarrow> spec_body spec = ''udp_raw''))
     \<and> (spec_body spec = ''udp_raw'' \<longrightarrow> spec_env_regions spec = ''FALCON_UDP_REGIONS'' \<and> spec_default_regions spec = [])"

lemmas catalogue = provider_jito_def provider_helius_sender_def provider_zeroslot_def provider_astralane_def provider_node1_def
  provider_nextblock_def provider_nozomi_def provider_bloxroute_def provider_flashblock_def provider_blockrazor_def
  provider_falcon_def provider_falcon_udp_def

lemma PROVIDERS_ok: "spec \<in> set PROVIDERS \<Longrightarrow> spec_ok spec"
proof -
  have "list_all spec_ok PROVIDERS"
    by code_simp
  then show "spec \<in> set PROVIDERS \<Longrightarrow> spec_ok spec"
    by (simp add: list_all_iff)
qed

section \<open>A generated provider\<close>

lemma choose_provider_cases:
  assumes "choose_provider env tip cu spec = Enabled j"
  obtains key hosts where "j = provider_json env tip cu spec key hosts" "hosts \<noteq> []"
    "key = (if spec_env_key spec = [] then [] else get env (str_of (spec_env_key spec)))"
    "spec_env_key spec \<noteq> [] \<Longrightarrow> key \<noteq> []" "set hosts \<subseteq> (str_of \<circ> snd) ` set (spec_hosts spec)"
    "get_or env (str_of (spec_env_regions spec)) (str_of (spec_default_regions spec)) \<noteq> []"
proof -
  let ?key = "if spec_env_key spec = [] then [] else get env (str_of (spec_env_key spec))"
  let ?wanted = "get_or env (str_of (spec_env_regions spec)) (str_of (spec_default_regions spec))"
  let ?hosts = "map (str_of \<circ> snd) (filter (region_selected ?wanted \<circ> fst) (spec_hosts spec))"
  have "j = provider_json env tip cu spec ?key ?hosts \<and> ?hosts \<noteq> [] \<and> (spec_env_key spec \<noteq> [] \<longrightarrow> ?key \<noteq> []) \<and> ?wanted \<noteq> []"
    using assms unfolding choose_provider_def Let_def
    by (simp only: choice.simps choice.distinct split: if_split_asm) simp_all
  then show thesis
    using that [of ?key ?hosts] by auto
qed

lemma load_endpoints:
  assumes "load_provider j = Some c" "\<forall>h \<in> set (pj_hosts j). 47 \<notin> set (utf8 h)"
  shows "endpoints c = map (\<lambda>h. (utf8 h, utf8 (pj_path j))) (pj_hosts j)" "pc_path c = utf8 (pj_path j)"
  using assms by (auto simp: load_provider_def endpoints_def split_host_def)

lemma spec_hosts_plain:
  assumes "spec_ok spec" "h \<in> (str_of \<circ> snd) ` set (spec_hosts spec)"
  shows "47 \<notin> set (utf8 h)"
  using assms by (intro utf8_no_slash) (fastforce simp: spec_ok_def list_all_iff str_of_def)+

text \<open>What the generator and the loader together make of an entry.\<close>

definition usable :: "dotenv \<Rightarrow> ProviderSpec \<Rightarrow> ProviderConfig \<Rightarrow> bool" where
  "usable env spec c \<longleftrightarrow> parse_body (spec_body spec) = Some (pc_body c) \<and> endpoints c \<noteq> []
     \<and> (\<forall>(h, path) \<in> set (endpoints c). path = pc_path c \<and> h \<in> (utf8 \<circ> str_of \<circ> snd) ` set (spec_hosts spec))
     \<and> pc_tip_accounts c \<noteq> []
     \<and> (parse_u64 (get env (provider_var spec ''_TIP_LAMPORTS'')) = None \<longrightarrow> spec_min_tip spec \<le> pc_tip_lamports c)
     \<and> (is_udp (pc_body c) \<longrightarrow> get env (str_of ''FALCON_UDP_REGIONS'') \<noteq> [])"

definition placed :: "ustr \<Rightarrow> ProviderConfig \<Rightarrow> bool" where
  "placed key c \<longleftrightarrow> sublist (utf8 key) (pc_path c) \<or> (\<exists>name. (name, utf8 key) \<in> set (pc_headers c))
     \<or> pc_udp_prefix c = utf8 (filter (\<lambda>x. x \<noteq> 45) key)"

lemma generated_loads:
  assumes "spec \<in> set PROVIDERS" "choose_provider env tip cu spec = Enabled j"
  shows "\<exists>c. load_provider j = Some c \<and> usable env spec c
    \<and> (spec_env_key spec \<noteq> [] \<longrightarrow> get env (str_of (spec_env_key spec)) \<noteq> [] \<and> placed (get env (str_of (spec_env_key spec))) c)"
proof -
  have ok: "spec_ok spec"
    using assms(1) by (rule PROVIDERS_ok)
  obtain key hosts where j: "j = provider_json env tip cu spec key hosts" "hosts \<noteq> []"
    and key: "key = (if spec_env_key spec = [] then [] else get env (str_of (spec_env_key spec)))" "spec_env_key spec \<noteq> [] \<Longrightarrow> key \<noteq> []"
    and hosts: "set hosts \<subseteq> (str_of \<circ> snd) ` set (spec_hosts spec)"
    and wanted: "get_or env (str_of (spec_env_regions spec)) (str_of (spec_default_regions spec)) \<noteq> []"
    using choose_provider_cases [OF assms(2)] by blast
  obtain b where b: "parse_body (spec_body spec) = Some b"
    using ok by (auto simp: spec_ok_def)
  then obtain c where c: "load_provider j = Some c"
    by (simp add: load_provider_def j(1) provider_json_def)
  have ph: "pj_hosts j = hosts" "pj_tip_accounts j = map str_of (spec_tips spec)"
    by (simp_all add: j(1) provider_json_def)
  have plain: "\<forall>h \<in> set (pj_hosts j). 47 \<notin> set (utf8 h)"
    unfolding ph by (intro ballI spec_hosts_plain [OF ok] subsetD [OF hosts])
  note ends = load_endpoints [OF c plain]
  have place: "sublist (utf8 key) (pc_path c) \<or> (\<exists>name. (name, utf8 key) \<in> set (pc_headers c))
      \<or> pc_udp_prefix c = utf8 (filter (\<lambda>x. x \<noteq> 45) key)" if "spec_env_key spec \<noteq> []"
  proof (cases "spec_auth spec")
    case Query
    then have "sublist ''{KEY}'' (spec_path spec)"
      using ok that by (simp add: spec_ok_def)
    then have "sublist KEY_MARK (str_of (spec_path spec))"
      unfolding KEY_MARK_def by (rule str_of_sublist)
    moreover have "KEY_MARK \<noteq> []"
      by (simp add: KEY_MARK_def)
    ultimately have "sublist (utf8 key) (pc_path c)"
      unfolding ends(2) by (simp add: j(1) provider_json_def replace_places utf8_sublist)
    then show ?thesis
      by simp
  next
    case (Header name)
    then have "(utf8 (str_of name), utf8 key) \<in> set (pc_headers c)"
      using c by (auto simp: load_provider_def j(1) provider_json_def)
    then show ?thesis
      by blast
  next
    case No_Auth
    then have "spec_body spec = ''udp_raw''"
      using ok that by (simp add: spec_ok_def)
    moreover have "str_of ''-'' = [45]"
      by simp
    moreover have "concat (map (\<lambda>x. if x = 45 then [] else [x]) key) = filter (\<lambda>x. x \<noteq> 45) key" for key :: ustr
      by (induction key) simp_all
    ultimately have "pc_udp_prefix c = utf8 (filter (\<lambda>x. x \<noteq> 45) key)"
      using c by (auto simp: load_provider_def j(1) provider_json_def replace_char simp del: str_of_simps)
    then show ?thesis
      by simp
  qed
  have "endpoints c \<noteq> []" "\<forall>(h, p) \<in> set (endpoints c). p = pc_path c \<and> h \<in> (utf8 \<circ> str_of \<circ> snd) ` set (spec_hosts spec)"
    using j(2) hosts unfolding ends ph by auto
  moreover have "pc_tip_accounts c \<noteq> []"
    using c ok ph by (auto simp: load_provider_def spec_ok_def)
  moreover have body: "parse_body (spec_body spec) = Some (pc_body c)"
    and "pc_tip_lamports c = num env (provider_var spec ''_TIP_LAMPORTS'') (max tip (spec_min_tip spec))"
    using c by (auto simp: load_provider_def j(1) provider_json_def)
  then have "parse_u64 (get env (provider_var spec ''_TIP_LAMPORTS'')) = None \<longrightarrow> spec_min_tip spec \<le> pc_tip_lamports c"
    by (simp add: num_def)
  moreover have "spec_body spec = ''udp_raw''" if "is_udp (pc_body c)"
    using body that by (auto simp: is_udp_def parse_body_def split: if_splits)
  then have "is_udp (pc_body c) \<longrightarrow> get env (str_of ''FALCON_UDP_REGIONS'') \<noteq> []"
    using wanted ok by (auto simp: spec_ok_def get_or_def Let_def split: if_splits)
  ultimately have "usable env spec c"
    using body unfolding usable_def by (intro conjI)
  with c key place show ?thesis
    by (auto simp: placed_def)
qed

lemma generated_from:
  assumes "j \<in> set (generated_providers env)"
  obtains spec where "spec \<in> set PROVIDERS"
    "choose_provider env (num env (str_of ''SNIPER_TIP_LAMPORTS'') 2000000) (num env (str_of ''SNIPER_CU_PRICE'') 6000000) spec = Enabled j"
  using assms by (auto simp: generated_providers_def List.map_filter_def Let_def split: choice.splits)

lemma those_loads: "\<forall>x \<in> set xs. f x \<noteq> None \<Longrightarrow> \<exists>ys. those (map f xs) = Some ys \<and> ys = map (the \<circ> f) xs"
  by (induction xs) auto

section \<open>The file and the environment\<close>

lemma override_same: "(\<And>v. x = Some v \<Longrightarrow> f v c = c) \<Longrightarrow> override x f c = c"
  by (cases x) (simp_all add: override_def)

text \<open>What a line of the file sets, read from the environment.\<close>

lemma parse_u64_Nil: "parse_u64 [] = None"
  by (simp add: parse_u64_def Let_def)

lemma num_env: "num env (str_of k) d = (case env_num (\<lambda>k. env (str_of k)) k of None \<Rightarrow> d | Some v \<Rightarrow> v)"
  by (cases "env (str_of k)") (auto simp: env_num_def num_def get_def parse_u64_Nil split: option.splits)

lemma flag_env: "(get env (str_of k) = str_of ''1'') = (env_flag (\<lambda>k. env (str_of k)) k = Some True)"
  by (auto simp: env_flag_def get_def split: option.splits)

lemma sync_env: "(get_or env (str_of k) (str_of ''1'') \<noteq> str_of ''0'') = (case env (str_of k) of None \<Rightarrow> True | Some v \<Rightarrow> trim v \<noteq> str_of ''0'')"
  by (auto simp: get_or_def get_def Let_def split: option.splits)

lemma trips_env: "num env (str_of k) d < 2 ^ 32 \<Longrightarrow> ucast (num env (str_of k) d)
    = (case Option.bind (env (str_of k)) (\<lambda>v. parse_u32 (trim v)) of None \<Rightarrow> ucast d | Some v \<Rightarrow> (v :: u32))"
  by (cases "env (str_of k)") (auto simp: num_def get_def parse_u32_def parse_u64_Nil word_less_nat_alt split: option.splits)

lemma loaded_fields:
  assumes "load_config (gen_config raw) = Some c"
  defines "env \<equiv> read_env raw"
  shows "sc_buy_lamports c = num env (str_of ''SNIPER_BUY_LAMPORTS'') 1000000000"
    "sc_max_dev_buy_lamports c = num env (str_of ''SNIPER_MAX_DEV_BUY_LAMPORTS'') 2900000000"
    "sc_haircut_bps c = num env (str_of ''SNIPER_HAIRCUT_BPS'') 30"
    "sc_slippage_bps c = num env (str_of ''SNIPER_SLIPPAGE_BPS'') 100"
    "sc_cu_limit c = ucast (num env (str_of ''SNIPER_CU_LIMIT'') 90000)"
    "sc_hold_ms c = num env (str_of ''SNIPER_HOLD_MS'') 1600"
    "sc_position_poll_ms c = num env (str_of ''SNIPER_POSITION_POLL_MS'') 200"
    "sc_buy_timeout_ms c = num env (str_of ''SNIPER_BUY_TIMEOUT_MS'') 30000"
    "sc_nonce_refresh_ms c = num env (str_of ''SNIPER_NONCE_REFRESH_MS'') 300"
    "sc_sync_mode c = (get_or env (str_of ''SNIPER_SYNC_MODE'') (str_of ''1'') \<noteq> str_of ''0'')"
    "sc_test_mode c = (get env (str_of ''SNIPER_TEST_MODE'') = str_of ''1'')"
    "sc_test_trips c = ucast (num env (str_of ''SNIPER_TEST_TRIPS'') 1)"
    "sc_ghost_mode c = (get env (str_of ''SNIPER_GHOST_MODE'') = str_of ''1'')"
    "sc_dry_run c = (get env (str_of ''SNIPER_DRY_RUN'') = str_of ''1'')"
    "num env (str_of ''SNIPER_TEST_TRIPS'') 1 < 2 ^ 32"
  using assms(1) unfolding env_def
  by (auto simp: load_config_def gen_config_def Let_def simp del: str_of_simps split: if_splits)

lemma generated_config_loads:
  assumes "sj_cu_limit (gen_config raw) < 2 ^ 32" "sj_test_trips (gen_config raw) < 2 ^ 32"
  shows "\<exists>c. load_config (gen_config raw) = Some c
    \<and> (\<forall>p \<in> set (sc_providers c). \<exists>spec \<in> set PROVIDERS. usable (read_env raw) spec p)"
proof -
  let ?env = "read_env raw"
  have use: "\<exists>c. load_provider j = Some c \<and> (\<exists>spec \<in> set PROVIDERS. usable ?env spec c)"
    if j: "j \<in> set (generated_providers ?env)" for j
    using generated_from [OF j] generated_loads by metis
  then have "\<forall>j \<in> set (generated_providers ?env). load_provider j \<noteq> None"
    by fastforce
  from those_loads [OF this] have "those (map load_provider (generated_providers ?env)) = Some (map (the \<circ> load_provider) (generated_providers ?env))"
    by blast
  moreover have "sj_providers (gen_config raw) = generated_providers ?env"
    by (simp add: gen_config_def Let_def)
  ultimately obtain c where c: "load_config (gen_config raw) = Some c" "sc_providers c = map (the \<circ> load_provider) (generated_providers ?env)"
    using assms by (simp add: load_config_def)
  have "\<forall>p \<in> set (sc_providers c). \<exists>spec \<in> set PROVIDERS. usable ?env spec p"
    unfolding c(2) using use by fastforce
  with c(1) show ?thesis
    by blast
qed

section \<open>Properties\<close>

text \<open>
  C21: What is generated can be fired at. For every \<open>.env\<close> whose compute limit and trip count fit their
  fields, the sniper reads the generated configuration back; each of its providers is an entry of the
  catalogue with at least one endpoint, each endpoint a host of that entry with the path of the
  provider, and with tip accounts; a tip that the file does not set for the provider covers its
  documented minimum; and the datagram transport is among them only if its regions are set.
\<close>

theorem generated_config_usable:
  assumes "sj_cu_limit (gen_config raw) < 2 ^ 32" "sj_test_trips (gen_config raw) < 2 ^ 32"
  shows "\<exists>c. load_config (gen_config raw) = Some c
    \<and> (\<forall>p \<in> set (sc_providers c). \<exists>spec \<in> set PROVIDERS. parse_body (spec_body spec) = Some (pc_body p)
        \<and> endpoints p \<noteq> [] \<and> (\<forall>(h, path) \<in> set (endpoints p). path = pc_path p \<and> h \<in> (utf8 \<circ> str_of \<circ> snd) ` set (spec_hosts spec))
        \<and> pc_tip_accounts p \<noteq> []
        \<and> (parse_u64 (get (read_env raw) (provider_var spec ''_TIP_LAMPORTS'')) = None \<longrightarrow> spec_min_tip spec \<le> pc_tip_lamports p)
        \<and> (is_udp (pc_body p) \<longrightarrow> get (read_env raw) (str_of ''FALCON_UDP_REGIONS'') \<noteq> []))"
  using generated_config_loads [OF assms] unfolding usable_def .

text \<open>
  C33: A key that a provider needs reaches its requests. For every entry of the catalogue that takes a key
  and is enabled, the key of the file is non-empty and, as it stands there, a part of the request path,
  the value of a header, or, without its dashes, the prefix of every datagram; and when that prefix is
  the hexadecimal form of some bytes, those bytes are what the sender prepends.
\<close>

theorem generated_key_placed:
  assumes "spec \<in> set PROVIDERS" "choose_provider env tip cu spec = Enabled j" "spec_env_key spec \<noteq> []"
  defines "key \<equiv> get env (str_of (spec_env_key spec))"
  shows "key \<noteq> [] \<and> (\<exists>c. load_provider j = Some c
    \<and> (sublist (utf8 key) (pc_path c) \<or> (\<exists>name. (name, utf8 key) \<in> set (pc_headers c))
        \<or> pc_udp_prefix c = utf8 (filter (\<lambda>x. x \<noteq> 45) key)
          \<and> (\<forall>bs. utf8 (filter (\<lambda>x. x \<noteq> 45) key) = to_hex bs \<longrightarrow> udp_prefix_bytes c = Inr bs)))"
proof -
  obtain c where c: "load_provider j = Some c" "key \<noteq> []" "placed key c"
    using generated_loads [OF assms(1,2)] assms(3) by (auto simp: key_def)
  have "udp_prefix_bytes c = Inr bs" if "pc_udp_prefix c = to_hex bs" for bs
  proof -
    have "c\<lparr>pc_udp_prefix := to_hex bs\<rparr> = c"
      by (simp flip: that)
    then show ?thesis
      using udp_prefix_round_trip [where c = c and key = bs] by (simp only:)
  qed
  with c show ?thesis
    unfolding placed_def by metis
qed

text \<open>
  C24: One source of truth. A sniper started on the generated configuration with the lines of the same
  \<open>.env\<close> in its environment runs with exactly what the generator wrote: no override changes anything.
\<close>

theorem override_agrees:
  assumes "load_config (gen_config raw) = Some c"
  shows "apply_env_overrides (\<lambda>k. read_env raw (str_of k)) c = c"
proof -
  let ?env = "read_env raw"
  let ?E = "\<lambda>k. ?env (str_of k)"
  note f = loaded_fields [OF assms]
  have n: "override (env_num ?E k) upd c = c" if "x = num ?env (str_of k) d" "upd x c = c" for k d upd x
    using that by (intro override_same) (simp add: num_env)
  have b: "override (env_flag ?E k) upd c = c" if "x = (get ?env (str_of k) = str_of ''1'')" "upd x c = c" for k upd x
    using that unfolding flag_env by (intro override_same) auto
  have nums:
    "override (env_num ?E ''SNIPER_BUY_LAMPORTS'') (\<lambda>v. sc_buy_lamports_update (\<lambda>_. v)) c = c"
    "override (env_num ?E ''SNIPER_MAX_DEV_BUY_LAMPORTS'') (\<lambda>v. sc_max_dev_buy_lamports_update (\<lambda>_. v)) c = c"
    "override (env_num ?E ''SNIPER_HAIRCUT_BPS'') (\<lambda>v. sc_haircut_bps_update (\<lambda>_. v)) c = c"
    "override (env_num ?E ''SNIPER_SLIPPAGE_BPS'') (\<lambda>v. sc_slippage_bps_update (\<lambda>_. v)) c = c"
    "override (env_num ?E ''SNIPER_HOLD_MS'') (\<lambda>v. sc_hold_ms_update (\<lambda>_. v)) c = c"
    "override (env_num ?E ''SNIPER_POSITION_POLL_MS'') (\<lambda>v. sc_position_poll_ms_update (\<lambda>_. v)) c = c"
    "override (env_num ?E ''SNIPER_BUY_TIMEOUT_MS'') (\<lambda>v. sc_buy_timeout_ms_update (\<lambda>_. v)) c = c"
    "override (env_num ?E ''SNIPER_NONCE_REFRESH_MS'') (\<lambda>v. sc_nonce_refresh_ms_update (\<lambda>_. v)) c = c"
    by (rule n, rule f, simp)+
  have cu: "override (env_num ?E ''SNIPER_CU_LIMIT'') (\<lambda>v. sc_cu_limit_update (\<lambda>_. ucast v)) c = c"
    by (rule n [where d = 90000], rule refl) (simp only: f(5) [symmetric], simp)
  have flags:
    "override (env_flag ?E ''SNIPER_TEST_MODE'') (\<lambda>v. sc_test_mode_update (\<lambda>_. v)) c = c"
    "override (env_flag ?E ''SNIPER_GHOST_MODE'') (\<lambda>v. sc_ghost_mode_update (\<lambda>_. v)) c = c"
    "override (env_flag ?E ''SNIPER_DRY_RUN'') (\<lambda>v. sc_dry_run_update (\<lambda>_. v)) c = c"
    by (rule b, rule f, simp)+
  have "sc_sync_mode c = (trim v \<noteq> str_of ''0'')" if "?E ''SNIPER_SYNC_MODE'' = Some v" for v
    using f(10) unfolding sync_env that by (simp only: option.case)
  then have sync: "override (?E ''SNIPER_SYNC_MODE'') (\<lambda>v. sc_sync_mode_update (\<lambda>_. trim v \<noteq> str_of ''0'')) c = c"
    by (intro override_same SniperConfig.equality) simp_all
  have "sc_test_trips c = v" if "Option.bind (?E ''SNIPER_TEST_TRIPS'') (\<lambda>v. parse_u32 (trim v)) = Some v" for v
    using f(12) unfolding trips_env [OF f(15)] that by (simp only: option.case)
  then have trips: "override (Option.bind (?E ''SNIPER_TEST_TRIPS'') (\<lambda>v. parse_u32 (trim v))) (\<lambda>v. sc_test_trips_update (\<lambda>_. v)) c = c"
    by (intro override_same SniperConfig.equality) simp_all
  show ?thesis
    unfolding apply_env_overrides_def Let_def nums cu flags sync trips ..
qed

text \<open>A file that enables two providers, one over datagrams, with a comment and an override.\<close>

definition toy_dotenv :: ustr where
  "toy_dotenv = concat (map (\<lambda>l. str_of l @ [10])
     [''# keys'', ''FALCON_KEY = 0a0b-0c'', ''FALCON_UDP_REGIONS=fra, tyo'', ''FALCON_REGIONS=off'', ''SNIPER_CU_LIMIT=120000''])"

lemma toy_lines: "lines toy_dotenv = map str_of
   [''# keys'', ''FALCON_KEY = 0a0b-0c'', ''FALCON_UDP_REGIONS=fra, tyo'', ''FALCON_REGIONS=off'', ''SNIPER_CU_LIMIT=120000'']"
  by (simp add: toy_dotenv_def lines_def strip_cr_def)

lemma toy_dotenv_read: "read_env (Some toy_dotenv) = [str_of ''FALCON_KEY'' \<mapsto> str_of ''0a0b-0c'', str_of ''FALCON_UDP_REGIONS'' \<mapsto> str_of ''fra, tyo'',
   str_of ''FALCON_REGIONS'' \<mapsto> str_of ''off'', str_of ''SNIPER_CU_LIMIT'' \<mapsto> str_of ''120000'']"
  by (simp add: read_env_def toy_lines env_line_def trim_def is_ws_def split_once_def Let_def)

lemma toy_limits: "sj_cu_limit (gen_config (Some toy_dotenv)) = 120000" "sj_test_trips (gen_config (Some toy_dotenv)) = 1"
  by (simp_all add: gen_config_def toy_dotenv_read num_def get_def trim_def is_ws_def parse_u64_def Let_def)

theorem generated_config_usable_witness:
  "\<exists>c. load_config (gen_config (Some toy_dotenv)) = Some c
     \<and> (\<forall>p \<in> set (sc_providers c). endpoints p \<noteq> [] \<and> pc_tip_accounts p \<noteq> [])"
  using generated_config_usable [of "Some toy_dotenv"] toy_limits by fastforce

theorem override_agrees_witness:
  "\<exists>c. load_config (gen_config (Some toy_dotenv)) = Some c
     \<and> apply_env_overrides (\<lambda>k. read_env (Some toy_dotenv) (str_of k)) c = c \<and> env_num (\<lambda>k. read_env (Some toy_dotenv) (str_of k)) ''SNIPER_CU_LIMIT'' = Some 120000"
proof -
  obtain c where c: "load_config (gen_config (Some toy_dotenv)) = Some c"
    using generated_config_loads [of "Some toy_dotenv"] toy_limits by auto
  have "env_num (\<lambda>k. read_env (Some toy_dotenv) (str_of k)) ''SNIPER_CU_LIMIT'' = Some 120000"
    by (simp add: toy_dotenv_read env_num_def trim_def is_ws_def parse_u64_def Let_def)
  with override_agrees [OF c] c show ?thesis
    by blast
qed

theorem generated_key_placed_witness:
  "\<exists>j c. choose_provider (read_env (Some toy_dotenv)) 2000000 6000000 provider_falcon_udp = Enabled j \<and> load_provider j = Some c
     \<and> pj_hosts j = [str_of ''fra.falcon.wtf'', str_of ''tyo.falcon.wtf'']"
proof -
  let ?env = "read_env (Some toy_dotenv)"
  have g: "get ?env (str_of ''FALCON_KEY'') = str_of ''0a0b-0c''" "get_or ?env (str_of ''FALCON_UDP_REGIONS'') [] = str_of ''fra, tyo''"
    by (simp_all add: toy_dotenv_read get_def get_or_def trim_def is_ws_def Let_def)
  obtain j where j: "choose_provider ?env 2000000 6000000 provider_falcon_udp = Enabled j" "pj_hosts j = [str_of ''fra.falcon.wtf'', str_of ''tyo.falcon.wtf'']"
    using g by (simp add: choose_provider_def provider_falcon_udp_def eq_ignore_ascii_case_def to_lower_def region_selected_def 
      trim_def is_ws_def provider_json_def)
  have "provider_falcon_udp \<in> set PROVIDERS" "spec_env_key provider_falcon_udp \<noteq> []"
    by (simp_all add: PROVIDERS_def provider_falcon_udp_def)
  from generated_key_placed [OF this(1) j(1) this(2)] j show ?thesis
    by blast
qed

end
