(* ===== verification/Start.thy ===== *)
theory Start
  imports Launch Catalogue
begin

text \<open>
  \<open>Sniper::start\<close> of \<open>sniper/src/lib.rs\<close>: from the configuration, the environment and what the chain
  answers to the shared state and the template that the hot path runs on, or the error that ends the
  process. What start establishes is what the lemmas on the hot path assume.

  Starting the background threads is left out; what they do to the shared state are the steps of the
  theories on the components. The statics of the confirmation trigger are in the shared state.
\<close>

section \<open>What start reads\<close>

text \<open>
  The libraries: the public key of a signing key, base58, the compiler of messages, address
  derivation, and floating point.
\<close>

record arm_libs =
  al_public_key :: "bytes \<Rightarrow> pubkey"
  al_parse_key :: "bytes \<Rightarrow> pubkey option"
  al_compile :: "pubkey \<Rightarrow> Instruction list \<Rightarrow> bytes \<Rightarrow> bytes option"
  al_find_pda :: find_pda
  al_with_seed :: "pubkey \<Rightarrow> bytes \<Rightarrow> pubkey \<Rightarrow> pubkey option"
  al_parse_f64 :: "ustr \<Rightarrow> f64 option"
  al_fmul :: "f64 \<Rightarrow> f64 \<Rightarrow> f64"

text \<open>
  The world: the environment, the configuration as the JSON library decodes it, the decoded keypair
  files, the text files, the data of the global account, the nonce accounts, and the wall clock as
  seconds and nanoseconds (None before 1970).
\<close>

record arm_world =
  aw_env :: env
  aw_config :: "SniperConfig option"
  aw_keypair :: "bytes \<Rightarrow> bytes option"
  aw_files :: "ustr \<Rightarrow> ustr option"
  aw_global :: "bytes option"
  aw_nonces :: "bytes option list option"
  aw_clock :: "(nat \<times> nat) option"

datatype ArmError = ConfigUnreadable | KeypairUnreadable | KeypairShort | GlobalUnreadable | NoNonceAccounts | BadNonceAccount
  | NonceLoad NonceError | NoBuybackRecipients | SpawnFailed SpawnError | NoProviders | SeedNotDerived bytes | TablesUnreadable

type_synonym 'a armed = "(ArmError + 'a) option"

text \<open>\<open>?\<close> on an option and on a result, with the rest of the function as a continuation.\<close>

definition need :: "ArmError \<Rightarrow> 'a option \<Rightarrow> ('a \<Rightarrow> 'b armed) \<Rightarrow> 'b armed" where
  "need e x k = (case x of None \<Rightarrow> Some (Inl e) | Some a \<Rightarrow> k a)"

definition need_ok :: "('e \<Rightarrow> ArmError) \<Rightarrow> 'e + 'a \<Rightarrow> ('a \<Rightarrow> 'b armed) \<Rightarrow> 'b armed" where
  "need_ok f x k = (case x of Inl e \<Rightarrow> Some (Inl (f e)) | Inr a \<Rightarrow> k a)"

definition demand :: "ArmError \<Rightarrow> bool \<Rightarrow> 'b armed \<Rightarrow> 'b armed" where
  "demand e c k = (if c then k else Some (Inl e))"

section \<open>The steps\<close>

definition SniperConfig_load :: "arm_world \<Rightarrow> SniperConfig option" where
  "SniperConfig_load w = map_option (apply_env_overrides (aw_env w)) (aw_config w)"

definition read_keypair :: "arm_world \<Rightarrow> bytes \<Rightarrow> ArmError + bytes" where
  "read_keypair w path =
     (case aw_keypair w path of
        None \<Rightarrow> Inl KeypairUnreadable
      | Some bs \<Rightarrow> if length bs < 32 then Inl KeypairShort else Inr (take 32 bs))"

text \<open>A switch that is on unless set to 0, and one that is off unless set to 1.\<close>

definition env_unless_0 :: "env \<Rightarrow> string \<Rightarrow> bool" where
  "env_unless_0 env key = (case env key of None \<Rightarrow> True | Some v \<Rightarrow> trim v \<noteq> str_of ''0'')"

definition env_if_1 :: "env \<Rightarrow> string \<Rightarrow> bool" where
  "env_if_1 env key = (case env key of None \<Rightarrow> False | Some v \<Rightarrow> trim v = str_of ''1'')"

definition tip_offsets_of :: "Template \<Rightarrow> TipOffsets" where
  "tip_offsets_of t = \<lparr>to_tip_account = of_tip_account (tp_offsets t), to_tip_lamports = of_tip_lamports (tp_offsets t),
     to_cu_price = of_cu_price (tp_offsets t)\<rparr>"

fun spawn_all :: "(bytes \<Rightarrow> pubkey option) \<Rightarrow> TipOffsets \<Rightarrow> nat \<Rightarrow> ProviderConfig list \<Rightarrow> SpawnError + ProviderHandle list" where
  "spawn_all parse_key offsets len [] = Inr []"
| "spawn_all parse_key offsets len (p # ps) =
     (case spawn_sender parse_key p 64 offsets len of
        Inl e \<Rightarrow> Inl e
      | Inr h \<Rightarrow> (case spawn_all parse_key offsets len ps of Inl e \<Rightarrow> Inl e | Inr hs \<Rightarrow> Inr (h # hs)))"

definition modes_of :: "SniperConfig \<Rightarrow> ModeConfig" where
  "modes_of cfg = \<lparr>sync_mode = sc_sync_mode cfg, test_mode = sc_test_mode cfg, test_trips = sc_test_trips cfg,
     ghost_mode = sc_ghost_mode cfg, hold_ms = sc_hold_ms cfg, poll_ms = sc_position_poll_ms cfg,
     buy_timeout_ms = sc_buy_timeout_ms cfg\<rparr>"

definition seed_start :: "(nat \<times> nat) option \<Rightarrow> u32" where
  "seed_start clock = (case clock of None \<Rightarrow> 0 | Some (secs, nanos) \<Rightarrow> (of_nat nanos XOR of_nat secs) mod 1000000)"

definition env_path :: "env \<Rightarrow> string \<Rightarrow> string \<Rightarrow> ustr" where
  "env_path env key d = (case env key of None \<Rightarrow> str_of d | Some v \<Rightarrow> v)"

text \<open>The tables of the confirmation trigger; a rug table that cannot be read is no error.\<close>

definition confirm_start :: "arm_libs \<Rightarrow> arm_world \<Rightarrow> ArmError + Params option \<times> tables" where
  "confirm_start L w =
     (let env = aw_env w; key = al_parse_key L \<circ> utf8 in
      if confirm_enabled env then
        let (nd, tb) = load_devs_from_file key (aw_files w (env_path env ''SNIPER_DEV_HISTORY'' ''dev_history.txt'')) no_tables;
            (nw, tb) = load_watch_from_file key (aw_files w (env_path env ''SNIPER_WATCH_WALLETS'' ''watch_wallets.tsv'')) tb
        in if nd = None \<or> nw = None then Inl TablesUnreadable
           else Inr (Some (Params_from_env (al_parse_f64 L) (al_fmul L) env),
             snd (load_rug_from_file key (al_parse_f64 L) (al_fmul L)
               (aw_files w (env_path env ''SNIPER_RUG_CREATORS'' ''rug_creators.tsv'')) tb))
      else Inr (None, no_tables))"

definition static_tip :: "ProviderConfig list \<Rightarrow> u64" where
  "static_tip providers =
     (case map pc_tip_lamports (filter pc_enabled providers) of [] \<Rightarrow> 2000000 | t # ts \<Rightarrow> fold max ts t)"

definition no_metrics :: SniperMetrics where
  "no_metrics = \<lparr>mt_creates_seen = 0, mt_creates_whitelisted = 0, mt_duplicates = 0, mt_skipped_dev_buy = 0,
     mt_skipped_no_nonce = 0, mt_fired = 0, mt_jobs_queued = 0, mt_confirm_pending = 0, mt_confirm_not_fresh = 0,
     mt_confirm_elite_ahead = 0, mt_confirm_curve_capped = 0, mt_skipped_no_seller = 0, mt_confirm_mayhem_skipped = 0,
     mt_confirm_rug_skipped = 0, mt_confirm_min_dev_buy_skipped = 0, mt_confirm_not_botlauncher_skipped = 0\<rparr>"

text \<open>The shared state, from what the steps before it have established.\<close>

definition shared_start :: "arm_libs \<Rightarrow> arm_world \<Rightarrow> SniperConfig \<Rightarrow> GlobalConfig \<Rightarrow> pubkey \<Rightarrow> NoncePool \<Rightarrow>
    ProviderHandle list \<Rightarrow> SeedTable \<Rightarrow> Params option \<times> tables \<Rightarrow> Shared" where
  "shared_start L w cfg g buyer nonces providers seeds confirm =
     (let env = aw_env w in
      \<lparr>sh_whitelist = \<lparr>wl_set = {}, wl_disabled = sc_whitelist_disabled cfg\<rparr>, sh_nonces = nonces,
       sh_fee_recipients = FeeRecipientCache_new g, sh_curve = gc_curve g, sh_metrics = no_metrics, sh_providers = providers,
       sh_buy_lamports = sc_buy_lamports cfg, sh_max_dev_buy_lamports = sc_max_dev_buy_lamports cfg,
       sh_haircut_bps = sc_haircut_bps cfg, sh_slippage_bps = sc_slippage_bps cfg, sh_buyer = buyer,
       sh_gate = gate_start (modes_of cfg), sh_ghost_mode = sc_ghost_mode cfg, sh_seller_listening = False,
       sh_require_seller = env_unless_0 env ''SNIPER_REQUIRE_SELLER'', sh_skip_mayhem = env_unless_0 env ''SNIPER_SKIP_MAYHEM'',
       sh_max_rug = env_f64 (al_parse_f64 L) env ''SNIPER_MAX_RUG'' (Fin (1 / 2)),
       sh_min_dev_buy_lamports = f64_to_u64 (al_fmul L (env_f64 (al_parse_f64 L) env ''SNIPER_MIN_DEV_BUY_SOL'' (Fin 0)) LAMPORTS_PER_SOL),
       sh_require_botlauncher = env_if_1 env ''SNIPER_REQUIRE_BOTLAUNCHER'', sh_skip_botlauncher = env_unless_0 env ''SNIPER_SKIP_BOTLAUNCHER'',
       sh_fire_on_create = env_if_1 env ''SNIPER_FIRE_ON_CREATE'', sh_buy_exact_sol_in = env_unless_0 env ''SNIPER_BUY_EXACT_SOL_IN'',
       sh_seed_table = seeds, sh_confirm = fst confirm,
       sh_tip = TipParams_from_env (al_parse_f64 L) (al_fmul L) env (static_tip (sc_providers cfg)),
       sh_tables = snd confirm, sh_tip_floor = None\<rparr>)"

text \<open>None is a panic: of the template builder, or of an index while the nonces are loaded.\<close>

definition Sniper_start :: "arm_libs \<Rightarrow> arm_world \<Rightarrow> (Shared \<times> Template) armed" where
  "Sniper_start L w =
     need ConfigUnreadable (SniperConfig_load w) (\<lambda>cfg.
     need_ok id (read_keypair w (sc_keypair_path cfg)) (\<lambda>secret.
     let buyer = al_public_key L secret in
     need_ok (\<lambda>_. GlobalUnreadable) (case aw_global w of None \<Rightarrow> Inl 0 | Some raw \<Rightarrow> parse_global raw) (\<lambda>g.
     demand NoNonceAccounts (sc_nonce_accounts cfg \<noteq> [])
     (need BadNonceAccount (those (map (al_parse_key L) (sc_nonce_accounts cfg))) (\<lambda>keys.
     Option.bind (load_once buyer (aw_nonces w) (NoncePool_new keys)) (\<lambda>(err, nonces).
     need_ok NonceLoad (case err of Some e \<Rightarrow> Inl e | None \<Rightarrow> Inr ()) (\<lambda>_.
     need NoBuybackRecipients (get_at (buyback_fee_recipients g) 0) (\<lambda>buyback_recipient.
     Option.bind (build_template (al_compile L)
         \<lparr>sa_fee_recipient = gc_fee_recipient g, sa_buyback_fee_recipient = buyback_recipient, sa_user = buyer,
          sa_user_volume_accumulator = user_volume_accumulator (al_find_pda L) buyer\<rparr>
         (sc_cu_limit cfg) (env_unless_0 (aw_env w) ''SNIPER_BUY_EXACT_SOL_IN'')) (\<lambda>t.
     need_ok SpawnFailed (spawn_all (al_parse_key L) (tip_offsets_of t) (length (tp_tx t)) (filter pc_enabled (sc_providers cfg))) (\<lambda>providers.
     demand NoProviders (providers \<noteq> [])
     (need_ok SeedNotDerived (SeedTable_build (al_with_seed L) buyer (seed_start (aw_clock w)) SEED_TABLE_LEN) (\<lambda>seeds.
     need_ok id (confirm_start L w) (\<lambda>confirm.
       Some (Inr (shared_start L w cfg g buyer nonces providers seeds confirm, t)))))))))))))))"

lemma need_Inr [simp]: "need e x k = Some (Inr r) \<longleftrightarrow> (\<exists>a. x = Some a \<and> k a = Some (Inr r))"
  by (simp add: need_def split: option.split)

lemma need_ok_Inr [simp]: "need_ok f x k = Some (Inr r) \<longleftrightarrow> (\<exists>a. x = Inr a \<and> k a = Some (Inr r))"
  by (simp add: need_ok_def split: sum.split)

lemma demand_Inr [simp]: "demand e c k = Some (Inr r) \<longleftrightarrow> c \<and> k = Some (Inr r)"
  by (simp add: demand_def)

section \<open>What the libraries give\<close>


section \<open>The shared state\<close>


lemma load_once_fresh:
  assumes "load_once buyer fetched (NoncePool_new keys) = Some (None, np)"
  obtains accs vs where "fetched = Some accs" "load_loop buyer 0 accs (replicate (length keys) zero_key) = Some (Inr vs)"
    "np = (NoncePool_new keys)\<lparr>np_values := vs\<rparr>"
proof (cases fetched)
  case (Some accs)
  have "np_accounts (NoncePool_new keys) = keys"
    by (simp add: NoncePool_new_def)
  with Some obtain r where "load_loop buyer 0 accs (replicate (length keys) zero_key) = Some r"
    "(case r of Inl e \<Rightarrow> Some (Some e, NoncePool_new keys) | Inr vs \<Rightarrow> Some (None, (NoncePool_new keys)\<lparr>np_values := vs\<rparr>)) = Some (None, np)"
    using assms by (auto simp: load_once_def)
  with Some that show thesis
    by (cases r) auto
qed (use assms in \<open>simp add: load_once_def\<close>)




lemma built_seeds_length: "SeedTable_build with_seed buyer start len = Inr st \<Longrightarrow> length (st_seeds st) = len"
  using seed_table_loop_ok unfolding SeedTable_build_def by fastforce

lemma spawn_all_ok:
  "spawn_all parse_key offsets len ps = Inr hs \<Longrightarrow>
     list_all2 (\<lambda>p h. spawn_sender parse_key p 64 offsets len = Inr h) ps hs"
  by (induction ps arbitrary: hs) (auto split: sum.splits)

lemma spawned_handle:
  assumes "spawn_sender parse_key p depth offsets len = Inr h"
  shows "ph_tip_accounts h \<noteq> [] \<and> ph_tip_lamports h = pc_tip_lamports p \<and> ph_cu_price h = pc_cu_price p
    \<and> ph_endpoint_count h = length (endpoints p) \<and> endpoints p \<noteq> [] \<and> ph_queue h = [] \<and> ph_open h"
proof -
  have ne: "parse_keys parse_key ss = Inr [] \<longleftrightarrow> ss = []" for ss
    by (cases ss) (auto split: option.splits sum.splits)
  obtain ks where "tip_account_bytes parse_key p = Inr ks" "ph_tip_accounts h = ks"
    using assms by (auto simp: spawn_sender_def Let_def split: sum.splits if_splits)
  then have "ph_tip_accounts h \<noteq> []"
    by (auto simp: tip_account_bytes_def Let_def ne split: if_splits)
  with assms show ?thesis
    by (auto simp: spawn_sender_def Let_def split: sum.splits if_splits)
qed

section \<open>An accepted start\<close>

lemma Sniper_start_Inr:
  assumes "Sniper_start L w = Some (Inr (sh, t))"
  obtains cfg secret g keys np recipient hs seeds confirm where
    "SniperConfig_load w = Some cfg" "read_keypair w (sc_keypair_path cfg) = Inr secret"
    "\<exists>raw. aw_global w = Some raw \<and> parse_global raw = Inr g"
    "sc_nonce_accounts cfg \<noteq> []" "those (map (al_parse_key L) (sc_nonce_accounts cfg)) = Some keys"
    "load_once (al_public_key L secret) (aw_nonces w) (NoncePool_new keys) = Some (None, np)"
    "recipient \<in> set (buyback_fee_recipients g)"
    "build_template (al_compile L)
       \<lparr>sa_fee_recipient = gc_fee_recipient g, sa_buyback_fee_recipient = recipient, sa_user = al_public_key L secret,
        sa_user_volume_accumulator = user_volume_accumulator (al_find_pda L) (al_public_key L secret)\<rparr>
       (sc_cu_limit cfg) (env_unless_0 (aw_env w) ''SNIPER_BUY_EXACT_SOL_IN'') = Some t"
    "spawn_all (al_parse_key L) (tip_offsets_of t) (length (tp_tx t)) (filter pc_enabled (sc_providers cfg)) = Inr hs" "hs \<noteq> []"
    "SeedTable_build (al_with_seed L) (al_public_key L secret) (seed_start (aw_clock w)) SEED_TABLE_LEN = Inr seeds"
    "confirm_start L w = Inr confirm"
    "sh = shared_start L w cfg g (al_public_key L secret) np hs seeds confirm"
  using assms unfolding Sniper_start_def Let_def
  by (auto simp: id_def split: option.splits prod.splits intro!: that)


lemma list_all2_member: "list_all2 P xs ys \<Longrightarrow> y \<in> set ys \<Longrightarrow> \<exists>x \<in> set xs. P x y"
  by (induction rule: list_all2_induct) auto


lemma those_length: "those xs = Some ys \<Longrightarrow> length ys = length xs"
  by (induction xs arbitrary: ys) (auto split: option.splits)


lemma fold_max_ge: "(x :: u64) \<in> set (t # ts) \<Longrightarrow> x \<le> fold max ts t"
  unfolding Max.set_eq_fold [symmetric] by (intro Max_ge) simp_all

lemma static_tip_ge: "p \<in> set providers \<Longrightarrow> pc_enabled p \<Longrightarrow> pc_tip_lamports p \<le> static_tip providers"
proof -
  assume p: "p \<in> set providers" "pc_enabled p"
  let ?ts = "map pc_tip_lamports (filter pc_enabled providers)"
  have mem: "pc_tip_lamports p \<in> set ?ts"
    using p by auto
  then obtain t ts where ts: "?ts = t # ts"
    by (cases ?ts) auto
  show ?thesis
    using fold_max_ge [of "pc_tip_lamports p" t ts] mem unfolding static_tip_def ts by simp
qed

lemma confirm_start_tables:
  assumes "confirm_start L w = Inr confirm" "fst confirm \<noteq> None"
  shows "DEVS (snd confirm) \<noteq> None" "WATCH (snd confirm) \<noteq> None"
  using assms by (auto simp: confirm_start_def Let_def load_devs_from_file_def load_watch_from_file_def load_rug_from_file_def
      split: if_splits option.splits prod.splits)



lemma fan_out_crossed:
  assumes "sh_tip (hs_shared h) = Some tp" "max_lamports tp < min_lamports tp"
  shows "fan_out_launch info slot plan competition token_account seed nonce_account h = None"
proof -
  have "dynamic_tip tp fl x n = None" for fl x n
    using assms(2) by (simp add: dynamic_tip_def clamp_word_def Let_def)
  then show ?thesis
    by (cases "fill_body (hs_tx_ring h) (hs_ring_cursor h) (tp_tx (hs_template h)) (hs_bodies h)")
      (simp_all add: fan_out_launch_def assms(1) split_def)
qed

section \<open>A start on concrete inputs\<close>

definition toy_provider :: ProviderConfig where
  "toy_provider = \<lparr>pc_name = [], pc_hosts = [[104]], pc_host = [], pc_port = 80, pc_path = [47], pc_tls = False, pc_body = JsonRpc,
     pc_headers = [], pc_tip_accounts = [[84]], pc_tip_account = [], pc_tip_lamports = 1000000, pc_cu_price = 500,
     pc_health_path = [], pc_udp_prefix = [], pc_enabled = True\<rparr>"

definition toy_libs :: arm_libs where
  "toy_libs = \<lparr>al_public_key = (\<lambda>_. toy_user), al_parse_key = (\<lambda>s. Some (take 32 (s @ zero_key))), al_compile = toy_compile,
     al_find_pda = he_find_pda ex_env, al_with_seed = (\<lambda>b s p. Some (take 32 (s @ p @ zero_key))),
     al_parse_f64 = (\<lambda>_. Some (Fin 5)), al_fmul = exact_fmul\<rparr>"

text \<open>With \<open>crossed\<close> the environment asks for a tip of at least 5 SOL, above the default maximum of 0.05.\<close>

definition toy_arms :: "bool \<Rightarrow> arm_world" where
  "toy_arms crossed = \<lparr>aw_env = (if crossed then [''SNIPER_DYNAMIC_TIP'' \<mapsto> str_of ''1'', ''SNIPER_TIP_MIN_SOL'' \<mapsto> str_of ''5''] else Map.empty),
     aw_config = Some ((SniperConfig_default [107] [114] [toy_provider])\<lparr>sc_nonce_accounts := [[78]]\<rparr>),
     aw_keypair = (\<lambda>_. Some (replicate 64 9)), aw_files = (\<lambda>_. None), aw_global = Some (replicate 997 1),
     aw_nonces = Some [Some ([0, 0, 0, 0, 1, 0, 0, 0] @ toy_user @ replicate 40 7)], aw_clock = Some (1700000000, 5)\<rparr>"


lemma toy_global: "\<exists>g. parse_global (replicate 997 1) = Inr g \<and> wf_key (gc_fee_recipient g) \<and> length (buyback_fee_recipients g) = 8
    \<and> (\<forall>k \<in> set (buyback_fee_recipients g). wf_key k) \<and> as_u128 (10000 + total_fee_bps (gc_curve g)) \<noteq> 0"
proof -
  have "slice (replicate 997 1) a b = replicate (b - a) (1 :: byte)" if "b \<le> 997" for a b
    using that by (simp add: slice_def min_def)
  moreover have "u64_to_le 0x0101010101010101 = replicate 8 1"
    by (simp add: u64_to_le_def nat_le_def byte_of_def) (simp add: numeral_eq_Suc)
  then have "u64_from_le (replicate 8 1) = 0x0101010101010101"
    by (metis u64_le_round_trip)
  ultimately show ?thesis
    by (simp add: parse_global_iff key_slots_def wf_key_def total_fee_bps_def as_u128_def)
qed

lemma seed_table_total: "\<exists>st. SeedTable_build (\<lambda>b s p. Some (f b s p)) buyer start len = Inr st"
proof -
  have "\<exists>st'. seed_table_loop (\<lambda>b s p. Some (f b s p)) buyer start is st = Inr st'" for "is" st
    by (induction "is" arbitrary: st) (simp_all add: Let_def)
  then show ?thesis
    by (simp add: SeedTable_build_def)
qed

lemma template_offsets_inside:
  assumes "build_template compile sa cu ex = Some t" "compiles_v0 compile" "wf_key (sa_user sa)" "wf_key (sa_user_volume_accumulator sa)"
  shows "of_tip_account (tp_offsets t) + 32 \<le> length (tp_tx t)" "of_tip_lamports (tp_offsets t) + 8 \<le> length (tp_tx t)"
    "of_cu_price (tp_offsets t) + 8 \<le> length (tp_tx t)"
  using build_template_fields(1) [OF assms] by (simp_all add: Template.fields_def single_fields_def D_TIP_ACCOUNT_def dummy_key_def)

lemma toy_config: "SniperConfig_load (toy_arms crossed) = Some ((SniperConfig_default [107] [114] [toy_provider])\<lparr>sc_nonce_accounts := [[78]]\<rparr>)"
proof -
  have "apply_env_overrides env c = c"
    if "\<forall>k \<in> {''SNIPER_BUY_LAMPORTS'', ''SNIPER_MAX_DEV_BUY_LAMPORTS'', ''SNIPER_HAIRCUT_BPS'', ''SNIPER_SLIPPAGE_BPS'', ''SNIPER_CU_LIMIT'',
      ''SNIPER_HOLD_MS'', ''SNIPER_POSITION_POLL_MS'', ''SNIPER_BUY_TIMEOUT_MS'', ''SNIPER_NONCE_REFRESH_MS'', ''SNIPER_SYNC_MODE'',
      ''SNIPER_TEST_MODE'', ''SNIPER_TEST_TRIPS'', ''SNIPER_GHOST_MODE'', ''SNIPER_DRY_RUN''}. env k = None" for env c
    using that by (simp only: ball_simps apply_env_overrides_def override_def env_num_def env_flag_def Let_def option.case option.map Option.bind.simps)
  then show ?thesis
    by (cases crossed) (simp_all add: SniperConfig_load_def toy_arms_def)
qed

lemma toy_nonces: "\<exists>np. load_once toy_user (aw_nonces (toy_arms crossed)) (NoncePool_new [k]) = Some (None, np)"
proof -
  let ?raw = "[0, 0, 0, 0, 1, 0, 0, 0] @ toy_user @ replicate 40 7 :: bytes"
  have len: "length toy_user = 32"
    by (simp add: toy_user_def)
  have "slice ?raw 4 8 = [1, 0, 0, 0]" "slice ?raw 8 40 = toy_user"
    by (simp_all add: slice_def len)
  moreover have "u32_from_le [1, 0, 0, 0] = 1"
    by code_simp
  ultimately have "\<exists>st. parse_nonce ?raw = Some st \<and> authority st = toy_user"
    by (simp add: parse_nonce_def len)
  then show ?thesis
    by (auto simp: toy_arms_def load_once_def NoncePool_new_def)
qed

lemma toy_wf: "wf_key (sa_user (toy_statics fee recipient))" "wf_key (sa_user_volume_accumulator (toy_statics fee recipient))"
  by (simp_all add: toy_statics_def wf_key_def toy_user_def toy_volume_def)

lemma toy_start:
  "\<exists>cfg g np hs seeds t. Sniper_start toy_libs (toy_arms crossed)
      = Some (Inr (shared_start toy_libs (toy_arms crossed) cfg g toy_user np hs seeds (None, no_tables), t))
    \<and> as_u128 (10000 + total_fee_bps (gc_curve g)) \<noteq> 0 \<and> \<not> sc_ghost_mode cfg"
proof -
  define cfg where "cfg = (SniperConfig_default [107] [114] [toy_provider])\<lparr>sc_nonce_accounts := [[78]]\<rparr>"
  have cfg: "sc_keypair_path cfg = [107]" "sc_nonce_accounts cfg = [[78]]" "sc_cu_limit cfg = 90000" "sc_providers cfg = [toy_provider]"
    "\<not> sc_ghost_mode cfg"
    by (simp_all add: cfg_def SniperConfig_default_def)
  define w where "w = toy_arms crossed"
  define k0 where "k0 = take 32 ([78] @ zero_key)"
  have L: "al_public_key toy_libs s = toy_user" "al_compile toy_libs = toy_compile" "al_find_pda toy_libs = he_find_pda ex_env"
    "al_parse_key toy_libs s = Some (take 32 (s @ zero_key))" "al_with_seed toy_libs = (\<lambda>b s p. Some (take 32 (s @ p @ zero_key)))" for s
    by (simp_all add: toy_libs_def)
  have load: "SniperConfig_load w = Some cfg"
    unfolding w_def cfg_def by (rule toy_config)
  have keypair: "read_keypair w (sc_keypair_path cfg) = Inr (replicate 32 9)"
    by (simp add: read_keypair_def w_def toy_arms_def)
  obtain g where g: "parse_global (replicate 997 1) = Inr g" "wf_key (gc_fee_recipient g)" "length (buyback_fee_recipients g) = 8"
    "\<forall>k \<in> set (buyback_fee_recipients g). wf_key k" "as_u128 (10000 + total_fee_bps (gc_curve g)) \<noteq> 0"
    using toy_global by blast
  have global: "(case aw_global w of None \<Rightarrow> Inl 0 | Some raw \<Rightarrow> parse_global raw) = Inr g"
    using g(1) by (simp add: w_def toy_arms_def)
  define recipient where "recipient = buyback_fee_recipients g ! 0"
  have recipient: "get_at (buyback_fee_recipients g) 0 = Some recipient" "wf_key recipient"
    using g(3,4) by (simp_all add: get_at_def recipient_def)
  have keys: "those (map (al_parse_key toy_libs) (sc_nonce_accounts cfg)) = Some [k0]"
    by (simp add: cfg(2) L(4) k0_def del: take_append)
  obtain np where np: "load_once toy_user (aw_nonces w) (NoncePool_new [k0]) = Some (None, np)"
    unfolding w_def using toy_nonces by blast
  have exact: "env_unless_0 (aw_env w) ''SNIPER_BUY_EXACT_SOL_IN''"
    by (simp add: env_unless_0_def w_def toy_arms_def)
  have "user_volume_accumulator (he_find_pda ex_env) toy_user = toy_volume"
    by (simp add: user_volume_accumulator_def ex_env_def SEED_USER_VOLUME_ACCUMULATOR_def ascii_def toy_volume_def)
  then have statics: "\<lparr>sa_fee_recipient = gc_fee_recipient g, sa_buyback_fee_recipient = recipient, sa_user = toy_user,
      sa_user_volume_accumulator = user_volume_accumulator (al_find_pda toy_libs) toy_user\<rparr> = toy_statics (gc_fee_recipient g) recipient"
    by (simp add: toy_statics_def L(3))
  obtain t where t: "build_template toy_compile (toy_statics (gc_fee_recipient g) recipient) 90000 True = Some t"
    using toy_build g(2) recipient(2) by blast
  have template: "build_template (al_compile toy_libs) (toy_statics (gc_fee_recipient g) recipient) (sc_cu_limit cfg)
      (env_unless_0 (aw_env w) ''SNIPER_BUY_EXACT_SOL_IN'') = Some t"
    using t exact by (simp add: L(2) cfg(3))
  obtain hs where hs: "spawn_all (al_parse_key toy_libs) (tip_offsets_of t) (length (tp_tx t)) (filter pc_enabled (sc_providers cfg)) = Inr hs" "hs \<noteq> []"
    using template_offsets_inside [OF t toy_compile_v0] toy_wf
    by (simp add: spawn_sender_def tip_account_bytes_def toy_provider_def endpoints_def tip_offsets_of_def cfg(4) L(4))
  obtain seeds where seeds: "SeedTable_build (al_with_seed toy_libs) toy_user (seed_start (aw_clock w)) SEED_TABLE_LEN = Inr seeds"
    unfolding L(5) using seed_table_total [of "\<lambda>b s p. take 32 (s @ p @ zero_key)"] by blast
  have confirm: "confirm_start toy_libs w = Inr (None, no_tables)"
    by (simp add: confirm_start_def confirm_enabled_def env_u64_def w_def toy_arms_def Let_def)
  have "sc_nonce_accounts cfg \<noteq> []"
    by (simp add: cfg(2))
  then have "Sniper_start toy_libs w = Some (Inr (shared_start toy_libs w cfg g toy_user np hs seeds (None, no_tables), t))"
    unfolding Sniper_start_def Let_def need_def need_ok_def demand_def
    by (simp only: load keypair global keys np recipient(1) statics template hs seeds confirm L(1) Option.bind.simps option.case sum.case
        if_True prod.case id_def not_False_eq_True)
  with g(5) cfg(5) show ?thesis
    unfolding w_def by blast
qed

section \<open>Properties\<close>


text \<open>
  A half-configured sniper is not started. An accepted start has one handle for every enabled
  provider, in order and at least one, each with a tip account and an endpoint; a nonce account, and
  every nonce account the chain answered for is a durable nonce under the authority of the buying wallet whose
  value is in the pool; the full table of token accounts; in confirm mode both of its tables; a free and
  armed gate; no listening seller; and a fallback tip no smaller than the tip of any provider.
\<close>

theorem armed_with_everything:
  assumes "Sniper_start L w = Some (Inr (sh, t))"
  shows "(\<exists>cfg. SniperConfig_load w = Some cfg
      \<and> list_all2 (\<lambda>p h. ph_tip_lamports h = pc_tip_lamports p \<and> ph_endpoint_count h = length (endpoints p)
          \<and> ph_endpoint_count h \<noteq> 0 \<and> ph_tip_accounts h \<noteq> []) (filter pc_enabled (sc_providers cfg)) (sh_providers sh)
      \<and> length (np_accounts (sh_nonces sh)) = length (sc_nonce_accounts cfg))
    \<and> sh_providers sh \<noteq> [] \<and> np_accounts (sh_nonces sh) \<noteq> []
    \<and> (\<exists>accounts. aw_nonces w = Some accounts
        \<and> (\<forall>i < length accounts. \<exists>raw st. accounts ! i = Some raw \<and> parse_nonce raw = Some st \<and> authority st = sh_buyer sh
            \<and> np_values (sh_nonces sh) ! i = nonce_state_value st))
    \<and> length (st_seeds (sh_seed_table sh)) = SEED_TABLE_LEN
    \<and> (sh_confirm sh \<noteq> None \<longrightarrow> DEVS (sh_tables sh) \<noteq> None \<and> WATCH (sh_tables sh) \<noteq> None)
    \<and> \<not> busy (sh_gate sh) \<and> armed (sh_gate sh) \<and> \<not> sh_seller_listening sh
    \<and> (\<forall>tp. sh_tip sh = Some tp \<longrightarrow> (\<forall>h \<in> set (sh_providers sh). ph_tip_lamports h \<le> fallback_lamports tp))"
proof -
  obtain cfg secret g keys np recipient hs seeds confirm where s: "SniperConfig_load w = Some cfg"
    "sc_nonce_accounts cfg \<noteq> []" "those (map (al_parse_key L) (sc_nonce_accounts cfg)) = Some keys"
    "load_once (al_public_key L secret) (aw_nonces w) (NoncePool_new keys) = Some (None, np)"
    "spawn_all (al_parse_key L) (tip_offsets_of t) (length (tp_tx t)) (filter pc_enabled (sc_providers cfg)) = Inr hs" "hs \<noteq> []"
    "SeedTable_build (al_with_seed L) (al_public_key L secret) (seed_start (aw_clock w)) SEED_TABLE_LEN = Inr seeds"
    "confirm_start L w = Inr confirm"
    and sh: "sh = shared_start L w cfg g (al_public_key L secret) np hs seeds confirm"
    by (rule Sniper_start_Inr [OF assms]) blast
  have f: "sh_providers sh = hs" "sh_nonces sh = np" "sh_buyer sh = al_public_key L secret" "sh_seed_table sh = seeds"
    "sh_confirm sh = fst confirm" "sh_tables sh = snd confirm" "sh_gate sh = gate_start (modes_of cfg)" "\<not> sh_seller_listening sh"
    "sh_tip sh = TipParams_from_env (al_parse_f64 L) (al_fmul L) (aw_env w) (static_tip (sc_providers cfg))"
    by (simp_all add: sh shared_start_def Let_def)
  have keys: "length keys = length (sc_nonce_accounts cfg)"
    using those_length [OF s(3)] by simp
  obtain accs vs where vs: "aw_nonces w = Some accs" "load_loop (al_public_key L secret) 0 accs (replicate (length keys) zero_key) = Some (Inr vs)"
    "np = (NoncePool_new keys)\<lparr>np_values := vs\<rparr>"
    by (rule load_once_fresh [OF s(4)])
  have np: "np_accounts np = keys" "np_values np = vs"
    by (simp_all add: vs(3) NoncePool_new_def)
  note handles = spawn_all_ok [OF s(5)]
  have handle: "ph_tip_lamports h = pc_tip_lamports p \<and> ph_endpoint_count h = length (endpoints p) \<and> ph_endpoint_count h \<noteq> 0 \<and> ph_tip_accounts h \<noteq> []"
    if "spawn_sender (al_parse_key L) p 64 (tip_offsets_of t) (length (tp_tx t)) = Inr h" for p h
    using spawned_handle [OF that] by simp
  show ?thesis
  proof (intro conjI exI [of _ cfg] exI [of _ accs])
    show "list_all2 (\<lambda>p h. ph_tip_lamports h = pc_tip_lamports p \<and> ph_endpoint_count h = length (endpoints p)
        \<and> ph_endpoint_count h \<noteq> 0 \<and> ph_tip_accounts h \<noteq> []) (filter pc_enabled (sc_providers cfg)) (sh_providers sh)"
      unfolding f(1) using handles handle by (rule list_all2_mono)
    show "\<forall>i < length accs. \<exists>raw st. accs ! i = Some raw \<and> parse_nonce raw = Some st \<and> authority st = sh_buyer sh
        \<and> np_values (sh_nonces sh) ! i = nonce_state_value st"
      using load_loop_ok [OF vs(2)] by (auto simp: f np)
    show "np_accounts (sh_nonces sh) \<noteq> []"
      using keys s(2) by (auto simp: f np)
    show "sh_confirm sh \<noteq> None \<longrightarrow> DEVS (sh_tables sh) \<noteq> None \<and> WATCH (sh_tables sh) \<noteq> None"
      using confirm_start_tables [OF s(8)] by (simp add: f)
    show "\<forall>tp. sh_tip sh = Some tp \<longrightarrow> (\<forall>h \<in> set (sh_providers sh). ph_tip_lamports h \<le> fallback_lamports tp)"
    proof (intro allI impI ballI)
      fix tp h
      assume tp: "sh_tip sh = Some tp" and "h \<in> set (sh_providers sh)"
      then obtain p where "p \<in> set (filter pc_enabled (sc_providers cfg))"
          "spawn_sender (al_parse_key L) p 64 (tip_offsets_of t) (length (tp_tx t)) = Inr h"
        using list_all2_member [OF handles] unfolding f(1) by blast
      then have "p \<in> set (sc_providers cfg)" "pc_enabled p" "ph_tip_lamports h = pc_tip_lamports p"
        using handle by simp_all
      moreover have "fallback_lamports tp = static_tip (sc_providers cfg)"
        using tp unfolding f(9) by (auto simp: TipParams_from_env_def split: if_splits)
      ultimately show "ph_tip_lamports h \<le> fallback_lamports tp"
        using static_tip_ge by simp
    qed
  qed (simp_all add: f s(1,6) np keys vs(1) built_seeds_length [OF s(7)] gate_start_def)
qed

text \<open>
  Start accepts tip bounds that no launch survives. When the smallest configured tip is above the
  largest, the first live launch that wins its claim ends the detect thread.
\<close>

theorem crossed_tip_bounds_panic:
  assumes "Sniper_start L w = Some (Inr (sh, t))" "sh_tip sh = Some tp" "max_lamports tp < min_lamports tp"
    and "\<not> sh_ghost_mode sh" "fst (claim (he_others env (sh_gate sh)))"
  shows "commit_launch env info slot plan competition token_account seed nonce_account (into_hot today sh t) = None"
proof -
  obtain g where "claim (he_others env (sh_gate sh)) = (True, g)"
    using assms(5) by (cases "claim (he_others env (sh_gate sh))") auto
  moreover have "hs_shared (into_hot today sh t) = sh"
    by (simp add: into_hot_def)
  moreover from this have "fan_out_launch info slot plan competition token_account seed nonce_account (set_gate g (into_hot today sh t)) = None"
    using assms(2) by (intro fan_out_crossed [OF _ assms(3)]) (simp add: set_gate_def)
  ultimately show ?thesis
    using assms(4) by (simp add: commit_launch_def set_gate_def Let_def)
qed



theorem armed_with_everything_witness:
  "\<exists>sh t. Sniper_start toy_libs (toy_arms False) = Some (Inr (sh, t)) \<and> length (st_seeds (sh_seed_table sh)) = SEED_TABLE_LEN"
proof -
  obtain sh t where start: "Sniper_start toy_libs (toy_arms False) = Some (Inr (sh, t))"
    using toy_start [of False] by blast
  with armed_with_everything [OF start] show ?thesis
    by blast
qed

lemma toy_round: "rat_round (7036874417766400390625 / 140737488355328) = 50000000"
  unfolding rat_round_def using floor_unique [of 50000000 "7036874417766400390625 / 140737488355328 + 1 / 2 :: rat"] by simp

theorem crossed_tip_bounds_panic_witness:
  "\<exists>sh t. Sniper_start toy_libs (toy_arms True) = Some (Inr (sh, t)) \<and> (\<exists>tp. sh_tip sh = Some tp)
     \<and> commit_launch ex_env ex_info 7 ex_plan 0 (ex_key 85) (replicate 6 48) (ex_key 80) (into_hot 20000 sh t) = None"
proof -
  obtain cfg g np hs seeds t where start: "Sniper_start toy_libs (toy_arms True)
      = Some (Inr (shared_start toy_libs (toy_arms True) cfg g toy_user np hs seeds (None, no_tables), t))"
    and live: "\<not> sc_ghost_mode cfg"
    using toy_start [of True] by blast
  let ?sh = "shared_start toy_libs (toy_arms True) cfg g toy_user np hs seeds (None, no_tables)"
  have tip: "\<exists>tp. sh_tip ?sh = Some tp \<and> max_lamports tp < min_lamports tp"
    by (simp add: shared_start_def Let_def TipParams_from_env_def env_u64_def env_f64_def toy_arms_def sol_env_def toy_libs_def trim_def
        is_ws_def parse_u64_def LAMPORTS_PER_SOL_def toy_round)
  then obtain tp where tp: "sh_tip ?sh = Some tp" "max_lamports tp < min_lamports tp"
    by blast
  have "fst (claim (he_others ex_env (sh_gate ?sh)))" "\<not> sh_ghost_mode ?sh"
    using live by (simp_all add: claim_def shared_start_def Let_def ex_env_def gate_start_def)
  with crossed_tip_bounds_panic [OF start tp] start tp(1) show ?thesis
    by blast
qed

end
