(* ===== verification/Selection.thy ===== *)
theory Selection
  imports RustText Bytes
begin

text \<open>
  \<open>rust-native/src/selection.rs\<close>: the creator whitelist with its per-creator limits, the rolling
  results that switch a creator off, the constant-product curve on 64/128-bit words, the registry
  file and the base58 decoder.

  Single-precision arithmetic on the recorded results is a parameter (\<open>fadd\<close>, \<open>fdiv\<close>), as is the
  parsing of a float; the published table is an argument of the operations that read it.
\<close>

section \<open>Curve constants and the hasher\<close>

definition NODE_VIRT_SOL_0 :: u64 where "NODE_VIRT_SOL_0 = 30000000000"

definition VIRT_TOKENS_0 :: u64 where "VIRT_TOKENS_0 = 1073000000000000"

definition FEE_BPS :: u64 where "FEE_BPS = 125"

text \<open>The hasher keeps the first eight bytes of the last write.\<close>

definition hasher_write :: "bytes \<Rightarrow> u64 \<Rightarrow> u64" where
  "hasher_write bytes h =
     (let n = min (length bytes) 8 in u64_from_le (take n bytes @ drop n (replicate 8 0)))"

definition hasher_finish :: "u64 \<Rightarrow> u64" where
  "hasher_finish h = h"

section \<open>Creators\<close>

record CreatorCfg =
  floor_lamports :: u64
  cc_budget_lamports :: u64
  cc_cu_price :: u64
  min_depth_lamports :: u64
  max_depth_lamports :: u64

definition WINDOW :: nat where "WINDOW = 32"

definition WARMUP :: u8 where "WARMUP = 10"

record CreatorState =
  cs_ring :: "f64 list"
  cs_len :: u8
  cs_next :: u8

definition CreatorState_default :: CreatorState where
  "CreatorState_default = \<lparr>cs_ring = replicate WINDOW (Fin 0), cs_len = 0, cs_next = 0\<rparr>"

text \<open>\<open>None\<close> is the panic of an index outside the ring.\<close>

definition state_record :: "f64 \<Rightarrow> CreatorState \<Rightarrow> CreatorState option" where
  "state_record pnl_sol s =
     (if unat (cs_next s) < length (cs_ring s) then
        let s = s\<lparr>cs_ring := (cs_ring s)[unat (cs_next s) := pnl_sol], cs_next := (cs_next s + 1) mod of_nat WINDOW\<rparr>
        in Some (if unat (cs_len s) < WINDOW then s\<lparr>cs_len := cs_len s + 1\<rparr> else s)
      else None)"

definition mean :: "(f64 \<Rightarrow> f64 \<Rightarrow> f64) \<Rightarrow> (f64 \<Rightarrow> nat \<Rightarrow> f64) \<Rightarrow> CreatorState \<Rightarrow> f64" where
  "mean fadd fdiv s =
     (if cs_len s = 0 then Fin 0
      else let n = unat (cs_len s) in fdiv (fold (\<lambda>x acc. fadd acc x) (take n (cs_ring s)) (Fin 0)) n)"

definition enabled :: "(f64 \<Rightarrow> f64 \<Rightarrow> f64) \<Rightarrow> (f64 \<Rightarrow> nat \<Rightarrow> f64) \<Rightarrow> CreatorState \<Rightarrow> bool" where
  "enabled fadd fdiv s \<longleftrightarrow> cs_len s < WARMUP \<or> f64_less (Fin 0) (mean fadd fdiv s)"

record Plan =
  pn_token_amount :: u64
  pn_max_sol_cost :: u64
  pn_cu_price :: u64

datatype Reject = NotWhitelisted | DevBuyBelowFloor | TooShallow | TooDeep | Unfillable | CreatorCold

type_synonym Registry = "pubkey \<rightharpoonup> CreatorCfg"
type_synonym Results = "pubkey \<rightharpoonup> CreatorState"

definition results_get :: "pubkey \<Rightarrow> Results \<Rightarrow> CreatorState" where
  "results_get creator r = (case r creator of None \<Rightarrow> CreatorState_default | Some s \<Rightarrow> s)"

definition results_record :: "pubkey \<Rightarrow> f64 \<Rightarrow> Results \<Rightarrow> Results option" where
  "results_record creator pnl_sol r = do {
     s \<leftarrow> state_record pnl_sol (results_get creator r);
     Some (r(creator \<mapsto> s))
   }"

definition results_cold :: "(f64 \<Rightarrow> f64 \<Rightarrow> f64) \<Rightarrow> (f64 \<Rightarrow> nat \<Rightarrow> f64) \<Rightarrow> Results \<Rightarrow> nat" where
  "results_cold fadd fdiv r = card {c \<in> dom r. \<not> enabled fadd fdiv (the (r c))}"

section \<open>The curve\<close>

definition NODE_CURVE_K :: u128 where
  "NODE_CURVE_K = as_u128 NODE_VIRT_SOL_0 * as_u128 VIRT_TOKENS_0"

text \<open>\<open>None\<close> is the panic of a division by zero.\<close>

definition tokens_at :: "u64 \<Rightarrow> u128 option" where
  "tokens_at quote_lamports = checked_div NODE_CURVE_K (as_u128 quote_lamports)"

definition u64_try_from :: "u128 \<Rightarrow> u64 option" where
  "u64_try_from x = (if unat x < 2 ^ 64 then Some (as_u64 x) else None)"

text \<open>The outer option of both functions is a panic, the inner one the value returned.\<close>

definition tokens_for_budget :: "u64 \<Rightarrow> u64 \<Rightarrow> u64 option option" where
  "tokens_for_budget quote_lamports budget_lamports =
     (if quote_lamports = 0 \<or> budget_lamports = 0 then Some None
      else let into_curve = as_u128 budget_lamports * 10000 div (10000 + as_u128 FEE_BPS)
        in if into_curve = 0 then Some None
           else do {
             tokens_before \<leftarrow> tokens_at quote_lamports;
             tokens_after \<leftarrow> checked_div NODE_CURVE_K (as_u128 quote_lamports + into_curve);
             Some (u64_try_from (sat_sub tokens_before tokens_after))
           })"

definition cost_for_tokens :: "u64 \<Rightarrow> u64 \<Rightarrow> u64 option option" where
  "cost_for_tokens quote_lamports token_amount = do {
     tokens_before \<leftarrow> tokens_at quote_lamports;
     Some (case checked_sub tokens_before (as_u128 token_amount) of
         None \<Rightarrow> None
       | Some tokens_after \<Rightarrow>
           if tokens_after = 0 then None
           else u64_try_from (sat_sub (NODE_CURVE_K div tokens_after) (as_u128 quote_lamports)))
   }"

text \<open>The decision. \<open>Inl\<close> is the reason a launch is passed on.\<close>

definition decide ::
  "(f64 \<Rightarrow> f64 \<Rightarrow> f64) \<Rightarrow> (f64 \<Rightarrow> nat \<Rightarrow> f64) \<Rightarrow> Registry \<Rightarrow> pubkey \<Rightarrow> u64 \<Rightarrow> u64 \<Rightarrow> CreatorState \<Rightarrow>
     (Reject + Plan) option" where
  "decide fadd fdiv reg creator dev_buy_lamports curve_quote_lamports state =
     (case reg creator of
        None \<Rightarrow> Some (Inl NotWhitelisted)
      | Some cfg \<Rightarrow>
          if \<not> enabled fadd fdiv state then Some (Inl CreatorCold)
          else if dev_buy_lamports < floor_lamports cfg then Some (Inl DevBuyBelowFloor)
          else
            let depth = sat_sub curve_quote_lamports NODE_VIRT_SOL_0
            in if depth < min_depth_lamports cfg then Some (Inl TooShallow)
               else if depth > max_depth_lamports cfg then Some (Inl TooDeep)
               else do {
                 t \<leftarrow> tokens_for_budget curve_quote_lamports (cc_budget_lamports cfg);
                 Some (case t of
                     None \<Rightarrow> Inl Unfillable
                   | Some token_amount \<Rightarrow>
                       if token_amount = 0 then Inl Unfillable
                       else Inr \<lparr>pn_token_amount = token_amount, pn_max_sol_cost = cc_budget_lamports cfg,
                              pn_cu_price = cc_cu_price cfg\<rparr>)
               })"

definition decide_now ::
  "(f64 \<Rightarrow> f64 \<Rightarrow> f64) \<Rightarrow> (f64 \<Rightarrow> nat \<Rightarrow> f64) \<Rightarrow> Registry option \<Rightarrow> pubkey \<Rightarrow> u64 \<Rightarrow> u64 \<Rightarrow> CreatorState \<Rightarrow>
     (Reject + Plan) option" where
  "decide_now fadd fdiv current creator dev_buy_lamports curve_quote_lamports state =
     (case current of
        Some reg \<Rightarrow> decide fadd fdiv reg creator dev_buy_lamports curve_quote_lamports state
      | None \<Rightarrow> Some (Inl NotWhitelisted))"

section \<open>Base58\<close>

definition ALPHABET :: "nat list" where
  "ALPHABET = str_of ''123456789ABCDEFGHJKLMNPQRSTUVWXYZabcdefghijkmnopqrstuvwxyz''"

definition base58_map :: "nat list" where
  "base58_map = fold (\<lambda>(i, c) m. m[c := i]) (zip [0 ..< length ALPHABET] ALPHABET) (replicate 128 255)"

text \<open>One character: the key, last byte first, times 58 plus a digit, and the carry out of it.\<close>

fun carry_loop :: "bytes \<Rightarrow> u32 \<Rightarrow> bytes \<times> u32" where
  "carry_loop [] carry = ([], carry)"
| "carry_loop (b # bs) carry =
     (let cur = ucast b * 58 + carry; (bs, carry) = carry_loop bs (drop_bit 8 cur)
      in (ucast (take_bit 8 cur) # bs, carry))"

fun decode_loop :: "ustr \<Rightarrow> bytes \<Rightarrow> bytes option" where
  "decode_loop [] out = Some out"
| "decode_loop (c # cs) out =
     (if c \<ge> 128 then None
      else let val = base58_map ! c
        in if val = 255 then None
           else let (out_rev, carry) = carry_loop (rev out) (of_nat val)
             in if carry \<noteq> 0 then None else decode_loop cs (rev out_rev))"

text \<open>The code walks the UTF-8 bytes; a character outside ASCII has bytes of 128 and more in either view.\<close>

definition bs58_decode_32 :: "ustr \<Rightarrow> pubkey option" where
  "bs58_decode_32 s = decode_loop s (replicate 32 0)"

section \<open>The registry file\<close>

definition sol_to_lamports :: "(ustr \<Rightarrow> f64 option) \<Rightarrow> (f64 \<Rightarrow> f64 \<Rightarrow> f64) \<Rightarrow> ustr \<Rightarrow> u64 option" where
  "sol_to_lamports parse_f64 fmul s =
     (case parse_f64 (trim s) of
        Some (Fin v) \<Rightarrow> if v < 0 then None else Some (f64_to_u64 (f64_round (fmul (Fin v) LAMPORTS_PER_SOL)))
      | _ \<Rightarrow> None)"

definition registry_entry ::
  "(ustr \<Rightarrow> f64 option) \<Rightarrow> (f64 \<Rightarrow> f64 \<Rightarrow> f64) \<Rightarrow> ustr \<Rightarrow> (pubkey \<times> CreatorCfg) option option" where
  "registry_entry parse_f64 fmul line =
     (let l = trim (before_hash line)
      in if l = [] then None
         else Some (case split_whitespace l of
             key # fl # budget # cu # rest \<Rightarrow> do {
               let min_depth = (case rest of [] \<Rightarrow> str_of ''5'' | d # _ \<Rightarrow> d);
               let max_depth = (case rest of _ # d # _ \<Rightarrow> d | _ \<Rightarrow> str_of ''18'');
               k \<leftarrow> bs58_decode_32 key;
               f \<leftarrow> sol_to_lamports parse_f64 fmul fl;
               b \<leftarrow> sol_to_lamports parse_f64 fmul budget;
               c \<leftarrow> parse_u64 (trim cu);
               mn \<leftarrow> sol_to_lamports parse_f64 fmul min_depth;
               mx \<leftarrow> sol_to_lamports parse_f64 fmul max_depth;
               Some (k, \<lparr>floor_lamports = f, cc_budget_lamports = b, cc_cu_price = c,
                 min_depth_lamports = mn, max_depth_lamports = mx\<rparr>)
             }
           | _ \<Rightarrow> None))"

definition parse_registry ::
  "(ustr \<Rightarrow> f64 option) \<Rightarrow> (f64 \<Rightarrow> f64 \<Rightarrow> f64) \<Rightarrow> ustr \<Rightarrow> Registry \<times> nat" where
  "parse_registry parse_f64 fmul text =
     fold (load_line map_put (registry_entry parse_f64 fmul)) (lines text) (Map.empty, 0)"

text \<open>Loading publishes the table; a file that cannot be read leaves the published one.\<close>

definition load_from_file ::
  "(ustr \<Rightarrow> f64 option) \<Rightarrow> (f64 \<Rightarrow> f64 \<Rightarrow> f64) \<Rightarrow> ustr option \<Rightarrow> Registry option \<Rightarrow>
     (nat \<times> nat) option \<times> Registry option" where
  "load_from_file parse_f64 fmul file current =
     (case file of
        None \<Rightarrow> (None, current)
      | Some text \<Rightarrow>
          let (reg, skipped) = parse_registry parse_f64 fmul text
          in (Some (card (dom reg), skipped), Some reg))"

section \<open>Lemmas on base58\<close>

definition digit58 :: "nat \<Rightarrow> nat" where
  "digit58 c = length (takeWhile (\<lambda>x. x \<noteq> c) ALPHABET)"

definition base58_value :: "ustr \<Rightarrow> nat" where
  "base58_value s = foldl (\<lambda>a c. 58 * a + digit58 c) 0 s"

lemma fold_updates:
  "distinct as \<Longrightarrow> \<forall>x \<in> set as. x < length m \<Longrightarrow> c < length m \<Longrightarrow>
     fold (\<lambda>(i, c) m. m[c := i]) (zip [k ..< k + length as] as) m ! c =
       (if c \<in> set as then k + length (takeWhile (\<lambda>x. x \<noteq> c) as) else m ! c)"
proof (induction as arbitrary: k m)
  case (Cons a as)
  have "zip [k ..< k + length (a # as)] (a # as) = (k, a) # zip [Suc k ..< Suc k + length as] as"
    by (simp add: upt_conv_Cons del: upt_Suc)
  with Cons.IH [of "m[a := k]" "Suc k"] Cons.prems show ?case
    by (auto simp del: upt_Suc)
qed simp

lemma alphabet: "distinct ALPHABET" "list_all (\<lambda>c. c < 128) ALPHABET" "length ALPHABET = 58"
  by code_simp+

lemma alphabet_ascii: "c \<in> set ALPHABET \<Longrightarrow> c < 128"
  using alphabet(2) by (simp add: list_all_iff)

lemma base58_map_nth: "c < 128 \<Longrightarrow> base58_map ! c = (if c \<in> set ALPHABET then digit58 c else 255)"
  using fold_updates [of ALPHABET "replicate 128 255" c 0] alphabet(1) alphabet_ascii
  by (simp add: base58_map_def digit58_def)

lemma takeWhile_other_less: "c \<in> set xs \<Longrightarrow> length (takeWhile (\<lambda>x. x \<noteq> c) xs) < length xs"
  by (induction xs) auto

lemma digit58_less: "c \<in> set ALPHABET \<Longrightarrow> digit58 c < 58"
  using takeWhile_other_less [of c ALPHABET] alphabet(3) by (simp add: digit58_def)

text \<open>One character multiplies by 58 and adds; the carry is what no longer fits.\<close>

lemma carry_loop_value:
  "unat carry < 58 \<Longrightarrow> carry_loop bs carry = (bs', carry') \<Longrightarrow>
     le_nat bs' + 256 ^ length bs * unat carry' = 58 * le_nat bs + unat carry
     \<and> length bs' = length bs \<and> unat carry' < 58"
proof (induction bs arbitrary: carry bs' carry')
  case (Cons b bs)
  define cur where "cur = (ucast b * 58 + carry :: u32)"
  have b: "unat b < 256"
    by (rule unat_byte_less)
  have ub: "unat (ucast b :: u32) = unat b"
    using order.strict_trans [OF b, of "2 ^ 32"] by (simp add: unsigned_ucast_eq take_bit_nat_eq_self_iff)
  have "unat b * 58 + unat carry < 4294967296"
    using b Cons.prems(1) by linarith
  then have cur: "unat cur = unat b * 58 + unat carry"
    by (simp add: cur_def unat_word_ariths ub mod_simps)
  have low: "unat (ucast (take_bit 8 cur) :: byte) = unat cur mod 256"
    by (simp add: unsigned_ucast_eq take_bit_eq_mod unat_mod)
  have high: "unat (drop_bit 8 cur) = unat cur div 256"
    by (simp add: drop_bit_eq_div unat_div)
  obtain bs1 where rest: "carry_loop bs (drop_bit 8 cur) = (bs1, carry')" and bs': "bs' = ucast (take_bit 8 cur) # bs1"
    using Cons.prems(2) by (auto simp: Let_def cur_def split: prod.splits)
  have "unat (drop_bit 8 cur) < 58"
    unfolding high cur using b Cons.prems(1) by linarith
  note IH = Cons.IH [OF this rest]
  have "le_nat bs' + 256 ^ length (b # bs) * unat carry' = unat cur mod 256 + 256 * (le_nat bs1 + 256 ^ length bs * unat carry')"
    using bs' low by (simp add: algebra_simps)
  also have "\<dots> = unat cur mod 256 + 256 * (58 * le_nat bs + unat cur div 256)"
    using IH high by simp
  also have "\<dots> = 58 * le_nat (b # bs) + unat carry"
    using cur mod_mult_div_eq [of "unat cur" 256] by (simp add: algebra_simps)
  finally show ?case
    using IH bs' by simp
qed simp

lemma base58_value_ge: "a \<le> foldl (\<lambda>a c. 58 * a + digit58 c) a s"
  by (induction s arbitrary: a) (simp, metis (mono_tags, lifting) add_leD1 foldl_Cons le_add1 le_trans mult.commute mult_le_mono2 nat_mult_1_right one_le_numeral)

lemma decode_loop_value:
  assumes "length out = 32"
  shows "decode_loop s out =
    (let v = foldl (\<lambda>a c. 58 * a + digit58 c) (le_nat (rev out)) s
     in if set s \<subseteq> set ALPHABET \<and> v < 256 ^ 32 then Some (rev (nat_le 32 v)) else None)"
  using assms
proof (induction s arbitrary: out)
  case Nil
  then show ?case
    using le_nat_less [of "rev out"] nat_le_le_nat [of "rev out"] by simp
next
  case (Cons c s)
  show ?case
  proof (cases "c \<in> set ALPHABET")
    case False
    then have "decode_loop (c # s) out = None"
      by (simp add: base58_map_nth)
    with False show ?thesis
      by (auto simp: Let_def)
  next
    case True
    let ?n = "le_nat (rev out)" and ?d = "digit58 c"
    have d: "?d < 58" "c < 128" "base58_map ! c = ?d"
      using True digit58_less alphabet_ascii base58_map_nth by simp_all
    obtain out1 carry where cl: "carry_loop (rev out) (of_nat ?d) = (out1, carry)"
      by fastforce
    have "unat (of_nat ?d :: u32) = ?d"
      using d(1) by (simp add: unat_of_nat)
    then have v: "le_nat out1 + 256 ^ 32 * unat carry = 58 * ?n + ?d" and len: "length out1 = 32"
      using carry_loop_value [OF _ cl] d(1) Cons.prems by simp_all
    have lt: "le_nat out1 < 256 ^ 32"
      using le_nat_less [of out1] len by simp
    have step: "decode_loop (c # s) out = (if carry \<noteq> 0 then None else decode_loop s (rev out1))"
      using d cl by (simp add: Let_def)
    show ?thesis
    proof (cases "carry = 0")
      case True
      with v have "le_nat out1 = 58 * ?n + ?d"
        by simp
      then show ?thesis
        using True step Cons.IH [of "rev out1"] len \<open>c \<in> set ALPHABET\<close> by simp
    next
      case False
      then have "1 \<le> unat carry"
        by (simp add: unat_gt_0 Suc_le_eq)
      then have "256 ^ 32 * 1 \<le> 58 * ?n + ?d"
        using v mult_le_mono2 [of 1 "unat carry" "256 ^ 32"] by linarith
      then have "\<not> foldl (\<lambda>a c. 58 * a + digit58 c) (58 * ?n + ?d) s < 256 ^ 32"
        using base58_value_ge [of "58 * ?n + ?d" s] by linarith
      with False step show ?thesis
        by (simp add: Let_def)
    qed
  qed
qed

section \<open>Lemmas on the curve\<close>

definition K :: nat where "K = 32190000000000000000000000"

lemma unat_CURVE_K: "unat NODE_CURVE_K = K"
  by (simp add: NODE_CURVE_K_def NODE_VIRT_SOL_0_def VIRT_TOKENS_0_def unat_u128_mult K_def)

lemma unat_tokens_at: "q \<noteq> 0 \<Longrightarrow> \<exists>t. tokens_at q = Some t \<and> unat t = K div unat q"
  by (simp add: tokens_at_def unat_div unat_CURVE_K) (metis unat_as_u128 unsigned_0 unsigned_eq_0_iff)

text \<open>A budget net of the pool fee.\<close>

definition net :: "nat \<Rightarrow> nat" where
  "net b = b * 10000 div 10125"

lemma net_le: "net b \<le> b"
  by (simp add: net_def)

lemma net_with_fee: "net b + net b * 125 div 10000 \<le> b"
proof -
  have "net b * 10125 \<le> b * 10000"
    unfolding net_def by (rule div_times_less_eq_dividend)
  then show ?thesis
    by linarith
qed

definition into_curve :: "u64 \<Rightarrow> u128" where
  "into_curve b = as_u128 b * 10000 div (10000 + as_u128 FEE_BPS)"

lemma unat_into_curve: "unat (into_curve b) = net (unat b)"
proof -
  have "unat (as_u128 b * 10000) = unat b * 10000"
    using unat_u128_mult [of b 10000] by (simp add: as_u128_def)
  then show ?thesis
    by (simp add: into_curve_def FEE_BPS_def as_u128_def unat_div net_def)
qed

lemma unat_after: "unat (as_u128 q + into_curve b) = unat q + net (unat b)"
proof -
  have "unat q + unat (into_curve b) < 36893488147419103232"
    using net_le [of "unat b"] unat_u64_less [of q] unat_u64_less [of b] unfolding unat_into_curve by linarith
  then show ?thesis
    by (simp add: unat_word_ariths unat_into_curve)
qed

text \<open>What a budget buys, on natural numbers.\<close>

lemma tokens_for_budget_eq:
  "tokens_for_budget q b =
     (let c = net (unat b); t = K div unat q - K div (unat q + c)
      in Some (if q = 0 \<or> c = 0 \<or> 2 ^ 64 \<le> t then None else Some (of_nat t)))"
proof (cases "q = 0 \<or> b = 0 \<or> into_curve b = 0")
  case True
  then have "q = 0 \<or> net (unat b) = 0"
    using unat_into_curve [of b] by (auto simp: net_def)
  with True show ?thesis
    using net_le [of "unat b"] by (auto simp: tokens_for_budget_def Let_def into_curve_def [symmetric])
next
  case False
  then have c: "net (unat b) \<noteq> 0"
    using unat_into_curve [of b] by (metis unsigned_eq_0_iff)
  obtain t0 where t0: "tokens_at q = Some t0" "unat t0 = K div unat q"
    using unat_tokens_at False by blast
  have ne: "as_u128 q + into_curve b \<noteq> 0"
    using unat_after [of q b] c by (metis add_is_0 unsigned_0)
  let ?t1 = "NODE_CURVE_K div (as_u128 q + into_curve b)"
  have t1: "unat ?t1 = K div (unat q + net (unat b))"
    by (simp add: unat_div unat_CURVE_K unat_after)
  have "tokens_for_budget q b = Some (u64_try_from (sat_sub t0 ?t1))"
    using False t0(1) ne by (simp add: tokens_for_budget_def Let_def into_curve_def [symmetric] checked_div_def)
  moreover have u: "unat (sat_sub t0 ?t1) = K div unat q - K div (unat q + net (unat b))"
    by (simp add: unat_sat_sub t0(2) t1)
  moreover have "as_u64 (sat_sub t0 ?t1) = of_nat (K div unat q - K div (unat q + net (unat b)))"
    unfolding u [symmetric] as_u64_def by simp
  ultimately show ?thesis
    using False c by (simp add: u64_try_from_def Let_def not_le)
qed

lemma div_div_cancel_small: "0 < x \<Longrightarrow> x * x \<le> n \<Longrightarrow> n div (n div x) = (x :: nat)"
proof -
  assume x: "0 < x" "x * x \<le> n"
  let ?d = "n div x"
  have "x * x div x \<le> ?d"
    using x by (intro div_le_mono)
  then have xd: "x \<le> ?d"
    using x by simp
  have "?d * x \<le> n" "n < ?d * x + x"
    using x(1) by (simp_all add: dividend_less_div_times add.commute)
  then show ?thesis
    using xd by (intro div_nat_eqI) (simp_all add: mult.commute)
qed

lemma cost_of_budget:
  assumes "tokens_for_budget q b = Some (Some t)" "(unat q + unat b) * (unat q + unat b) \<le> K"
  shows "\<exists>c. cost_for_tokens q t = Some (Some c) \<and> unat c = net (unat b)"
proof -
  define c where "c = net (unat b)"
  let ?x = "unat q + c"
  have q: "q \<noteq> 0" "c \<noteq> 0" and t: "unat t = K div unat q - K div ?x"
    using assms(1) by (auto simp: tokens_for_budget_eq Let_def c_def unat_of_nat split: if_splits)
  have cb: "c \<le> unat b"
    by (simp add: c_def net_le)
  obtain t0 where t0: "tokens_at q = Some t0" "unat t0 = K div unat q"
    using unat_tokens_at [OF q(1)] by blast
  have mono: "K div ?x \<le> K div unat q"
    using q(1) by (intro div_le_mono2) (simp_all add: unat_gt_0)
  have x: "0 < ?x" "?x * ?x \<le> K"
    using q(2) mult_le_mono [of ?x "unat q + unat b" ?x "unat q + unat b"] cb assms(2) by simp_all
  have "unat (as_u128 t) \<le> unat t0"
    using t t0(2) mono by simp
  then have sub: "checked_sub t0 (as_u128 t) = Some (t0 - as_u128 t)" "unat (t0 - as_u128 t) = K div ?x"
    using t t0(2) mono by (simp_all add: checked_sub_def word_less_nat_alt unat_sub_if')
  have "?x \<le> K div ?x"
    using x div_le_mono [of "?x * ?x" K ?x] by simp
  then have ne: "t0 - as_u128 t \<noteq> 0"
    using sub(2) x(1) by (metis le_zero_eq not_gr_zero unsigned_0)
  let ?r = "sat_sub (NODE_CURVE_K div (t0 - as_u128 t)) (as_u128 q)"
  have r: "unat ?r = c"
    using div_div_cancel_small [OF x] by (simp add: unat_sat_sub unat_div unat_CURVE_K sub(2))
  moreover have "c < 18446744073709551616"
    using cb unat_u64_less [of b] by (rule le_less_trans)
  ultimately have "u64_try_from ?r = Some (as_u64 ?r)" "unat (as_u64 ?r) = c"
    by (simp_all add: u64_try_from_def unat_as_u64_small)
  then show ?thesis
    using t0(1) sub(1) ne by (simp add: cost_for_tokens_def c_def)
qed

lemma decide_defined: "decide fadd fdiv reg creator dev quote st \<noteq> None"
  by (auto simp: decide_def tokens_for_budget_eq Let_def split: option.split)

section \<open>Lemmas on the rolling results\<close>

fun record_all :: "f64 list \<Rightarrow> CreatorState \<Rightarrow> CreatorState option" where
  "record_all [] s = Some s"
| "record_all (x # xs) s = do { s \<leftarrow> state_record x s; record_all xs s }"

lemma record_all_snoc: "record_all (xs @ [x]) s = Option.bind (record_all xs s) (state_record x)"
proof (induction xs arbitrary: s)
  case Nil
  then show ?case
    by (cases "state_record x s") simp_all
next
  case (Cons y xs)
  then show ?case
    by (cases "state_record y s") simp_all
qed

definition window :: "f64 list \<Rightarrow> CreatorState \<Rightarrow> bool" where
  "window xs s \<longleftrightarrow> length (cs_ring s) = 32 \<and> unat (cs_len s) = min (length xs) 32 \<and> unat (cs_next s) = length xs mod 32
     \<and> (\<forall>i < length xs. length xs \<le> i + 32 \<longrightarrow> cs_ring s ! (i mod 32) = xs ! i)"

lemma mod_window: "i < n \<Longrightarrow> n \<le> i + 31 \<Longrightarrow> i mod 32 \<noteq> (n :: nat) mod 32"
proof
  assume i: "i < n" "n \<le> i + 31" "i mod 32 = n mod 32"
  then have "32 dvd n - i"
    by (metis less_imp_le mod_eq_dvd_iff_nat)
  then show False
    using i(1,2) dvd_imp_le [of 32 "n - i"] by linarith
qed

lemma state_record_window:
  assumes "window xs s"
  shows "\<exists>s'. state_record x s = Some s' \<and> window (xs @ [x]) s'"
proof -
  let ?n = "length xs"
  have s: "length (cs_ring s) = 32" "unat (cs_len s) = min ?n 32" "unat (cs_next s) = ?n mod 32"
    and r: "\<And>i. i < ?n \<Longrightarrow> ?n \<le> i + 32 \<Longrightarrow> cs_ring s ! (i mod 32) = xs ! i"
    using assms by (auto simp: window_def)
  have "?n mod 32 < 32"
    by simp
  then have next': "unat ((cs_next s + 1) mod 32) = Suc ?n mod 32"
    using s(3) by (simp add: unat_mod unat_word_ariths mod_Suc)
  have len': "unat (cs_len s + 1) = Suc ?n" if "?n < 32"
    using that s(2) by (simp add: unat_word_ariths)
  have ring: "(cs_ring s)[?n mod 32 := x] ! (i mod 32) = (xs @ [x]) ! i" if "i < Suc ?n" "Suc ?n \<le> i + 32" for i
    using that r [of i] mod_window [of i ?n] s(1) by (cases "i = ?n") (simp_all add: nth_append)
  show ?thesis
    using s next' len' ring by (cases "?n < 32") (simp_all add: state_record_def Let_def window_def WINDOW_def)
qed

lemma record_all_window: "\<exists>s. record_all xs CreatorState_default = Some s \<and> window xs s"
proof (induction xs rule: rev_induct)
  case Nil
  then show ?case
    by (simp add: window_def CreatorState_default_def WINDOW_def)
next
  case (snoc x xs)
  then show ?case
    using state_record_window by (fastforce simp: record_all_snoc)
qed

section \<open>Properties\<close>

text \<open>
  C32: The decision never panics, and a plan it returns is sound: the creator is configured and
  enabled, put in its floor, and the depth lies in the band of the creator; the cost cap is the
  configured budget and some tokens are asked for. On every curve of up to some five thousand SOL
  the tokens asked for cost, by the inverse pricing function and with the pool fee on top, at most
  that cap.
\<close>

theorem decide_sound:
  "\<exists>res. decide fadd fdiv reg creator dev quote st = Some res \<and> (\<forall>plan. res = Inr plan \<longrightarrow>
     (\<exists>cfg. reg creator = Some cfg \<and> enabled fadd fdiv st \<and> floor_lamports cfg \<le> dev
        \<and> min_depth_lamports cfg \<le> sat_sub quote NODE_VIRT_SOL_0 \<and> sat_sub quote NODE_VIRT_SOL_0 \<le> max_depth_lamports cfg
        \<and> pn_max_sol_cost plan = cc_budget_lamports cfg \<and> pn_cu_price plan = cc_cu_price cfg \<and> 0 < pn_token_amount plan)
     \<and> ((unat quote + unat (pn_max_sol_cost plan)) * (unat quote + unat (pn_max_sol_cost plan)) \<le> K \<longrightarrow>
        (\<exists>c. cost_for_tokens quote (pn_token_amount plan) = Some (Some c)
           \<and> unat c + unat c * unat FEE_BPS div 10000 \<le> unat (pn_max_sol_cost plan))))"
proof -
  obtain res where res: "decide fadd fdiv reg creator dev quote st = Some res"
    using decide_defined by blast
  have "(\<exists>cfg. reg creator = Some cfg \<and> enabled fadd fdiv st \<and> floor_lamports cfg \<le> dev
        \<and> min_depth_lamports cfg \<le> sat_sub quote NODE_VIRT_SOL_0 \<and> sat_sub quote NODE_VIRT_SOL_0 \<le> max_depth_lamports cfg
        \<and> pn_max_sol_cost plan = cc_budget_lamports cfg \<and> pn_cu_price plan = cc_cu_price cfg \<and> 0 < pn_token_amount plan)
      \<and> tokens_for_budget quote (pn_max_sol_cost plan) = Some (Some (pn_token_amount plan))"
    if plan: "res = Inr plan" for plan
  proof -
    obtain cfg where "reg creator = Some cfg"
      using res plan by (cases "reg creator") (simp_all add: decide_def)
    moreover obtain t where "tokens_for_budget quote (cc_budget_lamports cfg) = Some t"
      by (simp add: tokens_for_budget_eq Let_def)
    ultimately show ?thesis
      using res plan by (cases t) (auto simp: decide_def Let_def not_less word_gt_0 split: if_split_asm)
  qed
  moreover have "\<exists>c. cost_for_tokens quote t = Some (Some c) \<and> unat c + unat c * unat FEE_BPS div 10000 \<le> unat b"
    if "tokens_for_budget quote b = Some (Some t)" "(unat quote + unat b) * (unat quote + unat b) \<le> K" for t b
    using cost_of_budget [OF that] net_with_fee [of "unat b"] by (auto simp: net_def FEE_BPS_def)
  ultimately show ?thesis
    using res by blast
qed

definition sample_creator :: pubkey where
  "sample_creator = replicate 32 7"

definition sample_registry :: Registry where
  "sample_registry = [sample_creator \<mapsto> \<lparr>floor_lamports = 5000000000, cc_budget_lamports = 500000000,
     cc_cu_price = 10000000, min_depth_lamports = 5000000000, max_depth_lamports = 18000000000\<rparr>]"

theorem decide_sound_witness:
  "\<exists>plan c. decide (\<lambda>_ _. NaN) (\<lambda>_ _. NaN) sample_registry sample_creator 5000000000 38000000000 CreatorState_default = Some (Inr plan)
     \<and> pn_max_sol_cost plan = 500000000 \<and> cost_for_tokens 38000000000 (pn_token_amount plan) = Some (Some c)
     \<and> unat c + unat c * 125 div 10000 \<le> 500000000"
proof -
  have "enabled (\<lambda>_ _. NaN) (\<lambda>_ _. NaN) CreatorState_default"
    by (simp add: enabled_def CreatorState_default_def WARMUP_def)
  moreover have "tokens_for_budget 38000000000 500000000 = Some (Some 10867290087513)"
    by (simp add: tokens_for_budget_eq Let_def net_def K_def)
  ultimately obtain plan where plan: "decide (\<lambda>_ _. NaN) (\<lambda>_ _. NaN) sample_registry sample_creator 5000000000 38000000000
      CreatorState_default = Some (Inr plan)" "pn_max_sol_cost plan = 500000000"
    by (simp add: decide_def sample_registry_def NODE_VIRT_SOL_0_def sat_sub_def)
  then show ?thesis
    using decide_sound [of "\<lambda>_ _. NaN" "\<lambda>_ _. NaN" sample_registry sample_creator 5000000000 38000000000 CreatorState_default]
    by (auto simp: K_def FEE_BPS_def)
qed

text \<open>
  C38: The base58 decoder computes the value of the text: it succeeds exactly when every character is in
  the alphabet and the base-58 number is below two to the 256, and returns that number in thirty-two
  big-endian bytes. It does not ask for thirty-two bytes of input: any short word of the
  alphabet, the empty one included, is a key.
\<close>

theorem bs58_decode_value:
  "bs58_decode_32 s =
     (if set s \<subseteq> set ALPHABET \<and> base58_value s < 2 ^ 256 then Some (rev (nat_le 32 (base58_value s))) else None)"
proof -
  have "le_nat (rev (replicate 32 0)) = 0"
    by code_simp
  moreover have "(256 :: nat) ^ 32 = 2 ^ 256"
    by simp
  ultimately show ?thesis
    unfolding bs58_decode_32_def base58_value_def
    using decode_loop_value [of "replicate 32 0" s] by (simp only: Let_def length_replicate)
qed

text \<open>
  The rolling results of a creator are exactly the last thirty-two: whatever is recorded, no
  record panics, the counter is the number of results up to thirty-two, and each of the last
  thirty-two results sits in the ring at its position modulo thirty-two, so a newer one replaces
  the oldest.
\<close>

theorem creator_window:
  "\<exists>s. record_all xs CreatorState_default = Some s
     \<and> length (cs_ring s) = WINDOW \<and> unat (cs_len s) = min (length xs) WINDOW
     \<and> (\<forall>i < min (length xs) WINDOW. cs_ring s ! ((length xs - Suc i) mod WINDOW) = xs ! (length xs - Suc i))"
  using record_all_window [of xs] by (auto simp: window_def WINDOW_def)

theorem creator_window_witness:
  "\<exists>s. record_all (replicate 40 (Fin 1) @ [Fin 2]) CreatorState_default = Some s \<and> unat (cs_len s) = 32
     \<and> cs_ring s ! 8 = Fin 2"
  using creator_window [of "replicate 40 (Fin 1) @ [Fin 2]"] by (auto simp: WINDOW_def nth_append dest: spec [of _ 0])

end
