(* ===== verification/Strategy.thy ===== *)
theory Strategy
  imports Selection
begin

text \<open>
  \<open>rust-native/src/strategy.rs\<close>: the confirmation trigger of the Node build. Its tables, session
  and watch differ from those of the sniper crate (the theory Confirm): keys are decoded by the
  crate's own base58 routine, a session never forgets a deployer, a fire carries the token amount,
  and a sell drains the tracked reserve.

  The published tables are arguments; sums of lamports wrap as in a release build.
\<close>

section \<open>Parameters\<close>

record NodeParams =
  n_conf :: u32
  min_conf_lamports :: u64
  ratio_bps :: u64
  size_lo_lamports :: u64
  size_hi_lamports :: u64
  follow_lamports :: u64
  vq_cap_lamports :: u64
  cu_limit :: u32
  cu_price :: u64
  tip_lamports :: u64
  exit_legs :: "(u32 \<times> u16) list"
  exit_last_slot :: u32
  stop_x_bps :: u32
  moon_x_bps :: u32
  moon_frac_bps :: u16

definition parse_uint :: "nat \<Rightarrow> ustr \<Rightarrow> nat option" where
  "parse_uint bits s = do { n \<leftarrow> parse_u64 s; if unat n < 2 ^ bits then Some (unat n) else None }"

definition parse_leg :: "ustr \<Rightarrow> (u32 \<times> u16) option" where
  "parse_leg part = do {
     (slot, bps) \<leftarrow> split_once (of_char CHR '':'') (trim part);
     s \<leftarrow> parse_uint 32 (trim slot);
     b \<leftarrow> parse_uint 16 (trim bps);
     Some (of_nat s, of_nat b)
   }"

fun legs_loop :: "ustr list \<Rightarrow> (u32 \<times> u16) list \<Rightarrow> (u32 \<times> u16) list option" where
  "legs_loop [] out = Some out"
| "legs_loop (part # parts) out = do { leg \<leftarrow> parse_leg part; legs_loop parts (out @ [leg]) }"

definition parse_legs :: "ustr \<Rightarrow> (u32 \<times> u16) list option" where
  "parse_legs s = do {
     out \<leftarrow> legs_loop (split_char (of_char CHR '','') [] s) [];
     if out = [] then None else Some out
   }"

definition default_legs :: "(u32 \<times> u16) list" where
  "default_legs = [(1, 3000), (6, 2000), (9, 2000), (13, 1500), (18, 1500)]"

definition NodeParams_from_env ::
  "(ustr \<Rightarrow> f64 option) \<Rightarrow> (f64 \<Rightarrow> f64 \<Rightarrow> f64) \<Rightarrow> env \<Rightarrow> NodeParams" where
  "NodeParams_from_env parse_f64 fmul env =
     (let legs = (case Option.bind (env ''SNIPER_EXIT_LEGS'') parse_legs of None \<Rightarrow> default_legs | Some l \<Rightarrow> l)
      in \<lparr>n_conf = ucast (env_u64 env ''SNIPER_N_CONF'' 3),
          min_conf_lamports = sol_env parse_f64 fmul env ''SNIPER_MIN_CONF_SOL'' (Fin 4),
          ratio_bps = env_u64 env ''SNIPER_SIZE_RATIO_BPS'' 4700,
          size_lo_lamports = sol_env parse_f64 fmul env ''SNIPER_SIZE_LO_SOL'' (Fin (3 / 2)),
          size_hi_lamports = sol_env parse_f64 fmul env ''SNIPER_SIZE_HI_SOL'' (Fin (7 / 2)),
          follow_lamports = sol_env parse_f64 fmul env ''SNIPER_FOLLOW_SIZE_SOL'' (Fin 2),
          vq_cap_lamports = sol_env parse_f64 fmul env ''SNIPER_VQ_CAP_SOL'' (Fin 115),
          cu_limit = ucast (env_u64 env ''SNIPER_CU_LIMIT'' 90000),
          cu_price = env_u64 env ''SNIPER_CU_PRICE'' 6000000,
          tip_lamports = env_u64 env ''SNIPER_TIP_LAMPORTS'' 2000000,
          exit_legs = legs,
          exit_last_slot = ucast (env_u64 env ''SNIPER_EXIT_LAST_SLOT'' 24),
          stop_x_bps = ucast (env_u64 env ''SNIPER_STOP_X_BPS'' 8000),
          moon_x_bps = ucast (env_u64 env ''SNIPER_MOON_X_BPS'' 20000),
          moon_frac_bps = ucast (env_u64 env ''SNIPER_MOON_FRAC_BPS'' 500)\<rparr>)"

section \<open>Tables\<close>

datatype NodeWatchAction = FollowSymbiont | FollowWhale | Avoid

type_synonym NodeDevSet = "pubkey \<rightharpoonup> unit"
type_synonym NodeWatch = "pubkey \<rightharpoonup> NodeWatchAction"

definition node_devset_entry :: "ustr \<Rightarrow> (pubkey \<times> unit) option option" where
  "node_devset_entry line =
     (let l = trim (before_hash line)
      in if l = [] then None else Some (map_option (\<lambda>k. (k, ())) (bs58_decode_32 l)))"

definition NodeDevSet_parse :: "ustr \<Rightarrow> NodeDevSet \<times> nat" where
  "NodeDevSet_parse text = fold (load_line map_put node_devset_entry) (lines text) (Map.empty, 0)"

definition node_watch_entry :: "ustr \<Rightarrow> (pubkey \<times> NodeWatchAction) option option" where
  "node_watch_entry line =
     (let l = trim (before_hash line)
      in if l = [] then None
         else Some (case split_whitespace l of
             key # act # _ \<Rightarrow> do {
               a \<leftarrow> (if act = str_of ''follow_symbiont'' then Some FollowSymbiont
                    else if act = str_of ''follow_whale'' then Some FollowWhale
                    else if act = str_of ''avoid'' then Some Avoid
                    else None);
               k \<leftarrow> bs58_decode_32 key;
               Some (k, a)
             }
           | _ \<Rightarrow> None))"

definition NodeWatch_parse :: "ustr \<Rightarrow> NodeWatch \<times> nat" where
  "NodeWatch_parse text = fold (load_line map_put node_watch_entry) (lines text) (Map.empty, 0)"

record node_tables =
  DEVS :: "NodeDevSet option"
  WATCH :: "NodeWatch option"

definition node_load_devs_from_file :: "ustr option \<Rightarrow> node_tables \<Rightarrow> (nat \<times> nat) option \<times> node_tables" where
  "node_load_devs_from_file file tb =
     (case file of
        None \<Rightarrow> (None, tb)
      | Some text \<Rightarrow> let (devs, skipped) = NodeDevSet_parse text in (Some (card (dom devs), skipped), tb\<lparr>DEVS := Some devs\<rparr>))"

definition node_load_watch_from_file :: "ustr option \<Rightarrow> node_tables \<Rightarrow> (nat \<times> nat) option \<times> node_tables" where
  "node_load_watch_from_file file tb =
     (case file of
        None \<Rightarrow> (None, tb)
      | Some text \<Rightarrow> let (w, skipped) = NodeWatch_parse text in (Some (card (dom w), skipped), tb\<lparr>WATCH := Some w\<rparr>))"

definition node_reload_tables :: "ustr option \<Rightarrow> ustr option \<Rightarrow> node_tables \<Rightarrow> node_tables" where
  "node_reload_tables devs watch tb = snd (node_load_watch_from_file watch (snd (node_load_devs_from_file devs tb)))"

record NodeSession =
  seen_devs :: "pubkey set"

definition node_dev_is_fresh :: "node_tables \<Rightarrow> pubkey \<Rightarrow> NodeSession \<Rightarrow> bool \<times> NodeSession" where
  "node_dev_is_fresh tb dev s =
     (let seen_live = dev \<in> seen_devs s; s = s\<lparr>seen_devs := insert dev (seen_devs s)\<rparr>
      in (if seen_live then False else case DEVS tb of Some devs \<Rightarrow> devs dev = None | None \<Rightarrow> False, s))"

section \<open>The launch watch\<close>

datatype NodeBook = Main | Book_FollowSymbiont | Book_FollowWhale

record Fire =
  fire_book :: NodeBook
  fire_max_sol_cost :: u64
  fire_token_amount :: u64
  fire_cu_price :: u64
  fire_cu_limit :: u32
  fire_tip_lamports :: u64

datatype NodePass = Watching | EliteAhead | CurveCapped | Unfillable | Dead

record NodeLaunchWatch =
  vq_lamports :: u64
  lw_n_conf :: u32
  conf_lamports :: u64
  elite_ahead :: bool
  lw_done :: bool

definition NodeLaunchWatch_new :: "u64 \<Rightarrow> NodeLaunchWatch" where
  "NodeLaunchWatch_new dev_buy_net_lamports =
     \<lparr>vq_lamports = NODE_VIRT_SOL_0 + dev_buy_net_lamports, lw_n_conf = 0, conf_lamports = 0, elite_ahead = False, lw_done = False\<rparr>"

definition on_sell :: "u64 \<Rightarrow> NodeLaunchWatch \<Rightarrow> NodeLaunchWatch" where
  "on_sell net_lamports w = w\<lparr>vq_lamports := max (sat_sub (vq_lamports w) net_lamports) NODE_VIRT_SOL_0\<rparr>"

text \<open>\<open>fire\<close> and \<open>on_buy\<close>: the outer option is a panic, \<open>Inl\<close> is \<open>Err\<close>.\<close>

definition fire :: "NodeBook \<Rightarrow> u64 \<Rightarrow> NodeParams \<Rightarrow> NodeLaunchWatch \<Rightarrow> (NodeLaunchWatch \<times> (NodePass + Fire)) option" where
  "fire book size' p w =
     (if vq_lamports w \<ge> vq_cap_lamports p then Some (w\<lparr>lw_done := True\<rparr>, Inl CurveCapped)
      else do {
        t \<leftarrow> tokens_for_budget (vq_lamports w) size';
        Some (w\<lparr>lw_done := True\<rparr>,
          case t of
            None \<Rightarrow> Inl Unfillable
          | Some token_amount \<Rightarrow>
              if token_amount > 0 then Inr \<lparr>fire_book = book, fire_max_sol_cost = size', fire_token_amount = token_amount,
                fire_cu_price = cu_price p, fire_cu_limit = cu_limit p, fire_tip_lamports = tip_lamports p\<rparr>
              else Inl Unfillable)
      })"

definition main_size :: "NodeParams \<Rightarrow> u64 \<Rightarrow> u64 option" where
  "main_size p conf = do {
     let raw = as_u64 (as_u128 conf * as_u128 (ratio_bps p) div 10000);
     size' \<leftarrow> clamp_word raw (size_lo_lamports p) (size_hi_lamports p);
     let size' = size' div 100000000 * 100000000;
     Some (max size' (size_lo_lamports p))
   }"

definition node_count_buy :: "NodeWatchAction option \<Rightarrow> u64 \<Rightarrow> NodeLaunchWatch \<Rightarrow> NodeLaunchWatch" where
  "node_count_buy action net_lamports w =
     (let w = (if action = Some Avoid then w\<lparr>elite_ahead := True\<rparr> else w)
      in w\<lparr>lw_n_conf := lw_n_conf w + 1, conf_lamports := conf_lamports w + net_lamports,
           vq_lamports := vq_lamports w + net_lamports\<rparr>)"

definition node_on_buy ::
  "NodeWatch option \<Rightarrow> pubkey \<Rightarrow> u64 \<Rightarrow> NodeParams \<Rightarrow> NodeLaunchWatch \<Rightarrow> (NodeLaunchWatch \<times> (NodePass + Fire)) option" where
  "node_on_buy watch buyer net_lamports p w =
     (if lw_done w then Some (w, Inl Dead)
      else
        let action = Option.bind watch (\<lambda>m. m buyer);
            w = node_count_buy action net_lamports w
        in if action = Some FollowSymbiont then fire Book_FollowSymbiont (follow_lamports p) p w
           else if action = Some FollowWhale then fire Book_FollowWhale (follow_lamports p) p w
           else if lw_n_conf w \<ge> n_conf p \<and> conf_lamports w \<ge> min_conf_lamports p then
             if elite_ahead w then Some (w\<lparr>lw_done := True\<rparr>, Inl EliteAhead)
             else do { size' \<leftarrow> main_size p (conf_lamports w); fire Main size' p w }
           else Some (w, Inl Watching))"

definition seal :: "NodeLaunchWatch \<Rightarrow> NodeLaunchWatch" where
  "seal w = w\<lparr>lw_done := True\<rparr>"

section \<open>A watched launch\<close>

text \<open>What happens to a watch, and the fires along the way.\<close>

datatype watch_event = Buy "NodeWatch option" pubkey u64 | Sell u64 | Seal

fun watch_step :: "NodeParams \<Rightarrow> watch_event \<Rightarrow> NodeLaunchWatch \<Rightarrow> (NodeLaunchWatch \<times> Fire list) option" where
  "watch_step p (Buy watch buyer net') w = map_option (\<lambda>(w, r). (w, case r of Inr f \<Rightarrow> [f] | Inl _ \<Rightarrow> [])) (node_on_buy watch buyer net' p w)"
| "watch_step p (Sell net') w = Some (on_sell net' w, [])"
| "watch_step p Seal w = Some (seal w, [])"

fun node_watch_run :: "NodeParams \<Rightarrow> watch_event list \<Rightarrow> NodeLaunchWatch \<Rightarrow> (NodeLaunchWatch \<times> Fire list) option" where
  "node_watch_run p [] w = Some (w, [])"
| "node_watch_run p (e # es) w = do {
     (w, fs) \<leftarrow> watch_step p e w;
     (w, gs) \<leftarrow> node_watch_run p es w;
     Some (w, fs @ gs)
   }"

definition fire_ok :: "NodeParams \<Rightarrow> Fire \<Rightarrow> bool" where
  "fire_ok p f \<longleftrightarrow> 0 < fire_token_amount f
     \<and> (if fire_book f = Main then size_lo_lamports p \<le> fire_max_sol_cost f \<and> fire_max_sol_cost f \<le> size_hi_lamports p
        else fire_max_sol_cost f = follow_lamports p)
     \<and> (\<exists>q < vq_cap_lamports p. tokens_for_budget q (fire_max_sol_cost f) = Some (Some (fire_token_amount f)))"

lemma tokens_for_budget_defined: "\<exists>t. tokens_for_budget q b = Some t"
  by (simp add: tokens_for_budget_eq Let_def)

lemma fire_defined: "\<exists>w' r. fire book s p w = Some (w', r) \<and> lw_done w'"
  using tokens_for_budget_defined [of "vq_lamports w" s] by (auto simp: fire_def)

lemma fire_Inr:
  "fire book s p w = Some (w', Inr f) \<Longrightarrow> fire_book f = book \<and> fire_max_sol_cost f = s \<and> 0 < fire_token_amount f
     \<and> vq_lamports w < vq_cap_lamports p \<and> tokens_for_budget (vq_lamports w) s = Some (Some (fire_token_amount f))"
  by (auto simp: fire_def not_le split: if_split_asm option.splits)

lemma main_size_bounds:
  assumes "size_lo_lamports p \<le> size_hi_lamports p"
  shows "\<exists>s. main_size p conf = Some s \<and> size_lo_lamports p \<le> s \<and> s \<le> size_hi_lamports p"
proof -
  obtain c where c: "clamp_word (as_u64 (as_u128 conf * as_u128 (ratio_bps p) div 10000))
      (size_lo_lamports p) (size_hi_lamports p) = Some c"
    using assms by (auto simp: clamp_word_def)
  have "c div 100000000 * 100000000 \<le> c"
    by (simp add: word_le_nat_alt unat_word_ariths unat_div)
  with c clamp_word_bounds [OF c] show ?thesis
    using assms by (auto simp: main_size_def Let_def)
qed

lemma on_buy_step:
  assumes "size_lo_lamports p \<le> size_hi_lamports p"
  shows "\<exists>w' r. node_on_buy watch buyer net' p w = Some (w', r)
    \<and> (lw_done w \<longrightarrow> lw_done w' \<and> (\<exists>e. r = Inl e)) \<and> (\<forall>f. r = Inr f \<longrightarrow> lw_done w' \<and> fire_ok p f)"
proof (cases "lw_done w")
  case True
  then show ?thesis
    by (simp add: node_on_buy_def)
next
  case False
  have fired: "\<exists>w' r. fire book s p v = Some (w', r) \<and> (\<forall>f. r = Inr f \<longrightarrow> lw_done w' \<and> fire_ok p f)"
    if "book = Main \<longrightarrow> size_lo_lamports p \<le> s \<and> s \<le> size_hi_lamports p" "book \<noteq> Main \<longrightarrow> s = follow_lamports p" for book s v
  proof -
    obtain w' r where r: "fire book s p v = Some (w', r)" "lw_done w'"
      using fire_defined by blast
    have "fire_ok p f" if "r = Inr f" for f
      using fire_Inr [of book s p v w' f] r(1) that \<open>book = Main \<longrightarrow> _\<close> \<open>book \<noteq> Main \<longrightarrow> _\<close> unfolding fire_ok_def by auto
    with r show ?thesis
      by blast
  qed
  obtain s where s: "main_size p (conf_lamports (node_count_buy (Option.bind watch (\<lambda>m. m buyer)) net' w)) = Some s" "size_lo_lamports p \<le> s" "s \<le> size_hi_lamports p"
    using main_size_bounds [OF assms] by blast
  define act v where "act = Option.bind watch (\<lambda>m. m buyer)" and "v = node_count_buy act net' w"
  define trigger where "trigger \<longleftrightarrow> lw_n_conf v \<ge> n_conf p \<and> conf_lamports v \<ge> min_conf_lamports p"
  have "main_size p (conf_lamports v) = Some s"
    using s(1) by (simp add: act_def v_def)
  then have eq: "node_on_buy watch buyer net' p w =
      (if act = Some FollowSymbiont then fire Book_FollowSymbiont (follow_lamports p) p v
       else if act = Some FollowWhale then fire Book_FollowWhale (follow_lamports p) p v
       else if trigger then if elite_ahead v then Some (v\<lparr>lw_done := True\<rparr>, Inl EliteAhead) else fire Main s p v
       else Some (v, Inl Watching))"
    using False unfolding node_on_buy_def Let_def act_def [symmetric] v_def [symmetric] trigger_def [symmetric] by simp
  consider (follow) book where "book \<noteq> Main" "node_on_buy watch buyer net' p w = fire book (follow_lamports p) p v"
    | (main) "node_on_buy watch buyer net' p w = fire Main s p v"
    | (pass) w' e where "node_on_buy watch buyer net' p w = Some (w', Inl e)"
    using eq by (metis NodeBook.distinct(1,3))
  then show ?thesis
  proof cases
    case (follow book)
    then show ?thesis
      using False fired [of book "follow_lamports p" v] by simp
  next
    case main
    then show ?thesis
      using False fired [of Main s v] s(2,3) by simp
  next
    case (pass w' e)
    then show ?thesis
      using False by simp
  qed
qed

lemma launch_run_once:
  assumes "size_lo_lamports p \<le> size_hi_lamports p"
  shows "\<exists>w' fs. node_watch_run p es w = Some (w', fs) \<and> length fs \<le> (if lw_done w then 0 else 1) \<and> (\<forall>f \<in> set fs. fire_ok p f)"
proof (induction es arbitrary: w)
  case (Cons e es)
  have "\<exists>w1 fs. watch_step p e w = Some (w1, fs) \<and> length fs \<le> (if lw_done w then 0 else if lw_done w1 then 1 else 0)
      \<and> (lw_done w \<longrightarrow> lw_done w1) \<and> (\<forall>f \<in> set fs. fire_ok p f)"
  proof (cases e)
    case (Buy watch buyer net')
    obtain w' r where r: "node_on_buy watch buyer net' p w = Some (w', r)"
      "lw_done w \<longrightarrow> lw_done w' \<and> (\<exists>e. r = Inl e)" "\<forall>f. r = Inr f \<longrightarrow> lw_done w' \<and> fire_ok p f"
      using on_buy_step [OF assms, of watch buyer net' w] by blast
    then have "watch_step p e w = Some (w', case r of Inr f \<Rightarrow> [f] | Inl _ \<Rightarrow> [])"
      by (simp add: Buy)
    with r(2,3) show ?thesis
      by (cases r) auto
  qed (simp_all add: on_sell_def seal_def)
  then obtain w1 fs where step: "watch_step p e w = Some (w1, fs)"
    "length fs \<le> (if lw_done w then 0 else if lw_done w1 then 1 else 0)" "lw_done w \<longrightarrow> lw_done w1" "\<forall>f \<in> set fs. fire_ok p f"
    by blast
  obtain w' gs where "node_watch_run p es w1 = Some (w', gs)" "length gs \<le> (if lw_done w1 then 0 else 1)" "\<forall>f \<in> set gs. fire_ok p f"
    using Cons.IH by blast
  with step show ?case
    by (auto split: if_splits)
qed simp

section \<open>Properties\<close>

text \<open>
  C34: A watched launch fires at most once. Whatever buys, sells and seals a watch is fed, with the wallet
  table changing in between, it never panics as long as the size bounds are ordered, at most one
  fire comes out of the whole sequence, none after the watch is done, and that fire asks for the
  tokens its size buys at a curve state below the cap, with the main book sized within the bounds
  and a follow book at the fixed size.
\<close>

theorem strategy_fires_once:
  assumes "size_lo_lamports p \<le> size_hi_lamports p"
  shows "\<exists>w' fs. node_watch_run p es w = Some (w', fs) \<and> length fs \<le> (if lw_done w then 0 else 1)
    \<and> (\<forall>f \<in> set fs. 0 < fire_token_amount f
        \<and> (if fire_book f = Main then size_lo_lamports p \<le> fire_max_sol_cost f \<and> fire_max_sol_cost f \<le> size_hi_lamports p
           else fire_max_sol_cost f = follow_lamports p)
        \<and> (\<exists>q < vq_cap_lamports p. tokens_for_budget q (fire_max_sol_cost f) = Some (Some (fire_token_amount f))))"
  using launch_run_once [OF assms, of es w] by (simp add: fire_ok_def)

definition sample_params :: NodeParams where
  "sample_params = \<lparr>n_conf = 3, min_conf_lamports = 4000000000, ratio_bps = 4700, size_lo_lamports = 1500000000,
     size_hi_lamports = 3500000000, follow_lamports = 2000000000, vq_cap_lamports = 115000000000, cu_limit = 90000,
     cu_price = 6000000, tip_lamports = 2000000, exit_legs = default_legs, exit_last_slot = 24, stop_x_bps = 8000,
     moon_x_bps = 20000, moon_frac_bps = 500\<rparr>"

definition sample_buys :: "watch_event list" where
  "sample_buys = map (\<lambda>b. Buy None (replicate 32 b) 2000000000) [1, 2, 3, 4]"

lemma sample_fire: "\<exists>w f. node_watch_run sample_params sample_buys (NodeLaunchWatch_new 2000000000) = Some (w, [f]) \<and> fire_max_sol_cost f = 2800000000"
  by (simp add: sample_buys_def sample_params_def NodeLaunchWatch_new_def NODE_VIRT_SOL_0_def node_on_buy_def node_count_buy_def Let_def main_size_def
      clamp_word_def as_u128_def as_u64_def fire_def tokens_for_budget_eq net_def K_def)

theorem strategy_fires_once_witness:
  "\<exists>w f. node_watch_run sample_params sample_buys (NodeLaunchWatch_new 2000000000) = Some (w, [f])
     \<and> 0 < fire_token_amount f \<and> (fire_book f = Main \<longrightarrow> fire_max_sol_cost f \<le> 3500000000)"
proof -
  have "size_lo_lamports sample_params \<le> size_hi_lamports sample_params"
    by (simp add: sample_params_def)
  then show ?thesis
    using strategy_fires_once [of sample_params sample_buys "NodeLaunchWatch_new 2000000000"] sample_fire
    by (auto simp: sample_params_def split: if_splits)
qed

end
