(* ===== verification/Napi.thy ===== *)
theory Napi
  imports Selection Pumpfun
begin

text \<open>
  \<open>rust-native/src/lib.rs\<close>: the functions the Node side calls. Every export returns a value or an
  error with a reason; a panic is the outer \<open>None\<close>. Signing, base64, bincode, the decimal parser of
  big integers, the textual form of a key and the address derivations are parameters.
\<close>

section \<open>Errors and numbers\<close>

datatype napi_error = SecretTooShort | BadKeyLength | BadBase64 | BadBincode | NoLongInstruction
  | AccountsTooShort | DataTooShort | InitSolNotDecimal | InitTokenNotDecimal | BuyTooLarge
  | TableUnreadable | TableEmpty nat | CreatorNotAKey | DevBuyNotDecimal | QuoteNotDecimal
  | BudgetNotDecimal | CannotFill

type_synonym 'a napi_result = "napi_error + 'a"

text \<open>\<open>to_string\<close> of an unsigned integer.\<close>

fun to_dec :: "nat \<Rightarrow> ustr" where
  "to_dec n = (if n < 10 then [48 + n] else to_dec (n div 10) @ [48 + n mod 10])"

declare to_dec.simps [simp del]

section \<open>Signing and addresses\<close>

definition sign_message :: "(bytes \<Rightarrow> bytes \<Rightarrow> bytes) \<Rightarrow> (bytes \<Rightarrow> ustr) \<Rightarrow> bytes \<Rightarrow> bytes \<Rightarrow> ustr napi_result" where
  "sign_message sign encode message' secret_key =
     (if length secret_key < 32 then Inl SecretTooShort
      else let sig = sign (take 32 secret_key) message' in Inr (encode ([1] @ sig @ message')))"

definition napi_associated_token_address ::
  "(pubkey \<Rightarrow> pubkey \<Rightarrow> pubkey \<Rightarrow> pubkey) \<Rightarrow> bytes \<Rightarrow> bytes \<Rightarrow> bytes \<Rightarrow> bytes napi_result" where
  "napi_associated_token_address ata mint_buf token_program_buf owner_buf =
     (if length mint_buf \<noteq> 32 \<or> length owner_buf \<noteq> 32 \<or> length token_program_buf \<noteq> 32 then Inl BadKeyLength
      else Inr (ata owner_buf mint_buf token_program_buf))"

text \<open>
  \<open>from_str_const\<close> panics on a malformed program id, and the derivation on a seed longer than
  \<open>MAX_SEED_LEN\<close> of the SDK.
\<close>

definition MAX_SEED_LEN :: nat where "MAX_SEED_LEN = 32"


definition find_program_address ::
  "(ustr \<Rightarrow> pubkey option) \<Rightarrow> find_pda \<Rightarrow> bytes \<Rightarrow> bytes \<Rightarrow> ustr \<Rightarrow> bytes napi_result option" where
  "find_program_address from_str_const find_pda seed_buf mint_buf program_id =
     (if length mint_buf \<noteq> 32 then Some (Inl BadKeyLength)
      else do {
       program_key \<leftarrow> from_str_const program_id;
       if \<forall>seed \<in> set [seed_buf, mint_buf]. length seed \<le> MAX_SEED_LEN then Some (Inr (find_pda [seed_buf, mint_buf] program_key))
       else None
     })"

section \<open>Parsing a buy\<close>

record ParsedTx =
  px_signer :: pubkey
  px_mint :: pubkey
  px_curve :: pubkey
  px_owner_vault :: pubkey
  px_other_value :: ustr

definition parse_buy_tx ::
  "(ustr \<Rightarrow> bytes option) \<Rightarrow> (bytes \<Rightarrow> VersionedTransaction option) \<Rightarrow> (ustr \<Rightarrow> nat option) \<Rightarrow> ustr \<Rightarrow> ustr \<Rightarrow> ustr \<Rightarrow>
     ParsedTx napi_result option" where
  "parse_buy_tx decode deserialize parse_big entry_b64 init_sol init_token =
     (case decode entry_b64 of
        None \<Rightarrow> Some (Inl BadBase64)
      | Some raw \<Rightarrow>
     (case deserialize raw of
        None \<Rightarrow> Some (Inl BadBincode)
      | Some tx \<Rightarrow>
        let account_keys = message_keys (message tx);
            long_ix = filter (\<lambda>ix. length (accounts ix) > 5) (message_instructions (message tx))
        in if long_ix = [] then Some (Inl NoLongInstruction)
           else let first = hd long_ix; last' = last long_ix
             in if length (accounts first) < 4 \<or> length (accounts last') < 10 then Some (Inl AccountsTooShort)
                else let mint_idx = unat (accounts first ! 0); curve_idx = unat (accounts first ! 3);
                         owner_vault_idx = unat (accounts last' ! 9)
                  in if length (data last') < 16 then Some (Inl DataTooShort)
                     else let buy_value = unat (u64_from_le (slice (data last') 8 16))
                       in case parse_big init_sol of
                            None \<Rightarrow> Some (Inl InitSolNotDecimal)
                          | Some x0 \<Rightarrow>
                         (case parse_big init_token of
                            None \<Rightarrow> Some (Inl InitTokenNotDecimal)
                          | Some y0 \<Rightarrow>
                            if y0 \<le> buy_value then Some (Inl BuyTooLarge)
                            else let other = x0 * buy_value div (y0 - buy_value)
                              in do {
                                signer \<leftarrow> get_at account_keys 0;
                                mint \<leftarrow> get_at account_keys mint_idx;
                                curve \<leftarrow> get_at account_keys curve_idx;
                                owner_vault \<leftarrow> get_at account_keys owner_vault_idx;
                                Some (Inr \<lparr>px_signer = signer, px_mint = mint, px_curve = curve,
                                  px_owner_vault = owner_vault, px_other_value = to_dec other\<rparr>)
                              })))"

section \<open>Launch selection\<close>

record BuyDecision =
  bd_accepted :: bool
  bd_reason :: string
  bd_token_amount :: ustr
  bd_max_sol_cost :: ustr
  bd_cu_price :: ustr

fun reject_name :: "Reject \<Rightarrow> string" where
  "reject_name NotWhitelisted = ''not_whitelisted''"
| "reject_name DevBuyBelowFloor = ''dev_buy_below_floor''"
| "reject_name TooShallow = ''too_shallow''"
| "reject_name TooDeep = ''too_deep''"
| "reject_name Unfillable = ''unfillable''"
| "reject_name CreatorCold = ''creator_cold''"

text \<open>Loading publishes the table even when the call then reports that it has no usable rows.\<close>

definition load_selection ::
  "(ustr \<Rightarrow> f64 option) \<Rightarrow> (f64 \<Rightarrow> f64 \<Rightarrow> f64) \<Rightarrow> ustr option \<Rightarrow> Registry option \<Rightarrow> u32 napi_result \<times> Registry option" where
  "load_selection parse_f64 fmul file current =
     (case load_from_file parse_f64 fmul file current of
        (None, current) \<Rightarrow> (Inl TableUnreadable, current)
      | (Some (n, skipped), current) \<Rightarrow> (if n = 0 then Inl (TableEmpty skipped) else Inr (of_nat n), current))"

text \<open>The interval of the reloader, in milliseconds.\<close>

definition reload_interval :: "u32 \<Rightarrow> u64" where
  "reload_interval every_ms = ucast (max every_ms 250)"

definition decide_buy ::
  "(f64 \<Rightarrow> f64 \<Rightarrow> f64) \<Rightarrow> (f64 \<Rightarrow> nat \<Rightarrow> f64) \<Rightarrow> Registry option \<Rightarrow> bytes \<Rightarrow> ustr \<Rightarrow> ustr \<Rightarrow> BuyDecision napi_result option" where
  "decide_buy fadd fdiv current creator dev_buy_lamports curve_quote_lamports =
     (if length creator \<noteq> 32 then Some (Inl CreatorNotAKey)
      else case parse_u64 (trim dev_buy_lamports) of
        None \<Rightarrow> Some (Inl DevBuyNotDecimal)
      | Some dev \<Rightarrow>
     (case parse_u64 (trim curve_quote_lamports) of
        None \<Rightarrow> Some (Inl QuoteNotDecimal)
      | Some quote \<Rightarrow> do {
          res \<leftarrow> decide_now fadd fdiv current creator dev quote CreatorState_default;
          Some (Inr (case res of
              Inr p \<Rightarrow> \<lparr>bd_accepted = True, bd_reason = ''ok'', bd_token_amount = to_dec (unat (pn_token_amount p)),
                bd_max_sol_cost = to_dec (unat (pn_max_sol_cost p)), bd_cu_price = to_dec (unat (pn_cu_price p))\<rparr>
            | Inl r \<Rightarrow> \<lparr>bd_accepted = False, bd_reason = reject_name r, bd_token_amount = to_dec 0,
                bd_max_sol_cost = to_dec 0, bd_cu_price = to_dec 0\<rparr>))
        }))"

definition napi_tokens_for_budget :: "ustr \<Rightarrow> ustr \<Rightarrow> ustr napi_result option" where
  "napi_tokens_for_budget curve_quote_lamports budget_lamports =
     (case parse_u64 (trim curve_quote_lamports) of
        None \<Rightarrow> Some (Inl QuoteNotDecimal)
      | Some quote \<Rightarrow>
     (case parse_u64 (trim budget_lamports) of
        None \<Rightarrow> Some (Inl BudgetNotDecimal)
      | Some budget \<Rightarrow> do {
          t \<leftarrow> tokens_for_budget quote budget;
          Some (case t of None \<Rightarrow> Inl CannotFill | Some n \<Rightarrow> Inr (to_dec (unat n)))
        }))"

section \<open>Lemmas on decimals\<close>

lemma digits_of_append:
  "digits_value acc (xs @ ys) = Option.bind (digits_value acc xs) (\<lambda>a. digits_value a ys)"
  by (induction acc xs rule: digits_value.induct) auto

lemma to_dec_value: "digits_value 0 (to_dec n) = Some n \<and> to_dec n \<noteq> [] \<and> (\<forall>c \<in> set (to_dec n). 48 \<le> c \<and> c \<le> 57)"
proof (induction n rule: to_dec.induct)
  case (1 n)
  show ?case
  proof (cases "n < 10")
    case False
    with 1 have IH: "digits_value 0 (to_dec (n div 10)) = Some (n div 10)" "\<forall>c \<in> set (to_dec (n div 10)). 48 \<le> c \<and> c \<le> 57"
      by simp_all
    have eq: "to_dec n = to_dec (n div 10) @ [48 + n mod 10]"
      using False by (subst to_dec.simps) simp
    have "digits_value (n div 10) [48 + n mod 10] = Some n"
      using mod_less_divisor [of 10 n] by simp
    with IH eq show ?thesis
      using mod_less_divisor [of 10 n] by (auto simp: digits_of_append)
  qed (subst to_dec.simps, simp, subst to_dec.simps, simp, subst to_dec.simps, simp)
qed

lemma parse_to_dec: "parse_u64 (to_dec (unat w)) = Some w"
proof -
  have d: "digits_value 0 (to_dec (unat w)) = Some (unat w)" "to_dec (unat w) \<noteq> []" "\<forall>c \<in> set (to_dec (unat w)). 48 \<le> c \<and> c \<le> 57"
    using to_dec_value by simp_all
  obtain c cs where "to_dec (unat w) = c # cs" "c \<noteq> 43"
    using d(2,3) by (cases "to_dec (unat w)") auto
  with d(1) unat_lt_length [of w] show ?thesis
    by (simp add: parse_u64_def Let_def)
qed

lemma trim_digits: "\<forall>c \<in> set s. 48 \<le> c \<and> c \<le> 57 \<Longrightarrow> trim s = s"
proof -
  assume "\<forall>c \<in> set s. 48 \<le> c \<and> c \<le> 57"
  then have "\<forall>c \<in> set s. \<not> is_ws c" "\<forall>c \<in> set (rev s). \<not> is_ws c"
    by (auto simp: is_ws_def)
  moreover have "dropWhile is_ws xs = xs" if "\<forall>c \<in> set xs. \<not> is_ws c" for xs
    using that by (cases xs) simp_all
  ultimately have "dropWhile is_ws s = s" "dropWhile is_ws (rev s) = rev s"
    by blast+
  then show ?thesis
    by (simp add: trim_def)
qed

section \<open>Properties\<close>

text \<open>
  C39: No digit is lost on the way to JavaScript. For a 32-byte creator and decimal amounts, whatever
  the published table, the call returns exactly the decision of the registry: accepted with the
  numbers of the plan in decimals that parse back to the same 64-bit values, or refused with a
  reason that names the rule and zeros.
\<close>

theorem decide_buy_faithful:
  assumes "length creator = 32"
  shows "\<exists>res d. decide_now fadd fdiv current creator dev quote CreatorState_default = Some res
    \<and> decide_buy fadd fdiv current creator (to_dec (unat dev)) (to_dec (unat quote)) = Some (Inr d)
    \<and> (case res of
         Inr p \<Rightarrow> bd_accepted d \<and> parse_u64 (bd_token_amount d) = Some (pn_token_amount p)
           \<and> parse_u64 (bd_max_sol_cost d) = Some (pn_max_sol_cost p) \<and> parse_u64 (bd_cu_price d) = Some (pn_cu_price p)
       | Inl r \<Rightarrow> \<not> bd_accepted d \<and> bd_reason d = reject_name r \<and> parse_u64 (bd_token_amount d) = Some 0)"
proof -
  obtain res where res: "decide_now fadd fdiv current creator dev quote CreatorState_default = Some res"
    using decide_defined [of fadd fdiv _ creator dev quote CreatorState_default]
    by (cases current) (auto simp: decide_now_def)
  have "trim (to_dec n) = to_dec n" for n
    using to_dec_value by (intro trim_digits) blast
  then have "decide_buy fadd fdiv current creator (to_dec (unat dev)) (to_dec (unat quote)) =
      Some (Inr (case res of
              Inr p \<Rightarrow> \<lparr>bd_accepted = True, bd_reason = ''ok'', bd_token_amount = to_dec (unat (pn_token_amount p)),
                bd_max_sol_cost = to_dec (unat (pn_max_sol_cost p)), bd_cu_price = to_dec (unat (pn_cu_price p))\<rparr>
            | Inl r \<Rightarrow> \<lparr>bd_accepted = False, bd_reason = reject_name r, bd_token_amount = to_dec 0,
                bd_max_sol_cost = to_dec 0, bd_cu_price = to_dec 0\<rparr>))"
    using assms res by (simp add: decide_buy_def parse_to_dec)
  then show ?thesis
    using res parse_to_dec [of 0] by (cases res) (simp_all add: parse_to_dec)
qed

theorem decide_buy_faithful_witness:
  "\<exists>d. decide_buy (\<lambda>_ _. NaN) (\<lambda>_ _. NaN) (Some sample_registry) sample_creator (to_dec 5000000000) (to_dec 38000000000) = Some (Inr d)
     \<and> bd_accepted d \<and> parse_u64 (bd_max_sol_cost d) = Some 500000000"
proof -
  have "decide_now (\<lambda>_ _. NaN) (\<lambda>_ _. NaN) (Some sample_registry) sample_creator 5000000000 38000000000 CreatorState_default
      = Some (Inr \<lparr>pn_token_amount = 10867290087513, pn_max_sol_cost = 500000000, pn_cu_price = 10000000\<rparr>)"
    by (simp add: decide_now_def decide_def sample_registry_def enabled_def CreatorState_default_def WARMUP_def
        tokens_for_budget_eq Let_def net_def K_def NODE_VIRT_SOL_0_def sat_sub_def)
  moreover have "length sample_creator = 32"
    by (simp add: sample_creator_def)
  ultimately show ?thesis
    using decide_buy_faithful [of sample_creator "\<lambda>_ _. NaN" "\<lambda>_ _. NaN" "Some sample_registry" 5000000000 38000000000]
    by auto
qed

text \<open>
  Where \<open>parse_buy_tx\<close> panics. On input that decodes, the call panics instead of returning an
  error exactly when every check before the result passed and one of the account indices it uses
  lies beyond the account keys of the message: the lengths of the index lists are checked, the
  indices are not.
\<close>

theorem parse_buy_tx_panics_iff:
  assumes "decode entry = Some raw" "deserialize raw = Some tx"
    and "parse_big init_sol = Some x0" "parse_big init_token = Some y0"
  defines "keys \<equiv> message_keys (message tx)"
    and "ixs \<equiv> filter (\<lambda>ix. length (accounts ix) > 5) (message_instructions (message tx))"
  shows "parse_buy_tx decode deserialize parse_big entry init_sol init_token = None \<longleftrightarrow>
    ixs \<noteq> [] \<and> 10 \<le> length (accounts (last ixs)) \<and> 16 \<le> length (data (last ixs))
    \<and> unat (u64_from_le (slice (data (last ixs)) 8 16)) < y0
    \<and> (\<exists>i \<in> {0, unat (accounts (hd ixs) ! 0), unat (accounts (hd ixs) ! 3), unat (accounts (last ixs) ! 9)}. length keys \<le> i)"
proof -
  have "5 < length (accounts (hd ixs))" if "ixs \<noteq> []"
    using that hd_in_set [OF that] by (auto simp: ixs_def)
  then show ?thesis
    using assms by (auto simp: parse_buy_tx_def Let_def get_at_def bind_None_iff not_less not_le split: if_splits)
qed

definition sample_parse_tx :: VersionedTransaction where
  "sample_parse_tx = \<lparr>signatures = [], message = Legacy [replicate 32 1]
     [\<lparr>program_id_index = 0, accounts = [0, 0, 0, 0, 0, 0, 0, 0, 0, 9], data = replicate 16 0\<rparr>]\<rparr>"

theorem parse_buy_tx_panics_iff_witness:
  "parse_buy_tx (\<lambda>_. Some []) (\<lambda>_. Some sample_parse_tx) (\<lambda>_. Some 1000) [] [] [] = None"
proof -
  have "u64_from_le (slice (replicate 16 0) 8 16) = 0"
    by code_simp
  then show ?thesis
    using parse_buy_tx_panics_iff [of "\<lambda>_. Some []" "[]" "[]" "\<lambda>_. Some sample_parse_tx" sample_parse_tx "\<lambda>_. Some 1000" "[]" 1000 "[]" 1000]
    by (simp add: sample_parse_tx_def)
qed

end
