(* ===== verification/Spec2Isabelle.thy ===== *)
theory Spec2Isabelle
  imports Proxy Service Start Catalogue Wire Pumpfun Curve Tip Confirm Chain Template Position Config Sender Hot Launch Selection Strategy Napi
begin

text \<open>
  A sniper for token launches on Solana, and the shred proxy it runs in. The proxy receives the
  pieces (shreds) in which a leader sends out a block, forwards them, puts segments of the block
  together as soon as it can, and looks for the launch of a token in them. The sniper prices a buy
  right behind the launch, patches it into a transaction that was built at start, and hands it to one
  sender thread per provider. A Node process holds the sell side; it calls a small native library.
  The three crates are under \<open>src/shred-sniper/proxy\<close>, \<open>src/shred-sniper/sniper\<close> and \<open>src/rust-native\<close>.

  \<^bold>\<open>How a launch runs through the program, and which theory models it.\<close>

  \<^item> \<open>Service\<close>: \<open>main.rs\<close> checks its arguments and starts the threads (\<open>proxy_main\<close>); \<open>heartbeat.rs\<close>
    keeps the subscription alive (\<open>heartbeat_step\<close>), \<open>token_authenticator.rs\<close> the token it needs
    (\<open>token_step\<close>), \<open>multicast_config.rs\<close> finds the sockets, \<open>server.rs\<close> streams to the subscribers.
  \<^item> \<open>Start\<close>: \<open>Sniper::start\<close> of \<open>lib.rs\<close> (\<open>Sniper_start\<close>), from the configuration to the shared state.
  \<^item> \<open>Forwarder\<close>: \<open>forwarder.rs\<close>. A relay thread (\<open>recv_from_channel_and_send_multiple_dest\<close>) counts and
    forwards a batch and passes it on to the reconstructor thread (\<open>process_batch\<close>,
    \<open>reconstructor_loop\<close>), which feeds every decoded transaction to the sniper (\<open>scan_transaction\<close>)
    and the entries, launches and fills to the subscribers (\<open>hand_out\<close>, \<open>report_create\<close>, \<open>report_fired\<close>).
  \<^item> \<open>Shreds\<close>, \<open>Early\<close>, \<open>Deshred\<close>: \<open>deshred.rs\<close>. The status vectors of a slot and the bounds of a segment
    (\<open>ShredsStateTracker\<close>, \<open>get_indexes\<close>); the search for launches in segments that are still arriving
    (\<open>EarlySegment\<close>, \<open>scan_segment\<close>); one batch from ingestion to eviction (\<open>reconstruct_shreds\<close>).
  \<^item> \<open>Wire\<close>: \<open>wire.rs\<close>, a walk over serialized entries that decodes only the wanted transactions.
  \<^item> \<open>Pumpfun\<close>, \<open>Curve\<close>: \<open>pumpfun.rs\<close> and \<open>sell_proceeds\<close> of \<open>position.rs\<close>. Launches and buys in a decoded
    transaction; the bonding curve and the two planners of a buy.
  \<^item> \<open>Confirm\<close>: \<open>confirm.rs\<close> and \<open>whitelist.rs\<close>, the buys that have to confirm a launch before it is fired on.
  \<^item> \<open>Chain\<close>, \<open>Tip\<close>: \<open>chain.rs\<close> and \<open>tip.rs\<close>, what the launch needs from the chain: the global account, the
    pool of durable nonces, the blockhash, the tip floor.
  \<^item> \<open>Hot\<close>: \<open>lib.rs\<close>, the detect thread. \<open>HotSniper\<close> is its whole state with the shared one in it;
    \<open>on_create\<close> and \<open>hot_on_buy\<close> are its two handlers, \<open>fire_launch\<close> the launch itself.
  \<^item> \<open>Template\<close>, \<open>Sender\<close>: \<open>template.rs\<close>, the prebuilt transaction and the offsets that are patched;
    \<open>sender.rs\<close> and \<open>batch_write.rs\<close>, the threads that stamp, sign and write it.
  \<^item> \<open>Position\<close>: \<open>position.rs\<close>, the gate that keeps one position open, and the tracker that frees it.
  \<^item> \<open>Config\<close>, \<open>Catalogue\<close>: \<open>config.rs\<close>, \<open>providers.rs\<close> and \<open>bin/gen_config.rs\<close>, the configuration, the
    catalogue of providers and the generator that joins them with a \<open>.env\<close> file.
  \<^item> \<open>Selection\<close>, \<open>Strategy\<close>, \<open>Napi\<close>: the native library of the Node process: \<open>selection.rs\<close>, \<open>strategy.rs\<close> and the
    exports of \<open>lib.rs\<close>.
  \<^item> \<open>Prelude\<close>, \<open>Bytes\<close>, \<open>RustText\<close>: words and Rust's arithmetic on them, byte buffers, text and numbers.

  \<^bold>\<open>How the model reads.\<close> A struct is a record, an enum a datatype, an integer a word of its width, a
  \<open>HashMap\<close> a map, except where its order or its duplicates matter, and then an association list. An
  operation takes the state and returns it. \<open>None\<close> is a panic; an \<open>Err\<close> is \<open>Inl\<close>. Bodies shared through \<open>Arc\<close>
  live in an explicit store with reference counts. What an operation reads from outside is an
  argument: answers of the network, the clock, the environment, files. What other threads do in
  between is an argument too: \<open>he_others\<close> on the gate within a launch, \<open>te_shared\<close> on the shared state between two
  transactions; senders, trackers and detect threads are interleaved in the step relations \<open>sys_step\<close> (\<open>Launch\<close>)
  and \<open>gate_step\<close> (\<open>Position\<close>). Code of libraries is a parameter with its documented behaviour as a
  named hypothesis: parsing and recovery of shreds, \<open>bincode\<close>, message compilation (\<open>compiles_v0\<close>), address
  derivation (\<open>pda_ok\<close>), signatures, hashing of packets, JSON, conversion of timestamps, floating-point
  product and parsing. Each such property has a witness on concrete functions.

  \<^bold>\<open>What is shown.\<close>

  \<^item> The hot path (\<open>Hot\<close>, \<open>Launch\<close>): \<open>hot_ok\<close> is its invariant; under it no operation panics, a launch
    fires exactly under its gates, the bytes handed to the senders read back as what was decided, a body is
    not overwritten while somebody may read it, no mint is bought twice, and ghost mode sends nothing.
    \<open>Start\<close> shows that an accepted start hands over such a state, and what start does not check.
  \<^item> The proxy (\<open>Reconstruct\<close>, \<open>Segments\<close>, \<open>Partial\<close>, \<open>Proxy\<close>): the invariant of the reconstruction and its
    preservation by each step of a batch; then totality, no segment twice, the early search equal to a
    search of the whole segment, early launches final; and the thread end to end with the sniper in it.
  \<^item> Parsers and codecs (\<open>Wire\<close>, \<open>Pumpfun\<close>, \<open>Selection\<close>, \<open>Config\<close>, \<open>Napi\<close>): equivalence with an encoding, round trips,
    the exact conditions of errors and panics.
  \<^item> Arithmetic (\<open>Curve\<close>, \<open>Tip\<close>, \<open>Selection\<close>, \<open>Strategy\<close>): the words agree with the natural numbers in the stated
    ranges, the constant product is kept, plans are affordable, tips stay in their bounds.
  \<^item> State machines (\<open>Confirm\<close>, \<open>Strategy\<close>, \<open>Position\<close>, \<open>Service\<close>, \<open>Chain\<close>, \<open>Sender\<close>): at most one fire per watch, at most
    one position, termination of a position, the heartbeat, the bearer token, nonces paired with accounts.
  \<^item> Configuration (\<open>Catalogue\<close>): what the generator writes is read back, usable and stable under its own \<open>.env\<close>.

  \<^bold>\<open>Interfaces.\<close> The contracts between components are locales, each interpreted on the definitions of the model
  in the theory that provides them: \<open>recogniser\<close> and \<open>reader\<close> (\<open>Bytes\<close>) for the walkers of \<open>Wire\<close>, \<open>bonding_curve\<close>
  (\<open>Curve\<close>), \<open>nonce_provider\<close> (\<open>Chain\<close>), \<open>exclusive_gate\<close> (\<open>Position\<close>), \<open>lookup_table\<close> (\<open>RustText\<close>), \<open>outbound\<close> (\<open>Launch\<close>), an
  invariant of what the senders see, used once for ghost mode and once for bodies in flight, and
  \<open>scan_invariant\<close> with \<open>loop_invariant\<close> (\<open>Proxy\<close>), an invariant of the reconstructor thread, used once for buying
  once and once for silence without a seller.

  \<^bold>\<open>Fuel and bounds.\<close> Loops are structural or have a measure. Only \<open>grow_loop\<close> (\<open>Early\<close>) carries fuel, the width of the
  slot above the segment; \<open>grow_enough\<close> shows that more changes nothing. The loop of a live position, which
  waits for the chain, consumes one observation a round and is shown to end. Bounds in hypotheses are those of
  the code: 50,000 remembered mints, 65,536 seeds, 64 bits before a truncating cast.

  \<^bold>\<open>What is not modelled.\<close> Sockets, threads and channels as such, log lines and metrics points for tracing,
  timing (\<open>Instant\<close>, spinning, sleeping) beyond the readings the code branches on, the text of JSON, the
  generated gRPC types, \<open>bench.rs\<close>, examples and tests, and the TypeScript and Python around the Rust crates.

  This theory joins the parts: the proxy as it is started, with the sniper in its reconstructor thread.
\<close>

section \<open>The proxy as it is started\<close>

text \<open>
  Only the server of \<open>proxy/src/server.rs\<close> hands out subscriptions, and \<open>main\<close> starts it only with a
  port to listen on.
\<close>

definition fill_subscribers :: "started \<Rightarrow> nat \<Rightarrow> nat" where
  "fill_subscribers p subscribed = (case sp_grpc_port p of None \<Rightarrow> 0 | Some _ \<Rightarrow> subscribed)"

text \<open>
  C10: A sniper without a server is armed and never buys. A start with a sniper and no port is accepted
  and reconstructs shreds, but nothing can subscribe to the fills, so with the seller required every
  launch is suppressed, over any run of the reconstructor thread.
\<close>

theorem sniper_needs_server:
  assumes "proxy_main bt cmd = Some (Inr p)" "sp_sniper p = Some h" "sp_grpc_port p = None"
    and "\<not> sh_ghost_mode (hs_shared h)" "sh_require_seller (hs_shared h)"
    and "\<forall>n sh. muted sh \<longrightarrow> muted (te_shared (E n) sh)"
    and "reconstructor_loop L E (map (\<lambda>(subscribed, packets). Batch (fill_subscribers p subscribed) packets) arrivals)
      (rc_init (sp_sniper p)) = Some r"
  shows "sp_should_reconstruct_shreds p \<and> rc_fired r = [] \<and> rc_fills r = []"
proof -
  have rec: "sp_should_reconstruct_shreds p"
    using started_reconstructs [OF accepted_start [OF assms(1)] assms(2)] .
  have m: "map (\<lambda>(subscribed, packets). Batch (fill_subscribers p subscribed) packets) arrivals = map (Batch 0) (map snd arrivals)"
    using assms(3) by (auto simp: fill_subscribers_def)
  have "reconstructor_loop L E (map (Batch 0) (map snd arrivals)) (rc_init (Some h)) = Some r"
    using assms(7) unfolding m assms(2) .
  moreover have "interlocked (rc_init (Some h))"
    using assms(4,5) by (simp add: interlocked_def rc_init_def)
  ultimately have "rc_fired r = rc_fired (rc_init (Some h)) \<and> rc_fills r = rc_fills (rc_init (Some h))"
    using assms(6) by (intro silent_run)
  with rec show ?thesis
    by (simp add: rc_init_def)
qed

definition toy_boot :: boot where
  "toy_boot = \<lparr>bt_now = Some 0, bt_hostname = Hostname ''host'', bt_signals = True, bt_runtime = True, bt_key_readable = \<lambda>_. True,
     bt_public_ip = None, bt_start_sniper = \<lambda>_. Some (Inr (ex_hot False))\<rparr>"

definition toy_args :: CommonArgs where
  "toy_args = \<lparr>src_bind_addr = [0, 0, 0, 0], src_bind_port = 20000, multicast_bind_ip = None, multicast_device = ''doublezero1'',
     multicast_subscribe_port = 20001, dest_ip_ports = [(([127, 0, 0, 1], 8001), ''127.0.0.1:8001'')], endpoint_discovery_url = None,
     discovered_endpoints_port = None, metrics_report_interval_ms = 15000, debug_trace_shred = False, grpc_service_port = None, sniper_config = Some ''sniper.json'', reconstruct_shreds_arg = False,
     public_ip = None, num_threads = None\<rparr>"

theorem sniper_needs_server_witness:
  "\<exists>p r. proxy_main toy_boot (ForwardOnly toy_args) = Some (Inr p)
     \<and> reconstructor_loop toy_chain toy_world [Batch (fill_subscribers p 3) [toy_packet]] (rc_init (sp_sniper p)) = Some r
     \<and> rc_fired r = []"
proof -
  obtain p where p: "proxy_main toy_boot (ForwardOnly toy_args) = Some (Inr p)"
    "sp_sniper p = Some (ex_hot False)" "sp_grpc_port p = None"
    by (simp add: proxy_main_def start_parts_def common_of_def toy_args_def toy_boot_def)
  obtain r where r: "reconstructor_loop toy_chain toy_world
      (map (\<lambda>(subscribed, packets). Batch (fill_subscribers p subscribed) packets) [(3, [toy_packet])]) (rc_init (sp_sniper p)) = Some r"
    using loop_total [OF toy_chain_run(1,2) toy_world_ok ex_event_ok(2) toy_thread_ok] unfolding p(2) by blast
  have h: "\<not> sh_ghost_mode (hs_shared (ex_hot False))" "sh_require_seller (hs_shared (ex_hot False))"
    by (simp_all add: ex_hot_fields ex_shared_def)
  have "\<forall>n sh. muted sh \<longrightarrow> muted (te_shared (toy_world n) sh)"
    by (simp add: toy_world_def)
  from sniper_needs_server [OF p h this r] have "rc_fired r = []"
    by (elim conjE)
  with p(1) r show ?thesis
    by (auto simp del: reconstructor_loop.simps)
qed

end
